(* ===== verification/Prelude.thy ===== *)
theory Prelude
  imports Main "HOL-Library.Word"
begin

text \<open>
  The shared vocabulary of the development: the C integer types as words, big-endian
  byte access, the collections that the component proofs use, and the generic lemmas on
  words that more than one component needs.
\<close>

unbundle bit_operations_syntax

type_synonym u8 = "8 word"
type_synonym u16 = "16 word"
type_synonym u32 = "32 word"
type_synonym u64 = "64 word"

named_theorems m68k_defs \<open>definitions unfolded when a 68k handler is evaluated\<close>
named_theorems keep_intro \<open>introduction rules for the frame predicates of the interpreter\<close>

section \<open>Big-endian bytes\<close>

definition be16 :: "u8 \<Rightarrow> u8 \<Rightarrow> u16" where
  "be16 p0 p1 = push_bit 8 (ucast p0) OR ucast p1"

definition be32 :: "u8 \<Rightarrow> u8 \<Rightarrow> u8 \<Rightarrow> u8 \<Rightarrow> u32" where
  "be32 p0 p1 p2 p3 =
     push_bit 24 (ucast p0) OR push_bit 16 (ucast p1) OR push_bit 8 (ucast p2) OR ucast p3"

definition byte_of :: "nat \<Rightarrow> 'a::len word \<Rightarrow> u8" where
  "byte_of k v = ucast (drop_bit (8 * k) v)"

lemma be32_bytes [simp]:
  "be32 (byte_of 3 v) (byte_of 2 v) (byte_of 1 v) (byte_of 0 v) = v"
  by (rule bit_word_eqI)
    (auto simp: be32_def byte_of_def bit_simps Suc_le_eq elim: less_SucE intro: ccontr)

lemma be16_bytes [simp]: "be16 (byte_of 1 v) (byte_of 0 v) = v"
  by (rule bit_word_eqI)
    (auto simp: be16_def byte_of_def bit_simps Suc_le_eq elim: less_SucE intro: ccontr)

lemma byte_of_be32 [simp]:
  "byte_of 3 (be32 p0 p1 p2 p3) = p0"
  "byte_of 2 (be32 p0 p1 p2 p3) = p1"
  "byte_of (Suc 0) (be32 p0 p1 p2 p3) = p2"
  "byte_of 0 (be32 p0 p1 p2 p3) = p3"
  by (rule bit_word_eqI; auto simp: be32_def byte_of_def bit_simps dest: bit_imp_le_length)+

lemma byte_of_be16 [simp]:
  "byte_of (Suc 0) (be16 p0 p1) = p0"
  "byte_of 0 (be16 p0 p1) = p1"
  by (rule bit_word_eqI; auto simp: be16_def byte_of_def bit_simps dest: bit_imp_le_length)+

section \<open>Flag bits\<close>

text \<open>The C idiom \<open>if (b) cc |= m\<close>, as a value to be joined with \<open>OR\<close>.\<close>

definition flg :: "bool \<Rightarrow> u32 \<Rightarrow> u32" where
  "flg b m = (if b then m else 0)"

lemma flg_simps [simp]: "flg True m = m" "flg False m = 0"
  by (simp_all add: flg_def)

lemma and_flg: "flg b m AND k = flg b (m AND k)"
  by (simp add: flg_def)

lemma flg_eq_0 [simp]: "flg b m = 0 \<longleftrightarrow> \<not> b \<or> m = 0"
  by (simp add: flg_def)

lemma flg_0 [simp]: "flg b 0 = 0"
  by (simp add: flg_def)

lemma word_or_eq_0 [simp]: "(x :: 'a::len word) OR y = 0 \<longleftrightarrow> x = 0 \<and> y = 0"
  by (auto simp: bit_eq_iff bit_simps)

lemma and_or_dist: "((x :: 'a::len word) OR y) AND z = (x AND z) OR (y AND z)"
  by (rule bit_word_eqI) (auto simp: bit_simps)

text \<open>Reading one flag of a joined value: distribute, then evaluate the masks.\<close>

lemmas flag_simps = and_or_dist and_flg and.assoc

section \<open>Unsigned and signed readings\<close>

lemma unat_sub_if_le: "b \<le> a \<Longrightarrow> unat (a - b) = unat a - unat (b :: 'a::len word)"
  by (simp add: unat_sub)

lemma unat_and_not_mask: "unat (w AND NOT (mask k) :: 'a::len word) = unat w div 2 ^ k * 2 ^ k"
proof -
  have "w AND NOT (mask k) = push_bit k (drop_bit k w)"
    by (rule bit_word_eqI) (auto simp: bit_simps)
  moreover have "unat (push_bit k (drop_bit k w)) = unat w div 2 ^ k * 2 ^ k"
  proof -
    have "unat (push_bit k (drop_bit k w)) = take_bit LENGTH('a) (push_bit k (drop_bit k (unat w)))"
      by (simp add: unsigned_push_bit_eq unsigned_drop_bit_eq take_bit_nat_eq_self [OF unsigned_less])
    also have "push_bit k (drop_bit k (unat w)) = unat w div 2 ^ k * 2 ^ k"
      by (simp add: push_bit_eq_mult drop_bit_eq_div)
    also have "take_bit LENGTH('a) (unat w div 2 ^ k * 2 ^ k) = unat w div 2 ^ k * 2 ^ k"
      by (metis take_bit_nat_eq_self_iff unsigned_less div_times_less_eq_dividend le_less_trans)
    finally show ?thesis .
  qed
  ultimately show ?thesis by simp
qed

lemma unat_and_not_15: "unat (x AND NOT 15 :: 'a::len word) = unat x div 16 * 16" if "4 < LENGTH('a)"
  using unat_and_not_mask [of x 4] by (simp add: mask_eq_exp_minus_1)

lemma unat_and_15: "unat (x AND 15 :: 'a::len word) = unat x mod 16" if "4 < LENGTH('a)"
  using take_bit_eq_mask [of 4 x] unsigned_take_bit_eq [of 4 x, where ?'a = nat] that
  by (simp add: mask_eq_exp_minus_1 take_bit_eq_mod)

lemma unat_ucast_8_64: "unat (ucast (x :: u8) :: u64) = unat x"
  and unat_ucast_32_64: "unat (ucast (y :: u32) :: u64) = unat y"
  using unsigned_less [of x, where ?'a = nat] unsigned_less [of y, where ?'a = nat]
  by (simp_all add: unsigned_ucast_eq take_bit_nat_eq_self_iff)

lemma or_disjoint: "(\<And>n. bit a n \<Longrightarrow> \<not> bit b n) \<Longrightarrow> unat (a OR b :: 'a::len word) = unat a + unat b"
  if "unat a + unat b < 2 ^ LENGTH('a)"
proof -
  assume d: "\<And>n. bit a n \<Longrightarrow> \<not> bit b n"
  have "a OR b = a + b" by (rule disjunctive_add [symmetric]) (use d in auto)
  then show ?thesis using that by (simp add: unat_word_ariths)
qed

lemma unat_and_mask: "unat (x AND mask k :: 'a::len word) = unat x mod 2 ^ k"
  by (simp only: take_bit_eq_mask [symmetric] unsigned_take_bit_eq take_bit_eq_mod [of k "unat x"])

lemma bits_small: "unat (c :: 'a::len word) < 2 ^ k \<Longrightarrow> bit c n \<Longrightarrow> n < k"
  by (metis bit_take_bit_iff take_bit_nat_eq_self unsigned_take_bit_eq word_unat_eq_iff)

lemma unat_ucast_u8: "8 < LENGTH('a::len) \<Longrightarrow> unat (ucast (x :: u8) :: 'a word) = unat x"
proof -
  assume "8 < LENGTH('a)"
  then have "(2 :: nat) ^ 8 < 2 ^ LENGTH('a)" by (intro power_strict_increasing) simp_all
  then show ?thesis using unsigned_less [of x, where ?'a = nat]
    by (simp add: unsigned_ucast_eq take_bit_nat_eq_self_iff)
qed

lemma join_bits: "push_bit k (drop_bit k c) OR (c AND mask k) = (c :: 'a::len word)"
  by (rule bit_word_eqI) (auto simp: bit_simps)

text \<open>A tag \<open>B\<close> above \<open>k\<close> payload bits makes one byte, from which the payload can be taken.\<close>

lemma tag_byte:
  fixes d :: "'a::len word"
  assumes "unat d < 2 ^ k" "2 ^ k dvd B" "B + 2 ^ k \<le> 256" "8 < LENGTH('a)"
  shows "unat (ucast (word_of_nat B OR d) :: u8) = B + unat d"
    and "ucast (ucast (word_of_nat B OR d) :: u8) AND mask k = d"
proof -
  obtain q where q: "B = 2 ^ k * q" using assms(2) by auto
  have "(2 :: nat) ^ 8 < 2 ^ LENGTH('a)" using assms(4) by (intro power_strict_increasing) simp_all
  then have big: "256 < (2 :: nat) ^ LENGTH('a)" by simp
  have B: "unat (word_of_nat B :: 'a word) = B" using assms(3) big by (simp add: unat_of_nat)
  have "word_of_nat B = (push_bit k (word_of_nat q) :: 'a word)"
    using q by (simp add: push_bit_eq_mult)
  then have nb: "\<not> bit (word_of_nat B :: 'a word) n" if "n < k" for n
    using that by (simp add: bit_push_bit_iff)
  have o: "unat (word_of_nat B OR d) = B + unat d"
    using or_disjoint [of "word_of_nat B" d] nb bits_small [OF assms(1)] B assms(1,3) big by force
  then show u: "unat (ucast (word_of_nat B OR d) :: u8) = B + unat d"
    using assms(1,3) by (simp add: unsigned_ucast_eq take_bit_nat_eq_self_iff)
  have "unat (ucast (ucast (word_of_nat B OR d) :: u8) AND mask k :: 'a word) = (B + unat d) mod 2 ^ k"
    by (simp only: unat_and_mask unat_ucast_u8 [OF assms(4)] u)
  also have "\<dots> = unat d" using q assms(1) by simp
  finally show "ucast (ucast (word_of_nat B OR d) :: u8) AND mask k = d"
    by (simp add: word_unat_eq_iff)
qed

text \<open>The top bits of a byte, as numbers.\<close>

lemma high_bits:
  "unat (x AND 0xC0 :: u8) = unat x div 64 * 64" "unat (x AND 0xE0 :: u8) = unat x div 32 * 32"
  "unat (x AND 0xF0 :: u8) = unat x div 16 * 16" "unat (x AND 0xF8 :: u8) = unat x div 8 * 8"
proof -
  have m: "(0xC0 :: u8) = NOT (mask 6)" "(0xE0 :: u8) = NOT (mask 5)"
    "(0xF0 :: u8) = NOT (mask 4)" "(0xF8 :: u8) = NOT (mask 3)"
    by (simp_all add: mask_eq_exp_minus_1 word_unat_eq_iff)
  show "unat (x AND 0xC0 :: u8) = unat x div 64 * 64" "unat (x AND 0xE0 :: u8) = unat x div 32 * 32"
    "unat (x AND 0xF0 :: u8) = unat x div 16 * 16" "unat (x AND 0xF8 :: u8) = unat x div 8 * 8"
    unfolding m by (simp_all add: unat_and_not_mask)
qed

text \<open>Counting up to a larger word.\<close>

lemma unat_Suc_less: "x < y \<Longrightarrow> unat (x + 1) = unat x + 1" for x y :: "'a::len word"
proof -
  assume "x < y"
  then have "unat x + 1 \<le> unat y" by (simp add: word_less_nat_alt)
  then have "unat x + 1 < 2 ^ LENGTH('a)" using unsigned_less [of y, where ?'a = nat] by (rule le_less_trans)
  then show ?thesis by (simp add: unat_word_ariths)
qed

end
