(* ===== verification/Sandbox.thy ===== *)
theory Sandbox
  imports Prelude
begin

text \<open>
  The 32-bit sandbox a 68k program lives in (\<open>j5d_sandbox\<close>, \<open>j4_sandbox\<close>) and the
  bounds-checked big-endian accessors of the reference interpreter
  (\<open>mem_rd8\<close> .. \<open>mem_wr32\<close> in \<open>hosted/jit68k/j5d_interp.c\<close>).

  The host array \<open>host_mem\<close> is a function on host offsets; offset \<open>i\<close> belongs to the
  array exactly when \<open>i < sb_size\<close>. An accessor whose address check fails sets
  \<open>*oob\<close> in the source; here it returns \<open>None\<close>.
\<close>

record sandbox =
  host_mem :: "nat \<Rightarrow> u8"
  origin :: u32
  sb_size :: u32

text \<open>The range check, in unbounded arithmetic because the source widens to 64 bits.\<close>

definition in_box :: "sandbox \<Rightarrow> u32 \<Rightarrow> nat \<Rightarrow> bool" where
  "in_box sb addr n \<longleftrightarrow>
     \<not> (addr < origin sb) \<and> \<not> (unat addr + n > unat (origin sb) + unat (sb_size sb))"

definition hoff :: "sandbox \<Rightarrow> u32 \<Rightarrow> nat" where
  "hoff sb addr = unat (addr - origin sb)"

definition mem_rd32 :: "sandbox \<Rightarrow> u32 \<Rightarrow> u32 option" where
  "mem_rd32 sb addr =
     (if \<not> in_box sb addr 4 then None
      else (let p = hoff sb addr; m = host_mem sb in
        Some (be32 (m p) (m (p + 1)) (m (p + 2)) (m (p + 3)))))"

definition mem_wr32 :: "sandbox \<Rightarrow> u32 \<Rightarrow> u32 \<Rightarrow> sandbox option" where
  "mem_wr32 sb addr v =
     (if \<not> in_box sb addr 4 then None
      else (let p = hoff sb addr in
        Some (sb\<lparr>host_mem := (host_mem sb)
          (p := byte_of 3 v, p + 1 := byte_of 2 v, p + 2 := byte_of 1 v, p + 3 := byte_of 0 v)\<rparr>)))"

definition mem_rd16 :: "sandbox \<Rightarrow> u32 \<Rightarrow> u16 option" where
  "mem_rd16 sb addr =
     (if \<not> in_box sb addr 2 then None
      else (let p = hoff sb addr; m = host_mem sb in Some (be16 (m p) (m (p + 1)))))"

definition mem_wr16 :: "sandbox \<Rightarrow> u32 \<Rightarrow> u16 \<Rightarrow> sandbox option" where
  "mem_wr16 sb addr v =
     (if \<not> in_box sb addr 2 then None
      else (let p = hoff sb addr in
        Some (sb\<lparr>host_mem := (host_mem sb)(p := byte_of 1 v, p + 1 := byte_of 0 v)\<rparr>)))"

definition mem_rd8 :: "sandbox \<Rightarrow> u32 \<Rightarrow> u8 option" where
  "mem_rd8 sb addr =
     (if \<not> in_box sb addr 1 then None else Some (host_mem sb (hoff sb addr)))"

definition mem_wr8 :: "sandbox \<Rightarrow> u32 \<Rightarrow> u8 \<Rightarrow> sandbox option" where
  "mem_wr8 sb addr v =
     (if \<not> in_box sb addr 1 then None
      else Some (sb\<lparr>host_mem := (host_mem sb)(hoff sb addr := v)\<rparr>))"

section \<open>Laws of the accessors\<close>

text \<open>The host bytes an access of \<open>n\<close> bytes at \<open>addr\<close> touches.\<close>

definition footprint :: "sandbox \<Rightarrow> u32 \<Rightarrow> nat \<Rightarrow> nat set" where
  "footprint sb addr n = {hoff sb addr ..< hoff sb addr + n}"

text \<open>Two sandboxes over the same range, possibly with different contents.\<close>

definition same_range :: "sandbox \<Rightarrow> sandbox \<Rightarrow> bool" where
  "same_range sb sb' \<longleftrightarrow> origin sb' = origin sb \<and> sb_size sb' = sb_size sb"

lemma same_range_refl [simp]: "same_range sb sb"
  by (simp add: same_range_def)

lemma same_range_trans: "same_range a b \<Longrightarrow> same_range b c \<Longrightarrow> same_range a c"
  by (simp add: same_range_def)

lemma hoff_unat: "\<not> addr < origin sb \<Longrightarrow> hoff sb addr = unat addr - unat (origin sb)"
  by (simp add: hoff_def unat_sub_if_le not_less)

lemma in_box_hoff: "in_box sb addr n \<Longrightarrow> hoff sb addr + n \<le> unat (sb_size sb)"
  by (auto simp: in_box_def hoff_unat word_le_nat_alt not_less)

lemma same_range_in_box: "same_range sb sb' \<Longrightarrow> in_box sb' addr n = in_box sb addr n"
  by (simp add: same_range_def in_box_def)

lemma same_range_hoff: "same_range sb sb' \<Longrightarrow> hoff sb' addr = hoff sb addr"
  by (simp add: same_range_def hoff_def)

lemma mem_wr32_range: "mem_wr32 sb addr v = Some sb' \<Longrightarrow> same_range sb sb'"
  by (auto simp: mem_wr32_def same_range_def Let_def split: if_splits)

lemma mem_wr16_range: "mem_wr16 sb addr v = Some sb' \<Longrightarrow> same_range sb sb'"
  by (auto simp: mem_wr16_def same_range_def Let_def split: if_splits)

lemma mem_wr8_range: "mem_wr8 sb addr v = Some sb' \<Longrightarrow> same_range sb sb'"
  by (auto simp: mem_wr8_def same_range_def Let_def split: if_splits)

lemma mem_wr32_outside:
  "mem_wr32 sb addr v = Some sb' \<Longrightarrow> i \<notin> footprint sb addr 4 \<Longrightarrow> host_mem sb' i = host_mem sb i"
  by (auto simp: mem_wr32_def footprint_def Let_def split: if_splits)

lemma mem_wr16_outside:
  "mem_wr16 sb addr v = Some sb' \<Longrightarrow> i \<notin> footprint sb addr 2 \<Longrightarrow> host_mem sb' i = host_mem sb i"
  by (auto simp: mem_wr16_def footprint_def Let_def split: if_splits)

lemma mem_wr8_outside:
  "mem_wr8 sb addr v = Some sb' \<Longrightarrow> i \<notin> footprint sb addr 1 \<Longrightarrow> host_mem sb' i = host_mem sb i"
  by (auto simp: mem_wr8_def footprint_def split: if_splits)

lemma mem_rd32_wr32: "mem_wr32 sb addr v = Some sb' \<Longrightarrow> mem_rd32 sb' addr = Some v"
  using be32_bytes [of v]
  by (auto simp: mem_wr32_def mem_rd32_def Let_def in_box_def hoff_def split: if_splits)

lemma mem_rd16_wr16: "mem_wr16 sb addr v = Some sb' \<Longrightarrow> mem_rd16 sb' addr = Some v"
  using be16_bytes [of v]
  by (auto simp: mem_wr16_def mem_rd16_def Let_def in_box_def hoff_def split: if_splits)

lemma mem_rd8_wr8: "mem_wr8 sb addr v = Some sb' \<Longrightarrow> mem_rd8 sb' addr = Some v"
  by (auto simp: mem_wr8_def mem_rd8_def in_box_def hoff_def split: if_splits)

text \<open>A read sees only its own footprint.\<close>

lemma mem_rd32_cong:
  assumes "same_range sb sb'" "\<forall>i \<in> footprint sb addr 4. host_mem sb' i = host_mem sb i"
  shows "mem_rd32 sb' addr = mem_rd32 sb addr"
  using assms
  by (simp add: mem_rd32_def same_range_in_box same_range_hoff footprint_def Let_def)

lemma mem_rd16_cong:
  assumes "same_range sb sb'" "\<forall>i \<in> footprint sb addr 2. host_mem sb' i = host_mem sb i"
  shows "mem_rd16 sb' addr = mem_rd16 sb addr"
  using assms
  by (simp add: mem_rd16_def same_range_in_box same_range_hoff footprint_def Let_def)

lemma mem_rd8_cong:
  assumes "same_range sb sb'" "\<forall>i \<in> footprint sb addr 1. host_mem sb' i = host_mem sb i"
  shows "mem_rd8 sb' addr = mem_rd8 sb addr"
  using assms by (simp add: mem_rd8_def same_range_in_box same_range_hoff footprint_def)

section \<open>The interface: checked cells of one width\<close>

text \<open>
  Every width of access obeys the same contract. A client that stores and reloads
  through cells of one width (pushes, exception frames, register saves) uses only this.
\<close>

locale checked_cells =
  fixes rd :: "sandbox \<Rightarrow> u32 \<Rightarrow> 'v option"
    and wr :: "sandbox \<Rightarrow> u32 \<Rightarrow> 'v \<Rightarrow> sandbox option"
    and width :: nat
  assumes wr_range: "wr sb addr v = Some sb' \<Longrightarrow> same_range sb sb'"
    and rd_wr: "wr sb addr v = Some sb' \<Longrightarrow> rd sb' addr = Some v"
    and wr_outside:
      "wr sb addr v = Some sb' \<Longrightarrow> i \<notin> footprint sb addr width \<Longrightarrow> host_mem sb' i = host_mem sb i"
    and rd_cong:
      "same_range sb sb' \<Longrightarrow> \<forall>i \<in> footprint sb addr width. host_mem sb' i = host_mem sb i
       \<Longrightarrow> rd sb' addr = rd sb addr"
    and wr_checked: "wr sb addr v = Some sb' \<Longrightarrow> in_box sb addr width"
begin

text \<open>A store to a disjoint cell leaves a read unchanged.\<close>

lemma rd_wr_disjoint:
  assumes "wr sb a v = Some sb'" "footprint sb a width \<inter> footprint sb b width = {}"
  shows "rd sb' b = rd sb b"
  using assms by (intro rd_cong wr_range) (auto dest: wr_outside)

text \<open>A store never leaves the host array: every changed byte has an offset below the size.\<close>

lemma wr_changes_inside:
  assumes "wr sb a v = Some sb'" "host_mem sb' i \<noteq> host_mem sb i"
  shows "i < unat (sb_size sb)"
proof -
  have "i \<in> footprint sb a width" using assms wr_outside by blast
  moreover have "hoff sb a + width \<le> unat (sb_size sb)"
    using assms(1) by (intro in_box_hoff wr_checked)
  ultimately show ?thesis by (simp add: footprint_def)
qed

end

lemma mem_wr_checked:
  "mem_wr32 sb a v = Some sb' \<Longrightarrow> in_box sb a 4"
  "mem_wr16 sb a w = Some sb' \<Longrightarrow> in_box sb a 2"
  "mem_wr8 sb a b = Some sb' \<Longrightarrow> in_box sb a 1"
  by (auto simp: mem_wr32_def mem_wr16_def mem_wr8_def split: if_splits)

interpretation long: checked_cells mem_rd32 mem_wr32 4
  by unfold_locales
    (auto intro: mem_wr32_range mem_rd32_wr32 mem_rd32_cong dest: mem_wr32_outside mem_wr_checked)

interpretation word16: checked_cells mem_rd16 mem_wr16 2
  by unfold_locales
    (auto intro: mem_wr16_range mem_rd16_wr16 mem_rd16_cong dest: mem_wr16_outside mem_wr_checked)

interpretation byte8: checked_cells mem_rd8 mem_wr8 1
  by unfold_locales
    (auto intro: mem_wr8_range mem_rd8_wr8 mem_rd8_cong dest: mem_wr8_outside mem_wr_checked)

end
