(* ===== verification/M68k_State.thy ===== *)
theory M68k_State
  imports Sandbox
begin

text \<open>
  The state and the shared helpers of the 68k reference interpreter
  (\<open>hosted/jit68k/j5d_interp.c\<close>, \<open>j5d_jit68k.h\<close>): the register file, the outcomes
  of an instruction block, operand fetch, condition codes, the 68k SR, effective addresses,
  the floating-point condition table and the 96-bit memory format.
\<close>

section \<open>Machine state and outcomes\<close>

record exc_record =
  vector :: u8
  frame_sr :: u32
  frame_pc :: u32
  a7_at_entry :: u32
  handler_pc :: u32

text \<open>
  \<open>m68k\<close> is \<open>struct j5d_m68k_state\<close> with the locals of the interpreter loop that
  outlive one block: \<open>mpc\<close> is the local \<open>pc\<close> (\<open>pc_saved\<close> the field
  \<open>st->pc\<close>), \<open>initial_sp\<close> the local of that name, \<open>box\<close> the sandbox and
  \<open>exc_log\<close> the optional log behind \<open>gi_exc_log\<close>. The floating-point registers hold
  binary64 bit patterns.
\<close>

record m68k =
  dreg :: "nat \<Rightarrow> u32"
  areg :: "nat \<Rightarrow> u32"
  ccr :: u32
  pc_saved :: u32
  sr_high :: u16
  exc_count :: u16
  fp :: "nat \<Rightarrow> u64"
  fpcr :: u32
  fpsr :: u32
  fpiar :: u32
  mpc :: u32
  initial_sp :: u32
  box :: sandbox
  exc_log :: "exc_record list option"

text \<open>
  What one block of the interpreter loop does with an opcode: pass it to the next block
  (\<open>Fall\<close>, with the state it has by then), \<open>continue\<close> the loop, leave it as a
  program exit, leave it with an error message (\<open>IFAIL\<close>), run into behaviour that C
  leaves undefined (a host read outside \<open>host_mem\<close>, a shift by the operand width, a
  signed overflow), or reach the floating-point arithmetic that the model does not cover.
\<close>

datatype iout =
    Fall m68k
  | Cont m68k
  | Exit u32 m68k
  | Fail string
  | Undef string
  | FpuArith m68k

section \<open>Opcode fields and register access\<close>

definition r0 :: "u16 \<Rightarrow> nat" where "r0 op = unat (op AND 7)"
definition f3 :: "u16 \<Rightarrow> nat" where "f3 op = unat (drop_bit 3 op AND 7)"
definition f6 :: "u16 \<Rightarrow> nat" where "f6 op = unat (drop_bit 6 op AND 7)"
definition r9 :: "u16 \<Rightarrow> nat" where "r9 op = unat (drop_bit 9 op AND 7)"
definition sz6 :: "u16 \<Rightarrow> nat" where "sz6 op = unat (drop_bit 6 op AND 3)"

definition setd :: "m68k \<Rightarrow> nat \<Rightarrow> u32 \<Rightarrow> m68k" where
  "setd st n v = st\<lparr>dreg := (dreg st)(n := v)\<rparr>"

definition seta :: "m68k \<Rightarrow> nat \<Rightarrow> u32 \<Rightarrow> m68k" where
  "seta st n v = st\<lparr>areg := (areg st)(n := v)\<rparr>"

definition setcc :: "m68k \<Rightarrow> u32 \<Rightarrow> m68k" where
  "setcc st c = st\<lparr>ccr := c\<rparr>"

definition setbox :: "m68k \<Rightarrow> sandbox \<Rightarrow> m68k" where
  "setbox st sb = st\<lparr>box := sb\<rparr>"

definition jump :: "m68k \<Rightarrow> u32 \<Rightarrow> m68k" where
  "jump st t = st\<lparr>mpc := t\<rparr>"

text \<open>\<open>pc += n; continue\<close>.\<close>

definition adv :: "m68k \<Rightarrow> u32 \<Rightarrow> iout" where
  "adv st n = Cont (jump st (mpc st + n))"

section \<open>Operand fetch and checked accesses\<close>

text \<open>
  \<open>ip = host_mem + (pc - origin)\<close>; \<open>be16(ip + k)\<close> and \<open>be32(ip + k)\<close> are not
  bounds-checked in the source. A fetch beyond the array is undefined behaviour.
\<close>

definition ip16 :: "m68k \<Rightarrow> nat \<Rightarrow> u16 option" where
  "ip16 st k =
     (let i = hoff (box st) (mpc st) + k; m = host_mem (box st) in
      if i + 2 \<le> unat (sb_size (box st)) then Some (be16 (m i) (m (i + 1))) else None)"

definition ip32 :: "m68k \<Rightarrow> nat \<Rightarrow> u32 option" where
  "ip32 st k =
     (let i = hoff (box st) (mpc st) + k; m = host_mem (box st) in
      if i + 4 \<le> unat (sb_size (box st))
      then Some (be32 (m i) (m (i + 1)) (m (i + 2)) (m (i + 3))) else None)"

definition with16 :: "m68k \<Rightarrow> nat \<Rightarrow> (u16 \<Rightarrow> iout) \<Rightarrow> iout" where
  "with16 st k f = (case ip16 st k of None \<Rightarrow> Undef ''fetch outside host_mem'' | Some w \<Rightarrow> f w)"

definition with32 :: "m68k \<Rightarrow> nat \<Rightarrow> (u32 \<Rightarrow> iout) \<Rightarrow> iout" where
  "with32 st k f = (case ip32 st k of None \<Rightarrow> Undef ''fetch outside host_mem'' | Some w \<Rightarrow> f w)"

text \<open>\<open>be16s\<close> used as an operand: \<open>(uint32_t)(int32_t)(int16_t)\<close>.\<close>

definition sx16 :: "u16 \<Rightarrow> u32" where "sx16 w = scast w"
definition sx8 :: "u8 \<Rightarrow> u32" where "sx8 b = scast b"

definition with16s :: "m68k \<Rightarrow> nat \<Rightarrow> (u32 \<Rightarrow> iout) \<Rightarrow> iout" where
  "with16s st k f = with16 st k (\<lambda>w. f (sx16 w))"

text \<open>\<open>if (oob) IFAIL(msg)\<close> after an access.\<close>

definition need :: "string \<Rightarrow> 'a option \<Rightarrow> ('a \<Rightarrow> iout) \<Rightarrow> iout" where
  "need msg x f = (case x of None \<Rightarrow> Fail msg | Some v \<Rightarrow> f v)"

text \<open>Operand widths: \<open>bits\<close> is 8, 16 or 32.\<close>

definition msk :: "nat \<Rightarrow> u32" where
  "msk bits = (if bits = 32 then 0xFFFFFFFF else push_bit bits 1 - 1)"

definition msb :: "nat \<Rightarrow> u32" where
  "msb bits = push_bit (bits - 1) 1"

definition bits_of :: "nat \<Rightarrow> nat" where
  "bits_of sz = (if sz = 0 then 8 else if sz = 1 then 16 else 32)"

definition rd_sz :: "sandbox \<Rightarrow> nat \<Rightarrow> u32 \<Rightarrow> u32 option" where
  "rd_sz sb bits addr =
     (if bits = 8 then map_option ucast (mem_rd8 sb addr)
      else if bits = 16 then map_option ucast (mem_rd16 sb addr)
      else mem_rd32 sb addr)"

definition wr_sz :: "sandbox \<Rightarrow> nat \<Rightarrow> u32 \<Rightarrow> u32 \<Rightarrow> sandbox option" where
  "wr_sz sb bits addr v =
     (if bits = 8 then mem_wr8 sb addr (ucast v)
      else if bits = 16 then mem_wr16 sb addr (ucast v)
      else mem_wr32 sb addr v)"

text \<open>\<open>(old & ~mask) | res\<close>: write the low part of a data register.\<close>

definition merge :: "nat \<Rightarrow> u32 \<Rightarrow> u32 \<Rightarrow> u32" where
  "merge bits old res = (old AND NOT (msk bits)) OR res"

section \<open>Condition codes\<close>

definition CCR_V :: u32 where "CCR_V = 0x01"
definition CCR_C :: u32 where "CCR_C = 0x02"
definition CCR_Z :: u32 where "CCR_Z = 0x04"
definition CCR_N :: u32 where "CCR_N = 0x08"
definition CCR_X :: u32 where "CCR_X = 0x10"

lemmas ccr_bits = CCR_V_def CCR_C_def CCR_Z_def CCR_N_def CCR_X_def

definition nz32 :: "u32 \<Rightarrow> u32 \<Rightarrow> u32" where
  "nz32 res keep =
     (keep AND (CCR_X OR CCR_V OR CCR_C)) OR flg (res = 0) CCR_Z
       OR flg (res AND 0x80000000 \<noteq> 0) CCR_N"

definition logic_ccr :: "u32 \<Rightarrow> u32 \<Rightarrow> u32" where
  "logic_ccr res keepX =
     (keepX AND CCR_X) OR flg (res = 0) CCR_Z OR flg (res AND 0x80000000 \<noteq> 0) CCR_N"

text \<open>N and Z of a sized result on top of the kept X: the tail of the sized moves and logic.\<close>

definition nz_sz :: "nat \<Rightarrow> u32 \<Rightarrow> u32" where
  "nz_sz bits res = flg (res = 0) CCR_Z OR flg (res AND msb bits \<noteq> 0) CCR_N"

definition logic_sz :: "nat \<Rightarrow> u32 \<Rightarrow> u32 \<Rightarrow> u32" where
  "logic_sz bits res keepX = (keepX AND CCR_X) OR nz_sz bits res"

text \<open>
  The three flag computations that the source writes out at every arithmetic block: the sum
  of two operands masked to \<open>bits\<close> (carry from the 64-bit sum, overflow from the signs),
  the difference of a subtraction, and the difference of a comparison, which keeps X.
\<close>

definition add_res :: "nat \<Rightarrow> u32 \<Rightarrow> u32 \<Rightarrow> u32" where
  "add_res bits a b = ucast ((ucast a :: u64) + ucast b) AND msk bits"

definition add_cc :: "nat \<Rightarrow> u32 \<Rightarrow> u32 \<Rightarrow> u32" where
  "add_cc bits a b =
     (let s = (ucast a :: u64) + ucast b; res = add_res bits a b in
      flg (s AND (ucast (msk bits) + 1) \<noteq> 0) (CCR_C OR CCR_X)
      OR flg (((a XOR res) AND (b XOR res)) AND msb bits \<noteq> 0) CCR_V
      OR nz_sz bits res)"

definition sub_res :: "nat \<Rightarrow> u32 \<Rightarrow> u32 \<Rightarrow> u32" where
  "sub_res bits a b = (a - b) AND msk bits"

definition sub_cc :: "nat \<Rightarrow> u32 \<Rightarrow> u32 \<Rightarrow> u32" where
  "sub_cc bits a b =
     (let res = sub_res bits a b in
      flg (b > a) (CCR_C OR CCR_X)
      OR flg (((a XOR b) AND (a XOR res)) AND msb bits \<noteq> 0) CCR_V
      OR nz_sz bits res)"

definition cmp_cc :: "nat \<Rightarrow> u32 \<Rightarrow> u32 \<Rightarrow> u32 \<Rightarrow> u32" where
  "cmp_cc bits keepX a b =
     (let res = sub_res bits a b in
      (keepX AND CCR_X) OR flg (b > a) CCR_C
      OR flg (((a XOR b) AND (a XOR res)) AND msb bits \<noteq> 0) CCR_V
      OR nz_sz bits res)"

definition sized_x_ccr :: "u32 \<Rightarrow> nat \<Rightarrow> bool \<Rightarrow> bool \<Rightarrow> u32 \<Rightarrow> u32" where
  "sized_x_ccr res bits carry overflow prior_ccr =
     flg carry (CCR_C OR CCR_X) OR flg overflow CCR_V OR flg (res AND msb bits \<noteq> 0) CCR_N
     OR (if res \<noteq> 0 then 0 else prior_ccr AND CCR_Z)"

definition bcc_taken :: "nat \<Rightarrow> u32 \<Rightarrow> bool" where
  "bcc_taken cc4 c =
     (let N = (c AND CCR_N \<noteq> 0); Z = (c AND CCR_Z \<noteq> 0);
          V = (c AND CCR_V \<noteq> 0); C = (c AND CCR_C \<noteq> 0) in
      if cc4 = 0x2 then \<not> C \<and> \<not> Z else if cc4 = 0x3 then C \<or> Z
      else if cc4 = 0x4 then \<not> C else if cc4 = 0x5 then C
      else if cc4 = 0x6 then \<not> Z else if cc4 = 0x7 then Z
      else if cc4 = 0x8 then \<not> V else if cc4 = 0x9 then V
      else if cc4 = 0xA then \<not> N else if cc4 = 0xB then N
      else if cc4 = 0xC then N = V else if cc4 = 0xD then N \<noteq> V
      else if cc4 = 0xE then \<not> Z \<and> N = V else if cc4 = 0xF then Z \<or> N \<noteq> V
      else False)"

section \<open>The status register\<close>

definition j5d_pack_sr :: "m68k \<Rightarrow> u16" where
  "j5d_pack_sr st =
     (let i = ccr st;
          ccr68 = ucast (flg (i AND CCR_C \<noteq> 0) 0x01 OR flg (i AND CCR_V \<noteq> 0) 0x02
            OR flg (i AND CCR_Z \<noteq> 0) 0x04 OR flg (i AND CCR_N \<noteq> 0) 0x08
            OR flg (i AND CCR_X \<noteq> 0) 0x10) :: u16
      in push_bit 8 (sr_high st) OR ccr68)"

definition iunpack_sr :: "m68k \<Rightarrow> u16 \<Rightarrow> m68k" where
  "iunpack_sr st sr =
     st\<lparr>ccr := flg (sr AND 0x01 \<noteq> 0) CCR_C OR flg (sr AND 0x02 \<noteq> 0) CCR_V
          OR flg (sr AND 0x04 \<noteq> 0) CCR_Z OR flg (sr AND 0x08 \<noteq> 0) CCR_N
          OR flg (sr AND 0x10 \<noteq> 0) CCR_X,
        sr_high := drop_bit 8 sr AND 0xFF\<rparr>"

section \<open>Effective addresses\<close>

text \<open>The index of a brief extension word: register, sign-extension of a word index.\<close>

definition brief_index :: "m68k \<Rightarrow> u16 \<Rightarrow> u32" where
  "brief_index st ext =
     (let rn = unat (drop_bit 12 ext AND 7);
          xn = (if ext AND 0x8000 \<noteq> 0 then areg st rn else dreg st rn)
      in if ext AND 0x0800 = 0 then sx16 (ucast xn) else xn)"

definition brief_scale :: "u16 \<Rightarrow> nat" where
  "brief_scale ext = unat (drop_bit 9 ext AND 3)"

definition brief_d8 :: "u16 \<Rightarrow> u32" where
  "brief_d8 ext = sx8 (ucast (ext AND 0xFF))"

text \<open>The scaled \<open>(d8,An,Xn)\<close> address the blocks compute inline.\<close>

definition idx_ea :: "m68k \<Rightarrow> u32 \<Rightarrow> u16 \<Rightarrow> u32" where
  "idx_ea st base ext = base + brief_d8 ext + push_bit (brief_scale ext) (brief_index st ext)"

definition brief_ea_i :: "m68k \<Rightarrow> u16 \<Rightarrow> u32 \<Rightarrow> u32 option" where
  "brief_ea_i st ext base =
     (if ext AND 0x0100 \<noteq> 0 then None
      else Some (base + brief_d8 ext + push_bit (brief_scale ext) (brief_index st ext)))"

text \<open>
  The 68020 full indexed form of \<open>jsr\<close>/\<open>jmp\<close>. The result is the target and the
  address after the extension words; \<open>None\<close> is \<open>*ok = 0\<close>.
\<close>

definition cur_fits :: "sandbox \<Rightarrow> u32 \<Rightarrow> nat \<Rightarrow> bool" where
  "cur_fits sb cursor n \<longleftrightarrow> \<not> (unat cursor + n > unat (origin sb) + unat (sb_size sb))"

definition cur_rd16 :: "sandbox \<Rightarrow> u32 \<Rightarrow> u16" where
  "cur_rd16 sb c = be16 (host_mem sb (hoff sb c)) (host_mem sb (hoff sb c + 1))"

definition cur_rd32 :: "sandbox \<Rightarrow> u32 \<Rightarrow> u32" where
  "cur_rd32 sb c = be32 (host_mem sb (hoff sb c)) (host_mem sb (hoff sb c + 1))
     (host_mem sb (hoff sb c + 2)) (host_mem sb (hoff sb c + 3))"

text \<open>One displacement of the full form: none, a word or a long at the cursor.\<close>

definition full_disp :: "sandbox \<Rightarrow> u32 \<Rightarrow> nat \<Rightarrow> (u32 \<times> u32) option" where
  "full_disp sb cursor sel =
     (if sel = 2 then
        (if cur_fits sb cursor 2 then Some (sx16 (cur_rd16 sb cursor), cursor + 2) else None)
      else if sel = 3 then
        (if cur_fits sb cursor 4 then Some (cur_rd32 sb cursor, cursor + 4) else None)
      else Some (0, cursor))"

definition control_indexed_ea_i :: "m68k \<Rightarrow> u32 \<Rightarrow> u32 \<Rightarrow> (u32 \<times> u32) option" where
  "control_indexed_ea_i st pc base0 =
     (let sb = box st in
      if \<not> in_box sb pc 4 then None
      else let ext = cur_rd16 sb (pc + 2) in
        if ext AND 0x0100 = 0 then map_option (\<lambda>r. (r, pc + 4)) (brief_ea_i st ext base0)
        else if ext AND 0x0008 \<noteq> 0 then None
        else let bdsize = unat (drop_bit 4 ext AND 3) in
          if bdsize = 0 then None
          else case full_disp sb (pc + 4) bdsize of None \<Rightarrow> None
          | Some (bd, cursor1) \<Rightarrow>
            (let iis = unat (ext AND 7) in
             if iis = 4 then None
             else case full_disp sb cursor1 (iis mod 4) of None \<Rightarrow> None
             | Some (outer, cursor) \<Rightarrow>
               (let index = (if ext AND 0x0040 = 0
                   then push_bit (brief_scale ext) (brief_index st ext) else 0);
                 base = (if ext AND 0x0080 \<noteq> 0 then 0 else base0)
                in if iis = 0 then Some (base + bd + index, cursor)
                   else (let pointer = base + bd + (if iis \<ge> 4 then 0 else index) in
                     if \<not> in_box sb pointer 4 then None
                     else Some (cur_rd32 sb pointer + outer + (if iis \<ge> 4 then index else 0),
                       cursor)))))"

section \<open>Floating-point conditions and the 96-bit memory format\<close>

definition FPSR_N :: u32 where "FPSR_N = 0x08000000"
definition FPSR_Z :: u32 where "FPSR_Z = 0x04000000"
definition FPSR_NAN :: u32 where "FPSR_NAN = 0x01000000"

definition j5q_fp_cond_taken :: "u32 \<Rightarrow> u32 \<Rightarrow> bool" where
  "j5q_fp_cond_taken predicate fs =
     (let N = (fs AND FPSR_N \<noteq> 0); Z = (fs AND FPSR_Z \<noteq> 0); NAN = (fs AND FPSR_NAN \<noteq> 0);
          p = unat (predicate AND 0x0f)
      in if p = 0x0 then False
         else if p = 0x1 then Z
         else if p = 0x2 then \<not> NAN \<and> \<not> Z \<and> \<not> N
         else if p = 0x3 then Z \<or> (\<not> N \<and> \<not> NAN)
         else if p = 0x4 then N \<and> \<not> NAN \<and> \<not> Z
         else if p = 0x5 then Z \<or> (N \<and> \<not> NAN)
         else if p = 0x6 then \<not> NAN \<and> \<not> Z
         else if p = 0x7 then \<not> NAN
         else if p = 0x8 then NAN
         else if p = 0x9 then Z \<or> NAN
         else if p = 0xa then NAN \<or> (\<not> N \<and> \<not> Z)
         else if p = 0xb then NAN \<or> Z \<or> \<not> N
         else if p = 0xc then NAN \<or> (N \<and> \<not> Z)
         else if p = 0xd then NAN \<or> Z \<or> N
         else if p = 0xe then \<not> Z
         else True)"

text \<open>
  \<open>j5r_double_to_x\<close> on the bit pattern of the double. \<open>clz64\<close> is
  \<open>__builtin_clzll\<close> of a nonzero value. The shift \<open>frac52 << shift\<close> has
  \<open>shift = 64\<close> when only bit 0 of the fraction is set, which C leaves undefined
  (\<open>None\<close>).
\<close>

definition clz64 :: "u64 \<Rightarrow> nat" where
  "clz64 v = length (takeWhile (\<lambda>i. \<not> bit v i) (rev [0..<64]))"

definition x_parts :: "u64 \<Rightarrow> (u16 \<times> u64) option" where
  "x_parts b =
     (let exp11 = drop_bit 52 b AND 0x7ff; frac52 = b AND 0xfffffffffffff in
      if exp11 = 0x7ff then
        Some (0x7fff, if frac52 = 0 then 0 else push_bit 63 1 OR push_bit 11 frac52)
      else if exp11 = 0 then
        (if frac52 = 0 then Some (0, 0)
         else (let lz = clz64 frac52 - 11; shift = 11 + lz + 1;
                   p = 51 - int lz; e = - 1022 - (52 - p) in
           if shift \<ge> 64 then None
           else Some (word_of_int (e + 16383), push_bit shift frac52)))
      else Some (ucast (exp11 - 1023 + 16383), push_bit 63 1 OR push_bit 11 frac52))"

definition j5r_double_to_x :: "u64 \<Rightarrow> u8 list option" where
  "j5r_double_to_x b =
     (case x_parts b of None \<Rightarrow> None
      | Some (exp15, mant64) \<Rightarrow>
        (let se = push_bit 15 (ucast (drop_bit 63 b)) OR (exp15 AND 0x7fff) :: u16 in
         Some ([byte_of 1 se, byte_of 0 se, 0, 0] @ map (\<lambda>i. byte_of (7 - i) mant64) [0..<8])))"

definition mant_of :: "u8 list \<Rightarrow> u64" where
  "mant_of x = foldl (\<lambda>m i. push_bit 8 m OR ucast (x ! (4 + i))) 0 [0..<8]"

definition j5r_x_to_double :: "u8 list \<Rightarrow> u64" where
  "j5r_x_to_double x =
     (let se = be16 (x ! 0) (x ! 1);
          sign = push_bit 63 (ucast (drop_bit 15 se AND 1)) :: u64;
          exp15 = se AND 0x7fff;
          mant64 = mant_of x;
          f = drop_bit 11 (mant64 AND NOT (push_bit 63 1))
      in if exp15 = 0x7fff then sign OR push_bit 52 0x7ff OR f
         else if exp15 = 0 \<and> mant64 = 0 then sign
         else (let e = sint (ucast exp15 :: u32) - 16383 + 1023 in
           if e \<ge> 0x7ff then sign OR push_bit 52 0x7ff
           else if e > 0 then sign OR push_bit 52 (word_of_int e) OR f
           else (let m = drop_bit 11 mant64; rs = nat (1 - e);
                     sub = (if rs \<ge> 64 then 0 else drop_bit rs m)
             in sign OR (sub AND 0xfffffffffffff))))"

end
