(* ===== verification/M68k_Control.thy ===== *)
theory M68k_Control
  imports M68k_State
begin

text \<open>
  Exceptions and the control-flow blocks of the reference interpreter: vector fetch and
  frame push (\<open>iraise\<close>), \<open>rts\<close>, \<open>rte\<close>, \<open>trap\<close>, \<open>illegal\<close>, the word divisions
  (which may trap), the library bridge, the moves to and from the condition codes, jumps,
  subroutine calls, \<open>link\<close>/\<open>unlk\<close> and the conditional branches. Each definition is
  one \<open>if\<close> block of the loop in \<open>j5d_interp_run\<close>, in source order per group.
\<close>

section \<open>Exceptions\<close>

definition J5I_VBR :: u32 where "J5I_VBR = 0x00240000"

definition iread_vector :: "sandbox \<Rightarrow> u32 \<Rightarrow> u32 option" where
  "iread_vector sb vnum = mem_rd32 sb (J5I_VBR + vnum * 4)"

definition J5I_MAX_EXC :: nat where "J5I_MAX_EXC = 32"

text \<open>
  \<open>iraise\<close>: read the vector, push the six-byte frame (SR, then return PC), enter
  supervisor state, count and log. The result is the new state and the handler address.
\<close>

definition iraise :: "m68k \<Rightarrow> u32 \<Rightarrow> u32 \<Rightarrow> string + (m68k \<times> u32)" where
  "iraise st vnum return_pc =
     (case iread_vector (box st) vnum of
        None \<Rightarrow> Inl ''exc: vector out of sandbox''
      | Some handler \<Rightarrow>
        (let sr = j5d_pack_sr st; a7 = areg st 7 - 6; sb = box st in
         if \<not> in_box sb a7 6 then Inl ''exc: frame a7 out of sandbox''
         else (let p = hoff sb a7;
                   m = (host_mem sb)(p := byte_of 1 sr, p + 1 := byte_of 0 sr,
                      p + 2 := byte_of 3 return_pc, p + 3 := byte_of 2 return_pc,
                      p + 4 := byte_of 1 return_pc, p + 5 := byte_of 0 return_pc);
                   rec = \<lparr>vector = ucast vnum, frame_sr = ucast sr, frame_pc = return_pc,
                      a7_at_entry = a7, handler_pc = handler\<rparr>
           in Inr (st\<lparr>box := sb\<lparr>host_mem := m\<rparr>, areg := (areg st)(7 := a7),
                 sr_high := sr_high st OR 0x20, exc_count := exc_count st + 1,
                 exc_log := (case exc_log st of None \<Rightarrow> None
                   | Some l \<Rightarrow> Some (if length l < J5I_MAX_EXC then l @ [rec] else l))\<rparr>,
               handler))))"

text \<open>\<open>if (iraise(..)) return 1; pc = h; continue;\<close>\<close>

definition raise_to :: "m68k \<Rightarrow> u32 \<Rightarrow> u32 \<Rightarrow> iout" where
  "raise_to st vnum return_pc =
     (case iraise st vnum return_pc of Inl e \<Rightarrow> Fail e | Inr (st', h) \<Rightarrow> Cont (jump st' h))"

definition op_rte :: "m68k \<Rightarrow> u16 \<Rightarrow> iout" where
  "op_rte st op =
     (if op \<noteq> 0x4E73 then Fall st
      else (let a7 = areg st 7; sb = box st in
        if \<not> in_box sb a7 6 then Fail ''rte: frame a7 out of sandbox''
        else (let p = hoff sb a7; m = host_mem sb;
                  sr = be16 (m p) (m (p + 1));
                  rpc = be32 (m (p + 2)) (m (p + 3)) (m (p + 4)) (m (p + 5))
          in Cont (jump (iunpack_sr (seta st 7 (a7 + 6)) sr) rpc))))"

definition op_trap :: "m68k \<Rightarrow> u16 \<Rightarrow> iout" where
  "op_trap st op =
     (if op AND 0xFFF0 \<noteq> 0x4E40 then Fall st
      else raise_to st (32 + ucast (op AND 0xF)) (mpc st + 2))"

definition op_illegal :: "m68k \<Rightarrow> u16 \<Rightarrow> iout" where
  "op_illegal st op = (if op \<noteq> 0x4AFC then Fall st else raise_to st 4 (mpc st))"

section \<open>rts and nop\<close>

definition op_rts :: "m68k \<Rightarrow> u16 \<Rightarrow> iout" where
  "op_rts st op =
     (if op \<noteq> 0x4E75 then Fall st
      else if areg st 7 \<ge> initial_sp st then Exit (dreg st 0) st
      else (let sp = areg st 7 in
        need ''rts: a7 out of sandbox'' (mem_rd32 (box st) sp)
          (\<lambda>v. Cont (jump (seta st 7 (sp + 4)) v))))"

definition op_nop :: "m68k \<Rightarrow> u16 \<Rightarrow> iout" where
  "op_nop st op = (if op \<noteq> 0x4E71 then Fall st else adv st 2)"

section \<open>divu.w and divs.w\<close>

text \<open>
  The divisor, its address side effects applied, and the length of the instruction:
  the block's own address decoding. \<open>None\<close> in the value is a memory operand that is out
  of the sandbox; \<open>Inl\<close> is an \<open>IFAIL\<close> or a fetch outside \<open>host_mem\<close>.
\<close>

datatype divsrc = DivFail string | DivUndef | DivImm u32 u32 | DivMem m68k u32 u32

definition divw_source :: "m68k \<Rightarrow> nat \<Rightarrow> nat \<Rightarrow> divsrc" where
  "divw_source st mode srcreg =
     (if mode = 0 then DivImm (dreg st srcreg AND 0xFFFF) 2
      else if mode = 7 \<and> srcreg = 4 then
        (case ip16 st 2 of None \<Rightarrow> DivUndef | Some w \<Rightarrow> DivImm (ucast w) 4)
      else if mode = 2 then DivMem st (areg st srcreg) 2
      else if mode = 3 then DivMem (seta st srcreg (areg st srcreg + 2)) (areg st srcreg) 2
      else if mode = 4 then
        (let a = areg st srcreg - 2 in DivMem (seta st srcreg a) a 2)
      else if mode = 5 then
        (case ip16 st 2 of None \<Rightarrow> DivUndef
         | Some w \<Rightarrow> DivMem st (areg st srcreg + sx16 w) 4)
      else if mode = 6 then
        (case ip16 st 2 of None \<Rightarrow> DivUndef
         | Some w \<Rightarrow> (case brief_ea_i st w (areg st srcreg) of
             None \<Rightarrow> DivFail ''divu/divs: 68020 full extension in oracle''
           | Some a \<Rightarrow> DivMem st a 4))
      else if mode = 7 \<and> srcreg = 0 then
        (case ip16 st 2 of None \<Rightarrow> DivUndef | Some w \<Rightarrow> DivMem st (sx16 w) 4)
      else if mode = 7 \<and> srcreg = 1 then
        (case ip32 st 2 of None \<Rightarrow> DivUndef | Some l \<Rightarrow> DivMem st l 6)
      else if mode = 7 \<and> srcreg = 2 then
        (case ip16 st 2 of None \<Rightarrow> DivUndef | Some w \<Rightarrow> DivMem st (mpc st + 2 + sx16 w) 4)
      else if mode = 7 \<and> srcreg = 3 then
        (case ip16 st 2 of None \<Rightarrow> DivUndef
         | Some w \<Rightarrow> (case brief_ea_i st w (mpc st + 2) of
             None \<Rightarrow> DivFail ''divu/divs: 68020 full extension in oracle''
           | Some a \<Rightarrow> DivMem st a 4))
      else DivFail ''divu/divs: unsupported source EA in oracle'')"

text \<open>C division truncates towards zero.\<close>

definition c_div :: "int \<Rightarrow> int \<Rightarrow> int" where
  "c_div a b = sgn a * sgn b * (\<bar>a\<bar> div \<bar>b\<bar>)"

definition c_rem :: "int \<Rightarrow> int \<Rightarrow> int" where
  "c_rem a b = a - b * c_div a b"

definition divw_apply :: "m68k \<Rightarrow> bool \<Rightarrow> nat \<Rightarrow> u32 \<Rightarrow> u32 \<Rightarrow> iout" where
  "divw_apply st is_signed dn divisor after =
     (if divisor = 0 then raise_to st 5 after
      else (let dividend = dreg st dn;
            q = c_div (sint dividend) (sint (ucast divisor :: u16));
            r = c_rem (sint dividend) (sint (ucast divisor :: u16));
            quot = (if is_signed then word_of_int q else dividend div divisor) :: u32;
            rem = (if is_signed then word_of_int r else dividend mod divisor) :: u32;
            ovf = (if is_signed then q < -32768 \<or> q > 32767 else quot > 0xFFFF);
            cc = ccr st AND CCR_X
        in if ovf then Cont (jump (setcc st (cc OR CCR_V)) after)
           else (let qw = quot AND 0xFFFF;
                     st1 = setd st dn (push_bit 16 (rem AND 0xFFFF) OR qw)
             in Cont (jump (setcc st1 (cc OR nz_sz 16 qw)) after))))"

definition op_divw :: "m68k \<Rightarrow> u16 \<Rightarrow> iout" where
  "op_divw st op =
     (if \<not> (op AND 0xF1C0 = 0x80C0 \<or> op AND 0xF1C0 = 0x81C0) then Fall st
      else (let is_signed = (op AND 0xF1C0 = 0x81C0); dn = r9 op in
        case divw_source st (f3 op) (r0 op) of
          DivFail e \<Rightarrow> Fail e
        | DivUndef \<Rightarrow> Undef ''fetch outside host_mem''
        | DivImm d len \<Rightarrow> divw_apply st is_signed dn d (mpc st + len)
        | DivMem st1 a len \<Rightarrow>
            need ''divu/divs: source outside the sandbox'' (mem_rd16 (box st1) a)
              (\<lambda>w. divw_apply st1 is_signed dn (ucast w) (mpc st1 + len))))"

section \<open>The library bridge\<close>

text \<open>
  The bridge callback is a parameter: it gets the vector index and the state and answers
  with the new state, or \<open>None\<close> for a nonzero return.
\<close>

type_synonym lvo_fn = "nat \<Rightarrow> m68k \<Rightarrow> m68k option"

definition op_jsr_lib :: "lvo_fn option \<Rightarrow> m68k \<Rightarrow> u16 \<Rightarrow> iout" where
  "op_jsr_lib lvo st op =
     (if op \<noteq> 0x4EAE then Fall st
      else with16s st 2 (\<lambda>d16.
        let target = areg st 6 + d16; delta = areg st 6 - target in
        if target > areg st 6 then Fail ''jsr(A6) target above libbase''
        else if delta mod 6 \<noteq> 0 then Fail ''jsr(A6) not on a 6-byte vector''
        else case lvo of None \<Rightarrow> Fail ''jsr(A6) but no bridge''
          | Some f \<Rightarrow> (case f (unat (delta div 6)) st of
              None \<Rightarrow> Fail ''bridge''
            | Some st' \<Rightarrow> Cont (jump st' (mpc st + 4)))))"

section \<open>Moves to and from the condition codes\<close>

definition op_move_from_ccr :: "m68k \<Rightarrow> u16 \<Rightarrow> iout" where
  "op_move_from_ccr st op =
     (if op AND 0xFFF8 \<noteq> 0x42C0 then Fall st
      else (let dn = r0 op in
        adv (setd st dn ((dreg st dn AND 0xFFFF0000) OR (ccr st AND 0x1F))) 2))"

definition op_move_to_ccr :: "m68k \<Rightarrow> u16 \<Rightarrow> iout" where
  "op_move_to_ccr st op =
     (if op AND 0xFFF8 \<noteq> 0x44C0 then Fall st
      else adv (setcc st (dreg st (r0 op) AND 0x1F)) 2)"

definition op_push_ccr :: "m68k \<Rightarrow> u16 \<Rightarrow> iout" where
  "op_push_ccr st op =
     (if op AND 0xFFF8 \<noteq> 0x42E0 then Fall st
      else (let an = r0 op; addr = areg st an - 2 in
        need ''move.w ccr,-(An): address out of sandbox''
          (mem_wr16 (box st) addr (ucast (ccr st AND 0x1F)))
          (\<lambda>sb. adv (seta (setbox st sb) an addr) 2)))"

definition op_pop_ccr :: "m68k \<Rightarrow> u16 \<Rightarrow> iout" where
  "op_pop_ccr st op =
     (if op AND 0xFFF8 \<noteq> 0x44D8 then Fall st
      else (let an = r0 op in
        need ''move.w (An)+,ccr: address out of sandbox'' (mem_rd16 (box st) (areg st an))
          (\<lambda>v. adv (seta (setcc st (ucast v AND 0x1F)) an (areg st an + 2)) 2)))"

section \<open>Calls and jumps\<close>

text \<open>The push all call forms share: check a7, store the return address big-endian.\<close>

definition push32 :: "string \<Rightarrow> m68k \<Rightarrow> u32 \<Rightarrow> (m68k \<Rightarrow> iout) \<Rightarrow> iout" where
  "push32 msg st v k =
     (let sp = areg st 7 - 4 in
      need msg (mem_wr32 (box st) sp v) (\<lambda>sb. k (seta (setbox st sb) 7 sp)))"

definition op_jsr_absl :: "m68k \<Rightarrow> u16 \<Rightarrow> iout" where
  "op_jsr_absl st op =
     (if op \<noteq> 0x4EB9 then Fall st
      else with32 st 2 (\<lambda>target.
        push32 ''jsr abs.l: a7 out of sandbox'' st (mpc st + 6)
          (\<lambda>st'. Cont (jump st' target))))"

definition op_jsr_an :: "m68k \<Rightarrow> u16 \<Rightarrow> iout" where
  "op_jsr_an st op =
     (if op AND 0xFFF8 \<noteq> 0x4E90 then Fall st
      else (let target = areg st (r0 op) in
        push32 ''jsr (An): a7 out of sandbox'' st (mpc st + 2)
          (\<lambda>st'. Cont (jump st' target))))"

definition op_jsr_indexed :: "m68k \<Rightarrow> u16 \<Rightarrow> iout" where
  "op_jsr_indexed st op =
     (if op AND 0xFFF8 \<noteq> 0x4EB0 then Fall st
      else case control_indexed_ea_i st (mpc st) (areg st (r0 op)) of
          None \<Rightarrow> Fail ''jsr indexed: invalid full extension''
        | Some (target, after) \<Rightarrow>
            push32 ''jsr indexed: a7 out of sandbox'' st after
              (\<lambda>st'. Cont (jump st' target)))"

definition op_jmp_absl :: "m68k \<Rightarrow> u16 \<Rightarrow> iout" where
  "op_jmp_absl st op =
     (if op \<noteq> 0x4EF9 then Fall st else with32 st 2 (\<lambda>t. Cont (jump st t)))"

definition op_jmp_an :: "m68k \<Rightarrow> u16 \<Rightarrow> iout" where
  "op_jmp_an st op =
     (if op AND 0xFFF8 \<noteq> 0x4ED0 then Fall st else Cont (jump st (areg st (r0 op))))"

definition op_jmp_indexed :: "m68k \<Rightarrow> u16 \<Rightarrow> iout" where
  "op_jmp_indexed st op =
     (if op AND 0xFFF8 \<noteq> 0x4EF0 then Fall st
      else case control_indexed_ea_i st (mpc st) (areg st (r0 op)) of
          None \<Rightarrow> Fail ''jmp indexed: invalid full extension''
        | Some (target, after) \<Rightarrow> Cont (jump st target))"

definition op_jsr_pc :: "m68k \<Rightarrow> u16 \<Rightarrow> iout" where
  "op_jsr_pc st op =
     (if op \<noteq> 0x4EBA then Fall st
      else with16s st 2 (\<lambda>d16.
        push32 ''jsr (d16,PC): a7 out of sandbox'' st (mpc st + 4)
          (\<lambda>st'. Cont (jump st' (mpc st + 2 + d16)))))"

definition op_jmp_pc :: "m68k \<Rightarrow> u16 \<Rightarrow> iout" where
  "op_jmp_pc st op =
     (if op \<noteq> 0x4EFA then Fall st
      else with16s st 2 (\<lambda>d16. Cont (jump st (mpc st + 2 + d16))))"

definition op_link :: "m68k \<Rightarrow> u16 \<Rightarrow> iout" where
  "op_link st op =
     (if op AND 0xFFF8 \<noteq> 0x4E50 then Fall st
      else with16s st 2 (\<lambda>d16.
        let an = r0 op; sp = areg st 7 - 4 in
        need ''link: a7 out of sandbox'' (mem_wr32 (box st) sp (areg st an))
          (\<lambda>sb. adv (seta (seta (setbox st sb) an sp) 7 (sp + d16)) 4)))"

definition op_unlk :: "m68k \<Rightarrow> u16 \<Rightarrow> iout" where
  "op_unlk st op =
     (if op AND 0xFFF8 \<noteq> 0x4E58 then Fall st
      else (let an = r0 op; sp = areg st an in
        need ''unlk: frame pointer out of sandbox'' (mem_rd32 (box st) sp)
          (\<lambda>v. adv (seta (seta st an v) 7 (sp + 4)) 2)))"

section \<open>Conditional branches\<close>

definition op_bcc :: "m68k \<Rightarrow> u16 \<Rightarrow> iout" where
  "op_bcc st op =
     (if op AND 0xF000 \<noteq> 0x6000 then Fall st
      else (let cc4 = unat (drop_bit 8 op AND 0xF); disp8 = (ucast (op AND 0xFF) :: u8);
                base = mpc st + 2;
                go = (\<lambda>target after.
                  if cc4 = 0x1 then
                    push32 ''bsr: a7 out of sandbox'' st after (\<lambda>st'. Cont (jump st' target))
                  else if cc4 = 0 \<or> bcc_taken cc4 (ccr st) then Cont (jump st target)
                  else Cont (jump st after))
        in if disp8 = 0 then with16s st 2 (\<lambda>d16. go (base + d16) (mpc st + 4))
           else if disp8 = 0xFF then with32 st 2 (\<lambda>d32. go (base + d32) (mpc st + 6))
           else go (base + sx8 disp8) (mpc st + 2)))"

definition op_scc :: "m68k \<Rightarrow> u16 \<Rightarrow> iout" where
  "op_scc st op =
     (if op AND 0xF0F8 \<noteq> 0x50C0 then Fall st
      else (let cc4 = unat (drop_bit 8 op AND 0xF); dn = r0 op;
                t = (if cc4 = 0 then True else if cc4 = 1 then False else bcc_taken cc4 (ccr st))
        in adv (setd st dn ((dreg st dn AND 0xFFFFFF00) OR (if t then 0xFF else 0x00))) 2))"

section \<open>Floating-point conditional control flow\<close>

definition FPSR_BSUN :: u32 where "FPSR_BSUN = 0x00008000"
definition FPSR_AIOP :: u32 where "FPSR_AIOP = 0x00000080"

text \<open>
  \<open>j5s_bsun\<close>: a signalling predicate on an unordered operand sets BSUN and the accrued
  bit, and traps through vector 48 when FPCR enables it; the callers take a handler address
  of \<open>0xFFFFFFFF\<close> for a failed raise. \<open>bsun st pred ret k\<close> runs the
  rest \<open>k\<close> of the block on the state after that check unless the trap was taken.
\<close>

definition bsun :: "m68k \<Rightarrow> u32 \<Rightarrow> u32 \<Rightarrow> (m68k \<Rightarrow> iout) \<Rightarrow> iout" where
  "bsun st pred return_pc k =
     (if \<not> (pred AND 0x10 \<noteq> 0 \<and> fpsr st AND FPSR_NAN \<noteq> 0) then k st
      else (let st1 = st\<lparr>fpsr := fpsr st OR FPSR_BSUN OR FPSR_AIOP\<rparr> in
        if fpcr st1 AND FPSR_BSUN \<noteq> 0 then
          (case iraise st1 48 return_pc of
             Inl e \<Rightarrow> Fail e
           | Inr (st2, h) \<Rightarrow> if h = 0xFFFFFFFF then Fail [] else Cont (jump st2 h))
        else k st1))"

definition op_fdbcc :: "m68k \<Rightarrow> u16 \<Rightarrow> iout" where
  "op_fdbcc st op =
     (if op AND 0xFFF8 \<noteq> 0xF248 then Fall st
      else with16 st 2 (\<lambda>w. with16s st 4 (\<lambda>disp16.
        let dn = r0 op; pred = ucast w AND 0x3f; disp_pc = mpc st + 4; after = mpc st + 6 in
        bsun st pred after (\<lambda>st.
          if j5q_fp_cond_taken pred (fpsr st) then Cont (jump st after)
          else (let cnt = (dreg st dn AND 0xFFFF) - 1 AND 0xFFFF;
                    st' = setd st dn ((dreg st dn AND 0xFFFF0000) OR cnt)
            in Cont (jump st' (if cnt = 0xFFFF then after else disp_pc + disp16)))))))"

definition op_ftrapcc :: "m68k \<Rightarrow> u16 \<Rightarrow> iout" where
  "op_ftrapcc st op =
     (if op AND 0xFFF8 \<noteq> 0xF278 then Fall st
      else with16 st 2 (\<lambda>w.
        let mode = r0 op; pred = ucast w AND 0x3f;
            after = mpc st + 4 + (if mode = 2 then 2 else if mode = 3 then 4 else 0) in
        bsun st pred after (\<lambda>st.
          if j5q_fp_cond_taken pred (fpsr st) then raise_to st 7 after
          else Cont (jump st after))))"

definition op_fscc :: "m68k \<Rightarrow> u16 \<Rightarrow> iout" where
  "op_fscc st op =
     (if op AND 0xFFC0 \<noteq> 0xF240 then Fall st
      else with16 st 2 (\<lambda>w.
        let pred = ucast w AND 0x3f; mode = f3 op; regn = r0 op;
            after0 = mpc st + 4 + (if mode = 5 then 2 else 0) in
        bsun st pred after0 (\<lambda>st.
          let val = (if j5q_fp_cond_taken pred (fpsr st) then 0xFF else 0x00) :: u8 in
          if mode = 0 then
            adv (setd st regn ((dreg st regn AND 0xFFFFFF00) OR ucast val)) 4
          else if mode = 2 then
            need ''FScc (An) destination out of sandbox'' (mem_wr8 (box st) (areg st regn) val)
              (\<lambda>sb. adv (setbox st sb) 4)
          else if mode = 5 then with16s st 4 (\<lambda>d16.
            need ''FScc (d16,An) destination out of sandbox''
              (mem_wr8 (box st) (areg st regn + d16) val) (\<lambda>sb. adv (setbox st sb) 6))
          else Fail ''FScc destination EA mode not in the [J5q] subset'')))"

definition op_fbcc :: "m68k \<Rightarrow> u16 \<Rightarrow> iout" where
  "op_fbcc st op =
     (if op AND 0xFF80 \<noteq> 0xF280 then Fall st
      else (let pred = ucast op AND 0x3f; disp_pc = mpc st + 2;
                go = (\<lambda>disp after. bsun st pred after (\<lambda>st.
                  Cont (jump st (if j5q_fp_cond_taken pred (fpsr st) then disp_pc + disp
                    else after))))
        in if op AND 0x40 \<noteq> 0 then with32 st 2 (\<lambda>d. go d (mpc st + 6))
           else with16s st 2 (\<lambda>d. go d (mpc st + 4))))"

end
