(* ===== verification/M68k_Alu.thy ===== *)
theory M68k_Alu
  imports M68k_Control
begin

text \<open>
  The arithmetic and logic blocks of the reference interpreter
  (\<open>hosted/jit68k/j5d_interp.c\<close>): the general \<open><op>.<sz> <ea>,Dn\<close> block, the
  immediate and register forms of add, sub, cmp, and, or, eor, the extended-precision
  \<open>addx\<close>/\<open>subx\<close>/\<open>negx\<close>, compare-and-swap, the quick forms, address arithmetic, and the
  68020 long multiplications and divisions. One definition per \<open>if\<close> block.
\<close>

section \<open>The general ALU block with a memory source\<close>

text \<open>The address of the source and the length of the instruction.\<close>

datatype easrc = EaUndef | EaBad | EaAt u32 u32

definition alu_ea :: "m68k \<Rightarrow> nat \<Rightarrow> nat \<Rightarrow> u32 \<Rightarrow> easrc" where
  "alu_ea st mode reg step =
     (let w16 = (\<lambda>f. case ip16 st 2 of None \<Rightarrow> EaUndef | Some w \<Rightarrow> f w) in
      if mode = 2 \<or> mode = 3 then EaAt (areg st reg) 2
      else if mode = 4 then EaAt (areg st reg - step) 2
      else if mode = 5 then w16 (\<lambda>w. EaAt (areg st reg + sx16 w) 4)
      else if mode = 6 then w16 (\<lambda>w. EaAt (idx_ea st (areg st reg) w) 4)
      else if reg = 1 then (case ip32 st 2 of None \<Rightarrow> EaUndef | Some l \<Rightarrow> EaAt l 6)
      else if reg = 3 then
        w16 (\<lambda>w. case brief_ea_i st w (mpc st + 2) of None \<Rightarrow> EaBad | Some a \<Rightarrow> EaAt a 4)
      else w16 (\<lambda>w. EaAt (mpc st + 2 + sx16 w) 4))"

definition alu_apply :: "m68k \<Rightarrow> u16 \<Rightarrow> nat \<Rightarrow> nat \<Rightarrow> u32 \<Rightarrow> m68k" where
  "alu_apply st line bits dn src =
     (let a = dreg st dn AND msk bits; b = src AND msk bits in
      if line = 0xC000 \<or> line = 0x8000 then
        (let res = (if line = 0xC000 then a AND b else a OR b) AND msk bits in
         setcc (setd st dn (merge bits (dreg st dn) res)) (logic_sz bits res (ccr st)))
      else if line = 0xD000 then
        setcc (setd st dn (merge bits (dreg st dn) (add_res bits a b))) (add_cc bits a b)
      else if line = 0x9000 then
        setcc (setd st dn (merge bits (dreg st dn) (sub_res bits a b))) (sub_cc bits a b)
      else setcc st (cmp_cc bits (ccr st) a b))"

definition op_alu_ea :: "m68k \<Rightarrow> u16 \<Rightarrow> iout" where
  "op_alu_ea st op =
     (let line = op AND 0xF000; opmode = f6 op; mode = f3 op; reg = r0 op;
          is_alu = (line = 0xD000 \<or> line = 0x9000 \<or> line = 0xC000 \<or> line = 0x8000 \<or> line = 0xB000);
          mem_mode = (mode = 2 \<or> mode = 3 \<or> mode = 4 \<or> mode = 5 \<or> mode = 6 \<or>
            (mode = 7 \<and> (reg = 1 \<or> reg = 2 \<or> reg = 3)))
      in if \<not> (is_alu \<and> opmode \<le> 2 \<and> mem_mode) then Fall st
         else (let dn = r9 op; bits = bits_of opmode; step = of_nat (bits div 8) in
           case alu_ea st mode reg step of
             EaUndef \<Rightarrow> Undef ''fetch outside host_mem''
           | EaBad \<Rightarrow> Fall st
           | EaAt addr len \<Rightarrow>
               need ''alu <ea>,Dn: address out of sandbox'' (rd_sz (box st) bits addr) (\<lambda>src.
                 let st1 = (if mode = 3 then seta st reg (areg st reg + step)
                            else if mode = 4 then seta st reg (areg st reg - step) else st)
                 in adv (alu_apply st1 line bits dn src) len)))"

section \<open>Read-modify-write and compare-and-swap\<close>

definition op_addi_subi_ind :: "m68k \<Rightarrow> u16 \<Rightarrow> iout" where
  "op_addi_subi_ind st op =
     (if \<not> (op AND 0xFFF8 = 0x0690 \<or> op AND 0xFFF8 = 0x0490) then Fall st
      else with32 st 2 (\<lambda>b.
        let addr = areg st (r0 op); is_add = (op AND 0x0F00 = 0x0600) in
        need ''addi/subi.l (An): address out of sandbox'' (mem_rd32 (box st) addr) (\<lambda>a.
          let res = (if is_add then add_res 32 a b else sub_res 32 a b) in
          need ''addi/subi.l (An): store out of sandbox'' (mem_wr32 (box st) addr res) (\<lambda>sb.
            adv (setcc (setbox st sb) (if is_add then add_cc 32 a b else sub_cc 32 a b)) 6))))"

definition op_cas :: "m68k \<Rightarrow> u16 \<Rightarrow> iout" where
  "op_cas st op =
     (if \<not> (op AND 0xFDF8 = 0x0CD0 \<or> op AND 0xFFF8 = 0x0AD0) then Fall st
      else with16 st 2 (\<lambda>ext.
        let bits = (if op AND 0xFF00 = 0x0A00 then 8 else if op AND 0xFF00 = 0x0C00 then 16 else 32);
            du = unat (drop_bit 6 ext AND 7); dc = unat (ext AND 7); addr = areg st (r0 op) in
        need ''cas: address out of sandbox'' (rd_sz (box st) bits addr) (\<lambda>mem.
          let c = dreg st dc AND msk bits; m = mem AND msk bits; res = sub_res bits c m;
              st1 = setcc st (cmp_cc bits (ccr st) c m) in
          if res = 0 then
            need ''cas: store out of sandbox'' (wr_sz (box st) bits addr (dreg st du AND msk bits))
              (\<lambda>sb. adv (setbox st1 sb) 4)
          else adv (setd st1 dc (if bits = 32 then mem else merge bits (dreg st dc) m)) 4)))"

section \<open>Byte and word immediates\<close>

definition op_addsubi_b :: "m68k \<Rightarrow> u16 \<Rightarrow> iout" where
  "op_addsubi_b st op =
     (if op AND 0xFDF8 \<noteq> 0x0400 then Fall st
      else with16 st 2 (\<lambda>w.
        let dn = r0 op; is_add = (op AND 0x0200 \<noteq> 0);
            a = dreg st dn AND 0xFF; b = ucast w AND 0xFF;
            res = (if is_add then add_res 8 a b else sub_res 8 a b) in
        adv (setcc (setd st dn ((dreg st dn AND 0xFFFFFF00) OR res))
          (if is_add then add_cc 8 a b else sub_cc 8 a b)) 4))"

definition op_addsub_b_imm :: "m68k \<Rightarrow> u16 \<Rightarrow> iout" where
  "op_addsub_b_imm st op =
     (if op AND 0xB1FF \<noteq> 0x903C then Fall st
      else with16 st 2 (\<lambda>w.
        let dn = r9 op; is_add = (op AND 0x4000 \<noteq> 0);
            a = dreg st dn AND 0xFF; b = ucast w AND 0xFF;
            res = (if is_add then add_res 8 a b else sub_res 8 a b) in
        adv (setcc (setd st dn ((dreg st dn AND 0xFFFFFF00) OR res))
          (if is_add then add_cc 8 a b else sub_cc 8 a b)) 4))"

text \<open>\<open>eori.w\<close>, \<open>eori.b\<close> and \<open>andi.w\<close> to a data register.\<close>

definition op_eori_w :: "m68k \<Rightarrow> u16 \<Rightarrow> iout" where
  "op_eori_w st op =
     (if op AND 0xFFF8 \<noteq> 0x0A40 then Fall st
      else with16 st 2 (\<lambda>w. let dn = r0 op; res = (dreg st dn AND 0xFFFF) XOR ucast w in
        adv (setcc (setd st dn ((dreg st dn AND 0xFFFF0000) OR res)) (logic_sz 16 res (ccr st))) 4))"

definition op_eori_b :: "m68k \<Rightarrow> u16 \<Rightarrow> iout" where
  "op_eori_b st op =
     (if op AND 0xFFF8 \<noteq> 0x0A00 then Fall st
      else with16 st 2 (\<lambda>w. let dn = r0 op; res = (dreg st dn AND 0xFF) XOR (ucast w AND 0xFF) in
        adv (setcc (setd st dn ((dreg st dn AND 0xFFFFFF00) OR res)) (logic_sz 8 res (ccr st))) 4))"

definition op_andi_w :: "m68k \<Rightarrow> u16 \<Rightarrow> iout" where
  "op_andi_w st op =
     (if op AND 0xFFF8 \<noteq> 0x0240 then Fall st
      else with16 st 2 (\<lambda>w. let dn = r0 op; res = (dreg st dn AND 0xFFFF) AND ucast w in
        adv (setcc (setd st dn ((dreg st dn AND 0xFFFF0000) OR res)) (logic_sz 16 res (ccr st))) 4))"

section \<open>Extended precision\<close>

definition op_addx :: "m68k \<Rightarrow> u16 \<Rightarrow> iout" where
  "op_addx st op =
     (if op AND 0xF138 \<noteq> 0xD100 then Fall st
      else (let dx = r9 op; dy = r0 op; bits = bits_of (sz6 op);
                xin = (if ccr st AND CCR_X \<noteq> 0 then 1 else 0) :: u64;
                a = dreg st dx AND msk bits; b = dreg st dy AND msk bits;
                s = ucast a + ucast b + xin; res = ucast s AND msk bits;
                carry = (drop_bit bits s AND 1 \<noteq> 0);
                overflow = (((a XOR res) AND (b XOR res)) AND msb bits \<noteq> 0)
        in adv (setcc (setd st dx (merge bits (dreg st dx) res))
             (sized_x_ccr res bits carry overflow (ccr st))) 2))"

definition op_subx :: "m68k \<Rightarrow> u16 \<Rightarrow> iout" where
  "op_subx st op =
     (if op AND 0xF138 \<noteq> 0x9100 then Fall st
      else (let dx = r9 op; dy = r0 op; bits = bits_of (sz6 op);
                xin = (if ccr st AND CCR_X \<noteq> 0 then 1 else 0) :: u64;
                a = dreg st dx AND msk bits; b = dreg st dy AND msk bits;
                diff = ucast a - ucast b - xin; res = ucast diff AND msk bits;
                borrow = (ucast b + xin > (ucast a :: u64));
                overflow = (((a XOR b) AND (a XOR res)) AND msb bits \<noteq> 0)
        in adv (setcc (setd st dx (merge bits (dreg st dx) res))
             (sized_x_ccr res bits borrow overflow (ccr st))) 2))"

definition op_negx :: "m68k \<Rightarrow> u16 \<Rightarrow> iout" where
  "op_negx st op =
     (if op AND 0xFF38 \<noteq> 0x4000 then Fall st
      else (let dn = r0 op; bits = bits_of (sz6 op);
                xin = (if ccr st AND CCR_X \<noteq> 0 then 1 else 0) :: u32;
                a = dreg st dn AND msk bits;
                diff = (0 :: u64) - ucast a - ucast xin; res = ucast diff AND msk bits;
                borrow = (a + xin \<noteq> 0);
                overflow = ((a AND res) AND msb bits \<noteq> 0)
        in adv (setcc (setd st dn (merge bits (dreg st dn) res))
             (sized_x_ccr res bits borrow overflow (ccr st))) 2))"

definition op_neg :: "m68k \<Rightarrow> u16 \<Rightarrow> iout" where
  "op_neg st op =
     (if op AND 0xFF38 \<noteq> 0x4400 then Fall st
      else (let dn = r0 op; bits = bits_of (sz6 op); a = dreg st dn AND msk bits;
                res = (0 - a) AND msk bits
        in adv (setcc (setd st dn (merge bits (dreg st dn) res))
             (flg (a \<noteq> 0) (CCR_C OR CCR_X) OR flg (a = msb bits) CCR_V OR nz_sz bits res)) 2))"

section \<open>Long add, sub and cmp\<close>

definition add_to :: "m68k \<Rightarrow> nat \<Rightarrow> u32 \<Rightarrow> m68k" where
  "add_to st dn b = setcc (setd st dn (add_res 32 (dreg st dn) b)) (add_cc 32 (dreg st dn) b)"

definition sub_from :: "m68k \<Rightarrow> nat \<Rightarrow> u32 \<Rightarrow> m68k" where
  "sub_from st dn b = setcc (setd st dn (sub_res 32 (dreg st dn) b)) (sub_cc 32 (dreg st dn) b)"

definition op_add_l_imm :: "m68k \<Rightarrow> u16 \<Rightarrow> iout" where
  "op_add_l_imm st op =
     (if op AND 0xF1FF \<noteq> 0xD0BC then Fall st
      else with32 st 2 (\<lambda>b. adv (add_to st (r9 op) b) 6))"

definition op_sub_l_imm :: "m68k \<Rightarrow> u16 \<Rightarrow> iout" where
  "op_sub_l_imm st op =
     (if op AND 0xF1FF \<noteq> 0x90BC then Fall st
      else with32 st 2 (\<lambda>b. adv (sub_from st (r9 op) b) 6))"

definition op_cmp_l_imm :: "m68k \<Rightarrow> u16 \<Rightarrow> iout" where
  "op_cmp_l_imm st op =
     (if op AND 0xF1FF \<noteq> 0xB0BC then Fall st
      else with32 st 2 (\<lambda>b. adv (setcc st (cmp_cc 32 (ccr st) (dreg st (r9 op)) b)) 6))"

definition op_add_l_dm :: "m68k \<Rightarrow> u16 \<Rightarrow> iout" where
  "op_add_l_dm st op =
     (if op AND 0xF1F8 \<noteq> 0xD080 then Fall st else adv (add_to st (r9 op) (dreg st (r0 op))) 2)"

definition op_add_l_am :: "m68k \<Rightarrow> u16 \<Rightarrow> iout" where
  "op_add_l_am st op =
     (if op AND 0xF1F8 \<noteq> 0xD088 then Fall st else adv (add_to st (r9 op) (areg st (r0 op))) 2)"

definition op_add_l_postinc :: "m68k \<Rightarrow> u16 \<Rightarrow> iout" where
  "op_add_l_postinc st op =
     (if op AND 0xF1F8 \<noteq> 0xD098 then Fall st
      else (let an = r0 op; addr = areg st an in
        need ''add.l (An)+ address out of sandbox'' (mem_rd32 (box st) addr)
          (\<lambda>b. adv (seta (add_to st (r9 op) b) an (addr + 4)) 2)))"

definition op_add_l_ind :: "m68k \<Rightarrow> u16 \<Rightarrow> iout" where
  "op_add_l_ind st op =
     (if op AND 0xF1F8 \<noteq> 0xD090 then Fall st
      else need ''add.l (An): address out of sandbox'' (mem_rd32 (box st) (areg st (r0 op)))
        (\<lambda>b. adv (add_to st (r9 op) b) 2))"

definition op_addsub_bw_dm :: "m68k \<Rightarrow> u16 \<Rightarrow> iout" where
  "op_addsub_bw_dm st op =
     (if \<not> (op AND 0xF1F8 = 0xD000 \<or> op AND 0xF1F8 = 0xD040 \<or>
           op AND 0xF1F8 = 0x9000 \<or> op AND 0xF1F8 = 0x9040) then Fall st
      else (let dn = r9 op; is_add = (op AND 0xF000 = 0xD000);
                bits = (if sz6 op = 0 then 8 else 16);
                a = dreg st dn AND msk bits; b = dreg st (r0 op) AND msk bits;
                res = (if is_add then add_res bits a b else sub_res bits a b)
        in adv (setcc (setd st dn (merge bits (dreg st dn) res))
             (if is_add then add_cc bits a b else sub_cc bits a b)) 2))"

definition op_sub_l_dm :: "m68k \<Rightarrow> u16 \<Rightarrow> iout" where
  "op_sub_l_dm st op =
     (if op AND 0xF1F8 \<noteq> 0x9080 then Fall st else adv (sub_from st (r9 op) (dreg st (r0 op))) 2)"

definition op_sub_l_disp :: "m68k \<Rightarrow> u16 \<Rightarrow> iout" where
  "op_sub_l_disp st op =
     (if op AND 0xF1F8 \<noteq> 0x90A8 then Fall st
      else with16s st 2 (\<lambda>d16.
        need ''sub.l (d16,An): address out of sandbox''
          (mem_rd32 (box st) (areg st (r0 op) + d16)) (\<lambda>b. adv (sub_from st (r9 op) b) 4)))"

definition op_add_l_disp :: "m68k \<Rightarrow> u16 \<Rightarrow> iout" where
  "op_add_l_disp st op =
     (if op AND 0xF1F8 \<noteq> 0xD0A8 then Fall st
      else with16s st 2 (\<lambda>d16.
        need ''add.l (d16,An): address out of sandbox''
          (mem_rd32 (box st) (areg st (r0 op) + d16)) (\<lambda>b. adv (add_to st (r9 op) b) 4)))"

section \<open>Logic with immediates and registers\<close>

definition op_and_l_imm :: "m68k \<Rightarrow> u16 \<Rightarrow> iout" where
  "op_and_l_imm st op =
     (if op AND 0xF1FF \<noteq> 0xC0BC then Fall st
      else with32 st 2 (\<lambda>imm. let dn = r9 op; res = dreg st dn AND imm in
        adv (setcc (setd st dn res) (nz32 res (ccr st AND CCR_X))) 6))"

definition op_cmpi_b_dn :: "m68k \<Rightarrow> u16 \<Rightarrow> iout" where
  "op_cmpi_b_dn st op =
     (if op AND 0xFFF8 \<noteq> 0x0C00 then Fall st
      else with16 st 2 (\<lambda>w.
        adv (setcc st (cmp_cc 8 (ccr st) (dreg st (r0 op) AND 0xFF) (ucast w AND 0xFF))) 4))"

text \<open>The sized immediate that precedes the effective-address extension, and its length.\<close>

definition imm_sz :: "m68k \<Rightarrow> nat \<Rightarrow> (u32 \<times> nat) option" where
  "imm_sz st bits =
     (if bits = 8 then map_option (\<lambda>w. (ucast w AND 0xFF, 4)) (ip16 st 2)
      else if bits = 16 then map_option (\<lambda>w. (ucast w, 4)) (ip16 st 2)
      else map_option (\<lambda>l. (l, 6)) (ip32 st 2))"

definition op_cmpi_ea :: "m68k \<Rightarrow> u16 \<Rightarrow> iout" where
  "op_cmpi_ea st op =
     (let mode = f3 op; reg = r0 op; bits = bits_of (sz6 op) in
      if \<not> (op AND 0xFF00 = 0x0C00 \<and> sz6 op \<noteq> 3 \<and>
            (mode = 2 \<or> mode = 3 \<or> mode = 6 \<or> (mode = 7 \<and> reg = 1))) then Fall st
      else case imm_sz st bits of None \<Rightarrow> Undef ''fetch outside host_mem''
      | Some (imm, k) \<Rightarrow>
        (let go = (\<lambda>addr len.
           need ''cmpi <ea>: address out of sandbox'' (rd_sz (box st) bits addr) (\<lambda>a.
             let st1 = (if mode = 3 then seta st reg (areg st reg + of_nat (bits div 8)) else st) in
             adv (setcc st1 (cmp_cc bits (ccr st) (a AND msk bits) (imm AND msk bits))) (of_nat len)))
         in if mode = 2 \<or> mode = 3 then go (areg st reg) k
            else if mode = 6 then with16 st k (\<lambda>w. go (idx_ea st (areg st reg) w) (k + 2))
            else with32 st k (\<lambda>l. go l (k + 4))))"

definition op_cmpi_w_dn :: "m68k \<Rightarrow> u16 \<Rightarrow> iout" where
  "op_cmpi_w_dn st op =
     (if op AND 0xFFF8 \<noteq> 0x0C40 then Fall st
      else with16 st 2 (\<lambda>w.
        adv (setcc st (cmp_cc 16 (ccr st) (dreg st (r0 op) AND 0xFFFF) (ucast w))) 4))"

definition op_andor_w_imm :: "m68k \<Rightarrow> u16 \<Rightarrow> iout" where
  "op_andor_w_imm st op =
     (if \<not> (op AND 0xF1FF = 0xC07C \<or> op AND 0xF1FF = 0x807C) then Fall st
      else with16 st 2 (\<lambda>w.
        let dn = r9 op; is_and = (op AND 0xF000 = 0xC000); lo = dreg st dn AND 0xFFFF;
            res = (if is_and then lo AND ucast w else lo OR ucast w) in
        adv (setcc (setd st dn ((dreg st dn AND 0xFFFF0000) OR res)) (logic_sz 16 res (ccr st))) 4))"

definition op_and_b_imm :: "m68k \<Rightarrow> u16 \<Rightarrow> iout" where
  "op_and_b_imm st op =
     (if op AND 0xF1FF \<noteq> 0xC03C then Fall st
      else with16 st 2 (\<lambda>w. let dn = r9 op; res = (dreg st dn AND 0xFF) AND (ucast w AND 0xFF) in
        adv (setcc (setd st dn ((dreg st dn AND 0xFFFFFF00) OR res)) (logic_sz 8 res (ccr st))) 4))"

definition op_or_b_imm :: "m68k \<Rightarrow> u16 \<Rightarrow> iout" where
  "op_or_b_imm st op =
     (if op AND 0xF1FF \<noteq> 0x803C then Fall st
      else with16 st 2 (\<lambda>w. let dn = r9 op; res = (dreg st dn AND 0xFF) OR (ucast w AND 0xFF) in
        adv (setcc (setd st dn ((dreg st dn AND 0xFFFFFF00) OR res)) (logic_sz 8 res (ccr st))) 4))"

definition op_or_l_imm :: "m68k \<Rightarrow> u16 \<Rightarrow> iout" where
  "op_or_l_imm st op =
     (if op AND 0xF1FF \<noteq> 0x80BC then Fall st
      else with32 st 2 (\<lambda>imm. let dn = r9 op; res = dreg st dn OR imm in
        adv (setcc (setd st dn res) (nz32 res (ccr st AND CCR_X))) 6))"

definition op_andor_bw_dm :: "m68k \<Rightarrow> u16 \<Rightarrow> iout" where
  "op_andor_bw_dm st op =
     (if \<not> (op AND 0xF1F8 = 0xC000 \<or> op AND 0xF1F8 = 0xC040 \<or>
           op AND 0xF1F8 = 0x8000 \<or> op AND 0xF1F8 = 0x8040) then Fall st
      else (let dn = r9 op; dm = r0 op; is_and = (op AND 0xF000 = 0xC000);
                bits = (if sz6 op = 0 then 8 else 16);
                res = (if is_and then (dreg st dn AND dreg st dm) AND msk bits
                       else (dreg st dn OR dreg st dm) AND msk bits)
        in adv (setcc (setd st dn (merge bits (dreg st dn) res)) (logic_sz bits res (ccr st))) 2))"

definition op_and_l_dm :: "m68k \<Rightarrow> u16 \<Rightarrow> iout" where
  "op_and_l_dm st op =
     (if op AND 0xF1F8 \<noteq> 0xC080 then Fall st
      else (let dn = r9 op; res = dreg st dn AND dreg st (r0 op) in
        adv (setcc (setd st dn res) (nz32 res (ccr st AND CCR_X))) 2))"

definition op_or_l_dm :: "m68k \<Rightarrow> u16 \<Rightarrow> iout" where
  "op_or_l_dm st op =
     (if op AND 0xF1F8 \<noteq> 0x8080 then Fall st
      else (let dn = r9 op; res = dreg st dn OR dreg st (r0 op) in
        adv (setcc (setd st dn res) (nz32 res (ccr st AND CCR_X))) 2))"

definition op_eor_l :: "m68k \<Rightarrow> u16 \<Rightarrow> iout" where
  "op_eor_l st op =
     (if op AND 0xF1F8 \<noteq> 0xB180 then Fall st
      else (let dm = r0 op; res = dreg st dm XOR dreg st (r9 op) in
        adv (setcc (setd st dm res) (nz32 res (ccr st AND CCR_X))) 2))"

definition op_cmp_l_dm :: "m68k \<Rightarrow> u16 \<Rightarrow> iout" where
  "op_cmp_l_dm st op =
     (if op AND 0xF1F8 \<noteq> 0xB080 then Fall st
      else adv (setcc st (cmp_cc 32 (ccr st) (dreg st (r9 op)) (dreg st (r0 op)))) 2)"

text \<open>\<open>muls.w\<close>: the product of two 16-bit values fits in 32 bits.\<close>

definition op_muls_w :: "m68k \<Rightarrow> u16 \<Rightarrow> iout" where
  "op_muls_w st op =
     (if op AND 0xF1C0 \<noteq> 0xC1C0 then Fall st
      else (let dn = r9 op; a = sint (ucast (dreg st dn AND 0xFFFF) :: u16);
                b = sint (ucast (dreg st (r0 op) AND 0xFFFF) :: u16);
                res = word_of_int (a * b) :: u32
        in adv (setcc (setd st dn res) (nz32 res (ccr st AND CCR_X))) 2))"

section \<open>Quick forms\<close>

definition quick :: "u16 \<Rightarrow> u32" where
  "quick op = (if r9 op = 0 then 8 else of_nat (r9 op))"

definition op_addq_l_an :: "m68k \<Rightarrow> u16 \<Rightarrow> iout" where
  "op_addq_l_an st op =
     (if op AND 0xF1F8 \<noteq> 0x5088 then Fall st
      else adv (seta st (r0 op) (areg st (r0 op) + quick op)) 2)"

definition op_subq_l_an :: "m68k \<Rightarrow> u16 \<Rightarrow> iout" where
  "op_subq_l_an st op =
     (if op AND 0xF1F8 \<noteq> 0x5188 then Fall st
      else adv (seta st (r0 op) (areg st (r0 op) - quick op)) 2)"

definition op_addq_l_dn :: "m68k \<Rightarrow> u16 \<Rightarrow> iout" where
  "op_addq_l_dn st op =
     (if op AND 0xF1F8 \<noteq> 0x5080 then Fall st else adv (add_to st (r0 op) (quick op)) 2)"

definition op_subq_l_dn :: "m68k \<Rightarrow> u16 \<Rightarrow> iout" where
  "op_subq_l_dn st op =
     (if op AND 0xF1F8 \<noteq> 0x5180 then Fall st else adv (sub_from st (r0 op) (quick op)) 2)"

section \<open>Long immediates on a data register, and btst\<close>

definition op_line0_l :: "m68k \<Rightarrow> u16 \<Rightarrow> iout" where
  "op_line0_l st op =
     (let hi = op AND 0xFF00 in
      if \<not> (f3 op = 0 \<and> op AND 0x00C0 = 0x0080 \<and>
            (hi = 0x0600 \<or> hi = 0x0400 \<or> hi = 0x0200 \<or> hi = 0x0000 \<or> hi = 0x0A00 \<or> hi = 0x0C00))
      then Fall st
      else with32 st 2 (\<lambda>imm.
        let dn = r0 op; a = dreg st dn;
            logic = (\<lambda>res. setcc (setd st dn res) (logic_ccr res (ccr st))) in
        adv (if hi = 0x0600 then add_to st dn imm
             else if hi = 0x0400 then sub_from st dn imm
             else if hi = 0x0C00 then setcc st (cmp_cc 32 (ccr st) a imm)
             else if hi = 0x0200 then logic (a AND imm)
             else if hi = 0x0000 then logic (a OR imm)
             else logic (a XOR imm)) 6))"

definition op_btst :: "m68k \<Rightarrow> u16 \<Rightarrow> iout" where
  "op_btst st op =
     (if \<not> (op AND 0xFF00 = 0x0800 \<and> f3 op = 0) then Fall st
      else with16 st 2 (\<lambda>w.
        let nr = unat (w AND 31); tested = drop_bit nr (dreg st (r0 op)) AND 1 in
        adv (setcc st ((ccr st AND NOT CCR_Z) OR flg (tested = 0) CCR_Z)) 4))"

section \<open>Address arithmetic\<close>

definition op_suba_w_imm :: "m68k \<Rightarrow> u16 \<Rightarrow> iout" where
  "op_suba_w_imm st op =
     (if op AND 0xF1FF \<noteq> 0x90FC then Fall st
      else with16s st 2 (\<lambda>s. adv (seta st (r9 op) (areg st (r9 op) - s)) 4))"

definition op_adda_w_imm :: "m68k \<Rightarrow> u16 \<Rightarrow> iout" where
  "op_adda_w_imm st op =
     (if op AND 0xF1FF \<noteq> 0xD0FC then Fall st
      else with16s st 2 (\<lambda>s. adv (seta st (r9 op) (areg st (r9 op) + s)) 4))"

definition op_suba_l_imm :: "m68k \<Rightarrow> u16 \<Rightarrow> iout" where
  "op_suba_l_imm st op =
     (if op AND 0xF1FF \<noteq> 0x91FC then Fall st
      else with32 st 2 (\<lambda>s. adv (seta st (r9 op) (areg st (r9 op) - s)) 6))"

definition op_adda_l_imm :: "m68k \<Rightarrow> u16 \<Rightarrow> iout" where
  "op_adda_l_imm st op =
     (if op AND 0xF1FF \<noteq> 0xD1FC then Fall st
      else with32 st 2 (\<lambda>s. adv (seta st (r9 op) (areg st (r9 op) + s)) 6))"

definition op_addsuba :: "m68k \<Rightarrow> u16 \<Rightarrow> iout" where
  "op_addsuba st op =
     (if \<not> (op AND 0xF1C0 = 0xD0C0 \<or> op AND 0xF1C0 = 0xD1C0 \<or>
           op AND 0xF1C0 = 0x90C0 \<or> op AND 0xF1C0 = 0x91C0) then Fall st
      else (let an = r9 op; is_sub = (op AND 0xF000 = 0x9000); islong = (f6 op = 7);
                sm = f3 op; sr = r0 op in
        if \<not> (sm = 0 \<or> sm = 1) then Fail ''adda/suba: unsupported source EA in oracle''
        else (let s0 = (if sm = 0 then dreg st sr else areg st sr);
                  s = (if islong then s0 else sx16 (ucast s0))
          in adv (seta st an (if is_sub then areg st an - s else areg st an + s)) 2)))"

definition op_addq_w_an :: "m68k \<Rightarrow> u16 \<Rightarrow> iout" where
  "op_addq_w_an st op =
     (if op AND 0xF1F8 \<noteq> 0x5048 then Fall st
      else adv (seta st (r0 op) (areg st (r0 op) + quick op)) 2)"

definition op_subq_w_an :: "m68k \<Rightarrow> u16 \<Rightarrow> iout" where
  "op_subq_w_an st op =
     (if op AND 0xF1F8 \<noteq> 0x5148 then Fall st
      else adv (seta st (r0 op) (areg st (r0 op) - quick op)) 2)"

definition op_addq_w_dn :: "m68k \<Rightarrow> u16 \<Rightarrow> iout" where
  "op_addq_w_dn st op =
     (if op AND 0xF1F8 \<noteq> 0x5040 then Fall st
      else (let dn = r0 op; a = dreg st dn AND 0xFFFF; imm = quick op in
        adv (setcc (setd st dn ((dreg st dn AND 0xFFFF0000) OR add_res 16 a imm)) (add_cc 16 a imm)) 2))"

definition op_subq_w_dn :: "m68k \<Rightarrow> u16 \<Rightarrow> iout" where
  "op_subq_w_dn st op =
     (if op AND 0xF1F8 \<noteq> 0x5140 then Fall st
      else (let dn = r0 op; a = dreg st dn AND 0xFFFF; imm = quick op in
        adv (setcc (setd st dn ((dreg st dn AND 0xFFFF0000) OR sub_res 16 a imm)) (sub_cc 16 a imm)) 2))"

definition op_addq_b_dn :: "m68k \<Rightarrow> u16 \<Rightarrow> iout" where
  "op_addq_b_dn st op =
     (if op AND 0xF1F8 \<noteq> 0x5000 then Fall st
      else (let dn = r0 op; a = dreg st dn AND 0xFF; imm = quick op in
        adv (setcc (setd st dn ((dreg st dn AND 0xFFFFFF00) OR add_res 8 a imm)) (add_cc 8 a imm)) 2))"

definition op_subq_b_dn :: "m68k \<Rightarrow> u16 \<Rightarrow> iout" where
  "op_subq_b_dn st op =
     (if op AND 0xF1F8 \<noteq> 0x5100 then Fall st
      else (let dn = r0 op; a = dreg st dn AND 0xFF; imm = quick op in
        adv (setcc (setd st dn ((dreg st dn AND 0xFFFFFF00) OR sub_res 8 a imm)) (sub_cc 8 a imm)) 2))"

end
