(* ===== verification/M68k_Move.thy ===== *)
theory M68k_Move
  imports M68k_Alu
begin

text \<open>
  The data-movement blocks of the reference interpreter
  (\<open>hosted/jit68k/j5d_interp.c\<close>): the moves with their effective addresses,
  \<open>clr\<close>, \<open>tst\<close>, \<open>lea\<close>, \<open>pea\<close>, \<open>movem\<close>, the
  comparisons with memory, the one-operand register forms, the shifts and rotates, the
  68020 long multiplications and divisions, and the floating-point register moves.
  One definition per \<open>if\<close> block.
\<close>

section \<open>Effective addresses with extension words\<close>

text \<open>
  The address of a memory operand whose extension words start \<open>k\<close> bytes into the
  instruction, and the offset after them: the computation that the move, \<open>tst\<close>,
  \<open>pea\<close>, \<open>cmp\<close> and \<open>movem\<close> blocks repeat for \<open>(An)\<close>, \<open>(d16,An)\<close>,
  \<open>(d8,An,Xn)\<close>, \<open>abs.w\<close>, \<open>abs.l\<close> and \<open>(d16,PC)\<close>. Each block tests the modes
  it supports before it asks for the address.
\<close>

datatype ea = EUndef | ENone | EA u32 nat

definition ea_mem :: "m68k \<Rightarrow> nat \<Rightarrow> nat \<Rightarrow> nat \<Rightarrow> ea" where
  "ea_mem st mode reg k =
     (let w16 = (\<lambda>f. case ip16 st k of None \<Rightarrow> EUndef | Some w \<Rightarrow> EA (f w) (k + 2)) in
      if mode = 2 then EA (areg st reg) k
      else if mode = 5 then w16 (\<lambda>w. areg st reg + sx16 w)
      else if mode = 6 then w16 (idx_ea st (areg st reg))
      else if mode = 7 \<and> reg = 0 then w16 sx16
      else if mode = 7 \<and> reg = 1 then
        (case ip32 st k of None \<Rightarrow> EUndef | Some l \<Rightarrow> EA l (k + 4))
      else if mode = 7 \<and> reg = 2 then w16 (\<lambda>w. mpc st + of_nat k + sx16 w)
      else ENone)"

text \<open>
  A source operand: its value, the state after the side effects of its addressing mode, and
  the offset after its extension words; \<open>SNone\<close> is \<open>handled = 0\<close>, \<open>SOob\<close> a failed
  range check. A destination: the state after the store, or the same failures.
\<close>

datatype src = SUndef | SOob | SNone | SVal m68k u32 nat
datatype dst = DUndef | DOob | DNone | DDone m68k nat

definition rd_src :: "m68k \<Rightarrow> nat \<Rightarrow> ea \<Rightarrow> src" where
  "rd_src st bits e =
     (case e of EUndef \<Rightarrow> SUndef | ENone \<Rightarrow> SNone
      | EA a k \<Rightarrow> (case rd_sz (box st) bits a of None \<Rightarrow> SOob | Some v \<Rightarrow> SVal st v k))"

definition wr_dst :: "m68k \<Rightarrow> nat \<Rightarrow> u32 \<Rightarrow> ea \<Rightarrow> dst" where
  "wr_dst st bits v e =
     (case e of EUndef \<Rightarrow> DUndef | ENone \<Rightarrow> DNone
      | EA a k \<Rightarrow> (case wr_sz (box st) bits a v of
          None \<Rightarrow> DOob | Some sb \<Rightarrow> DDone (setbox st sb) k))"

section \<open>Immediate, clr, tst and lea fast paths\<close>

definition op_movea_w_imm :: "m68k \<Rightarrow> u16 \<Rightarrow> iout" where
  "op_movea_w_imm st op =
     (if \<not> (op AND 0xF1FF = 0x307C \<and> f6 op = 1) then Fall st
      else with16s st 2 (\<lambda>s. adv (seta st (r9 op) s) 4))"

text \<open>\<open>st->ccr = (st->ccr & X) | Z\<close> after a clear.\<close>

definition clr_cc :: "m68k \<Rightarrow> m68k" where
  "clr_cc st = setcc st ((ccr st AND CCR_X) OR CCR_Z)"

definition op_clr_l_predec :: "m68k \<Rightarrow> u16 \<Rightarrow> iout" where
  "op_clr_l_predec st op =
     (if op AND 0xFFF8 \<noteq> 0x42A0 then Fall st
      else (let an = r0 op; ea = areg st an - 4 in
        need ''clr.l -(An): address out of sandbox'' (mem_wr32 (box st) ea 0)
          (\<lambda>sb. adv (clr_cc (seta (setbox st sb) an ea)) 2)))"

definition op_clr_l_ind :: "m68k \<Rightarrow> u16 \<Rightarrow> iout" where
  "op_clr_l_ind st op =
     (if op AND 0xFFF8 \<noteq> 0x4290 then Fall st
      else need ''clr.l (An): address out of sandbox'' (mem_wr32 (box st) (areg st (r0 op)) 0)
        (\<lambda>sb. adv (clr_cc (setbox st sb)) 2))"

definition op_clr_l_disp :: "m68k \<Rightarrow> u16 \<Rightarrow> iout" where
  "op_clr_l_disp st op =
     (if op AND 0xFFF8 \<noteq> 0x42A8 then Fall st
      else with16s st 2 (\<lambda>d16.
        need ''clr.l (d16,An): address out of sandbox''
          (mem_wr32 (box st) (areg st (r0 op) + d16) 0) (\<lambda>sb. adv (clr_cc (setbox st sb)) 4)))"

definition op_tst_l_disp :: "m68k \<Rightarrow> u16 \<Rightarrow> iout" where
  "op_tst_l_disp st op =
     (if op AND 0xFFF8 \<noteq> 0x4AA8 then Fall st
      else with16s st 2 (\<lambda>d16.
        need ''tst.l (d16,An): address out of sandbox''
          (mem_rd32 (box st) (areg st (r0 op) + d16))
          (\<lambda>v. adv (setcc st (nz32 v (ccr st AND CCR_X))) 4)))"

definition op_tst_l_abs :: "m68k \<Rightarrow> u16 \<Rightarrow> iout" where
  "op_tst_l_abs st op =
     (if op \<noteq> 0x4AB9 then Fall st
      else with32 st 2 (\<lambda>addr.
        need ''tst.l abs.l: address out of sandbox'' (mem_rd32 (box st) addr)
          (\<lambda>v. adv (setcc st (nz32 v (ccr st AND CCR_X))) 6)))"

definition op_clr_l_abs :: "m68k \<Rightarrow> u16 \<Rightarrow> iout" where
  "op_clr_l_abs st op =
     (if op \<noteq> 0x42B9 then Fall st
      else with32 st 2 (\<lambda>addr.
        need ''clr.l abs.l: address out of sandbox'' (mem_wr32 (box st) addr 0)
          (\<lambda>sb. adv (clr_cc (setbox st sb)) 6)))"

definition op_moveq :: "m68k \<Rightarrow> u16 \<Rightarrow> iout" where
  "op_moveq st op =
     (if op AND 0xF100 \<noteq> 0x7000 then Fall st
      else (let v = sx8 (ucast (op AND 0xFF)) in
        adv (setcc (setd st (r9 op) v)
          ((ccr st AND CCR_X) OR flg (v = 0) CCR_Z OR flg (v <s 0) CCR_N)) 2))"

definition op_move_l_imm :: "m68k \<Rightarrow> u16 \<Rightarrow> iout" where
  "op_move_l_imm st op =
     (if op AND 0xF1FF \<noteq> 0x203C then Fall st
      else with32 st 2 (\<lambda>v. adv (setcc (setd st (r9 op) v) (nz32 v (ccr st AND CCR_X))) 6))"

definition op_movea_l_imm :: "m68k \<Rightarrow> u16 \<Rightarrow> iout" where
  "op_movea_l_imm st op =
     (if op AND 0xF1FF \<noteq> 0x207C then Fall st
      else with32 st 2 (\<lambda>v. adv (seta st (r9 op) v) 6))"

definition op_move_l_dm :: "m68k \<Rightarrow> u16 \<Rightarrow> iout" where
  "op_move_l_dm st op =
     (if op AND 0xF1F8 \<noteq> 0x2000 then Fall st
      else (let v = dreg st (r0 op) in
        adv (setcc (setd st (r9 op) v) (nz32 v (ccr st AND CCR_X))) 2))"

definition op_movea_l_dn :: "m68k \<Rightarrow> u16 \<Rightarrow> iout" where
  "op_movea_l_dn st op =
     (if op AND 0xF1F8 \<noteq> 0x2040 then Fall st
      else adv (seta st (r9 op) (dreg st (r0 op))) 2)"

definition op_movea_l_an :: "m68k \<Rightarrow> u16 \<Rightarrow> iout" where
  "op_movea_l_an st op =
     (if op AND 0xF1F8 \<noteq> 0x2048 then Fall st
      else adv (seta st (r9 op) (areg st (r0 op))) 2)"

definition op_lea_abs :: "m68k \<Rightarrow> u16 \<Rightarrow> iout" where
  "op_lea_abs st op =
     (if op AND 0xF1FF \<noteq> 0x41F9 then Fall st
      else with32 st 2 (\<lambda>v. adv (seta st (r9 op) v) 6))"

definition op_lea_pc :: "m68k \<Rightarrow> u16 \<Rightarrow> iout" where
  "op_lea_pc st op =
     (if op AND 0xF1FF \<noteq> 0x41FA then Fall st
      else with16s st 2 (\<lambda>d16. adv (seta st (r9 op) (mpc st + 2 + d16)) 4))"

definition op_lea_disp :: "m68k \<Rightarrow> u16 \<Rightarrow> iout" where
  "op_lea_disp st op =
     (if op AND 0xF1F8 \<noteq> 0x41E8 then Fall st
      else with16s st 2 (\<lambda>d16. adv (seta st (r9 op) (areg st (r0 op) + d16)) 4))"

text \<open>This block adds the index without the scale of the extension word.\<close>

definition op_lea_indexed :: "m68k \<Rightarrow> u16 \<Rightarrow> iout" where
  "op_lea_indexed st op =
     (if op AND 0xF1F8 \<noteq> 0x41F0 then Fall st
      else with16 st 2 (\<lambda>brief.
        adv (seta st (r9 op) (areg st (r0 op) + brief_d8 brief + brief_index st brief)) 4))"

section \<open>move.l with effective addresses\<close>

definition move_l_src :: "m68k \<Rightarrow> nat \<Rightarrow> nat \<Rightarrow> src" where
  "move_l_src st mode reg =
     (if mode = 0 then SVal st (dreg st reg) 2
      else if mode = 1 then SVal st (areg st reg) 2
      else if mode = 3 then
        (case mem_rd32 (box st) (areg st reg) of None \<Rightarrow> SOob
         | Some v \<Rightarrow> SVal (seta st reg (areg st reg + 4)) v 2)
      else if mode = 4 then rd_src (seta st reg (areg st reg - 4)) 32 (EA (areg st reg - 4) 2)
      else if mode = 7 \<and> reg = 3 then
        (case ip16 st 2 of None \<Rightarrow> SUndef
         | Some w \<Rightarrow> (case brief_ea_i st w (mpc st + 2) of None \<Rightarrow> SNone
           | Some a \<Rightarrow> rd_src st 32 (EA a 4)))
      else if mode = 7 \<and> reg = 4 then
        (case ip32 st 2 of None \<Rightarrow> SUndef | Some l \<Rightarrow> SVal st l 6)
      else rd_src st 32 (ea_mem st mode reg 2))"

definition move_l_dst :: "m68k \<Rightarrow> nat \<Rightarrow> nat \<Rightarrow> u32 \<Rightarrow> nat \<Rightarrow> dst" where
  "move_l_dst st mode reg v k =
     (let fl = (\<lambda>s. setcc s (logic_ccr v (ccr st)));
          flags = (\<lambda>d. case d of DDone s k' \<Rightarrow> DDone (fl s) k' | _ \<Rightarrow> d) in
      if mode = 0 then DDone (fl (setd st reg v)) k
      else if mode = 1 then DDone (seta st reg v) k
      else if mode = 3 then
        (case mem_wr32 (box st) (areg st reg) v of None \<Rightarrow> DOob
         | Some sb \<Rightarrow> DDone (fl (seta (setbox st sb) reg (areg st reg + 4))) k)
      else if mode = 4 then
        flags (wr_dst (seta st reg (areg st reg - 4)) 32 v (EA (areg st reg - 4) k))
      else if mode = 7 \<and> reg \<ge> 2 then DNone
      else flags (wr_dst st 32 v (ea_mem st mode reg k)))"

definition op_move_l_ea :: "m68k \<Rightarrow> u16 \<Rightarrow> iout" where
  "op_move_l_ea st op =
     (if op AND 0xF000 \<noteq> 0x2000 then Fall st
      else (case move_l_src st (f3 op) (r0 op) of
          SUndef \<Rightarrow> Undef ''fetch outside host_mem''
        | SOob \<Rightarrow> Fail ''move.l EA access out of sandbox''
        | SNone \<Rightarrow> Fall st
        | SVal st1 v k \<Rightarrow> (case move_l_dst st1 (f6 op) (r9 op) v k of
              DUndef \<Rightarrow> Undef ''fetch outside host_mem''
            | DOob \<Rightarrow> Fail ''move.l EA access out of sandbox''
            | DNone \<Rightarrow> Fall st1
            | DDone st2 k2 \<Rightarrow> adv st2 (of_nat k2))))"

text \<open>N and Z of a moved value, V and C clear, X kept.\<close>

definition mvcc :: "nat \<Rightarrow> u32 \<Rightarrow> m68k \<Rightarrow> m68k" where
  "mvcc bits v st = setcc st (logic_sz bits v (ccr st))"

definition op_move_w_dm :: "m68k \<Rightarrow> u16 \<Rightarrow> iout" where
  "op_move_w_dm st op =
     (if op AND 0xF1F8 \<noteq> 0x3000 then Fall st
      else (let dn = r9 op; w = dreg st (r0 op) AND 0xFFFF in
        adv (mvcc 16 w (setd st dn ((dreg st dn AND 0xFFFF0000) OR w))) 2))"

section \<open>movem\<close>

text \<open>The register slot of an index 0..15: D0..D7, then A0..A7.\<close>

definition MV_RDREG :: "m68k \<Rightarrow> nat \<Rightarrow> u32" where
  "MV_RDREG st i = (if i < 8 then dreg st i else areg st (i - 8))"

definition MV_WRREG :: "m68k \<Rightarrow> nat \<Rightarrow> u32 \<Rightarrow> m68k" where
  "MV_WRREG st i v = (if i < 8 then setd st i v else seta st (i - 8) v)"

text \<open>The set bits of the mask in ascending order, the iterations the loops do not skip.\<close>

definition mask_bits :: "u16 \<Rightarrow> nat list" where
  "mask_bits m = filter (bit m) [0..<16]"

definition mv_bits :: "bool \<Rightarrow> nat" where
  "mv_bits lsz = (if lsz then 32 else 16)"

definition mv_step :: "bool \<Rightarrow> u32" where
  "mv_step lsz = (if lsz then 4 else 2)"

text \<open>Predecrement store: bit \<open>i\<close> of the reversed mask is register \<open>15 - i\<close>.\<close>

fun movem_push :: "m68k \<Rightarrow> bool \<Rightarrow> nat list \<Rightarrow> sandbox \<Rightarrow> u32 \<Rightarrow> (sandbox \<times> u32) option" where
  "movem_push st lsz [] sb an = Some (sb, an)"
| "movem_push st lsz (i # rs) sb an =
     (let a = an - mv_step lsz in
      case wr_sz sb (mv_bits lsz) a (MV_RDREG st (15 - i)) of
        None \<Rightarrow> None | Some sb' \<Rightarrow> movem_push st lsz rs sb' a)"

text \<open>Control store: ascending addresses, normal mask.\<close>

fun movem_store :: "m68k \<Rightarrow> bool \<Rightarrow> nat list \<Rightarrow> sandbox \<Rightarrow> u32 \<Rightarrow> sandbox option" where
  "movem_store st lsz [] sb addr = Some sb"
| "movem_store st lsz (i # rs) sb addr =
     (case wr_sz sb (mv_bits lsz) addr (MV_RDREG st i) of
        None \<Rightarrow> None | Some sb' \<Rightarrow> movem_store st lsz rs sb' (addr + mv_step lsz))"

text \<open>Load: ascending addresses, normal mask; a word is sign-extended.\<close>

fun movem_load :: "m68k \<Rightarrow> bool \<Rightarrow> nat list \<Rightarrow> u32 \<Rightarrow> m68k option" where
  "movem_load st lsz [] addr = Some st"
| "movem_load st lsz (i # rs) addr =
     (case rd_sz (box st) (mv_bits lsz) addr of
        None \<Rightarrow> None
      | Some v \<Rightarrow> movem_load (MV_WRREG st i (if lsz then v else sx16 (ucast v))) lsz rs
          (addr + mv_step lsz))"

definition op_movem :: "m68k \<Rightarrow> u16 \<Rightarrow> iout" where
  "op_movem st op =
     (let mode = f3 op; ereg = r0 op in
      if \<not> (op AND 0xFB80 = 0x4880 \<and> mode \<ge> 2) then Fall st
      else with16 st 2 (\<lambda>m.
        let load = bit op 10; lsz = bit op 6; regs = mask_bits m;
            oob = Fail ''movem: EA access out of sandbox''
        in if \<not> load then
             (if mode = 4 then
                (case movem_push st lsz regs (box st) (areg st ereg) of None \<Rightarrow> oob
                 | Some (sb, an) \<Rightarrow> adv (seta (setbox st sb) ereg an) 4)
              else if mode = 2 \<or> mode = 5 \<or> mode = 7 \<and> ereg \<le> 1 then
                (case ea_mem st mode ereg 4 of
                   EUndef \<Rightarrow> Undef ''fetch outside host_mem''
                 | ENone \<Rightarrow> Fail ''movem: unsupported store EA mode''
                 | EA addr k \<Rightarrow> (case movem_store st lsz regs (box st) addr of None \<Rightarrow> oob
                     | Some sb \<Rightarrow> adv (setbox st sb) (of_nat k)))
              else Fail ''movem: unsupported store EA mode'')
           else if mode = 3 then
             (case movem_load st lsz regs (areg st ereg) of None \<Rightarrow> oob
              | Some st' \<Rightarrow>
                  adv (seta st' ereg (areg st' ereg + mv_step lsz * of_nat (length regs))) 4)
           else if mode = 2 \<or> mode = 5 \<or> mode = 7 \<and> ereg \<le> 2 then
             (case ea_mem st mode ereg 4 of
                EUndef \<Rightarrow> Undef ''fetch outside host_mem''
              | ENone \<Rightarrow> Fail ''movem: unsupported load EA mode''
              | EA addr k \<Rightarrow> (case movem_load st lsz regs addr of None \<Rightarrow> oob
                  | Some st' \<Rightarrow> adv st' (of_nat k)))
           else Fail ''movem: unsupported load EA mode''))"

section \<open>One-operand register forms\<close>

definition op_clr_l_dn :: "m68k \<Rightarrow> u16 \<Rightarrow> iout" where
  "op_clr_l_dn st op =
     (if op AND 0xFFF8 \<noteq> 0x4280 then Fall st else adv (clr_cc (setd st (r0 op) 0)) 2)"

text \<open>A long result in a data register with the flags of \<open>logic_ccr\<close>.\<close>

definition put_logic :: "m68k \<Rightarrow> nat \<Rightarrow> u32 \<Rightarrow> m68k" where
  "put_logic st dn res = setcc (setd st dn res) (logic_ccr res (ccr st))"

definition op_not_l :: "m68k \<Rightarrow> u16 \<Rightarrow> iout" where
  "op_not_l st op =
     (if op AND 0xFFF8 \<noteq> 0x4680 then Fall st
      else adv (put_logic st (r0 op) (NOT (dreg st (r0 op)))) 2)"

definition op_tst_l_dn :: "m68k \<Rightarrow> u16 \<Rightarrow> iout" where
  "op_tst_l_dn st op =
     (if op AND 0xFFF8 \<noteq> 0x4A80 then Fall st
      else adv (setcc st (logic_ccr (dreg st (r0 op)) (ccr st))) 2)"

definition op_swap :: "m68k \<Rightarrow> u16 \<Rightarrow> iout" where
  "op_swap st op =
     (if op AND 0xFFF8 \<noteq> 0x4840 then Fall st
      else (let v = dreg st (r0 op) in
        adv (put_logic st (r0 op) (drop_bit 16 v OR push_bit 16 v)) 2))"

definition op_ext_l :: "m68k \<Rightarrow> u16 \<Rightarrow> iout" where
  "op_ext_l st op =
     (if op AND 0xFFF8 \<noteq> 0x48C0 then Fall st
      else adv (put_logic st (r0 op) (sx16 (ucast (dreg st (r0 op) AND 0xFFFF)))) 2)"

definition op_ext_w :: "m68k \<Rightarrow> u16 \<Rightarrow> iout" where
  "op_ext_w st op =
     (if op AND 0xFFF8 \<noteq> 0x4880 then Fall st
      else (let dn = r0 op;
                w = ucast (scast (ucast (dreg st dn AND 0xFF) :: u8) :: u16) :: u32 in
        adv (mvcc 16 w (setd st dn ((dreg st dn AND 0xFFFF0000) OR w))) 2))"

definition op_extb_l :: "m68k \<Rightarrow> u16 \<Rightarrow> iout" where
  "op_extb_l st op =
     (if op AND 0xFFF8 \<noteq> 0x49C0 then Fall st
      else adv (put_logic st (r0 op) (sx8 (ucast (dreg st (r0 op) AND 0xFF)))) 2)"

section \<open>Shifts and rotates\<close>

text \<open>
  The result and the flags of one shift; \<open>None\<close> is a shift by the operand width or more,
  which C leaves undefined. \<open>opt_flag b\<close> is the carry (and, for shifts, extend) of the last
  bit shifted out.
\<close>

definition shift_cc :: "nat \<Rightarrow> bool \<Rightarrow> bool \<Rightarrow> u32 \<Rightarrow> u32" where
  "shift_cc bits last_out v res =
     flg last_out (CCR_C OR CCR_X) OR flg v CCR_V OR nz_sz bits res"

definition rot_cc :: "nat \<Rightarrow> u32 \<Rightarrow> bool \<Rightarrow> u32 \<Rightarrow> u32" where
  "rot_cc bits keep last_out res = (keep AND CCR_X) OR flg last_out CCR_C OR nz_sz bits res"

text \<open>Register count, taken modulo 64: rotates and shifts of an operand of \<open>bits\<close> bits.\<close>

definition rotate_reg :: "nat \<Rightarrow> bool \<Rightarrow> nat \<Rightarrow> u32 \<Rightarrow> u32 \<Rightarrow> (u32 \<times> u32) option" where
  "rotate_reg bits left cnt a keep =
     (let r = cnt mod bits in
      if cnt = 0 then Some (a, rot_cc bits keep False a)
      else if bits - r \<ge> 32 then None
      else if left then
        (let res = (push_bit r a OR drop_bit (bits - r) a) AND msk bits in
         Some (res, rot_cc bits keep (bit res 0) res))
      else
        (let res = (drop_bit r a OR push_bit (bits - r) a) AND msk bits in
         Some (res, rot_cc bits keep (bit res (bits - 1)) res)))"

definition shift_reg :: "nat \<Rightarrow> bool \<Rightarrow> bool \<Rightarrow> nat \<Rightarrow> u32 \<Rightarrow> u32 \<Rightarrow> u32 \<times> u32" where
  "shift_reg bits left arith cnt a keep =
     (let neg = (a AND msb bits \<noteq> 0) in
      if cnt = 0 then (a, (keep AND CCR_X) OR nz_sz bits a)
      else if left then
        (let last_out = (cnt \<le> bits \<and> bit a (bits - cnt));
             res = (if cnt \<ge> bits then 0 else push_bit cnt a AND msk bits);
             sm = (if cnt \<ge> bits then msk bits else push_bit (bits - 1 - cnt) (msk bits) AND msk bits);
             top = a AND sm
         in (res, shift_cc bits last_out (arith \<and> \<not> (top = 0 \<or> top = sm)) res))
      else
        (let last_out = (if cnt \<le> bits then bit a (cnt - 1) else neg \<and> arith);
             se = (if neg then msk bits AND NOT (if cnt \<ge> bits then 0 else drop_bit cnt (msk bits)) else 0);
             res = (if arith then
                      (if cnt \<ge> bits then (if neg then msk bits else 0)
                       else (drop_bit cnt a OR se) AND msk bits)
                    else (if cnt \<ge> bits then 0 else drop_bit cnt a))
         in (res, shift_cc bits last_out False res)))"

definition op_shift_reg :: "m68k \<Rightarrow> u16 \<Rightarrow> iout" where
  "op_shift_reg st op =
     (let ty = unat (drop_bit 3 op AND 3); sz = sz6 op in
      if \<not> (op AND 0xF000 = 0xE000 \<and> bit op 5 \<and> ty \<noteq> 2 \<and> sz \<noteq> 3) then Fall st
      else (let dn = r0 op; bits = bits_of sz; left = bit op 8;
                cnt = unat (dreg st (r9 op) AND 63); a = dreg st dn AND msk bits;
                put = (\<lambda>(res, cc). adv (setcc (setd st dn (merge bits (dreg st dn) (res AND msk bits))) cc) 2)
        in if ty = 3 then
             (case rotate_reg bits left cnt a (ccr st) of
                None \<Rightarrow> Undef ''shift by the operand width'' | Some r \<Rightarrow> put r)
           else put (shift_reg bits left (ty = 0) cnt a (ccr st))))"

text \<open>Immediate count 1..8 on a long.\<close>

definition shift_count :: "u16 \<Rightarrow> nat" where
  "shift_count op = (if r9 op = 0 then 8 else r9 op)"

definition shift_imm_l :: "nat \<Rightarrow> bool \<Rightarrow> nat \<Rightarrow> u32 \<Rightarrow> u32 \<Rightarrow> u32 \<times> u32" where
  "shift_imm_l ty left cnt a keep =
     (if ty = 1 then
        (let last_out = (if left then bit a (32 - cnt) else bit a (cnt - 1));
             res = (if left then push_bit cnt a else drop_bit cnt a)
         in (res, shift_cc 32 last_out False res))
      else if ty = 0 then
        (if left then
           (let res = push_bit cnt a; sm = push_bit (31 - cnt) 0xFFFFFFFF; top = a AND sm in
            (res, shift_cc 32 (bit a (32 - cnt)) (\<not> (top = 0 \<or> top = sm)) res))
         else
           (let res = signed_drop_bit cnt a in (res, shift_cc 32 (bit a (cnt - 1)) False res)))
      else
        (let r = (32 - cnt) mod 32;
             res = (if left then push_bit cnt a OR drop_bit r a else drop_bit cnt a OR push_bit r a)
         in (res, rot_cc 32 keep (if left then bit res 0 else bit res 31) res)))"

definition op_shift_imm_l :: "m68k \<Rightarrow> u16 \<Rightarrow> iout" where
  "op_shift_imm_l st op =
     (let ty = unat (drop_bit 3 op AND 3) in
      if \<not> (op AND 0xF000 = 0xE000 \<and> sz6 op = 2 \<and> \<not> bit op 5) \<or> ty = 2 then Fall st
      else (let dn = r0 op;
                (res, cc) = shift_imm_l ty (bit op 8) (shift_count op) (dreg st dn) (ccr st)
        in adv (setcc (setd st dn res) cc) 2))"

text \<open>
  Immediate count on a byte or a word. The mask \<open>fullmask << (bits - 1 - cnt)\<close> of
  \<open>asl.b #8\<close> shifts by an unsigned \<open>-1\<close>.
\<close>

definition shift_imm_bw :: "nat \<Rightarrow> nat \<Rightarrow> bool \<Rightarrow> nat \<Rightarrow> u32 \<Rightarrow> u32 \<Rightarrow> (u32 \<times> u32) option" where
  "shift_imm_bw bits ty left cnt a keep =
     (let lo = (cnt \<le> bits \<and> bit a (bits - cnt)) in
      if ty = 1 then
        (let res = (if left then push_bit cnt a AND msk bits else drop_bit cnt a) in
         Some (res, shift_cc bits (if left then lo else bit a (cnt - 1)) False res))
      else if ty = 0 then
        (if left then
           (if cnt > bits - 1 then None
            else (let res = push_bit cnt a AND msk bits;
                      sm = push_bit (bits - 1 - cnt) (msk bits) AND msk bits; top = a AND sm
              in Some (res, shift_cc bits lo (\<not> (top = 0 \<or> top = sm)) res)))
         else
           (let sa = signed_drop_bit (32 - bits) (push_bit (32 - bits) a);
                res = signed_drop_bit cnt sa AND msk bits
            in Some (res, shift_cc bits (bit a (cnt - 1)) False res)))
      else
        (let r = cnt mod bits; q = (bits - r) mod bits;
             res = (if left then push_bit r a OR drop_bit q a else drop_bit r a OR push_bit q a)
               AND msk bits
         in Some (res, rot_cc bits keep (if left then bit res 0 else bit res (bits - 1)) res)))"

definition op_shift_imm_bw :: "m68k \<Rightarrow> u16 \<Rightarrow> iout" where
  "op_shift_imm_bw st op =
     (let ty = unat (drop_bit 3 op AND 3); sz = sz6 op in
      if \<not> (op AND 0xF000 = 0xE000 \<and> \<not> bit op 5 \<and> sz \<noteq> 2 \<and> sz \<noteq> 3) \<or> ty = 2 then Fall st
      else (let dn = r0 op; bits = (if sz = 0 then 8 else 16); a = dreg st dn AND msk bits in
        case shift_imm_bw bits ty (bit op 8) (shift_count op) a (ccr st) of
          None \<Rightarrow> Undef ''shift by a negative count''
        | Some (res, cc) \<Rightarrow> adv (setcc (setd st dn (merge bits (dreg st dn) res)) cc) 2))"

section \<open>tst, pea and cmp with effective addresses\<close>

definition op_tst_ea :: "m68k \<Rightarrow> u16 \<Rightarrow> iout" where
  "op_tst_ea st op =
     (if \<not> (op AND 0xFF00 = 0x4A00 \<and> sz6 op \<noteq> 3) then Fall st
      else (let mode = f3 op; reg = r0 op; bits = bits_of (sz6 op);
                s = (if mode = 0 then SVal st (dreg st reg) 2
                     else if mode = 1 then SVal st (areg st reg) 2
                     else if mode = 3 then
                       (case rd_sz (box st) bits (areg st reg) of None \<Rightarrow> SOob
                        | Some v \<Rightarrow> SVal (seta st reg (areg st reg + of_nat (bits div 8))) v 2)
                     else if mode = 2 \<or> mode = 5 \<or> mode = 6 \<or> mode = 7 \<and> reg = 1 then
                       rd_src st bits (ea_mem st mode reg 2)
                     else SNone)
        in case s of
             SUndef \<Rightarrow> Undef ''fetch outside host_mem''
           | SOob \<Rightarrow> Fail ''tst: EA access out of sandbox''
           | SNone \<Rightarrow> Fail ''tst: unsupported EA in oracle''
           | SVal st1 v k \<Rightarrow> adv (mvcc bits (v AND msk bits) st1) (of_nat k)))"

definition op_pea :: "m68k \<Rightarrow> u16 \<Rightarrow> iout" where
  "op_pea st op =
     (if op AND 0xFFC0 \<noteq> 0x4840 then Fall st
      else (case ea_mem st (f3 op) (r0 op) 2 of
          EUndef \<Rightarrow> Undef ''fetch outside host_mem''
        | ENone \<Rightarrow> Fall st
        | EA a k \<Rightarrow> push32 ''pea: push out of sandbox'' st a (\<lambda>st'. adv st' (of_nat k))))"

definition op_cmp_ea :: "m68k \<Rightarrow> u16 \<Rightarrow> iout" where
  "op_cmp_ea st op =
     (if \<not> (op AND 0xF1C0 = 0xB080 \<or> op AND 0xF1C0 = 0xB1C0) then Fall st
      else (let is_a = (op AND 0x00C0 = 0x00C0); dn = r9 op; sm = f3 op; sr = r0 op;
                s = (if sm = 0 then SVal st (dreg st sr) 2
                     else if sm = 1 then SVal st (areg st sr) 2
                     else if sm = 3 then
                       (case mem_rd32 (box st) (areg st sr) of None \<Rightarrow> SOob
                        | Some v \<Rightarrow> SVal (seta st sr (areg st sr + 4)) v 2)
                     else if sm = 2 \<or> sm = 5 \<or> sm = 6 \<or> sm = 7 \<and> sr = 1 then
                       rd_src st 32 (ea_mem st sm sr 2)
                     else SNone)
        in case s of
             SUndef \<Rightarrow> Undef ''fetch outside host_mem''
           | SOob \<Rightarrow> Fail ''cmp.l: EA access out of sandbox''
           | SNone \<Rightarrow> Fail ''cmp.l: unsupported source EA in oracle''
           | SVal st1 b k \<Rightarrow>
               (let a = (if is_a then areg st1 dn else dreg st1 dn) in
                adv (setcc st1 (cmp_cc 32 (ccr st) a b)) (of_nat k))))"

text \<open>A second \<open>add.b Dm,Dn\<close> block that the one for \<open>.b\<close> and \<open>.w\<close> shadows.\<close>

definition op_add_b_dm :: "m68k \<Rightarrow> u16 \<Rightarrow> iout" where
  "op_add_b_dm st op =
     (if op AND 0xF1F8 \<noteq> 0xD000 then Fall st
      else (let dn = r9 op; a = dreg st dn AND 0xFF; b = dreg st (r0 op) AND 0xFF in
        adv (setcc (setd st dn ((dreg st dn AND 0xFFFFFF00) OR add_res 8 a b)) (add_cc 8 a b)) 2))"

definition op_cmpi_l_disp :: "m68k \<Rightarrow> u16 \<Rightarrow> iout" where
  "op_cmpi_l_disp st op =
     (if op AND 0xFFF8 \<noteq> 0x0CA8 then Fall st
      else with32 st 2 (\<lambda>b. with16s st 6 (\<lambda>d16.
        need ''cmpi.l (d16,An): address out of sandbox''
          (mem_rd32 (box st) (areg st (r0 op) + d16))
          (\<lambda>a. adv (setcc st (cmp_cc 32 (ccr st) a b)) 8))))"

text \<open>\<open>cmpm\<close> reads both operands before it increments either register.\<close>

definition op_cmpm :: "m68k \<Rightarrow> u16 \<Rightarrow> iout" where
  "op_cmpm st op =
     (if \<not> (op AND 0xF138 = 0xB108 \<and> sz6 op \<noteq> 3) then Fall st
      else (let ax = r9 op; ay = r0 op; bits = bits_of (sz6 op); n = of_nat (bits div 8);
                oob = ''cmpm: address out of sandbox'' in
        need oob (rd_sz (box st) bits (areg st ay)) (\<lambda>s.
          need oob (rd_sz (box st) bits (areg st ax)) (\<lambda>dv.
            let st1 = seta st ay (areg st ay + n); st2 = seta st1 ax (areg st1 ax + n) in
            adv (setcc st2 (cmp_cc bits (ccr st) dv s)) 2))))"

definition op_cmpi_b_disp :: "m68k \<Rightarrow> u16 \<Rightarrow> iout" where
  "op_cmpi_b_disp st op =
     (if op AND 0xFFF8 \<noteq> 0x0C28 then Fall st
      else with16 st 2 (\<lambda>w. with16s st 4 (\<lambda>d16.
        need ''cmpi.b (d16,An): address out of sandbox''
          (mem_rd8 (box st) (areg st (r0 op) + d16))
          (\<lambda>a. adv (setcc st (cmp_cc 8 (ccr st) (ucast a) (ucast w AND 0xFF))) 6))))"

definition op_cmpi_l_ind :: "m68k \<Rightarrow> u16 \<Rightarrow> iout" where
  "op_cmpi_l_ind st op =
     (if op AND 0xFFF8 \<noteq> 0x0C90 then Fall st
      else with32 st 2 (\<lambda>b.
        need ''cmpi.l (An): address out of sandbox'' (mem_rd32 (box st) (areg st (r0 op)))
          (\<lambda>a. adv (setcc st (cmp_cc 32 (ccr st) a b)) 6)))"

section \<open>Byte and word loads, byte add, word store\<close>

text \<open>The low byte or word of a data register replaced, with the move flags.\<close>

definition put_b :: "m68k \<Rightarrow> nat \<Rightarrow> u8 \<Rightarrow> m68k" where
  "put_b st dn v = mvcc 8 (ucast v) (setd st dn ((dreg st dn AND 0xFFFFFF00) OR ucast v))"

definition put_w :: "m68k \<Rightarrow> nat \<Rightarrow> u16 \<Rightarrow> m68k" where
  "put_w st dn v = mvcc 16 (ucast v) (setd st dn ((dreg st dn AND 0xFFFF0000) OR ucast v))"

definition op_move_b_disp :: "m68k \<Rightarrow> u16 \<Rightarrow> iout" where
  "op_move_b_disp st op =
     (if op AND 0xF1F8 \<noteq> 0x1028 then Fall st
      else with16s st 2 (\<lambda>d16.
        need ''move.b (d16,An): address out of sandbox''
          (mem_rd8 (box st) (areg st (r0 op) + d16)) (\<lambda>v. adv (put_b st (r9 op) v) 4)))"

definition op_move_w_disp :: "m68k \<Rightarrow> u16 \<Rightarrow> iout" where
  "op_move_w_disp st op =
     (if op AND 0xF1F8 \<noteq> 0x3028 then Fall st
      else with16s st 2 (\<lambda>d16.
        need ''move.w (d16,An): address out of sandbox''
          (mem_rd16 (box st) (areg st (r0 op) + d16)) (\<lambda>v. adv (put_w st (r9 op) v) 4)))"

definition op_move_bw_pc :: "m68k \<Rightarrow> u16 \<Rightarrow> iout" where
  "op_move_bw_pc st op =
     (if \<not> (op AND 0xF1FF = 0x103B \<or> op AND 0xF1FF = 0x303B) then Fall st
      else with16 st 2 (\<lambda>w. case brief_ea_i st w (mpc st + 2) of
          None \<Rightarrow> Fail ''move (d8,PC,Xn): 68020 full extension word''
        | Some ea \<Rightarrow>
          if op AND 0xF000 = 0x3000 then
            need ''move.w (d8,PC,Xn): address out of sandbox'' (mem_rd16 (box st) ea)
              (\<lambda>v. adv (put_w st (r9 op) v) 4)
          else
            need ''move.b (d8,PC,Xn): address out of sandbox'' (mem_rd8 (box st) ea)
              (\<lambda>v. adv (put_b st (r9 op) v) 4)))"

definition op_add_b_ind :: "m68k \<Rightarrow> u16 \<Rightarrow> iout" where
  "op_add_b_ind st op =
     (if op AND 0xF1F8 \<noteq> 0xD010 then Fall st
      else need ''add.b (An): address out of sandbox'' (mem_rd8 (box st) (areg st (r0 op)))
        (\<lambda>v. let dn = r9 op; a = dreg st dn AND 0xFF; b = ucast v in
          adv (setcc (setd st dn ((dreg st dn AND 0xFFFFFF00) OR add_res 8 a b)) (add_cc 8 a b)) 2))"

definition op_move_w_imm_ind :: "m68k \<Rightarrow> u16 \<Rightarrow> iout" where
  "op_move_w_imm_ind st op =
     (if \<not> (op AND 0xF1FF = 0x30BC \<and> f6 op = 2) then Fall st
      else with16 st 2 (\<lambda>v.
        need ''move.w #imm,(An): address out of sandbox'' (mem_wr16 (box st) (areg st (r9 op)) v)
          (\<lambda>sb. adv (mvcc 16 (ucast v) (setbox st sb)) 4)))"

section \<open>68020 long multiplication and division\<close>

text \<open>The operand and the length: a data register or a 32-bit immediate after the extension.\<close>

definition op_mulx_l :: "m68k \<Rightarrow> u16 \<Rightarrow> iout" where
  "op_mulx_l st op =
     (if op AND 0xFFC0 \<noteq> 0x4C00 then Fall st
      else with16 st 2 (\<lambda>ext.
        let mode = f3 op; reg = r0 op; dl = unat (drop_bit 12 ext AND 7); dh = unat (ext AND 7);
            is_signed = bit ext 11; size64 = bit ext 10; a = dreg st dl;
            go = (\<lambda>src len.
              if size64 then
                (let p = (if is_signed then word_of_int (sint a * sint src)
                          else ucast a * ucast src) :: u64;
                     st1 = setd (setd st dl (ucast p)) dh (ucast (drop_bit 32 p))
                 in adv (setcc st1 ((ccr st AND CCR_X) OR flg (p = 0) CCR_Z OR flg (bit p 63) CCR_N)) len)
              else if is_signed \<and> (sint a * sint src < - (2 ^ 31) \<or> sint a * sint src \<ge> 2 ^ 31)
              then Undef ''signed overflow in muls.l''
              else adv (put_logic st dl (a * src)) len)
        in if mode = 0 then go (dreg st reg) 4
           else if mode = 7 \<and> reg = 4 then with32 st 4 (\<lambda>src. go src 8)
           else Fail ''mul.l: unsupported source EA in oracle''))"

definition divx_apply :: "m68k \<Rightarrow> u16 \<Rightarrow> u32 \<Rightarrow> u32 \<Rightarrow> iout" where
  "divx_apply st ext divisor len =
     (let dq = unat (drop_bit 12 ext AND 7); dr = unat (ext AND 7);
          is_signed = bit ext 11; dividend = dreg st dq in
      if bit ext 10 then Fail ''div.l: 64-bit dividend form not in subset''
      else if divisor = 0 then raise_to st 5 (mpc st + len)
      else if is_signed \<and> dividend = 0x80000000 \<and> divisor = - 1
      then Undef ''signed overflow in divs.l''
      else (let quot = (if is_signed then word_of_int (c_div (sint dividend) (sint divisor))
                        else dividend div divisor);
                rem = (if is_signed then word_of_int (c_rem (sint dividend) (sint divisor))
                       else dividend mod divisor);
                st1 = setd st dq quot; st2 = (if dr \<noteq> dq then setd st1 dr rem else st1)
        in adv (setcc st2 (logic_sz 32 quot (ccr st))) len))"

definition op_divx_l :: "m68k \<Rightarrow> u16 \<Rightarrow> iout" where
  "op_divx_l st op =
     (if op AND 0xFFC0 \<noteq> 0x4C40 then Fall st
      else with16 st 2 (\<lambda>ext.
        let mode = f3 op; reg = r0 op in
        if mode = 0 then divx_apply st ext (dreg st reg) 4
        else if mode = 7 \<and> reg = 4 then with32 st 4 (\<lambda>d. divx_apply st ext d 8)
        else if mode = 5 then with16s st 4 (\<lambda>d16.
          need ''div.l (d16,An): source out of sandbox'' (mem_rd32 (box st) (areg st reg + d16))
            (\<lambda>d. divx_apply st ext d 6))
        else Fail ''div.l: unsupported source EA in oracle''))"

section \<open>move.b with effective addresses\<close>

definition move_b_src :: "m68k \<Rightarrow> nat \<Rightarrow> nat \<Rightarrow> src" where
  "move_b_src st mode reg =
     (if mode = 0 then SVal st (dreg st reg AND 0xFF) 2
      else if mode = 3 then
        (case mem_rd8 (box st) (areg st reg) of None \<Rightarrow> SOob
         | Some v \<Rightarrow> SVal (seta st reg (areg st reg + 1)) (ucast v) 2)
      else if mode = 2 \<or> mode = 5 \<or> mode = 7 \<and> reg = 1 then
        rd_src st 8 (ea_mem st mode reg 2)
      else if mode = 7 \<and> reg = 4 then
        (case ip16 st 2 of None \<Rightarrow> SUndef | Some w \<Rightarrow> SVal st (ucast w AND 0xFF) 4)
      else SNone)"

definition move_b_dst :: "m68k \<Rightarrow> nat \<Rightarrow> nat \<Rightarrow> u32 \<Rightarrow> nat \<Rightarrow> dst" where
  "move_b_dst st mode reg v k =
     (if mode = 0 then DDone (setd st reg ((dreg st reg AND 0xFFFFFF00) OR v)) k
      else if mode = 3 then
        (case mem_wr8 (box st) (areg st reg) (ucast v) of None \<Rightarrow> DOob
         | Some sb \<Rightarrow> DDone (seta (setbox st sb) reg (areg st reg + 1)) k)
      else if mode = 2 \<or> mode = 5 \<or> mode = 6 \<or> mode = 7 \<and> reg = 1 then
        wr_dst st 8 v (ea_mem st mode reg k)
      else DNone)"

text \<open>
  A destination mode the block does not know leaves it after the source has been read, with
  the post-increment of the source already done.
\<close>

definition op_move_b_ea :: "m68k \<Rightarrow> u16 \<Rightarrow> iout" where
  "op_move_b_ea st op =
     (if op AND 0xF000 \<noteq> 0x1000 then Fall st
      else (case move_b_src st (f3 op) (r0 op) of
          SUndef \<Rightarrow> Undef ''fetch outside host_mem''
        | SOob \<Rightarrow> Fail ''move.b EA access out of sandbox''
        | SNone \<Rightarrow> Fall st
        | SVal st1 v k \<Rightarrow> (case move_b_dst st1 (f6 op) (r9 op) v k of
              DUndef \<Rightarrow> Undef ''fetch outside host_mem''
            | DOob \<Rightarrow> Fail ''move.b EA access out of sandbox''
            | DNone \<Rightarrow> Fall st1
            | DDone st2 k2 \<Rightarrow> adv (mvcc 8 v st2) (of_nat k2))))"

section \<open>Floating-point register moves\<close>

text \<open>The FP registers the mask selects, in ascending order, for either mask direction.\<close>

definition fp_list :: "bool \<Rightarrow> u8 \<Rightarrow> nat list" where
  "fp_list is_predec m = filter (\<lambda>i. bit m (if is_predec then i else 7 - i)) [0..<8]"

definition box_bytes :: "sandbox \<Rightarrow> u32 \<Rightarrow> nat \<Rightarrow> u8 list" where
  "box_bytes sb addr n = map (\<lambda>i. host_mem sb (hoff sb addr + i)) [0..<n]"

fun put_bytes :: "(nat \<Rightarrow> u8) \<Rightarrow> nat \<Rightarrow> u8 list \<Rightarrow> nat \<Rightarrow> u8" where
  "put_bytes m p [] = m"
| "put_bytes m p (b # bs) = put_bytes (m(p := b)) (p + 1) bs"

text \<open>The slots of 12 bytes each, ascending from \<open>base\<close>.\<close>

fun fmovem_store :: "m68k \<Rightarrow> nat list \<Rightarrow> u32 \<Rightarrow> sandbox \<Rightarrow> string + sandbox" where
  "fmovem_store st [] addr sb = Inr sb"
| "fmovem_store st (r # rs) addr sb =
     (if \<not> in_box sb addr 12 then Inl ''FMOVEM: .x slot out of sandbox''
      else (case j5r_double_to_x (fp st r) of
          None \<Rightarrow> Inl []
        | Some xb \<Rightarrow> fmovem_store st rs (addr + 12)
            (sb\<lparr>host_mem := put_bytes (host_mem sb) (hoff sb addr) xb\<rparr>)))"

fun fmovem_load :: "m68k \<Rightarrow> nat list \<Rightarrow> u32 \<Rightarrow> m68k option" where
  "fmovem_load st [] addr = Some st"
| "fmovem_load st (r # rs) addr =
     (if \<not> in_box (box st) addr 12 then None
      else fmovem_load
        (st\<lparr>fp := (fp st)(r := j5r_x_to_double (box_bytes (box st) addr 12))\<rparr>) rs (addr + 12))"

text \<open>The base of the transfer, the extension bytes, and the change of the address register.\<close>

definition fmove_base :: "m68k \<Rightarrow> bool \<Rightarrow> nat \<Rightarrow> nat \<Rightarrow> u32 \<Rightarrow> (ea \<times> (m68k \<Rightarrow> m68k))" where
  "fmove_base st is_fmovem mode reg tot =
     (if mode = 3 then (EA (areg st reg) 4, \<lambda>s. seta s reg (areg s reg + tot))
      else if mode = 4 then (EA (areg st reg - tot) 4, \<lambda>s. seta s reg (areg s reg - tot))
      else if mode = 2 \<or> mode = 5 \<or> mode = 7 \<and> reg = 1 \<or>
              is_fmovem \<and> mode = 7 \<and> (reg = 0 \<or> reg = 2) then
        (ea_mem st mode reg 4, id)
      else (ENone, id))"

definition op_fmovem :: "m68k \<Rightarrow> u16 \<Rightarrow> u16 \<Rightarrow> iout" where
  "op_fmovem st op oc2 =
     (let mode = f3 op; reg = r0 op;
          m = (if bit oc2 11 then ucast (dreg st (unat (drop_bit 4 oc2 AND 7)) AND 0xFF)
                  else ucast (oc2 AND 0xFF)) :: u8;
          regs = fp_list (mode = 4) m; tot = of_nat (12 * length regs)
      in case fmove_base st True mode reg tot of
           (EUndef, _) \<Rightarrow> Undef ''fetch outside host_mem''
         | (ENone, _) \<Rightarrow> Fail ''FMOVEM EA mode not in the [J5r] subset''
         | (EA base k, fin) \<Rightarrow>
             (if bit oc2 13 then
                (case fmovem_store st regs base (box st) of
                   Inl e \<Rightarrow> (if e = [] then Undef ''shift by 64 in j5r_double_to_x'' else Fail e)
                 | Inr sb \<Rightarrow> adv (fin (setbox st sb)) (of_nat k))
              else
                (case fmovem_load st regs base of
                   None \<Rightarrow> Fail ''FMOVEM: .x slot out of sandbox''
                 | Some st' \<Rightarrow> adv (fin st') (of_nat k))))"

datatype ctrl = FPCR | FPSR | FPIAR

fun get_ctrl :: "m68k \<Rightarrow> ctrl \<Rightarrow> u32" where
  "get_ctrl st FPCR = fpcr st"
| "get_ctrl st FPSR = fpsr st"
| "get_ctrl st FPIAR = fpiar st"

fun set_ctrl :: "m68k \<Rightarrow> ctrl \<Rightarrow> u32 \<Rightarrow> m68k" where
  "set_ctrl st FPCR v = st\<lparr>fpcr := v\<rparr>"
| "set_ctrl st FPSR v = st\<lparr>fpsr := v\<rparr>"
| "set_ctrl st FPIAR v = st\<lparr>fpiar := v\<rparr>"

definition ctrl_list :: "u16 \<Rightarrow> ctrl list" where
  "ctrl_list oc2 = (if bit oc2 12 then [FPCR] else []) @ (if bit oc2 11 then [FPSR] else [])
     @ (if bit oc2 10 then [FPIAR] else [])"

fun ctrl_load :: "m68k \<Rightarrow> ctrl list \<Rightarrow> u32 \<Rightarrow> m68k option" where
  "ctrl_load st [] addr = Some st"
| "ctrl_load st (c # cs) addr =
     (case mem_rd32 (box st) addr of None \<Rightarrow> None
      | Some v \<Rightarrow> ctrl_load (set_ctrl st c v) cs (addr + 4))"

fun ctrl_store :: "m68k \<Rightarrow> ctrl list \<Rightarrow> u32 \<Rightarrow> m68k option" where
  "ctrl_store st [] addr = Some st"
| "ctrl_store st (c # cs) addr =
     (case mem_wr32 (box st) addr (get_ctrl st c) of None \<Rightarrow> None
      | Some sb \<Rightarrow> ctrl_store (setbox st sb) cs (addr + 4))"

definition op_fmove_ctrl :: "m68k \<Rightarrow> u16 \<Rightarrow> u16 \<Rightarrow> iout" where
  "op_fmove_ctrl st op oc2 =
     (let mode = f3 op; reg = r0 op; to_special = (oc2 AND 0xe000 = 0x8000); cs = ctrl_list oc2;
          tot = of_nat (4 * length cs)
      in if mode = 0 \<or> mode = 1 then
           (case cs of
              [c] \<Rightarrow> adv (if to_special then set_ctrl st c (if mode = 0 then dreg st reg else areg st reg)
                     else if mode = 0 then setd st reg (get_ctrl st c)
                     else seta st reg (get_ctrl st c)) 4
            | _ \<Rightarrow> Fail ''FMOVE Dn/An,<ctrl>: expected one ctrl reg'')
         else if mode = 7 \<and> reg = 4 \<and> to_special then
           (case cs of
              [c] \<Rightarrow> (case ip32 st 4 of
                  None \<Rightarrow> Fail ''FMOVE #imm,<ctrl>: immediate out of sandbox''
                | Some v \<Rightarrow> adv (set_ctrl st c v) 8)
            | _ \<Rightarrow> Fail ''FMOVE #imm,<ctrl>: expected one ctrl reg'')
         else (case fmove_base st False mode reg tot of
              (EUndef, _) \<Rightarrow> Undef ''fetch outside host_mem''
            | (ENone, _) \<Rightarrow> Fail ''FMOVE <ctrl> EA mode not in the [J5r] subset''
            | (EA base k, fin) \<Rightarrow>
                (case (if to_special then ctrl_load st cs base else ctrl_store st cs base) of
                   None \<Rightarrow> Fail ''FMOVE <ctrl> mem out of sandbox''
                 | Some st' \<Rightarrow> adv (fin st') (of_nat k))))"

definition op_fp_moves :: "m68k \<Rightarrow> u16 \<Rightarrow> iout" where
  "op_fp_moves st op =
     (if op AND 0xffc0 \<noteq> 0xf200 then Fall st
      else (case ip16 st 2 of
          None \<Rightarrow> Fall st
        | Some oc2 \<Rightarrow>
            if oc2 AND 0xc700 = 0xc000 then op_fmovem st op oc2
            else if oc2 AND 0xe000 = 0x8000 \<or> oc2 AND 0xe000 = 0xa000 then op_fmove_ctrl st op oc2
            else Fall st))"

text \<open>
  The floating-point arithmetic block. Its range check is modelled; what it computes in
  host \<open>double\<close>s is not.
\<close>

definition op_fpu :: "m68k \<Rightarrow> u16 \<Rightarrow> iout" where
  "op_fpu st op =
     (if \<not> (op AND 0xff80 = 0xf200 \<and> op AND 0x0e00 = 0x0200) then Fall st
      else if ip16 st 2 = None then Fail ''FPU: opcode2 out of sandbox''
      else FpuArith st)"

section \<open>The COLOR00 write and the general move\<close>

definition op_color00 :: "m68k \<Rightarrow> u16 \<Rightarrow> iout" where
  "op_color00 st op =
     (if op AND 0xfff8 \<noteq> 0x33c0 then Fall st
      else with32 st 2 (\<lambda>a. if a \<noteq> 0x00dff180 then Fall st
        else adv (mvcc 16 (dreg st (r0 op) AND 0xFFFF) st) 6))"

definition move_src :: "m68k \<Rightarrow> nat \<Rightarrow> nat \<Rightarrow> nat \<Rightarrow> src" where
  "move_src st bits mode reg =
     (let step = of_nat (bits div 8) in
      if mode = 0 then SVal st (dreg st reg) 2
      else if mode = 1 then SVal st (areg st reg) 2
      else if mode = 3 then
        (case rd_sz (box st) bits (areg st reg) of None \<Rightarrow> SOob
         | Some v \<Rightarrow> SVal (seta st reg (areg st reg + step)) v 2)
      else if mode = 4 then
        (case rd_sz (box st) bits (areg st reg - step) of None \<Rightarrow> SOob
         | Some v \<Rightarrow> SVal (seta st reg (areg st reg - step)) v 2)
      else if mode = 7 \<and> reg = 4 then
        (if bits = 32 then (case ip32 st 2 of None \<Rightarrow> SUndef | Some v \<Rightarrow> SVal st v 6)
         else (case ip16 st 2 of None \<Rightarrow> SUndef
           | Some w \<Rightarrow> SVal st (if bits = 8 then ucast w AND 0xFF else ucast w) 4))
      else rd_src st bits (ea_mem st mode reg 2))"

definition move_dst :: "m68k \<Rightarrow> nat \<Rightarrow> nat \<Rightarrow> nat \<Rightarrow> u32 \<Rightarrow> nat \<Rightarrow> dst" where
  "move_dst st bits mode reg v k =
     (let step = of_nat (bits div 8) in
      if mode = 0 then DDone (setd st reg (merge bits (dreg st reg) (v AND msk bits))) k
      else if mode = 1 then DDone (seta st reg (if bits = 16 then sx16 (ucast v) else v)) k
      else if mode = 3 then
        (case wr_sz (box st) bits (areg st reg) v of None \<Rightarrow> DOob
         | Some sb \<Rightarrow> DDone (seta (setbox st sb) reg (areg st reg + step)) k)
      else if mode = 4 then
        (case wr_sz (box st) bits (areg st reg - step) v of None \<Rightarrow> DOob
         | Some sb \<Rightarrow> DDone (seta (setbox st sb) reg (areg st reg - step)) k)
      else if mode = 7 \<and> reg \<ge> 2 then DNone
      else wr_dst st bits v (ea_mem st mode reg k))"

definition op_move :: "m68k \<Rightarrow> u16 \<Rightarrow> iout" where
  "op_move st op =
     (if \<not> (op AND 0xC000 = 0 \<and> op AND 0x3000 \<noteq> 0) then Fall st
      else (let szf = unat (drop_bit 12 op AND 3);
                bits = (if szf = 1 then 8 else if szf = 3 then 16 else 32)
        in case move_src st bits (f3 op) (r0 op) of
          SUndef \<Rightarrow> Undef ''fetch outside host_mem''
        | SOob \<Rightarrow> Fail ''move: source out of sandbox''
        | SNone \<Rightarrow> Fall st
        | SVal st1 v k \<Rightarrow> (case move_dst st1 bits (f6 op) (r9 op) v k of
              DUndef \<Rightarrow> Undef ''fetch outside host_mem''
            | DOob \<Rightarrow> Fail ''move: destination out of sandbox''
            | DNone \<Rightarrow> Fall st1
            | DDone st2 k2 \<Rightarrow>
                adv (if f6 op = 1 then st2 else mvcc bits (v AND msk bits) st2) (of_nat k2))))"

end
