(* ===== verification/M68k_Run.thy ===== *)
theory M68k_Run
  imports M68k_Move
begin

text \<open>
  The interpreter loop \<open>j5d_interp_run\<close> (\<open>hosted/jit68k/j5d_interp.c\<close>): the
  step cap, the safe point, the address and bus errors, the stop PC and the step hook, then
  the blocks tried in the order the source has them.
\<close>

section \<open>Environment and results\<close>

text \<open>
  What the loop consults and does not compute: the cap of \<open>interp_step_cap()\<close>, the
  library bridge, \<open>j5d_take_stop\<close> (asked with the step number), the stop PC when
  \<open>g_stop_active\<close> is set, and the diagnostics hook.
\<close>

record interp_env =
  step_cap :: u64
  lvo :: "lvo_fn option"
  take_stop :: "u32 \<Rightarrow> bool"
  stop_pc :: "u32 option"
  step_hook :: "u32 \<Rightarrow> m68k \<Rightarrow> u16 \<Rightarrow> bool"

text \<open>
  The return values 0 (\<open>RExit\<close> with \<open>*exit_d0\<close>), 1 (\<open>RErr\<close>),
  \<open>J5D_RC_KILLED\<close> and 2 (\<open>RStopped\<close>); \<open>RUndef\<close> is undefined behaviour in C
  and \<open>RFpu\<close> an instruction of the floating-point arithmetic block.
\<close>

datatype run_result =
    RExit u32 m68k
  | RErr string
  | RKilled m68k
  | RStopped m68k
  | RUndef string
  | RFpu m68k

section \<open>Dispatch\<close>

definition blocks :: "lvo_fn option \<Rightarrow> (m68k \<Rightarrow> u16 \<Rightarrow> iout) list" where
  "blocks lf =
    [op_rts, op_nop, op_alu_ea, op_rte, op_trap, op_illegal, op_divw, op_jsr_lib lf,
     op_move_from_ccr, op_move_to_ccr, op_push_ccr, op_pop_ccr, op_addi_subi_ind, op_cas,
     op_jsr_absl, op_jsr_an, op_jsr_indexed, op_jmp_absl, op_jmp_an, op_jmp_indexed,
     op_jsr_pc, op_jmp_pc, op_link, op_unlk, op_movea_w_imm, op_addsubi_b, op_addsub_b_imm,
     op_eori_w, op_eori_b, op_andi_w, op_clr_l_predec, op_clr_l_ind, op_clr_l_disp,
     op_tst_l_disp, op_tst_l_abs, op_clr_l_abs, op_moveq, op_move_l_imm, op_movea_l_imm,
     op_move_l_dm, op_movea_l_dn, op_movea_l_an, op_lea_abs, op_lea_pc, op_lea_disp,
     op_lea_indexed, op_addx, op_add_l_imm, op_sub_l_imm, op_cmp_l_imm, op_add_l_dm,
     op_add_l_am, op_add_l_postinc, op_add_l_ind, op_subx, op_addsub_bw_dm, op_sub_l_dm,
     op_sub_l_disp, op_add_l_disp, op_scc, op_and_l_imm, op_cmpi_b_dn, op_cmpi_ea,
     op_cmpi_w_dn, op_andor_w_imm, op_and_b_imm, op_or_b_imm, op_or_l_imm, op_andor_bw_dm,
     op_and_l_dm, op_or_l_dm, op_eor_l, op_cmp_l_dm, op_muls_w, op_addq_l_an, op_subq_l_an,
     op_addq_l_dn, op_subq_l_dn, op_bcc, op_fdbcc, op_ftrapcc, op_fscc, op_fbcc,
     op_move_l_ea, op_move_w_dm, op_line0_l, op_btst, op_movem, op_clr_l_dn, op_negx, op_neg,
     op_not_l, op_tst_l_dn, op_swap, op_ext_l, op_ext_w, op_shift_reg, op_shift_imm_l,
     op_suba_w_imm, op_adda_w_imm, op_suba_l_imm, op_adda_l_imm, op_addsuba, op_addq_w_an,
     op_subq_w_an, op_addq_w_dn, op_subq_w_dn, op_addq_b_dn, op_subq_b_dn, op_extb_l,
     op_tst_ea, op_pea, op_cmp_ea, op_add_b_dm, op_cmpi_l_disp, op_cmpm, op_cmpi_b_disp,
     op_cmpi_l_ind, op_move_b_disp, op_move_w_disp, op_move_bw_pc, op_add_b_ind,
     op_move_w_imm_ind, op_mulx_l, op_divx_l, op_shift_imm_bw, op_move_b_ea, op_fp_moves,
     op_fpu, op_color00, op_move]"

fun try_blocks :: "(m68k \<Rightarrow> u16 \<Rightarrow> iout) list \<Rightarrow> m68k \<Rightarrow> u16 \<Rightarrow> iout" where
  "try_blocks [] st op = Fail ''interp: out-of-subset opcode''"
| "try_blocks (b # bs) st op = (case b st op of Fall st' \<Rightarrow> try_blocks bs st' op | r \<Rightarrow> r)"

section \<open>One iteration\<close>

datatype iter = Next m68k | Done run_result

definition raise_iter :: "m68k \<Rightarrow> u32 \<Rightarrow> iter" where
  "raise_iter st vnum =
     (case iraise st vnum (mpc st) of Inl e \<Rightarrow> Done (RErr e) | Inr (st', h) \<Rightarrow> Next (jump st' h))"

definition exec_insn :: "interp_env \<Rightarrow> u32 \<Rightarrow> m68k \<Rightarrow> u16 \<Rightarrow> iter" where
  "exec_insn env steps st op =
     (let st1 = st\<lparr>pc_saved := mpc st\<rparr> in
      if step_hook env steps st1 op then Done (RExit (dreg st1 0) st1)
      else case try_blocks (blocks (lvo env)) st1 op of
          Cont st' \<Rightarrow> Next st'
        | Exit d0 st' \<Rightarrow> Done (RExit d0 st')
        | Fail e \<Rightarrow> Done (RErr e)
        | Undef e \<Rightarrow> Done (RUndef e)
        | FpuArith st' \<Rightarrow> Done (RFpu st')
        | Fall st' \<Rightarrow> Done (RErr ''interp: out-of-subset opcode''))"

definition interp_iter :: "interp_env \<Rightarrow> u32 \<Rightarrow> m68k \<Rightarrow> iter" where
  "interp_iter env steps st =
     (let pc = mpc st; sb = box st in
      if (ucast steps :: u64) > step_cap env
      then Done (RErr ''step cap exceeded (runaway/mis-decode)'')
      else if steps AND 0x3ff = 0 \<and> take_stop env steps then Done (RKilled (st\<lparr>pc_saved := pc\<rparr>))
      else if pc AND 1 \<noteq> 0 \<and> in_box sb pc 2 then raise_iter st 3
      else if \<not> in_box sb pc 2 then raise_iter st 2
      else if stop_pc env = Some pc then Done (RStopped (st\<lparr>pc_saved := pc\<rparr>))
      else exec_insn env steps st
        (be16 (host_mem sb (hoff sb pc)) (host_mem sb (hoff sb pc + 1))))"

section \<open>The loop and its entry\<close>

text \<open>
  \<open>steps\<close> is a \<open>uint32_t\<close> incremented at the loop head; the fuel bounds the number of
  iterations the model unrolls, \<open>None\<close> is a run that has not returned by then.
\<close>

fun interp_loop :: "interp_env \<Rightarrow> nat \<Rightarrow> u32 \<Rightarrow> m68k \<Rightarrow> run_result option" where
  "interp_loop env 0 steps st = None"
| "interp_loop env (Suc n) steps st =
     (case interp_iter env (steps + 1) st of
        Done r \<Rightarrow> Some r
      | Next st' \<Rightarrow> interp_loop env n (steps + 1) st')"

definition interp_entry :: "u32 \<Rightarrow> u32 \<Rightarrow> m68k \<Rightarrow> m68k" where
  "interp_entry entry_pc a6_libbase st =
     (let st1 = seta st 6 a6_libbase;
          isp = (if areg st1 7 = 0 then (origin (box st) + sb_size (box st)) AND NOT 0xF
                 else areg st1 7)
      in (seta st1 7 isp)\<lparr>initial_sp := isp, mpc := entry_pc\<rparr>)"

definition j5d_interp_run :: "interp_env \<Rightarrow> nat \<Rightarrow> u32 \<Rightarrow> u32 \<Rightarrow> m68k \<Rightarrow> run_result option" where
  "j5d_interp_run env fuel entry_pc a6_libbase st =
     interp_loop env fuel 0 (interp_entry entry_pc a6_libbase st)"

end
