(* ===== verification/M68k_Frame.thy ===== *)
theory M68k_Frame
  imports M68k_Run
begin

text \<open>
  The frame of the interpreter: no block moves or resizes the sandbox, writes a host byte
  outside it, or changes the entry stack pointer. The lemmas go block by block over the
  introduction rules of \<open>keep_intro\<close>; the loop inherits them by induction on the fuel.
\<close>

section \<open>The frame predicate\<close>

definition writes_inside :: "sandbox \<Rightarrow> sandbox \<Rightarrow> bool" where
  "writes_inside sb sb' \<longleftrightarrow>
     same_range sb sb' \<and> (\<forall>i \<ge> unat (sb_size sb). host_mem sb' i = host_mem sb i)"

lemma writes_inside_trans:
  "writes_inside a b \<Longrightarrow> writes_inside b c \<Longrightarrow> writes_inside a c"
  by (auto simp: writes_inside_def same_range_def)

lemma writes_inside_refl [simp]: "writes_inside a a"
  by (simp add: writes_inside_def)

lemma wr_inside:
  "mem_wr32 sb a v = Some sb' \<Longrightarrow> writes_inside sb sb'"
  "mem_wr16 sb a w = Some sb' \<Longrightarrow> writes_inside sb sb'"
  "mem_wr8 sb a b = Some sb' \<Longrightarrow> writes_inside sb sb'"
  unfolding writes_inside_def
  by (meson mem_wr32_range mem_wr16_range mem_wr8_range long.wr_changes_inside
      word16.wr_changes_inside byte8.wr_changes_inside not_le)+

lemma wr_sz_inside: "wr_sz sb bits a v = Some sb' \<Longrightarrow> writes_inside sb sb'"
  by (auto simp: wr_sz_def split: if_splits dest: wr_inside)

lemmas wr_frames = wr_inside wr_sz_inside

definition keeps :: "m68k \<Rightarrow> m68k \<Rightarrow> bool" where
  "keeps st st' \<longleftrightarrow>
     writes_inside (box st) (box st') \<and> initial_sp st' = initial_sp st"

fun keeps_out :: "m68k \<Rightarrow> iout \<Rightarrow> bool" where
  "keeps_out st (Fall s) = keeps st s"
| "keeps_out st (Cont s) = keeps st s"
| "keeps_out st (Exit v s) = keeps st s"
| "keeps_out st (Fail e) = True"
| "keeps_out st (Undef e) = True"
| "keeps_out st (FpuArith s) = keeps st s"

lemma keeps_refl [keep_intro]: "keeps st st"
  by (simp add: keeps_def)

lemma keeps_trans: "keeps a b \<Longrightarrow> keeps b c \<Longrightarrow> keeps a c"
  by (auto simp: keeps_def intro: writes_inside_trans)

lemma keeps_out_trans: "keeps a b \<Longrightarrow> keeps_out b r \<Longrightarrow> keeps_out a r"
  by (cases r) (auto intro: keeps_trans)

lemma keeps_regs [keep_intro]:
  "keeps st s \<Longrightarrow> keeps st (setd s n v)"
  "keeps st s \<Longrightarrow> keeps st (seta s n v)"
  "keeps st s \<Longrightarrow> keeps st (setcc s c)"
  "keeps st s \<Longrightarrow> keeps st (jump s t)"
  "keeps st s \<Longrightarrow> keeps st (clr_cc s)"
  "keeps st s \<Longrightarrow> keeps st (mvcc b v s)"
  "keeps st s \<Longrightarrow> keeps st (put_logic s n v)"
  "keeps st s \<Longrightarrow> keeps st (put_b s n bt)"
  "keeps st s \<Longrightarrow> keeps st (put_w s n w)"
  "keeps st s \<Longrightarrow> keeps st (add_to s n v)"
  "keeps st s \<Longrightarrow> keeps st (sub_from s n v)"
  "keeps st s \<Longrightarrow> keeps st (iunpack_sr s sr)"
  "keeps st s \<Longrightarrow> keeps st (s\<lparr>fpsr := v\<rparr>)"
  "keeps st s \<Longrightarrow> keeps st (s\<lparr>pc_saved := v\<rparr>)"
  "keeps st s \<Longrightarrow> keeps st (MV_WRREG s n v)"
  "keeps st s \<Longrightarrow> keeps st (alu_apply s l bts n v)"
  "keeps st s \<Longrightarrow> keeps st (s\<lparr>fp := f\<rparr>)"
  "keeps st s \<Longrightarrow> keeps st (set_ctrl s ct v)"
  by (cases ct; simp add: keeps_def setd_def seta_def setcc_def jump_def clr_cc_def mvcc_def
      put_logic_def put_b_def put_w_def add_to_def sub_from_def iunpack_sr_def MV_WRREG_def
      alu_apply_def Let_def)+

lemma keeps_setbox [keep_intro]:
  "writes_inside B sb \<Longrightarrow> box s = B \<Longrightarrow> keeps st s \<Longrightarrow> keeps st (setbox s sb)"
  by (simp add: keeps_def setbox_def writes_inside_def same_range_def)

lemma box_regs [simp]:
  "box (setd s n v) = box s" "box (seta s n v) = box s" "box (setcc s c) = box s"
  "box (jump s t) = box s" "box (setbox s sb) = sb"
  by (simp_all add: setd_def seta_def setcc_def jump_def setbox_def)

section \<open>Rules for the outcome combinators\<close>

lemma keeps_adv [keep_intro]: "keeps st s \<Longrightarrow> keeps_out st (adv s n)"
  by (simp add: adv_def keep_intro)

lemma keeps_with [keep_intro]:
  "(\<And>w. keeps_out st (f w)) \<Longrightarrow> keeps_out st (with16 s k f)"
  "(\<And>w. keeps_out st (g w)) \<Longrightarrow> keeps_out st (with32 s k g)"
  "(\<And>w. keeps_out st (g w)) \<Longrightarrow> keeps_out st (with16s s k g)"
  by (auto simp: with16_def with32_def with16s_def split: option.split)

lemma keeps_need [keep_intro]:
  "(\<And>v. x = Some v \<Longrightarrow> keeps_out st (f v)) \<Longrightarrow> keeps_out st (need msg x f)"
  by (simp add: need_def split: option.split)

lemma keeps_push32 [keep_intro]:
  "keeps st s \<Longrightarrow> (\<And>s'. keeps st s' \<Longrightarrow> keeps_out st (k s')) \<Longrightarrow> keeps_out st (push32 msg s v k)"
proof -
  assume s: "keeps st s" and k: "\<And>s'. keeps st s' \<Longrightarrow> keeps_out st (k s')"
  have "keeps_out st (k (seta (setbox s sb) 7 a))" if "mem_wr32 (box s) b v = Some sb" for sb a b
    using that s by (intro k keeps_regs keeps_setbox) (auto dest: wr_inside)
  then show ?thesis by (auto simp: push32_def Let_def need_def split: option.split)
qed

lemma iraise_keeps: "iraise s vn ret = Inr (s', h) \<Longrightarrow> keeps s s'"
  by (auto simp: iraise_def keeps_def writes_inside_def same_range_def Let_def dest!: in_box_hoff
      split: option.splits if_splits)

lemma keeps_raise_to [keep_intro]: "keeps st s \<Longrightarrow> keeps_out st (raise_to s vn ret)"
  by (auto simp: raise_to_def intro: keep_intro keeps_trans dest!: iraise_keeps split: sum.splits)

lemma keeps_bsun [keep_intro]:
  "keeps st s \<Longrightarrow> (\<And>s'. keeps st s' \<Longrightarrow> keeps_out st (k s')) \<Longrightarrow> keeps_out st (bsun s pred ret k)"
  by (auto simp: bsun_def Let_def dest!: iraise_keeps split: sum.split
      intro!: keeps_regs(4) intro: keeps_regs(13) keeps_trans)

section \<open>The blocks\<close>

lemma keeps_control [keep_intro]:
  "keeps_out st (op_rts st op)" "keeps_out st (op_nop st op)" "keeps_out st (op_rte st op)"
  "keeps_out st (op_trap st op)" "keeps_out st (op_illegal st op)"
  "keeps_out st (op_move_from_ccr st op)" "keeps_out st (op_move_to_ccr st op)"
  "keeps_out st (op_push_ccr st op)" "keeps_out st (op_pop_ccr st op)"
  by (auto simp: op_rts_def op_nop_def op_rte_def op_trap_def op_illegal_def op_move_from_ccr_def
      op_move_to_ccr_def op_push_ccr_def op_pop_ccr_def Let_def intro!: keep_intro dest!: wr_frames)

lemma keeps_jumps [keep_intro]:
  "keeps_out st (op_jsr_absl st op)" "keeps_out st (op_jsr_an st op)"
  "keeps_out st (op_jsr_indexed st op)" "keeps_out st (op_jmp_absl st op)"
  "keeps_out st (op_jmp_an st op)" "keeps_out st (op_jmp_indexed st op)"
  "keeps_out st (op_jsr_pc st op)" "keeps_out st (op_jmp_pc st op)" "keeps_out st (op_link st op)"
  "keeps_out st (op_unlk st op)" "keeps_out st (op_bcc st op)" "keeps_out st (op_scc st op)"
  by (auto simp: op_jsr_absl_def op_jsr_an_def op_jsr_indexed_def op_jmp_absl_def op_jmp_an_def
      op_jmp_indexed_def op_jsr_pc_def op_jmp_pc_def op_link_def op_unlk_def op_bcc_def op_scc_def
      Let_def intro!: keep_intro dest!: wr_frames split: option.split prod.split)

lemma keeps_fp_control [keep_intro]:
  "keeps_out st (op_fdbcc st op)" "keeps_out st (op_ftrapcc st op)"
  "keeps_out st (op_fscc st op)" "keeps_out st (op_fbcc st op)"
  by (auto simp: op_fdbcc_def op_ftrapcc_def op_fscc_def op_fbcc_def Let_def intro!: keep_intro dest!: wr_frames)

lemma keeps_divw_apply [keep_intro]: "keeps st s \<Longrightarrow> keeps_out st (divw_apply s sg dn d after)"
  by (auto simp: divw_apply_def Let_def intro!: keep_intro dest!: wr_frames)

lemma divw_source_keeps:
  "divw_source st mode reg = DivMem s a len \<Longrightarrow> keeps st s"
  by (auto simp: divw_source_def Let_def intro: keep_intro dest!: wr_frames split: if_splits option.splits)

lemma keeps_divw [keep_intro]: "keeps_out st (op_divw st op)"
  by (auto simp: op_divw_def Let_def intro!: keep_intro dest!: wr_frames dest: divw_source_keeps split: divsrc.split)

lemma keeps_alu_1 [keep_intro]:
  "keeps_out st (op_alu_ea st op)"
  "keeps_out st (op_addi_subi_ind st op)"
  "keeps_out st (op_cas st op)"
  "keeps_out st (op_addsubi_b st op)"
  "keeps_out st (op_addsub_b_imm st op)"
  "keeps_out st (op_eori_w st op)"
  "keeps_out st (op_eori_b st op)"
  "keeps_out st (op_andi_w st op)"
  "keeps_out st (op_addx st op)"
  "keeps_out st (op_subx st op)"
  "keeps_out st (op_negx st op)"
  "keeps_out st (op_neg st op)"
  by (auto simp: op_alu_ea_def op_addi_subi_ind_def op_cas_def op_addsubi_b_def op_addsub_b_imm_def op_eori_w_def op_eori_b_def op_andi_w_def op_addx_def op_subx_def op_negx_def op_neg_def Let_def intro!: keep_intro dest!: wr_frames split: easrc.split option.split)

lemma keeps_alu_2 [keep_intro]:
  "keeps_out st (op_add_l_imm st op)"
  "keeps_out st (op_sub_l_imm st op)"
  "keeps_out st (op_cmp_l_imm st op)"
  "keeps_out st (op_add_l_dm st op)"
  "keeps_out st (op_add_l_am st op)"
  "keeps_out st (op_add_l_postinc st op)"
  "keeps_out st (op_add_l_ind st op)"
  "keeps_out st (op_addsub_bw_dm st op)"
  "keeps_out st (op_sub_l_dm st op)"
  "keeps_out st (op_sub_l_disp st op)"
  "keeps_out st (op_add_l_disp st op)"
  "keeps_out st (op_and_l_imm st op)"
  by (auto simp: op_add_l_imm_def op_sub_l_imm_def op_cmp_l_imm_def op_add_l_dm_def op_add_l_am_def op_add_l_postinc_def op_add_l_ind_def op_addsub_bw_dm_def op_sub_l_dm_def op_sub_l_disp_def op_add_l_disp_def op_and_l_imm_def Let_def intro!: keep_intro dest!: wr_frames split: easrc.split option.split)

lemma keeps_alu_3 [keep_intro]:
  "keeps_out st (op_cmpi_b_dn st op)"
  "keeps_out st (op_cmpi_ea st op)"
  "keeps_out st (op_cmpi_w_dn st op)"
  "keeps_out st (op_andor_w_imm st op)"
  "keeps_out st (op_and_b_imm st op)"
  "keeps_out st (op_or_b_imm st op)"
  "keeps_out st (op_or_l_imm st op)"
  "keeps_out st (op_andor_bw_dm st op)"
  "keeps_out st (op_and_l_dm st op)"
  "keeps_out st (op_or_l_dm st op)"
  "keeps_out st (op_eor_l st op)"
  "keeps_out st (op_cmp_l_dm st op)"
  by (auto simp: op_cmpi_b_dn_def op_cmpi_ea_def op_cmpi_w_dn_def op_andor_w_imm_def op_and_b_imm_def op_or_b_imm_def op_or_l_imm_def op_andor_bw_dm_def op_and_l_dm_def op_or_l_dm_def op_eor_l_def op_cmp_l_dm_def Let_def intro!: keep_intro dest!: wr_frames split: easrc.split option.split)

lemma keeps_alu_4 [keep_intro]:
  "keeps_out st (op_muls_w st op)"
  "keeps_out st (op_addq_l_an st op)"
  "keeps_out st (op_subq_l_an st op)"
  "keeps_out st (op_addq_l_dn st op)"
  "keeps_out st (op_subq_l_dn st op)"
  "keeps_out st (op_line0_l st op)"
  "keeps_out st (op_btst st op)"
  "keeps_out st (op_suba_w_imm st op)"
  "keeps_out st (op_adda_w_imm st op)"
  "keeps_out st (op_suba_l_imm st op)"
  "keeps_out st (op_adda_l_imm st op)"
  "keeps_out st (op_addsuba st op)"
  by (auto simp: op_muls_w_def op_addq_l_an_def op_subq_l_an_def op_addq_l_dn_def op_subq_l_dn_def op_line0_l_def op_btst_def op_suba_w_imm_def op_adda_w_imm_def op_suba_l_imm_def op_adda_l_imm_def op_addsuba_def Let_def intro!: keep_intro dest!: wr_frames split: easrc.split option.split)

lemma keeps_alu_5 [keep_intro]:
  "keeps_out st (op_addq_w_an st op)"
  "keeps_out st (op_subq_w_an st op)"
  "keeps_out st (op_addq_w_dn st op)"
  "keeps_out st (op_subq_w_dn st op)"
  "keeps_out st (op_addq_b_dn st op)"
  "keeps_out st (op_subq_b_dn st op)"
  by (auto simp: op_addq_w_an_def op_subq_w_an_def op_addq_w_dn_def op_subq_w_dn_def op_addq_b_dn_def op_subq_b_dn_def Let_def intro!: keep_intro dest!: wr_frames split: easrc.split option.split)

lemma keeps_move_1 [keep_intro]:
  "keeps_out st (op_movea_w_imm st op)"
  "keeps_out st (op_clr_l_predec st op)"
  "keeps_out st (op_clr_l_ind st op)"
  "keeps_out st (op_clr_l_disp st op)"
  "keeps_out st (op_tst_l_disp st op)"
  "keeps_out st (op_tst_l_abs st op)"
  "keeps_out st (op_clr_l_abs st op)"
  "keeps_out st (op_moveq st op)"
  "keeps_out st (op_move_l_imm st op)"
  "keeps_out st (op_movea_l_imm st op)"
  "keeps_out st (op_move_l_dm st op)"
  "keeps_out st (op_movea_l_dn st op)"
  by (auto simp: op_movea_w_imm_def op_clr_l_predec_def op_clr_l_ind_def op_clr_l_disp_def op_tst_l_disp_def op_tst_l_abs_def op_clr_l_abs_def op_moveq_def op_move_l_imm_def op_movea_l_imm_def op_move_l_dm_def op_movea_l_dn_def Let_def intro!: keep_intro dest!: wr_frames split: option.split)

lemma keeps_move_2 [keep_intro]:
  "keeps_out st (op_movea_l_an st op)"
  "keeps_out st (op_lea_abs st op)"
  "keeps_out st (op_lea_pc st op)"
  "keeps_out st (op_lea_disp st op)"
  "keeps_out st (op_lea_indexed st op)"
  "keeps_out st (op_move_w_dm st op)"
  "keeps_out st (op_clr_l_dn st op)"
  "keeps_out st (op_not_l st op)"
  "keeps_out st (op_tst_l_dn st op)"
  "keeps_out st (op_swap st op)"
  "keeps_out st (op_ext_l st op)"
  "keeps_out st (op_ext_w st op)"
  by (auto simp: op_movea_l_an_def op_lea_abs_def op_lea_pc_def op_lea_disp_def op_lea_indexed_def op_move_w_dm_def op_clr_l_dn_def op_not_l_def op_tst_l_dn_def op_swap_def op_ext_l_def op_ext_w_def Let_def intro!: keep_intro dest!: wr_frames split: option.split)

lemma keeps_move_3 [keep_intro]:
  "keeps_out st (op_extb_l st op)"
  "keeps_out st (op_add_b_dm st op)"
  "keeps_out st (op_cmpi_l_disp st op)"
  "keeps_out st (op_cmpm st op)"
  "keeps_out st (op_cmpi_b_disp st op)"
  "keeps_out st (op_cmpi_l_ind st op)"
  "keeps_out st (op_move_b_disp st op)"
  "keeps_out st (op_move_w_disp st op)"
  "keeps_out st (op_move_bw_pc st op)"
  "keeps_out st (op_add_b_ind st op)"
  "keeps_out st (op_move_w_imm_ind st op)"
  "keeps_out st (op_color00 st op)"
  by (auto simp: op_extb_l_def op_add_b_dm_def op_cmpi_l_disp_def op_cmpm_def op_cmpi_b_disp_def op_cmpi_l_ind_def op_move_b_disp_def op_move_w_disp_def op_move_bw_pc_def op_add_b_ind_def op_move_w_imm_ind_def op_color00_def Let_def intro!: keep_intro dest!: wr_frames split: option.split)

lemma keeps_shifts [keep_intro]:
  "keeps_out st (op_shift_reg st op)" "keeps_out st (op_shift_imm_l st op)"
  "keeps_out st (op_shift_imm_bw st op)"
  by (auto simp: op_shift_reg_def op_shift_imm_l_def op_shift_imm_bw_def Let_def
      intro!: keep_intro dest!: wr_frames split: option.split prod.split)

text \<open>Sources and destinations: every state they hand on keeps the frame.\<close>

lemma rd_src_keeps: "rd_src s bits e = SVal s' v k \<Longrightarrow> s' = s"
  by (auto simp: rd_src_def split: ea.splits option.splits)

lemma wr_dst_keeps: "wr_dst s bits v e = DDone s' k \<Longrightarrow> keeps s s'"
  by (auto simp: wr_dst_def intro: keep_intro dest!: wr_frames split: ea.splits option.splits)

lemma move_src_keeps:
  "move_l_src s mode reg = SVal s' v k \<Longrightarrow> keeps s s'"
  "move_b_src s mode reg = SVal s' v k \<Longrightarrow> keeps s s'"
  "move_src s bits mode reg = SVal s' v k \<Longrightarrow> keeps s s'"
  by (auto simp: move_l_src_def move_b_src_def move_src_def Let_def dest!: rd_src_keeps
      intro!: keep_intro dest!: wr_frames split: if_splits option.splits)

lemma keeps_seta_iff [simp]: "keeps (seta s n v) s' = keeps s s'"
  by (simp add: keeps_def seta_def)

lemma move_l_dst_keeps: "move_l_dst s mode reg v k = DDone s' k' \<Longrightarrow> keeps s s'"
  by (auto simp: move_l_dst_def Let_def dest: wr_dst_keeps intro!: keep_intro dest!: wr_frames
      split: if_splits option.splits dst.splits)

lemma move_b_dst_keeps: "move_b_dst s mode reg v k = DDone s' k' \<Longrightarrow> keeps s s'"
  by (auto simp: move_b_dst_def dest: wr_dst_keeps intro!: keep_intro dest!: wr_frames
      split: if_splits option.splits)

lemma move_dst_keeps: "move_dst s bits mode reg v k = DDone s' k' \<Longrightarrow> keeps s s'"
  by (auto simp: move_dst_def Let_def dest: wr_dst_keeps intro!: keep_intro dest!: wr_frames
      split: if_splits option.splits)

lemma dst_keeps:
  "move_l_dst s mode reg v k = DDone s' k' \<Longrightarrow> keeps st s \<Longrightarrow> keeps st s'"
  "move_b_dst s mode reg v k = DDone s' k' \<Longrightarrow> keeps st s \<Longrightarrow> keeps st s'"
  "move_dst s bits mode reg v k = DDone s' k' \<Longrightarrow> keeps st s \<Longrightarrow> keeps st s'"
  by (blast intro: keeps_trans dest: move_l_dst_keeps move_b_dst_keeps move_dst_keeps)+

lemma keeps_src_dst:
  assumes "\<And>s' v k. sr = SVal s' v k \<Longrightarrow> keeps st s'"
    and "\<And>s' v k s'' k'. sr = SVal s' v k \<Longrightarrow> d s' v k = DDone s'' k' \<Longrightarrow> keeps s' s''"
    and "\<And>s'' v k'. keeps st s'' \<Longrightarrow> keeps_out st (f s'' v k')"
  shows "keeps_out st (case sr of SUndef \<Rightarrow> Undef e1 | SOob \<Rightarrow> Fail e2 | SNone \<Rightarrow> Fall st
     | SVal s1 v k \<Rightarrow> (case d s1 v k of DUndef \<Rightarrow> Undef e1 | DOob \<Rightarrow> Fail e3 | DNone \<Rightarrow> Fall s1
         | DDone s2 k' \<Rightarrow> f s2 v k'))"
proof (cases sr)
  case (SVal s1 v k)
  show ?thesis
  proof (cases "d s1 v k")
    case (DDone s2 k')
    then have "keeps st s2" using SVal assms(1,2) by (blast intro: keeps_trans)
    then show ?thesis by (simp add: SVal DDone assms(3))
  qed (simp_all add: SVal assms(1))
qed (simp_all add: keeps_refl)

lemma keeps_moves [keep_intro]:
  "keeps_out st (op_move_l_ea st op)" "keeps_out st (op_move_b_ea st op)"
  "keeps_out st (op_move st op)"
  unfolding op_move_l_ea_def op_move_b_ea_def op_move_def Let_def
  by (simp_all add: keeps_refl,
      (intro conjI impI keeps_src_dst; auto intro!: keeps_adv keeps_regs
         dest: move_src_keeps move_l_dst_keeps move_b_dst_keeps move_dst_keeps)+)

lemma keeps_src:
  "(\<And>s' v k. sr = SVal s' v k \<Longrightarrow> keeps_out st (f s' v k)) \<Longrightarrow>
   keeps_out st (case sr of SUndef \<Rightarrow> Undef e1 | SOob \<Rightarrow> Fail e2 | SNone \<Rightarrow> Fail e3
     | SVal s' v k \<Rightarrow> f s' v k)"
  by (cases sr) auto

lemma keeps_ea_ops [keep_intro]:
  "keeps_out st (op_tst_ea st op)" "keeps_out st (op_cmp_ea st op)"
  unfolding op_tst_ea_def op_cmp_ea_def Let_def
  by (auto intro!: keeps_src keeps_adv keeps_regs keeps_refl dest!: rd_src_keeps
      split: if_splits option.splits)

lemma keeps_pea [keep_intro]: "keeps_out st (op_pea st op)"
  by (auto simp: op_pea_def intro!: keep_intro split: ea.split)

lemma keeps_divx_apply [keep_intro]: "keeps_out st (divx_apply st ext d len)"
  by (auto simp: divx_apply_def Let_def intro!: keep_intro dest!: wr_frames)

lemma keeps_mul_div [keep_intro]:
  "keeps_out st (op_mulx_l st op)" "keeps_out st (op_divx_l st op)"
  by (auto simp: op_mulx_l_def op_divx_l_def Let_def intro!: keep_intro dest!: wr_frames)

text \<open>\<open>movem\<close> and the floating-point register moves: induction on the register list.\<close>

lemma movem_push_inside:
  "movem_push st lsz rs sb an = Some (sb', an') \<Longrightarrow> writes_inside sb sb'"
  by (induction st lsz rs sb an rule: movem_push.induct)
    (auto simp: Let_def dest!: wr_frames split: option.splits intro: writes_inside_trans)

lemma movem_store_inside:
  "movem_store st lsz rs sb an = Some sb' \<Longrightarrow> writes_inside sb sb'"
  by (induction st lsz rs sb an rule: movem_store.induct)
    (auto dest!: wr_frames split: option.splits intro: writes_inside_trans)

lemma setbox_same [simp]: "setbox s (box s) = s"
  by (simp add: setbox_def)

lemma movem_load_keeps: "movem_load s lsz rs addr = Some s' \<Longrightarrow> keeps s s'"
  by (induction s lsz rs addr rule: movem_load.induct)
    (auto intro: keep_intro dest!: wr_frames split: option.splits elim!: keeps_trans [rotated])

lemma keeps_setbox_self: "writes_inside (box st) sb \<Longrightarrow> keeps st (setbox st sb)"
  by (simp add: keeps_setbox keeps_refl)

lemma keeps_movem [keep_intro]: "keeps_out st (op_movem st op)"
  unfolding op_movem_def Let_def
  by (auto intro!: keeps_adv keeps_regs(2) keeps_with keeps_setbox_self keeps_refl
      dest!: movem_push_inside movem_store_inside movem_load_keeps
      split: option.split ea.split)


lemma put_bytes_outside: "i < p \<or> p + length bs \<le> i \<Longrightarrow> put_bytes m p bs i = m i"
  by (induction bs arbitrary: m p) auto

lemma j5r_double_to_x_length: "j5r_double_to_x b = Some xb \<Longrightarrow> length xb = 12"
  by (auto simp: j5r_double_to_x_def Let_def split: option.splits prod.splits)

lemma put_bytes_inside:
  assumes "in_box sb addr 12" "j5r_double_to_x b = Some xb"
  shows "writes_inside sb (sb\<lparr>host_mem := put_bytes (host_mem sb) (hoff sb addr) xb\<rparr>)"
  using in_box_hoff [OF assms(1)] j5r_double_to_x_length [OF assms(2)]
  by (auto simp: writes_inside_def same_range_def intro!: put_bytes_outside)

lemma fmovem_store_inside: "fmovem_store st rs addr sb = Inr sb' \<Longrightarrow> writes_inside sb sb'"
  by (induction st rs addr sb rule: fmovem_store.induct)
    (auto split: if_splits option.splits intro: put_bytes_inside writes_inside_trans)

lemma fmovem_load_keeps: "fmovem_load s rs addr = Some s' \<Longrightarrow> keeps s s'"
  by (induction s rs addr rule: fmovem_load.induct)
    (auto split: if_splits intro: keeps_refl keeps_regs elim!: keeps_trans [rotated])

lemma ctrl_load_keeps: "ctrl_load s cs addr = Some s' \<Longrightarrow> keeps s s'"
  by (induction s cs addr rule: ctrl_load.induct)
    (auto split: option.splits intro: keeps_refl keeps_regs elim!: keeps_trans [rotated])

lemma ctrl_store_keeps: "ctrl_store s cs addr = Some s' \<Longrightarrow> keeps s s'"
  by (induction s cs addr rule: ctrl_store.induct)
    (auto split: option.splits dest!: wr_inside intro: keeps_refl keeps_setbox_self
       elim!: keeps_trans [rotated])

lemma fmove_base_keeps:
  "fmove_base s f mode reg tot = (e, fin) \<Longrightarrow> keeps st s' \<Longrightarrow> keeps st (fin s')"
  by (auto simp: fmove_base_def intro: keeps_regs split: if_splits)

lemma keeps_fmovem [keep_intro]: "keeps_out st (op_fmovem st op oc2)"
  unfolding op_fmovem_def Let_def
  by (auto dest!: fmovem_store_inside fmovem_load_keeps
      intro!: keeps_adv keeps_setbox_self intro: fmove_base_keeps
      split: ea.split option.split sum.split prod.split)

lemma keeps_if:
  "(b \<Longrightarrow> keeps_out st x) \<Longrightarrow> (\<not> b \<Longrightarrow> keeps_out st y) \<Longrightarrow> keeps_out st (if b then x else y)"
  by simp

lemma keeps_fmove_ctrl [keep_intro]: "keeps_out st (op_fmove_ctrl st op oc2)"
proof -
  have transfer: "keeps_out st
      (case fmove_base st False m r t of
         (EUndef, _) \<Rightarrow> Undef e1 | (ENone, _) \<Rightarrow> Fail e2
       | (EA base k, fin) \<Rightarrow>
           (case (if ld then ctrl_load st cs base else ctrl_store st cs base) of
              None \<Rightarrow> Fail e3 | Some st' \<Rightarrow> adv (fin st') (of_nat k)))" for m r t ld cs e1 e2 e3
    by (auto split: prod.split ea.split option.split
        intro!: keeps_adv intro: fmove_base_keeps simp del: ctrl_load.simps ctrl_store.simps
        dest!: ctrl_load_keeps ctrl_store_keeps)
  have single: "(\<And>c. keeps_out st (f c)) \<Longrightarrow>
      keeps_out st (case cs of [] \<Rightarrow> Fail e | [c] \<Rightarrow> f c | c # c' # cs' \<Rightarrow> Fail e)" for f e and cs :: "ctrl list"
    by (auto split: list.split)
  show ?thesis
    unfolding op_fmove_ctrl_def Let_def
    by (intro keeps_if transfer single)
      (auto intro!: keeps_adv keeps_refl keeps_regs split: option.split)
qed

lemma keeps_fp_moves [keep_intro]:
  "keeps_out st (op_fp_moves st op)" "keeps_out st (op_fpu st op)"
  by (auto simp: op_fp_moves_def op_fpu_def intro: keep_intro split: option.split)

section \<open>The bridge, dispatch and the loop\<close>

text \<open>What the bridge owes the interpreter: it keeps the frame too.\<close>

definition bridge_ok :: "lvo_fn option \<Rightarrow> bool" where
  "bridge_ok lf \<longleftrightarrow> (case lf of None \<Rightarrow> True | Some f \<Rightarrow> \<forall>n st st'. f n st = Some st' \<longrightarrow> keeps st st')"

lemma keeps_jsr_lib: "bridge_ok lf \<Longrightarrow> keeps_out st (op_jsr_lib lf st op)"
  unfolding op_jsr_lib_def Let_def bridge_ok_def
  by (auto intro!: keeps_with keeps_regs keeps_refl split: option.splits)

lemma try_blocks_keeps:
  "(\<And>b s. b \<in> set bs \<Longrightarrow> keeps_out s (b s op)) \<Longrightarrow> keeps_out st (try_blocks bs st op)"
proof (induction bs arbitrary: st)
  case (Cons b bs)
  have "keeps_out st (b st op)" using Cons.prems by simp
  with Cons show ?case by (cases "b st op") (auto intro: keeps_out_trans)
qed simp

lemma blocks_keep:
  assumes "bridge_ok lf" "b \<in> set (blocks lf)"
  shows "keeps_out s (b s op)"
  using assms(2) unfolding blocks_def
  by (simp only: list.set insert_iff empty_iff simp_thms)
    (elim disjE; (hypsubst; (rule keep_intro keeps_jsr_lib assms)+))

fun keeps_res :: "m68k \<Rightarrow> run_result \<Rightarrow> bool" where
  "keeps_res st (RExit v s) = keeps st s"
| "keeps_res st (RErr e) = True"
| "keeps_res st (RKilled s) = keeps st s"
| "keeps_res st (RStopped s) = keeps st s"
| "keeps_res st (RUndef e) = True"
| "keeps_res st (RFpu s) = keeps st s"

fun keeps_iter :: "m68k \<Rightarrow> iter \<Rightarrow> bool" where
  "keeps_iter st (Next s) = keeps st s"
| "keeps_iter st (Done r) = keeps_res st r"

lemma keeps_res_trans: "keeps a b \<Longrightarrow> keeps_res b r \<Longrightarrow> keeps_res a r"
  by (cases r) (auto intro: keeps_trans)

lemma keeps_exec_insn:
  assumes "bridge_ok (lvo env)"
  shows "keeps_iter st (exec_insn env steps st op)"
proof -
  define s1 where "s1 = st\<lparr>pc_saved := mpc st\<rparr>"
  have k: "keeps st s1" by (simp add: s1_def keep_intro)
  have "keeps_out s1 (try_blocks (blocks (lvo env)) s1 op)"
    using assms by (intro try_blocks_keeps blocks_keep)
  then have "keeps_out st (try_blocks (blocks (lvo env)) s1 op)"
    using k by (rule keeps_out_trans [rotated])
  then show ?thesis
    using k by (auto simp: exec_insn_def s1_def [symmetric] Let_def split: iout.split)
qed

lemma keeps_interp_iter:
  "bridge_ok (lvo env) \<Longrightarrow> keeps_iter st (interp_iter env steps st)"
  by (auto simp: interp_iter_def raise_iter_def Let_def keeps_exec_insn dest!: iraise_keeps
      intro: keep_intro split: sum.split)

lemma interp_loop_keeps:
  "bridge_ok (lvo env) \<Longrightarrow> interp_loop env n steps st = Some r \<Longrightarrow> keeps_res st r"
proof (induction n arbitrary: steps st)
  case (Suc n)
  have "keeps_iter st (interp_iter env (steps + 1) st)" using Suc.prems by (intro keeps_interp_iter)
  with Suc show ?case by (auto split: iter.splits intro: keeps_res_trans)
qed simp

end
