(* ===== verification/M68k_Flags.thy ===== *)
theory M68k_Flags
  imports M68k_Loop
begin

text \<open>
  The condition codes against integer arithmetic, at the three operand widths: what C, X, V,
  Z and N say after an addition, a subtraction and a comparison, which branches they
  select, and that \<open>add\<close> followed by \<open>addx\<close> is a 64-bit addition.
\<close>

section \<open>Operand widths and the readings of an operand\<close>

text \<open>
  \<open>sval bits a\<close> reads the low \<open>bits\<close> bits in two's complement; \<open>fits bits a\<close> says that
  \<open>a\<close> has no higher bits, which the masks of the source establish.
\<close>

definition width_ok :: "nat \<Rightarrow> bool" where "width_ok bits \<longleftrightarrow> bits = 8 \<or> bits = 16 \<or> bits = 32"

definition sval :: "nat \<Rightarrow> u32 \<Rightarrow> int" where
  "sval bits a = (if unat a \<ge> 2 ^ (bits - 1) then int (unat a) - 2 ^ bits else int (unat a))"

definition fits :: "nat \<Rightarrow> u32 \<Rightarrow> bool" where "fits bits a \<longleftrightarrow> unat a < 2 ^ bits"

lemma msk_mask: "width_ok bits \<Longrightarrow> msk bits = mask bits"
  by (auto simp: width_ok_def msk_def mask_eq_exp_minus_1 push_bit_of_1)

lemma and_msk: "width_ok bits \<Longrightarrow> x AND msk bits = take_bit bits x"
  by (simp add: msk_mask take_bit_eq_mask)

lemma fits_msk: "width_ok bits \<Longrightarrow> fits bits (x AND msk bits)"
  by (simp add: and_msk fits_def unsigned_take_bit_eq)

lemma bit_unat: "bit (x :: 'a::len word) n \<longleftrightarrow> odd (unat x div 2 ^ n)"
  using bit_unsigned_iff [of x n] bit_imp_le_length [of x n]
  by (auto simp: bit_iff_odd)

lemma odd_div: "(k :: nat) < 2 ^ (n + 1) \<Longrightarrow> odd (k div 2 ^ n) \<longleftrightarrow> 2 ^ n \<le> k"
proof -
  assume "k < 2 ^ (n + 1)"
  then have "k div 2 ^ n < 2" by (simp add: div_less_iff_less_mult)
  then have "k div 2 ^ n = 0 \<or> k div 2 ^ n = 1" by arith
  moreover have "k div 2 ^ n = 0 \<longleftrightarrow> k < 2 ^ n" by (simp add: div_eq_0_iff)
  ultimately show ?thesis by (auto simp: not_le)
qed

lemma fits_int: "fits bits x \<Longrightarrow> int (unat x) < 2 ^ bits"
  by (metis fits_def of_nat_less_iff of_nat_power of_nat_numeral)

lemma and_msb: "x AND msb bits \<noteq> 0 \<longleftrightarrow> bit x (bits - 1)"
  by (simp add: msb_def push_bit_of_1 and_exp_eq_0_iff_not_bit)

lemma top_bit: "width_ok bits \<Longrightarrow> fits bits x \<Longrightarrow> bit x (bits - 1) \<longleftrightarrow> 2 ^ (bits - 1) \<le> unat x"
  unfolding bit_unat by (rule odd_div) (auto simp: width_ok_def fits_def)

lemma unat_sum64: "unat ((ucast (a :: u32) :: u64) + ucast (b :: u32)) = unat a + unat b"
  using unsigned_less [of a, where ?'a = nat] unsigned_less [of b, where ?'a = nat]
  by (simp add: unat_word_ariths unat_ucast64)

lemma unat_add_res:
  "width_ok bits \<Longrightarrow> unat (add_res bits a b) = (unat a + unat b) mod 2 ^ bits"
  using unsigned_less [of a, where ?'a = nat] unsigned_less [of b, where ?'a = nat]
  by (simp only: add_res_def and_msk unsigned_take_bit_eq unsigned_ucast_eq unat_sum64)
    (auto simp: width_ok_def take_bit_eq_mod mod_mod_cancel)

lemma add_res_fits: "width_ok bits \<Longrightarrow> fits bits (add_res bits a b)"
  by (simp add: fits_def unat_add_res)

lemma carry_bit:
  assumes "width_ok bits" "fits bits a" "fits bits b"
  shows "((ucast a :: u64) + ucast b) AND (ucast (msk bits) + 1) \<noteq> 0 \<longleftrightarrow> 2 ^ bits \<le> unat a + unat b"
proof -
  have m: "(ucast (msk bits) :: u64) + 1 = 2 ^ bits"
    using assms(1) by (auto simp: width_ok_def msk_def push_bit_of_1)
  have "unat a + unat b < 2 ^ (bits + 1)" using assms(2,3) by (simp add: fits_def)
  then have "bit ((ucast a :: u64) + ucast b) bits \<longleftrightarrow> 2 ^ bits \<le> unat a + unat b"
    unfolding bit_unat unat_sum64 by (rule odd_div)
  then show ?thesis by (simp add: m and_exp_eq_0_iff_not_bit)
qed

definition nval :: "nat \<Rightarrow> nat \<Rightarrow> int" where
  "nval H k = (if k \<ge> H then int k - 2 * int H else int k)"

lemma sval_nval: "width_ok bits \<Longrightarrow> sval bits a = nval (2 ^ (bits - 1)) (unat a)"
  by (auto simp: sval_def nval_def width_ok_def)

lemma add_overflow_arith:
  assumes "A < 2 * H" "B < 2 * H"
  defines "R \<equiv> (A + B) mod (2 * H)"
  shows "((H \<le> A) \<noteq> (H \<le> R) \<and> (H \<le> B) \<noteq> (H \<le> R)) =
    (nval H A + nval H B < - int H \<or> int H \<le> nval H A + nval H B)"
proof -
  have "R = (if A + B < 2 * H then A + B else A + B - 2 * H)"
    using assms by (simp add: mod_if)
  then show ?thesis using assms(1,2) unfolding nval_def by (auto split: if_splits)
qed

lemma nval_inj: "A < 2 * H \<Longrightarrow> B < 2 * H \<Longrightarrow> nval H A = nval H B \<longleftrightarrow> A = B"
  by (auto simp: nval_def split: if_splits)

lemma pow_half: "width_ok bits \<Longrightarrow> (2 :: nat) ^ bits = 2 * 2 ^ (bits - 1)"
  by (auto simp: width_ok_def)

lemma add_flags:
  assumes "width_ok bits" "fits bits a" "fits bits b"
  shows "(add_cc bits a b AND CCR_C \<noteq> 0) = (2 ^ bits \<le> unat a + unat b)"
    and "(add_cc bits a b AND CCR_X \<noteq> 0) = (2 ^ bits \<le> unat a + unat b)"
    and "(add_cc bits a b AND CCR_V \<noteq> 0) =
      (sval bits a + sval bits b < - (2 ^ (bits - 1)) \<or> 2 ^ (bits - 1) \<le> sval bits a + sval bits b)"
    and "(add_cc bits a b AND CCR_Z \<noteq> 0) = (add_res bits a b = 0)"
    and "(add_cc bits a b AND CCR_N \<noteq> 0) = (sval bits (add_res bits a b) < 0)"
proof -
  let ?r = "add_res bits a b"
  have cc: "add_cc bits a b = flg (2 ^ bits \<le> unat a + unat b) (CCR_C OR CCR_X)
      OR flg (bit ((a XOR ?r) AND (b XOR ?r)) (bits - 1)) CCR_V
      OR flg (?r = 0) CCR_Z OR flg (bit ?r (bits - 1)) CCR_N"
    using carry_bit [OF assms] by (simp add: add_cc_def Let_def and_msb nz_sz_def or.assoc)
  show "(add_cc bits a b AND CCR_C \<noteq> 0) = (2 ^ bits \<le> unat a + unat b)"
    "(add_cc bits a b AND CCR_X \<noteq> 0) = (2 ^ bits \<le> unat a + unat b)"
    "(add_cc bits a b AND CCR_Z \<noteq> 0) = (add_res bits a b = 0)"
    unfolding cc by (simp_all add: flag_simps ccr_bits)
  show "(add_cc bits a b AND CCR_N \<noteq> 0) = (sval bits (add_res bits a b) < 0)"
    unfolding cc using top_bit [OF assms(1) add_res_fits [OF assms(1)], of a b] 
       fits_int [OF add_res_fits [OF assms(1), of a b]]
    by (auto simp: flag_simps ccr_bits sval_def)
  have v: "(add_cc bits a b AND CCR_V \<noteq> 0) = bit ((a XOR ?r) AND (b XOR ?r)) (bits - 1)"
    unfolding cc by (simp add: flag_simps ccr_bits)
  show "(add_cc bits a b AND CCR_V \<noteq> 0) =
      (sval bits a + sval bits b < - (2 ^ (bits - 1)) \<or> 2 ^ (bits - 1) \<le> sval bits a + sval bits b)"
    using add_overflow_arith [of "unat a" "2 ^ (bits - 1)" "unat b"] assms(2,3)
    unfolding v by (simp add: bit_and_iff bit_xor_iff top_bit assms add_res_fits unat_add_res
      sval_nval fits_def pow_half [OF assms(1)] del: One_nat_def)
qed


lemma unat_sub_res:
  assumes "width_ok bits" "fits bits a" "fits bits b"
  shows "unat (sub_res bits a b) = (2 ^ bits + unat a - unat b) mod 2 ^ bits"
proof -
  have "unat (a - b) = (2 ^ 32 + unat a - unat b) mod 2 ^ 32"
    using unsigned_less [of a, where ?'a = nat] unsigned_less [of b, where ?'a = nat]
    by (auto simp: unat_word_ariths(1) unat_sub_if' mod_if)
  then have "unat (sub_res bits a b) = ((2 ^ 32 + unat a - unat b) mod 2 ^ 32) mod 2 ^ bits"
    using assms(1) by (simp only: sub_res_def and_msk unsigned_take_bit_eq) (simp only: take_bit_eq_mod)
  also have "\<dots> = (2 ^ 32 + unat a - unat b) mod 2 ^ bits"
    using assms(1) by (auto simp: width_ok_def mod_mod_cancel)
  also have "2 ^ 32 + unat a - unat b = (2 ^ 32 - 2 ^ bits) + (2 ^ bits + unat a - unat b)"
    using assms by (auto simp: width_ok_def fits_def)
  also have "\<dots> mod 2 ^ bits = (2 ^ bits + unat a - unat b) mod 2 ^ bits"
    using assms(1) by (subst mod_add_left_eq [symmetric]) (auto simp: width_ok_def)
  finally show ?thesis .
qed

lemma sub_res_fits: "width_ok bits \<Longrightarrow> fits bits (sub_res bits a b)"
  by (simp add: sub_res_def fits_msk)

lemma sub_overflow_arith:
  assumes "A < 2 * H" "B < 2 * H"
  defines "R \<equiv> (2 * H + A - B) mod (2 * H)"
  shows "((H \<le> A) \<noteq> (H \<le> B) \<and> (H \<le> A) \<noteq> (H \<le> R)) =
    (nval H A - nval H B < - int H \<or> int H \<le> nval H A - nval H B)"
    and "((H \<le> R) \<noteq> ((H \<le> A) \<noteq> (H \<le> B) \<and> (H \<le> A) \<noteq> (H \<le> R))) = (nval H A < nval H B)"
    and "(R = 0) = (A = B)"
proof -
  have "R = (if B \<le> A then A - B else 2 * H + A - B)"
    using assms by (auto simp: mod_if)
  then show "((H \<le> A) \<noteq> (H \<le> B) \<and> (H \<le> A) \<noteq> (H \<le> R)) =
    (nval H A - nval H B < - int H \<or> int H \<le> nval H A - nval H B)"
    "((H \<le> R) \<noteq> ((H \<le> A) \<noteq> (H \<le> B) \<and> (H \<le> A) \<noteq> (H \<le> R))) = (nval H A < nval H B)"
    "(R = 0) = (A = B)"
    using assms(1,2) unfolding nval_def by (auto split: if_splits)
qed

lemma sub_res_facts:
  assumes "width_ok bits" "fits bits a" "fits bits b"
  defines "r \<equiv> sub_res bits a b" and "n \<equiv> bits - 1"
  shows "bit ((a XOR b) AND (a XOR r)) n =
      (sval bits a - sval bits b < - (2 ^ n) \<or> 2 ^ n \<le> sval bits a - sval bits b)"
    and "bit r n \<noteq> bit ((a XOR b) AND (a XOR r)) n \<longleftrightarrow> sval bits a < sval bits b"
    and "r = 0 \<longleftrightarrow> a = b"
  using sub_overflow_arith [of "unat a" "2 ^ n" "unat b"] assms(2,3)
  by (simp_all add: r_def n_def bit_and_iff bit_xor_iff top_bit assms(1-3) sub_res_fits unat_sub_res
      sval_nval fits_def pow_half [OF assms(1)] unat_eq_zero [symmetric] word_unat_eq_iff del: One_nat_def)

lemma cmp_cc_flags:
  fixes k
  assumes "width_ok bits" "fits bits a" "fits bits b"
  shows "cmp_cc bits k a b AND CCR_C \<noteq> 0 \<longleftrightarrow> unat a < unat b"
    and "cmp_cc bits k a b AND CCR_Z \<noteq> 0 \<longleftrightarrow> a = b"
    and "cmp_cc bits k a b AND CCR_X = k AND CCR_X"
    and "(cmp_cc bits k a b AND CCR_N \<noteq> 0) \<noteq> (cmp_cc bits k a b AND CCR_V \<noteq> 0) \<longleftrightarrow>
      sval bits a < sval bits b"
proof -
  let ?r = "sub_res bits a b"
  have cc: "cmp_cc bits k a b = (k AND CCR_X) OR flg (a < b) CCR_C
      OR flg (bit ((a XOR b) AND (a XOR ?r)) (bits - 1)) CCR_V
      OR flg (?r = 0) CCR_Z OR flg (bit ?r (bits - 1)) CCR_N"
    by (simp add: cmp_cc_def Let_def and_msb nz_sz_def or.assoc)
  show "cmp_cc bits k a b AND CCR_C \<noteq> 0 \<longleftrightarrow> unat a < unat b"
    "cmp_cc bits k a b AND CCR_Z \<noteq> 0 \<longleftrightarrow> a = b"
    "cmp_cc bits k a b AND CCR_X = k AND CCR_X"
    unfolding cc by (simp_all add: flag_simps ccr_bits word_less_nat_alt sub_res_facts(3) assms)
  have "(cmp_cc bits k a b AND CCR_N \<noteq> 0) = bit ?r (bits - 1)"
    "(cmp_cc bits k a b AND CCR_V \<noteq> 0) = bit ((a XOR b) AND (a XOR ?r)) (bits - 1)"
    unfolding cc by (simp_all add: flag_simps ccr_bits)
  then show "(cmp_cc bits k a b AND CCR_N \<noteq> 0) \<noteq> (cmp_cc bits k a b AND CCR_V \<noteq> 0) \<longleftrightarrow>
      sval bits a < sval bits b"
    using sub_res_facts(2) [OF assms] by simp
qed

lemma cmp_branch_conditions:
  fixes k :: u32
  assumes "width_ok bits" "fits bits a" "fits bits b"
  defines "c \<equiv> cmp_cc bits k a b"
  shows "(bcc_taken 0x2 c = (unat b < unat a)) \<and> (bcc_taken 0x3 c = (unat a \<le> unat b)) \<and>
    (bcc_taken 0x4 c = (unat b \<le> unat a)) \<and> (bcc_taken 0x5 c = (unat a < unat b)) \<and>
    (bcc_taken 0x6 c = (a \<noteq> b)) \<and> (bcc_taken 0x7 c = (a = b)) \<and>
    (bcc_taken 0xC c = (sval bits b \<le> sval bits a)) \<and> (bcc_taken 0xD c = (sval bits a < sval bits b)) \<and>
    (bcc_taken 0xE c = (sval bits b < sval bits a)) \<and> (bcc_taken 0xF c = (sval bits a \<le> sval bits b))"
proof -
  note flags = cmp_cc_flags [OF assms(1-3), of k, folded c_def]
  have ne: "a \<noteq> b \<longleftrightarrow> unat a \<noteq> unat b" by (simp add: word_unat_eq_iff)
  have s_inj: "a = b \<longleftrightarrow> sval bits a = sval bits b"
    using nval_inj [of "unat a" "2 ^ (bits - 1)" "unat b"] assms(2,3)
    by (simp add: sval_nval assms(1) fits_def pow_half [OF assms(1)] word_unat_eq_iff del: One_nat_def)
  from flags ne s_inj show ?thesis
    unfolding bcc_taken_def Let_def by auto
qed


section \<open>The general ALU block\<close>

definition low :: "nat \<Rightarrow> u32 \<Rightarrow> nat" where "low bits x = unat x mod 2 ^ bits"
definition high :: "nat \<Rightarrow> u32 \<Rightarrow> nat" where "high bits x = unat x div 2 ^ bits"

lemma unat_and_msk: "width_ok bits \<Longrightarrow> unat (x AND msk bits) = low bits x"
  by (simp only: and_msk unsigned_take_bit_eq low_def) (simp only: take_bit_eq_mod)

lemma unat_drop_bit_div: "unat (drop_bit n (x :: u32)) = unat x div 2 ^ n"
proof -
  have "take_bit 32 (unat x) = unat x"
    using unsigned_less [of x, where ?'a = nat] by (intro take_bit_nat_eq_self) simp
  then show ?thesis by (simp only: unsigned_drop_bit_eq) (simp add: drop_bit_eq_div)
qed

lemma merge_bits:
  assumes "width_ok bits" "fits bits res"
  shows "low bits (merge bits old res) = unat res" "high bits (merge bits old res) = high bits old"
proof -
  have "unat (take_bit bits res) = unat res"
    using assms(2) by (simp only: unsigned_take_bit_eq fits_def take_bit_nat_eq_self)
  then have tb: "take_bit bits res = res" by (simp only: word_unat_eq_iff)
  have r: "bit res i \<Longrightarrow> i < bits" for i
    by (subst (asm) tb [symmetric]) (simp add: bit_take_bit_iff)
  have "take_bit bits (merge bits old res) = res"
    by (rule bit_word_eqI) (auto simp: merge_def bit_simps msk_mask assms(1) dest: r)
  then show "low bits (merge bits old res) = unat res"
    unfolding low_def by (metis take_bit_eq_mod unsigned_take_bit_eq)
  have "drop_bit bits (merge bits old res) = drop_bit bits old"
  proof (rule bit_word_eqI)
    fix n assume "n < LENGTH(32)"
    have "\<not> bit res (bits + n)" using r by fastforce
    then show "bit (drop_bit bits (merge bits old res)) n = bit (drop_bit bits old) n"
      using bit_imp_le_length [of old "bits + n"]
      by (auto simp: merge_def bit_simps msk_mask assms(1))
  qed
  then show "high bits (merge bits old res) = high bits old"
    by (simp only: high_def unat_drop_bit_div [symmetric])
qed




text \<open>after \<open>cmp.<sz> <ea>,Dn\<close> the ten ordering branches are taken exactly when the
  unsigned (\<open>hi ls cc cs ne eq\<close>) or signed (\<open>ge lt gt le\<close>) relation holds between the register
  and the operand; the registers and X are unchanged.\<close>

theorem alu_cmp_branches:
  fixes src :: u32 and st :: m68k and dn :: nat
  assumes "width_ok bits"
  defines "A \<equiv> dreg st dn AND msk bits" and "B \<equiv> src AND msk bits"
    and "st' \<equiv> alu_apply st 0xB000 bits dn src"
  shows "dreg st' = dreg st \<and> ccr st' AND CCR_X = ccr st AND CCR_X \<and>
    (bcc_taken 0x2 (ccr st') = (unat B < unat A)) \<and> (bcc_taken 0x3 (ccr st') = (unat A \<le> unat B)) \<and>
    (bcc_taken 0x4 (ccr st') = (unat B \<le> unat A)) \<and> (bcc_taken 0x5 (ccr st') = (unat A < unat B)) \<and>
    (bcc_taken 0x6 (ccr st') = (A \<noteq> B)) \<and> (bcc_taken 0x7 (ccr st') = (A = B)) \<and>
    (bcc_taken 0xC (ccr st') = (sval bits B \<le> sval bits A)) \<and>
    (bcc_taken 0xD (ccr st') = (sval bits A < sval bits B)) \<and>
    (bcc_taken 0xE (ccr st') = (sval bits B < sval bits A)) \<and>
    (bcc_taken 0xF (ccr st') = (sval bits A \<le> sval bits B))"
proof -
  have f: "fits bits A" "fits bits B" using assms(1) by (simp_all add: A_def B_def fits_msk)
  have "dreg st' = dreg st" "ccr st' = cmp_cc bits (ccr st) A B"
    by (simp_all add: st'_def alu_apply_def A_def B_def Let_def setd_def setcc_def)
  then show ?thesis
    using cmp_branch_conditions [OF assms(1) f, of "ccr st"] cmp_cc_flags(3) [OF assms(1) f, of "ccr st"] by simp
qed

theorem alu_cmp_branches_witness:
  "bcc_taken 0xD (ccr (alu_apply (demo_state (demo_box 64 [])) 0xB000 16 0 1)) =
     (sval 16 (0 AND msk 16) < sval 16 (1 AND msk 16))"
  using alu_cmp_branches [of 16 "demo_state (demo_box 64 [])" 0 1] by (simp add: width_ok_def demo_state_def)

lemma sub_cc_flags:
  assumes "width_ok bits" "fits bits a" "fits bits b"
  shows "sub_cc bits a b AND CCR_C \<noteq> 0 \<longleftrightarrow> unat a < unat b"
    and "sub_cc bits a b AND CCR_X \<noteq> 0 \<longleftrightarrow> unat a < unat b"
    and "sub_cc bits a b AND CCR_Z \<noteq> 0 \<longleftrightarrow> a = b"
    and "sub_cc bits a b AND CCR_V \<noteq> 0 \<longleftrightarrow>
      sval bits a - sval bits b < - (2 ^ (bits - 1)) \<or> 2 ^ (bits - 1) \<le> sval bits a - sval bits b"
proof -
  let ?r = "sub_res bits a b"
  have cc: "sub_cc bits a b = flg (a < b) (CCR_C OR CCR_X)
      OR flg (bit ((a XOR b) AND (a XOR ?r)) (bits - 1)) CCR_V
      OR flg (?r = 0) CCR_Z OR flg (bit ?r (bits - 1)) CCR_N"
    by (simp add: sub_cc_def Let_def and_msb nz_sz_def or.assoc)
  show "sub_cc bits a b AND CCR_C \<noteq> 0 \<longleftrightarrow> unat a < unat b"
    "sub_cc bits a b AND CCR_X \<noteq> 0 \<longleftrightarrow> unat a < unat b"
    "sub_cc bits a b AND CCR_Z \<noteq> 0 \<longleftrightarrow> a = b"
    unfolding cc by (simp_all add: flag_simps ccr_bits word_less_nat_alt sub_res_facts(3) assms)
  have "sub_cc bits a b AND CCR_V \<noteq> 0 \<longleftrightarrow> bit ((a XOR b) AND (a XOR ?r)) (bits - 1)"
    unfolding cc by (simp add: flag_simps ccr_bits)
  then show "sub_cc bits a b AND CCR_V \<noteq> 0 \<longleftrightarrow>
      sval bits a - sval bits b < - (2 ^ (bits - 1)) \<or> 2 ^ (bits - 1) \<le> sval bits a - sval bits b"
    using sub_res_facts(1) [OF assms] by simp
qed

text \<open>\<open>sub.<sz> <ea>,Dn\<close>: the low part of the register is the difference modulo the
  width, the high part is untouched, C and X are the borrow, V the signed overflow, and Z
  says that the operands were equal.\<close>

theorem alu_sub_correct:
  fixes src :: u32 and st :: m68k and dn :: nat
  assumes "width_ok bits"
  defines "A \<equiv> dreg st dn AND msk bits" and "B \<equiv> src AND msk bits"
    and "st' \<equiv> alu_apply st 0x9000 bits dn src"
  shows "low bits (dreg st' dn) = (2 ^ bits + unat A - unat B) mod 2 ^ bits \<and>
    high bits (dreg st' dn) = high bits (dreg st dn) \<and>
    (ccr st' AND CCR_C \<noteq> 0) = (unat A < unat B) \<and> (ccr st' AND CCR_X \<noteq> 0) = (unat A < unat B) \<and>
    (ccr st' AND CCR_V \<noteq> 0) =
      (sval bits A - sval bits B < - (2 ^ (bits - 1)) \<or> 2 ^ (bits - 1) \<le> sval bits A - sval bits B) \<and>
    (ccr st' AND CCR_Z \<noteq> 0) = (A = B)"
proof -
  have f: "fits bits A" "fits bits B" using assms(1) by (simp_all add: A_def B_def fits_msk)
  have d: "dreg st' dn = merge bits (dreg st dn) (sub_res bits A B)" and c: "ccr st' = sub_cc bits A B"
    by (simp_all add: st'_def alu_apply_def A_def B_def Let_def setd_def setcc_def)
  show ?thesis
    using sub_cc_flags [OF assms(1) f]
    by (simp add: d c merge_bits assms(1) sub_res_fits unat_sub_res f del: One_nat_def)
qed

theorem alu_sub_correct_witness:
  "low 16 (dreg (alu_apply (demo_state (demo_box 64 [])) 0x9000 16 0 1) 0) = 0xFFFF"
  using alu_sub_correct [of 16 "demo_state (demo_box 64 [])" 0 1]
  by (simp add: width_ok_def demo_state_def msk_def push_bit_of_1)

section \<open>Extended precision\<close>

lemma addx_long:
  fixes a b :: u32 and xin :: u64
  assumes "xin = (if x then 1 else 0)"
  defines "s \<equiv> ucast a + ucast b + xin"
  shows "unat s = unat a + unat b + (if x then 1 else 0)"
    and "unat (ucast s :: u32) = (unat a + unat b + (if x then 1 else 0)) mod 2 ^ 32"
    and "drop_bit 32 s AND 1 \<noteq> 0 \<longleftrightarrow> 2 ^ 32 \<le> unat a + unat b + (if x then 1 else 0)"
proof -
  have lt: "unat a + unat b + (if x then 1 else 0) < 2 ^ 33"
    using unsigned_less [of a, where ?'a = nat] unsigned_less [of b, where ?'a = nat] by auto
  show s: "unat s = unat a + unat b + (if x then 1 else 0)"
    using lt assms(1) unfolding s_def by (simp add: unat_word_ariths unat_ucast64)
  show "unat (ucast s :: u32) = (unat a + unat b + (if x then 1 else 0)) mod 2 ^ 32"
    using s by (simp only: unsigned_ucast_eq) (simp add: take_bit_eq_mod)
  have "drop_bit 32 s AND 1 \<noteq> 0 \<longleftrightarrow> bit s 32"
    by (simp add: and_one_eq odd_iff_mod_2_eq_one [symmetric] bit_iff_odd_drop_bit) 
  also have "\<dots> \<longleftrightarrow> 2 ^ 32 \<le> unat s"
    unfolding bit_unat using lt s by (intro odd_div) simp
  finally show "drop_bit 32 s AND 1 \<noteq> 0 \<longleftrightarrow> 2 ^ 32 \<le> unat a + unat b + (if x then 1 else 0)"
    using s by simp
qed

lemma pair_add_arith:
  fixes l l' h h' :: nat
  assumes "l < 2 ^ 32" "l' < 2 ^ 32" "h < 2 ^ 32" "h' < 2 ^ 32"
  defines "x \<equiv> (if 2 ^ 32 \<le> l + l' then 1 else 0)"
    and "S \<equiv> (h * 2 ^ 32 + l) + (h' * 2 ^ 32 + l')"
  shows "((h + h' + x) mod 2 ^ 32) * 2 ^ 32 + (l + l') mod 2 ^ 32 = S mod 2 ^ 64 \<and>
    (2 ^ 32 \<le> h + h' + x) = (2 ^ 64 \<le> S)"
proof -
  have lo: "(l + l') mod 2 ^ 32 = l + l' - x * 2 ^ 32"
    using assms(1,2) by (auto simp: x_def mod_if)
  define c where "c = (if 2 ^ 32 \<le> h + h' + x then 1 else 0 :: nat)"
  have hi: "(h + h' + x) mod 2 ^ 32 = h + h' + x - c * 2 ^ 32"
    using assms(3,4) by (auto simp: x_def c_def mod_if)
  have S: "S mod 2 ^ 64 = S - (if 2 ^ 64 \<le> S then 2 ^ 64 else 0)"
    using assms(1-4) by (auto simp: S_def mod_if)
  have "(2 ^ 32 \<le> h + h' + x) = (2 ^ 64 \<le> S)"
    using assms(1-4) by (auto simp: S_def x_def)
  then show ?thesis
    unfolding lo hi S using assms(1-4) by (auto simp: S_def x_def c_def)
qed

lemma sized_x_ccr_flags:
  "sized_x_ccr r 32 cy v old AND CCR_C \<noteq> 0 \<longleftrightarrow> cy" "sized_x_ccr r 32 cy v old AND CCR_X \<noteq> 0 \<longleftrightarrow> cy"
  "sized_x_ccr r 32 cy v old AND CCR_Z \<noteq> 0 \<longleftrightarrow> r = 0 \<and> old AND CCR_Z \<noteq> 0"
  by (auto simp: sized_x_ccr_def flag_simps ccr_bits)

text \<open>C4: \<open>add.l\<close> of the low words followed by \<open>addx.l\<close> of the high words is a 64-bit
  addition: the register pair holds the sum modulo \<open>2^64\<close>, C and X its carry, and Z is set
  exactly when the whole 64-bit result is zero.\<close>

theorem add_addx_is_64bit:
  fixes st :: m68k
  assumes "op1 AND 0xF1F8 = 0xD080" "op2 AND 0xF138 = 0xD100" "sz6 op2 = 2"
    and "r9 op2 \<noteq> r9 op1" "r0 op2 \<noteq> r9 op1"
  defines "A \<equiv> unat (dreg st (r9 op2)) * 2 ^ 32 + unat (dreg st (r9 op1))"
    and "B \<equiv> unat (dreg st (r0 op2)) * 2 ^ 32 + unat (dreg st (r0 op1))"
  shows "\<exists>st1 st2. op_add_l_dm st op1 = Cont st1 \<and> op_addx st1 op2 = Cont st2 \<and>
    unat (dreg st2 (r9 op2)) * 2 ^ 32 + unat (dreg st2 (r9 op1)) = (A + B) mod 2 ^ 64 \<and>
    (ccr st2 AND CCR_C \<noteq> 0) = (2 ^ 64 \<le> A + B) \<and> (ccr st2 AND CCR_X \<noteq> 0) = (2 ^ 64 \<le> A + B) \<and>
    (ccr st2 AND CCR_Z \<noteq> 0) = ((A + B) mod 2 ^ 64 = 0)"
proof -
  let ?lo = "dreg st (r9 op1)" and ?los = "dreg st (r0 op1)"
  let ?hi = "dreg st (r9 op2)" and ?his = "dreg st (r0 op2)"
  define st1 where "st1 = jump (add_to st (r9 op1) ?los) (mpc st + 2)"
  have w: "width_ok 32" by (simp add: width_ok_def)
  have f: "fits 32 x" for x :: u32 using unsigned_less [of x, where ?'a = nat] by (simp add: fits_def)
  have d1: "dreg st1 (r9 op1) = add_res 32 ?lo ?los" "dreg st1 (r9 op2) = ?hi" "dreg st1 (r0 op2) = ?his"
    and c1: "ccr st1 = add_cc 32 ?lo ?los"
    using assms(4,5) by (simp_all add: st1_def add_to_def setd_def setcc_def jump_def)
  have x1: "ccr st1 AND CCR_X \<noteq> 0 \<longleftrightarrow> 2 ^ 32 \<le> unat ?lo + unat ?los"
    and z1: "ccr st1 AND CCR_Z \<noteq> 0 \<longleftrightarrow> add_res 32 ?lo ?los = 0"
    using add_flags [OF w f f, of ?lo ?los] by (simp_all add: c1)
  define xb where "xb = (2 ^ 32 \<le> unat ?lo + unat ?los)"
  define s :: u64 where "s = ucast ?hi + ucast ?his + (if xb then 1 else 0)"
  note sx = addx_long [of "if xb then 1 else 0" xb ?hi ?his, OF refl, folded s_def]
  define st2 where "st2 = jump (setcc (setd st1 (r9 op2) (ucast s))
      (sized_x_ccr (ucast s) 32 (drop_bit 32 s AND 1 \<noteq> 0)
        (((?hi XOR ucast s) AND (?his XOR ucast s)) AND msb 32 \<noteq> 0) (ccr st1))) (mpc st1 + 2)"
  have m: "msk 32 = mask 32" by (rule msk_mask [OF w])
  have full: "x AND mask 32 = x" for x :: u32
    by (rule bit_word_eqI) (simp add: bit_and_iff bit_mask_iff)
  have none: "x AND NOT (mask 32) = 0" for x :: u32
    by (rule bit_word_eqI) (simp add: bit_and_iff bit_not_iff bit_mask_iff)
  have x1': "ccr st1 AND CCR_X \<noteq> 0 \<longleftrightarrow> xb" using x1 by (simp add: xb_def)
  have step2: "op_addx st1 op2 = Cont st2"
    using assms(2,3)
    by (simp add: op_addx_def bits_of_def Let_def d1 x1' m full none s_def [symmetric]
        merge_def adv_def st2_def) (simp add: setcc_def setd_def)
  have step1: "op_add_l_dm st op1 = Cont st1"
    using assms(1) by (simp add: op_add_l_dm_def adv_def st1_def) (simp add: add_to_def setd_def setcc_def)
  have d2: "dreg st2 (r9 op2) = ucast s" "dreg st2 (r9 op1) = add_res 32 ?lo ?los"
    using assms(4) d1 by (simp_all add: st2_def setd_def setcc_def jump_def)
  have c2: "(ccr st2 AND CCR_C \<noteq> 0) = (drop_bit 32 s AND 1 \<noteq> 0)"
    "(ccr st2 AND CCR_X \<noteq> 0) = (drop_bit 32 s AND 1 \<noteq> 0)"
    "(ccr st2 AND CCR_Z \<noteq> 0) = (ucast s = (0 :: u32) \<and> add_res 32 ?lo ?los = 0)"
    using sized_x_ccr_flags z1 by (simp_all add: st2_def setcc_def jump_def)
  have lo: "unat (add_res 32 ?lo ?los) = (unat ?lo + unat ?los) mod 2 ^ 32"
    by (rule unat_add_res [OF w])
  have "unat (ucast s :: u32) * 2 ^ 32 + unat (add_res 32 ?lo ?los) = (A + B) mod 2 ^ 64 \<and>
      (2 ^ 32 \<le> unat ?hi + unat ?his + (if xb then 1 else 0)) = (2 ^ 64 \<le> A + B)"
    unfolding sx(2) lo xb_def A_def B_def
    using pair_add_arith [of "unat ?lo" "unat ?los" "unat ?hi" "unat ?his"]
      f [of ?lo] f [of ?los] f [of ?hi] f [of ?his] by (simp add: fits_def)
  moreover have "(ucast s = (0 :: u32) \<and> add_res 32 ?lo ?los = 0) \<longleftrightarrow>
      unat (ucast s :: u32) * 2 ^ 32 + unat (add_res 32 ?lo ?los) = 0"
    by (simp add: unat_eq_zero)
  ultimately show ?thesis
    using step1 step2 d2 c2 sx(3) by (intro exI [of _ st1] exI [of _ st2]) simp
qed

theorem add_addx_is_64bit_witness:
  "\<exists>st1 st2. op_add_l_dm ((demo_state (demo_box 64 []))\<lparr>dreg := (\<lambda>_. 0xFFFFFFFF)\<rparr>) 0xD082 = Cont st1 \<and>
     op_addx st1 0xD383 = Cont st2 \<and> ccr st2 AND CCR_C \<noteq> 0"
proof -
  let ?st = "(demo_state (demo_box 64 []))\<lparr>dreg := (\<lambda>_. 0xFFFFFFFF)\<rparr>"
  have h: "(0xD082 :: u16) AND 0xF1F8 = 0xD080" "(0xD383 :: u16) AND 0xF138 = 0xD100" "sz6 0xD383 = 2"
    "r9 0xD383 \<noteq> r9 0xD082" "r0 0xD383 \<noteq> r9 0xD082"
    by (simp_all add: sz6_def r9_def r0_def)
  from add_addx_is_64bit [OF h, of ?st] show ?thesis by auto
qed

end
