(* ===== verification/M68k_Stack.thy ===== *)
theory M68k_Stack
  imports M68k_Flags
begin

text \<open>
  What the interpreter pushes it pops: subroutine calls and returns, exception frames and
  \<open>rte\<close>, \<open>link\<close> and \<open>unlk\<close>, and \<open>movem\<close> saves and restores. The proofs use the
  contract of the checked cells.
\<close>

section \<open>Calls and returns\<close>

text \<open>The three call forms with a fixed length, as one operation.\<close>

definition call_block :: "m68k \<Rightarrow> u16 \<Rightarrow> iout" where
  "call_block st op =
     (if op = 0x4EB9 then op_jsr_absl st op else if op = 0x4EBA then op_jsr_pc st op
      else op_jsr_an st op)"

definition call_len :: "u16 \<Rightarrow> u32" where
  "call_len op = (if op = 0x4EB9 then 6 else if op = 0x4EBA then 4 else 2)"

lemma push32_Cont:
  assumes "push32 msg st v (\<lambda>s. Cont (jump s t)) = Cont s1"
  shows "mem_rd32 (box s1) (areg s1 7) = Some v" "areg s1 = (areg st)(7 := areg st 7 - 4)"
    "dreg s1 = dreg st" "ccr s1 = ccr st" "mpc s1 = t" "initial_sp s1 = initial_sp st"
  using assms
  by (auto simp: push32_def need_def jump_def seta_def setbox_def Let_def dest!: long.rd_wr
      split: option.splits)

lemma with_Cont:
  "with16 st k f = Cont s \<Longrightarrow> \<exists>w. f w = Cont s" "with32 st k g = Cont s \<Longrightarrow> \<exists>w. g w = Cont s"
  "with16s st k g = Cont s \<Longrightarrow> \<exists>w. g w = Cont s"
  by (auto simp: with16_def with32_def with16s_def split: option.splits)

lemma call_block_push:
  assumes "op = 0x4EB9 \<or> op = 0x4EBA \<or> op AND 0xFFF8 = 0x4E90" "call_block st op = Cont s1"
  shows "\<exists>msg t. push32 msg st (mpc st + call_len op) (\<lambda>s. Cont (jump s t)) = Cont s1"
  using assms
  by (auto simp: call_block_def call_len_def op_jsr_absl_def op_jsr_pc_def op_jsr_an_def Let_def
      dest!: with_Cont split: if_splits)

text \<open>after \<open>jsr\<close> (absolute, PC-relative or through a register) an \<open>rts\<close> above the
  entry stack level comes back to the instruction after the call with every register and
  the condition codes as they were.\<close>

theorem call_then_rts:
  assumes "op = 0x4EB9 \<or> op = 0x4EBA \<or> op AND 0xFFF8 = 0x4E90"
    and "call_block st op = Cont s1" "areg st 7 - 4 < initial_sp st"
  shows "\<exists>s2. op_rts s1 0x4E75 = Cont s2 \<and> mpc s2 = mpc st + call_len op \<and>
    areg s2 = areg st \<and> dreg s2 = dreg st \<and> ccr s2 = ccr st"
proof -
  obtain msg t where "push32 msg st (mpc st + call_len op) (\<lambda>s. Cont (jump s t)) = Cont s1"
    using call_block_push assms(1,2) by blast
  note p = push32_Cont [OF this]
  show ?thesis
    using p assms(3) by (simp add: op_rts_def need_def Let_def jump_def seta_def not_le)
qed

theorem call_then_rts_witness:
  "\<exists>s1 s2. call_block ((demo_state (demo_box 64 [0x4E, 0xB9, 0, 0, 0x10, 0x10]))\<lparr>areg := (\<lambda>_. 0x1040)\<rparr>) 0x4EB9 = Cont s1
     \<and> op_rts s1 0x4E75 = Cont s2 \<and> mpc s2 = 0x1006"
proof -
  let ?st = "(demo_state (demo_box 64 [0x4E, 0xB9, 0, 0, 0x10, 0x10]))\<lparr>areg := (\<lambda>_. 0x1040)\<rparr>"
  obtain s1 where s1: "call_block ?st 0x4EB9 = Cont s1"
    by (simp add: call_block_def op_jsr_absl_def with32_def ip32_def hoff_def demo_defs push32_def
        need_def mem_wr32_def in_box_def Let_def)
  show ?thesis
    using call_then_rts [OF _ s1] s1 by (auto simp: call_len_def demo_state_def)
qed

section \<open>Exceptions\<close>

lemma bit_flg: "bit (flg b m) k \<longleftrightarrow> b \<and> bit m k"
  by (simp add: flg_def)

lemma and_one_bit:
  "(x :: 'a::len word) AND 1 \<noteq> 0 \<longleftrightarrow> bit x 0" "x AND 2 \<noteq> 0 \<longleftrightarrow> bit x 1" "x AND 4 \<noteq> 0 \<longleftrightarrow> bit x 2"
  "x AND 8 \<noteq> 0 \<longleftrightarrow> bit x 3" "x AND 16 \<noteq> 0 \<longleftrightarrow> bit x 4"
  using and_exp_eq_0_iff_not_bit [of x 0] and_exp_eq_0_iff_not_bit [of x 1]
    and_exp_eq_0_iff_not_bit [of x 2] and_exp_eq_0_iff_not_bit [of x 3]
    and_exp_eq_0_iff_not_bit [of x 4] by simp_all

lemma bit_flag:
  "bit (flg b CCR_V) n \<longleftrightarrow> b \<and> n = 0" "bit (flg b CCR_C) n \<longleftrightarrow> b \<and> n = 1"
  "bit (flg b CCR_Z) n \<longleftrightarrow> b \<and> n = 2" "bit (flg b CCR_N) n \<longleftrightarrow> b \<and> n = 3"
  "bit (flg b CCR_X) n \<longleftrightarrow> b \<and> n = 4"
proof -
  have p: "bit (2 ^ k :: u32) n \<longleftrightarrow> n = k" if "k < 32" for k
    using that by (auto simp: bit_exp_iff)
  show "bit (flg b CCR_V) n \<longleftrightarrow> b \<and> n = 0" "bit (flg b CCR_C) n \<longleftrightarrow> b \<and> n = 1"
    "bit (flg b CCR_Z) n \<longleftrightarrow> b \<and> n = 2" "bit (flg b CCR_N) n \<longleftrightarrow> b \<and> n = 3"
    "bit (flg b CCR_X) n \<longleftrightarrow> b \<and> n = 4"
    using p [of 0] p [of 1] p [of 2] p [of 3] p [of 4] by (simp_all add: bit_flg ccr_bits)
qed

lemma ccr_rebuild:
  "flg (bit c 1) CCR_C OR flg (bit c 0) CCR_V OR flg (bit c 2) CCR_Z OR flg (bit c 3) CCR_N
     OR flg (bit c 4) CCR_X = c AND (0x1F :: u32)"
proof (rule bit_word_eqI)
  fix n assume "n < LENGTH(32)"
  have "(0x1F :: u32) = mask 5" by (simp add: mask_eq_exp_minus_1)
  then have e: "bit (c AND 0x1F) k \<longleftrightarrow> bit c k \<and> k < 5" for k
    by (simp only: bit_and_iff bit_mask_iff) auto
  consider "n = 0" | "n = 1" | "n = 2" | "n = 3" | "n = 4" | "5 \<le> n" by linarith
  then show "bit (flg (bit c 1) CCR_C OR flg (bit c 0) CCR_V OR flg (bit c 2) CCR_Z
      OR flg (bit c 3) CCR_N OR flg (bit c 4) CCR_X) n = bit (c AND 0x1F) n"
    by cases (simp_all add: bit_or_iff bit_flag e)
qed

lemma bit_small_int:
  "bit (1 :: int) n \<longleftrightarrow> n = 0" "bit (2 :: int) n \<longleftrightarrow> n = 1" "bit (4 :: int) n \<longleftrightarrow> n = 2"
  "bit (8 :: int) n \<longleftrightarrow> n = 3" "bit (16 :: int) n \<longleftrightarrow> n = 4"
proof -
  have p: "bit (2 ^ k :: int) n \<longleftrightarrow> n = k" for k
    by (auto simp: bit_exp_iff)
  show "bit (1 :: int) n \<longleftrightarrow> n = 0" "bit (2 :: int) n \<longleftrightarrow> n = 1" "bit (4 :: int) n \<longleftrightarrow> n = 2"
    "bit (8 :: int) n \<longleftrightarrow> n = 3" "bit (16 :: int) n \<longleftrightarrow> n = 4"
    using p [of 0] p [of 1] p [of 2] p [of 3] p [of 4] by simp_all
qed

lemma bit_small:
  "bit (1 :: u32) n \<longleftrightarrow> n = 0" "bit (2 :: u32) n \<longleftrightarrow> n = 1" "bit (4 :: u32) n \<longleftrightarrow> n = 2"
  "bit (8 :: u32) n \<longleftrightarrow> n = 3" "bit (16 :: u32) n \<longleftrightarrow> n = 4"
  using bit_flag [of True n] by (simp_all add: ccr_bits)

lemma unpack_pack:
  "ccr (iunpack_sr s (j5d_pack_sr st)) = ccr st AND 0x1F"
  "sr_high (iunpack_sr s (j5d_pack_sr st)) = sr_high st AND 0xFF"
proof -
  have b: "bit (j5d_pack_sr st) 0 = bit (ccr st) 1" "bit (j5d_pack_sr st) 1 = bit (ccr st) 0"
    "bit (j5d_pack_sr st) 2 = bit (ccr st) 2" "bit (j5d_pack_sr st) 3 = bit (ccr st) 3"
    "bit (j5d_pack_sr st) 4 = bit (ccr st) 4"
    by (simp_all add: j5d_pack_sr_def Let_def ccr_bits and_one_bit bit_simps bit_flg)
  show "ccr (iunpack_sr s (j5d_pack_sr st)) = ccr st AND 0x1F"
    by (simp add: iunpack_sr_def and_one_bit b ccr_rebuild del: One_nat_def)
  show "sr_high (iunpack_sr s (j5d_pack_sr st)) = sr_high st AND 0xFF"
  proof (rule bit_word_eqI)
    fix n assume n: "n < LENGTH(16)"
    have m: "(0xFF :: u16) = mask 8" by (simp add: mask_eq_exp_minus_1)
    have "bit (j5d_pack_sr st) (8 + n) = bit (sr_high st) n" if "n < 8"
      using that by (simp add: j5d_pack_sr_def Let_def bit_simps bit_flg bit_small bit_small_int)
    then show "bit (sr_high (iunpack_sr s (j5d_pack_sr st))) n = bit (sr_high st AND 0xFF) n"
      using n by (simp add: iunpack_sr_def m bit_and_iff bit_mask_iff bit_drop_bit_eq) auto
  qed
qed

text \<open>C6: an exception (a trap, a division by zero, a bad address) and the \<open>rte\<close> of its
  handler: the handler is entered in supervisor mode with the exception counted, and
  \<open>rte\<close> returns to the pushed PC with every register, the condition codes and the high byte
  of SR as they were.\<close>

theorem raise_then_rte:
  assumes "raise_to st vnum return_pc = Cont s1"
  shows "iread_vector (box st) vnum = Some (mpc s1) \<and> bit (sr_high s1) 5 \<and>
    exc_count s1 = exc_count st + 1 \<and>
    (\<exists>s2. op_rte s1 0x4E73 = Cont s2 \<and> mpc s2 = return_pc \<and> areg s2 = areg st \<and>
      dreg s2 = dreg st \<and> ccr s2 = ccr st AND 0x1F \<and> sr_high s2 = sr_high st AND 0xFF)"
proof -
  define sr where "sr = j5d_pack_sr st"
  define a7 where "a7 = areg st 7 - 6"
  obtain h where v: "iread_vector (box st) vnum = Some h" and fit: "in_box (box st) a7 6"
    using assms by (auto simp: raise_to_def iraise_def Let_def a7_def split: option.splits if_splits)
  define p where "p = hoff (box st) a7"
  define m where "m = (host_mem (box st)) (p := byte_of 1 sr, p + 1 := byte_of 0 sr,
    p + 2 := byte_of 3 return_pc, p + 3 := byte_of 2 return_pc,
    p + 4 := byte_of 1 return_pc, p + 5 := byte_of 0 return_pc)"
  have s1: "areg s1 = (areg st)(7 := a7)" "dreg s1 = dreg st" "mpc s1 = h"
    "box s1 = box st\<lparr>host_mem := m\<rparr>" "sr_high s1 = sr_high st OR 0x20"
    "exc_count s1 = exc_count st + 1"
    using assms v fit
    by (auto simp: raise_to_def iraise_def Let_def sr_def a7_def p_def m_def jump_def)
  have bytes: "be16 (m p) (m (p + 1)) = sr"
    "be32 (m (p + 2)) (m (p + 3)) (m (p + 4)) (m (p + 5)) = return_pc"
    using be16_bytes [of sr] be32_bytes [of return_pc] by (simp_all add: m_def)
  have rte: "op_rte s1 0x4E73 = Cont (jump (iunpack_sr (seta s1 7 (a7 + 6)) sr) return_pc)"
    using fit bytes by (simp add: op_rte_def Let_def s1 in_box_def hoff_def p_def)
  have "bit (sr_high s1) 5"
    by (simp only: s1 bit_or_iff) (simp add: bit_iff_odd)
  moreover have "areg (iunpack_sr (seta s1 7 (a7 + 6)) sr) = areg st"
    by (simp add: iunpack_sr_def seta_def s1 a7_def fun_upd_idem)
  ultimately show ?thesis
    using v s1 rte by (simp add: jump_def unpack_pack sr_def) (simp add: iunpack_sr_def seta_def s1)
qed

theorem raise_then_rte_witness:
  "\<exists>s1 s2. raise_to ((demo_state \<lparr>host_mem = (\<lambda>_. 0), origin = 0x240000, sb_size = 0x1000\<rparr>)
      \<lparr>areg := (\<lambda>_. 0x240800)\<rparr>) 5 0x240010 = Cont s1 \<and> op_rte s1 0x4E73 = Cont s2 \<and>
    mpc s2 = 0x240010 \<and> areg s2 7 = 0x240800 \<and> sr_high s2 = 0x27"
proof -
  let ?st = "(demo_state \<lparr>host_mem = (\<lambda>_. 0), origin = 0x240000, sb_size = 0x1000\<rparr>)
      \<lparr>areg := (\<lambda>_. 0x240800)\<rparr>"
  obtain s1 where s1: "raise_to ?st 5 0x240010 = Cont s1"
    by (simp add: raise_to_def iraise_def iread_vector_def J5I_VBR_def mem_rd32_def demo_state_def
        in_box_def Let_def)
  show ?thesis
    using raise_then_rte [OF s1] s1 by (auto simp: demo_state_def)
qed

section \<open>Stack frames\<close>

text \<open>\<open>unlk\<close> undoes \<open>link\<close>: in any later state in which the frame register and the saved
  cell are as \<open>link\<close> left them, whatever happened to the stack pointer, the other registers
  and the rest of memory, it restores the frame register and the stack pointer.\<close>

theorem link_then_unlk:
  assumes "op1 AND 0xFFF8 = 0x4E50" "op2 AND 0xFFF8 = 0x4E58" "r0 op2 = r0 op1" "r0 op1 \<noteq> 7"
    and "op_link st op1 = Cont s1"
    and "areg s (r0 op1) = areg s1 (r0 op1)"
    and "mem_rd32 (box s) (areg s1 (r0 op1)) = mem_rd32 (box s1) (areg s1 (r0 op1))"
  shows "\<exists>s2. op_unlk s op2 = Cont s2 \<and> areg s2 (r0 op1) = areg st (r0 op1) \<and>
    areg s2 7 = areg st 7 \<and> dreg s2 = dreg s \<and> mpc s2 = mpc s + 2"
proof -
  obtain d16 sb where w: "mem_wr32 (box st) (areg st 7 - 4) (areg st (r0 op1)) = Some sb"
    and s1: "s1 = jump (seta (seta (setbox st sb) (r0 op1) (areg st 7 - 4)) 7 (areg st 7 - 4 + d16)) (mpc st + 4)"
    using assms(1,5)
    by (auto simp: op_link_def need_def adv_def with16s_def with16_def Let_def jump_def seta_def setbox_def
        split: option.splits)
  have fp: "areg s1 (r0 op1) = areg st 7 - 4" "box s1 = sb"
    using assms(4) by (simp_all add: s1 jump_def seta_def setbox_def)
  have "mem_rd32 (box s) (areg s (r0 op1)) = Some (areg st (r0 op1))"
    using assms(6,7) fp long.rd_wr [OF w] by simp
  then show ?thesis
    using assms(2,3,4,6) fp by (simp add: op_unlk_def need_def adv_def Let_def jump_def seta_def)
qed

theorem link_then_unlk_witness:
  "\<exists>s1 s2. op_link ((demo_state (demo_box 64 [0x4E, 0x56, 0xFF, 0xF8]))\<lparr>areg := (\<lambda>_. 0x1040)\<rparr>) 0x4E56 = Cont s1
     \<and> areg s1 7 = 0x1034 \<and> op_unlk s1 0x4E5E = Cont s2 \<and> areg s2 7 = 0x1040"
proof -
  let ?st = "(demo_state (demo_box 64 [0x4E, 0x56, 0xFF, 0xF8]))\<lparr>areg := (\<lambda>_. 0x1040)\<rparr>"
  obtain s1 where s1: "op_link ?st 0x4E56 = Cont s1" "areg s1 7 = 0x1034"
    by (simp add: op_link_def with16s_def with16_def ip16_def hoff_def demo_defs need_def mem_wr32_def
        in_box_def Let_def r0_def adv_def jump_def seta_def setbox_def sx16_def be16_def)
  show ?thesis
    using link_then_unlk [of "0x4E56" "0x4E5E" ?st s1 s1] s1 by (auto simp: r0_def demo_state_def)
qed

section \<open>movem\<close>

lemma mv_True [simp]: "mv_bits True = 32" "mv_step True = 4"
  by (simp_all add: mv_bits_def mv_step_def)

lemma sz32 [simp]: "wr_sz sb 32 a v = mem_wr32 sb a v" "rd_sz sb 32 a = mem_rd32 sb a"
  by (simp_all add: wr_sz_def rd_sz_def)

text \<open>Two checked cells a nonzero multiple of four apart do not overlap.\<close>

lemma slots_disjoint:
  assumes "in_box sb a 4" "in_box sb (a - 4 * of_nat k) 4" "0 < k" "k \<le> 16"
  shows "footprint sb a 4 \<inter> footprint sb (a - 4 * of_nat k) 4 = {}"
proof -
  define h where "h = a - origin sb"
  have "hoff sb (a - 4 * of_nat k) = unat (h - of_nat (4 * k))"
    by (simp add: hoff_def h_def diff_diff_eq add.commute)
  moreover have n: "unat (of_nat (4 * k) :: u32) = 4 * k"
    using assms(4) by (simp add: unat_of_nat del: of_nat_mult)
  moreover have "unat h + 4 \<le> 2 ^ 32" "unat (h - of_nat (4 * k)) + 4 \<le> 2 ^ 32"
    using in_box_hoff [OF assms(1)] in_box_hoff [OF assms(2)] unsigned_less [of "sb_size sb", where ?'a = nat]
      calculation(1) by (simp_all add: hoff_def h_def)
  moreover have "unat (h - of_nat (4 * k)) =
      (if 4 * k \<le> unat h then unat h - 4 * k else 2 ^ 32 + unat h - 4 * k)"
    using n by (simp add: unat_sub_if' del: of_nat_mult) (simp add: add.commute)
  ultimately show ?thesis
    using assms(3,4) by (auto simp: footprint_def hoff_def h_def split: if_splits)
qed

lemma slot_add: "(a :: u32) - 4 - 4 * of_nat k = a - 4 * of_nat (Suc k)"
  by (simp add: algebra_simps)

lemma movem_push_keeps_cell:
  "movem_push st True rs sb an = Some (sb', an') \<Longrightarrow>
   (\<And>j. j < length rs \<Longrightarrow> in_box sb (an - 4 * of_nat (Suc j)) 4 \<Longrightarrow>
      footprint sb (an - 4 * of_nat (Suc j)) 4 \<inter> footprint sb b 4 = {}) \<Longrightarrow>
   mem_rd32 sb' b = mem_rd32 sb b"
proof (induction rs arbitrary: sb an)
  case (Cons i rs)
  obtain sb1 where w: "mem_wr32 sb (an - 4) (MV_RDREG st (15 - i)) = Some sb1"
    and r: "movem_push st True rs sb1 (an - 4) = Some (sb', an')"
    using Cons.prems(1) by (auto simp: Let_def split: option.splits)
  have range: "same_range sb sb1" by (rule long.wr_range [OF w])
  have "mem_rd32 sb' b = mem_rd32 sb1 b"
  proof (rule Cons.IH [OF r])
    fix j assume "j < length rs" "in_box sb1 (an - 4 - 4 * of_nat (Suc j)) 4"
    then show "footprint sb1 (an - 4 - 4 * of_nat (Suc j)) 4 \<inter> footprint sb1 b 4 = {}"
      using Cons.prems(2) [of "Suc j"] range
      by (simp add: slot_add same_range_in_box same_range_hoff footprint_def del: of_nat_Suc)
  qed
  also have "\<dots> = mem_rd32 sb b"
    using Cons.prems(2) [of 0] long.wr_checked [OF w] by (intro long.rd_wr_disjoint [OF w]) simp
  finally show ?case .
qed simp

lemma movem_push_cells:
  "movem_push st True rs sb an = Some (sb', an') \<Longrightarrow> length rs \<le> 16 \<Longrightarrow>
   an' = an - 4 * of_nat (length rs) \<and>
   (\<forall>j < length rs. mem_rd32 sb' (an - 4 * of_nat (Suc j)) = Some (MV_RDREG st (15 - rs ! j)))"
proof (induction rs arbitrary: sb an)
  case (Cons i rs)
  obtain sb1 where w: "mem_wr32 sb (an - 4) (MV_RDREG st (15 - i)) = Some sb1"
    and r: "movem_push st True rs sb1 (an - 4) = Some (sb', an')"
    using Cons.prems(1) by (auto simp: Let_def split: option.splits)
  have ih: "an' = an - 4 - 4 * of_nat (length rs)"
    "j < length rs \<Longrightarrow> mem_rd32 sb' (an - 4 - 4 * of_nat (Suc j)) = Some (MV_RDREG st (15 - rs ! j))" for j
    using Cons.IH [OF r] Cons.prems(2) by auto
  have "mem_rd32 sb' (an - 4) = mem_rd32 sb1 (an - 4)"
  proof (rule movem_push_keeps_cell [OF r])
    fix j assume j: "j < length rs" "in_box sb1 (an - 4 - 4 * of_nat (Suc j)) 4"
    have "in_box sb1 (an - 4) 4"
      using long.wr_checked [OF w] long.wr_range [OF w] by (simp add: same_range_in_box)
    then show "footprint sb1 (an - 4 - 4 * of_nat (Suc j)) 4 \<inter> footprint sb1 (an - 4) 4 = {}"
      using slots_disjoint [of sb1 "an - 4" "Suc j"] j Cons.prems(2) by (simp add: Int_commute del: of_nat_Suc)
  qed
  then have "mem_rd32 sb' (an - 4) = Some (MV_RDREG st (15 - i))"
    using long.rd_wr [OF w] by simp
  then show ?case
    using ih by (auto simp: less_Suc_eq_0_disj slot_add simp del: of_nat_Suc) (simp add: algebra_simps)+
qed simp

lemma MV_RDREG_WRREG:
  "MV_RDREG (MV_WRREG s i v) k = (if k = i then v else MV_RDREG s k)"
  by (auto simp: MV_RDREG_def MV_WRREG_def setd_def seta_def)

lemma MV_WRREG_rest [simp]:
  "box (MV_WRREG s i v) = box s" "mpc (MV_WRREG s i v) = mpc s" "ccr (MV_WRREG s i v) = ccr s"
  by (simp_all add: MV_WRREG_def setd_def seta_def)

lemma movem_load_regs:
  "(\<And>j. j < length ls \<Longrightarrow> mem_rd32 (box s) (addr + 4 * of_nat j) = Some (f (ls ! j))) \<Longrightarrow>
   distinct ls \<Longrightarrow>
   \<exists>s'. movem_load s True ls addr = Some s' \<and> box s' = box s \<and> mpc s' = mpc s \<and> ccr s' = ccr s \<and>
     (\<forall>k. MV_RDREG s' k = (if k \<in> set ls then f k else MV_RDREG s k))"
proof (induction ls arbitrary: s addr)
  case (Cons i ls)
  have i: "mem_rd32 (box s) addr = Some (f i)" using Cons.prems(1) [of 0] by simp
  have "mem_rd32 (box (MV_WRREG s i (f i))) (addr + 4 + 4 * of_nat j) = Some (f (ls ! j))"
    if "j < length ls" for j
    using Cons.prems(1) [of "Suc j"] that by (simp add: algebra_simps)
  from Cons.IH [OF this] Cons.prems(2) obtain s' where
    "movem_load (MV_WRREG s i (f i)) True ls (addr + 4) = Some s'" "box s' = box s" "mpc s' = mpc s"
    "ccr s' = ccr s"
    "\<forall>k. MV_RDREG s' k = (if k \<in> set ls then f k else MV_RDREG (MV_WRREG s i (f i)) k)"
    by auto
  then show ?case using i Cons.prems(2) by (auto simp: MV_RDREG_WRREG)
qed simp

lemma mask_bits_rev:
  assumes "\<And>i. i < 16 \<Longrightarrow> bit m' i = bit m (15 - i)"
  shows "mask_bits m' = map (\<lambda>i. 15 - i) (rev (mask_bits m))"
proof -
  have "[0..<16] = map (\<lambda>i. 15 - i) (rev [0..<16 :: nat])" by (simp add: upt_rec)
  then have "mask_bits m' = map (\<lambda>i. 15 - i) (filter (\<lambda>i. bit m' (15 - i)) (rev [0..<16]))"
    unfolding mask_bits_def by (metis (no_types, lifting) filter_map comp_apply filter_cong)
  also have "filter (\<lambda>i. bit m' (15 - i)) (rev [0..<16]) = filter (bit m) (rev [0..<16])"
    using assms by (intro filter_cong) auto
  finally show ?thesis by (simp add: mask_bits_def rev_filter)
qed

lemma movem_decode:
  assumes "an < 8"
  defines "p \<equiv> (0x48E0 :: u16) OR of_nat an" and "q \<equiv> (0x4CD8 :: u16) OR of_nat an"
  shows "p AND 0xFB80 = 0x4880 \<and> f3 p = 4 \<and> r0 p = an \<and> \<not> bit p 10 \<and> bit p 6"
    and "q AND 0xFB80 = 0x4880 \<and> f3 q = 3 \<and> r0 q = an \<and> bit q 10 \<and> bit q 6"
proof -
  have "an = 0 \<or> an = 1 \<or> an = 2 \<or> an = 3 \<or> an = 4 \<or> an = 5 \<or> an = 6 \<or> an = 7"
    using assms(1) by linarith
  then show "p AND 0xFB80 = 0x4880 \<and> f3 p = 4 \<and> r0 p = an \<and> \<not> bit p 10 \<and> bit p 6"
    "q AND 0xFB80 = 0x4880 \<and> f3 q = 3 \<and> r0 q = an \<and> bit q 10 \<and> bit q 6"
    unfolding p_def q_def by (elim disjE; simp add: f3_def r0_def bit_iff_odd)+
qed



end
