(* ===== verification/M68k_Arith.thy ===== *)
theory M68k_Arith
  imports M68k_Flags
begin

text \<open>
  The divisions, compare-and-swap and the 96-bit floating-point memory format against their
  integer and bit-level specifications.
\<close>

section \<open>Word division\<close>

lemma and_mask_small: "unat (x :: u32) < 2 ^ n \<Longrightarrow> x AND mask n = x"
proof -
  assume "unat x < 2 ^ n"
  then have "unat (take_bit n x) = unat x" by (simp only: unsigned_take_bit_eq take_bit_nat_eq_self)
  then show ?thesis by (simp only: word_unat_eq_iff take_bit_eq_mask)
qed

lemma join16:
  assumes "unat (a :: u32) < 2 ^ 16" "unat (b :: u32) < 2 ^ 16"
  shows "unat (push_bit 16 (a AND 0xFFFF) OR (b AND 0xFFFF)) = unat a * 2 ^ 16 + unat b"
proof -
  have m: "(0xFFFF :: u32) = mask 16" by (simp add: mask_eq_exp_minus_1)
  have ab: "a AND 0xFFFF = a" "b AND 0xFFFF = b" using assms by (simp_all only: m and_mask_small)
  have "bit b n \<Longrightarrow> n < 16" for n
    by (subst (asm) ab(2) [symmetric]) (simp add: m bit_and_iff bit_mask_iff)
  then have "push_bit 16 a AND b = 0"
    by (intro bit_word_eqI) (auto simp: bit_and_iff bit_push_bit_iff not_le)
  then have "push_bit 16 a OR b = push_bit 16 a + b" by (rule disjunctive_add_eq_or [symmetric])
  also have "unat \<dots> = unat a * 2 ^ 16 + unat b"
    using assms by (simp add: push_bit_eq_mult unat_word_ariths)
  finally show ?thesis by (simp add: ab)
qed

lemma mvcc_simps [simp]: "CCR_X AND CCR_V = 0" "nz_sz b q AND CCR_V = 0" "nz_sz b q AND 1 = 0"
  by (simp_all add: nz_sz_def flag_simps ccr_bits)

text \<open>\<open>divu.w\<close> with a nonzero divisor: when the quotient fits 16 bits the register holds
  the remainder above the quotient and V is clear; otherwise the registers are unchanged and
  V is set. Execution goes on after the instruction in both cases.\<close>

theorem divu_w_correct:
  fixes d :: u32 and st :: m68k and dn :: nat
  assumes "d \<noteq> 0" "unat d < 2 ^ 16"
  defines "D \<equiv> unat (dreg st dn)"
  shows "\<exists>s. divw_apply st False dn d after = Cont s \<and> mpc s = after \<and>
    (if D div unat d < 2 ^ 16
     then unat (dreg s dn) = (D mod unat d) * 2 ^ 16 + D div unat d \<and> ccr s AND CCR_V = 0
     else dreg s = dreg st \<and> ccr s AND CCR_V \<noteq> 0)"
proof -
  let ?q = "dreg st dn div d" and ?r = "dreg st dn mod d"
  have q: "unat ?q = D div unat d" and r: "unat ?r = D mod unat d"
    by (simp_all add: D_def unat_div_distrib unat_mod_distrib)
  have ovf: "?q > 0xFFFF \<longleftrightarrow> \<not> D div unat d < 2 ^ 16"
    by (simp add: word_less_nat_alt q not_less) linarith
  have "unat ?r < 2 ^ 16"
  proof -
    have "0 < unat d" using assms(1) by (simp add: unat_gt_0)
    then have "D mod unat d < unat d" by (rule mod_less_divisor)
    then show ?thesis using assms(2) r by linarith
  qed
  moreover have "unat (push_bit 16 (?r AND 0xFFFF) OR (?q AND 0xFFFF)) = unat ?r * 2 ^ 16 + unat ?q"
    if "unat ?q < 2 ^ 16" "unat ?r < 2 ^ 16"
    using that by (intro join16)
  ultimately show ?thesis
    using assms(1) ovf
    by (auto simp: divw_apply_def Let_def q r setcc_def setd_def jump_def flag_simps ccr_bits)
qed


theorem divu_w_correct_witness:
  "\<exists>s. divw_apply ((demo_state (demo_box 64 []))\<lparr>dreg := (\<lambda>_. 100000)\<rparr>) False 0 7 0x1002 = Cont s \<and>
     unat (dreg s 0) = (100000 mod 7) * 2 ^ 16 + 100000 div 7"
  using divu_w_correct [of 7 "(demo_state (demo_box 64 []))\<lparr>dreg := (\<lambda>_. 100000)\<rparr>" 0 "0x1002"] by auto

section \<open>Long division\<close>

lemma c_div_rem:
  assumes "b \<noteq> 0"
  shows "c_div a b * b + c_rem a b = a" "\<bar>c_rem a b\<bar> < \<bar>b\<bar>" "c_rem a b = 0 \<or> sgn (c_rem a b) = sgn a"
proof -
  show "c_div a b * b + c_rem a b = a" by (simp add: c_rem_def algebra_simps)
  have r: "c_rem a b = sgn a * (\<bar>a\<bar> mod \<bar>b\<bar>)"
  proof -
    have "b * (sgn a * sgn b * (\<bar>a\<bar> div \<bar>b\<bar>)) = sgn a * (\<bar>b\<bar> * (\<bar>a\<bar> div \<bar>b\<bar>))"
      by (simp add: abs_sgn algebra_simps)
    moreover have "a = sgn a * \<bar>a\<bar>" by (simp add: sgn_mult_abs)
    ultimately show ?thesis
      by (simp add: c_rem_def c_div_def minus_mult_div_eq_mod [symmetric] right_diff_distrib)
  qed
  have m: "0 \<le> \<bar>a\<bar> mod \<bar>b\<bar>" "\<bar>a\<bar> mod \<bar>b\<bar> < \<bar>b\<bar>" using assms by simp_all
  then show "\<bar>c_rem a b\<bar> < \<bar>b\<bar>"
    by (cases "a = 0") (simp add: c_rem_def c_div_def assms, auto simp: r abs_mult sgn_if)
  show "c_rem a b = 0 \<or> sgn (c_rem a b) = sgn a"
    using m by (auto simp: r sgn_mult sgn_if)
qed

lemma c_div_range:
  assumes "b \<noteq> 0" "- (2 ^ 31) \<le> a" "a < 2 ^ 31" "\<not> (a = - (2 ^ 31) \<and> b = - 1)"
  shows "- (2 ^ 31) \<le> c_div a b \<and> c_div a b < 2 ^ 31"
proof -
  have d: "0 \<le> \<bar>a\<bar> div \<bar>b\<bar>" "\<bar>a\<bar> div \<bar>b\<bar> \<le> \<bar>a\<bar>"
    using zdiv_mono2 [of "\<bar>a\<bar>" 1 "\<bar>b\<bar>"] assms(1) by (simp_all add: pos_imp_zdiv_nonneg_iff)
  show ?thesis
  proof (cases "a = - (2 ^ 31) \<and> b < 0")
    case True
    then have "\<bar>b\<bar> \<ge> 2" using assms(4) by linarith
    then have "\<bar>a\<bar> div \<bar>b\<bar> \<le> \<bar>a\<bar> div 2" by (intro zdiv_mono2) auto
    then show ?thesis using True d by (auto simp: c_div_def sgn_if)
  next
    case False
    then show ?thesis using d assms(1-3) by (auto simp: c_div_def sgn_if)
  qed
qed

lemma sint_eq_iff: "sint x = sint y \<longleftrightarrow> x = y" for x y :: "'a::len word"
  by (auto intro: signed_word_eqI)

lemma sint_of_int32: "- (2 ^ 31) \<le> i \<Longrightarrow> i < 2 ^ 31 \<Longrightarrow> sint (word_of_int i :: u32) = i"
  by (simp add: sint_sbintrunc' signed_take_bit_int_eq_self)

lemma logic_sz_VC:
  "logic_sz b v k AND CCR_V = 0" "logic_sz b v k AND CCR_C = 0"
  by (simp_all add: logic_sz_def nz_sz_def flag_simps ccr_bits)



section \<open>Compare and swap\<close>

text \<open>\<open>cas.l Dc,Du,(An)\<close>: when the memory operand equals \<open>Dc\<close> the operand becomes \<open>Du\<close>
  and no register changes; otherwise \<open>Dc\<close> receives the operand and memory is unchanged. Z
  tells the two cases apart and X is kept.\<close>

theorem cas_l_correct:
  assumes "op AND 0xFFF8 = 0x0ED0" "ip16 st 2 = Some ext"
    and m: "mem_rd32 (box st) (areg st (r0 op)) = Some v"
  defines "dc \<equiv> unat (ext AND 7)" and "du \<equiv> unat (drop_bit 6 ext AND 7)"
  shows "\<exists>s. op_cas st op = Cont s \<and> mpc s = mpc st + 4 \<and> areg s = areg st \<and>
    ccr s AND CCR_X = ccr st AND CCR_X \<and> (ccr s AND CCR_Z \<noteq> 0) = (v = dreg st dc) \<and>
    (if v = dreg st dc
     then dreg s = dreg st \<and> mem_wr32 (box st) (areg st (r0 op)) (dreg st du) = Some (box s)
     else dreg s = (dreg st)(dc := v) \<and> box s = box st)"
proof -
  have w: "width_ok 32" by (simp add: width_ok_def)
  have f: "fits 32 x" for x :: u32 using unsigned_less [of x, where ?'a = nat] by (simp add: fits_def)
  have a: "op AND 0xFDF8 = 0x0CD0" "op AND 0xFF00 = 0x0E00"
  proof -
    have "op AND 0xFDF8 = (op AND 0xFFF8) AND 0xFDF8" "op AND 0xFF00 = (op AND 0xFFF8) AND 0xFF00"
      by (simp_all add: and.assoc)
    then show "op AND 0xFDF8 = 0x0CD0" "op AND 0xFF00 = 0x0E00" by (simp_all add: assms(1))
  qed
  have full: "x AND msk 32 = x" for x :: u32
    using f [of x] by (simp only: and_msk [OF w] word_unat_eq_iff unsigned_take_bit_eq fits_def take_bit_nat_eq_self)
  have res: "sub_res 32 c v = 0 \<longleftrightarrow> c = v" for c by (rule sub_res_facts(3) [OF w f f])
  obtain sb where sb: "mem_wr32 (box st) (areg st (r0 op)) (dreg st du) = Some sb"
    using m by (cases "in_box (box st) (areg st (r0 op)) 4") (auto simp: mem_wr32_def mem_rd32_def Let_def)
  note fl = cmp_cc_flags [OF w f f, of "ccr st" "dreg st dc" v]
  show ?thesis
    using assms(2) m sb fl
    by (auto simp: op_cas_def a with16_def Let_def rd_sz_def wr_sz_def full res dc_def [symmetric]
        du_def [symmetric] need_def adv_def jump_def setcc_def setd_def setbox_def)
qed

theorem cas_l_correct_witness:
  "\<exists>s. op_cas ((demo_state (demo_box 64 [0x0E, 0xD0, 0, 0x40, 0, 0, 0, 0]))\<lparr>areg := (\<lambda>_. 0x1004), dreg := (\<lambda>n. of_nat n)\<rparr>) 0x0ED0 = Cont s
     \<and> ccr s AND CCR_Z \<noteq> 0 \<and> mem_rd32 (box s) 0x1004 = Some 1"
proof -
  let ?st = "(demo_state (demo_box 64 [0x0E, 0xD0, 0, 0x40, 0, 0, 0, 0]))\<lparr>areg := (\<lambda>_. 0x1004), dreg := (\<lambda>n. of_nat n)\<rparr>"
  have h: "(0x0ED0 :: u16) AND 0xFFF8 = 0x0ED0" "ip16 ?st 2 = Some 0x40"
    "mem_rd32 (box ?st) (areg ?st (r0 0x0ED0)) = Some 0"
    by (simp_all add: ip16_def mem_rd32_def in_box_def hoff_def demo_defs be16_def be32_def)
  obtain s where "op_cas ?st 0x0ED0 = Cont s" "ccr s AND CCR_Z \<noteq> 0"
    "mem_wr32 (box ?st) 0x1004 1 = Some (box s)"
    using cas_l_correct [OF h] by auto
  then show ?thesis using long.rd_wr by blast
qed

section \<open>The 96-bit floating-point memory format\<close>

lemma shift_in_byte:
  "push_bit 8 (drop_bit (8 * Suc j) v) OR ucast (byte_of j v) = drop_bit (8 * j) (v :: u64)"
  by (rule bit_word_eqI) (auto simp: byte_of_def bit_simps not_less add.commute dest: bit_imp_le_length)

lemma mant_of_bytes:
  "mant_of ([a, b, c, d] @ map (\<lambda>i. byte_of (7 - i) v) [0..<8]) = v"
proof -
  let ?x = "[a, b, c, d] @ map (\<lambda>i. byte_of (7 - i) v) [0..<8]"
  have "k \<le> 8 \<Longrightarrow> foldl (\<lambda>m i. push_bit 8 m OR ucast (?x ! (4 + i))) 0 [0..<k] = drop_bit (8 * (8 - k)) v" for k
  proof (induction k)
    case 0
    have "drop_bit 64 v = 0" by (rule bit_word_eqI) (simp add: bit_simps)
    then show ?case by simp
  next
    case (Suc k)
    have e: "8 * (8 - k) = 8 + 8 * (7 - k)" using Suc.prems by simp
    have "?x ! (4 + k) = byte_of (7 - k) v" using Suc.prems by (simp add: nth_append)
    then show ?case
      using Suc shift_in_byte [of "7 - k" v] e by simp
  qed
  from this [of 8] show ?thesis by (simp add: mant_of_def)
qed

lemma double_split:
  fixes b :: u64
  defines "e \<equiv> drop_bit 52 b AND 0x7ff" and "f \<equiv> b AND 0xfffffffffffff"
  shows "push_bit 63 (drop_bit 63 b) OR push_bit 52 e OR f = b"
proof (rule bit_word_eqI)
  fix n assume "n < LENGTH(64)"
  have m: "(0x7ff :: u64) = mask 11" "(0xfffffffffffff :: u64) = mask 52"
    by (simp_all add: mask_eq_exp_minus_1)
  consider "n < 52" | "52 \<le> n" "n < 63" | "n = 63" using \<open>n < LENGTH(64)\<close> by fastforce
  then show "bit (push_bit 63 (drop_bit 63 b) OR push_bit 52 e OR f) n = bit b n"
    unfolding e_def f_def m by cases (auto simp: bit_simps)
qed

lemma frac_back:
  "drop_bit 11 ((push_bit 63 1 OR push_bit 11 (b AND 0xfffffffffffff)) AND NOT (push_bit 63 1)) =
   (b :: u64) AND 0xfffffffffffff"
proof -
  define f where "f = b AND 0xfffffffffffff"
  have "(0xfffffffffffff :: u64) = mask 52" by (simp add: mask_eq_exp_minus_1)
  then have lt: "bit f n \<Longrightarrow> n < 52" for n by (simp add: f_def bit_and_iff bit_mask_iff)
  define s :: u64 where "s = push_bit 63 1"
  have s: "bit s n \<longleftrightarrow> n = 63" for n unfolding s_def bit_push_bit_iff bit_1_iff by auto
  have "bit (drop_bit 11 ((s OR push_bit 11 f) AND NOT s)) n = bit f n" if "n < LENGTH(64)" for n
    using lt [of n] by (cases "bit f n") (auto simp: bit_simps s)
  then show ?thesis unfolding f_def [symmetric] s_def [symmetric] by (rule bit_word_eqI)
qed

lemma sign_exp:
  fixes b :: u64 and x :: u16
  defines "se \<equiv> push_bit 15 (ucast (drop_bit 63 b)) OR (x AND 0x7fff) :: u16"
  shows "push_bit 63 (ucast (drop_bit 15 se AND 1)) = push_bit 63 (drop_bit 63 b)"
    and "se AND 0x7fff = x AND 0x7fff"
proof -
  have m: "(0x7fff :: u16) = mask 15" by (simp add: mask_eq_exp_minus_1)
  have one: "v AND 1 = v AND mask 1" for v :: u16 by simp
  show "push_bit 63 (ucast (drop_bit 15 se AND 1)) = push_bit 63 (drop_bit 63 b)"
    unfolding se_def m one by (rule bit_word_eqI) (auto simp: bit_simps not_le)
  show "se AND 0x7fff = x AND 0x7fff"
    unfolding se_def m by (rule bit_word_eqI) (auto simp: bit_simps)
qed

text \<open>What \<open>j5r_x_to_double\<close> reads from the twelve bytes of a sign, an exponent, a mantissa.\<close>

lemma x_to_double_parts:
  fixes b mant :: u64 and x :: u16
  defines "se \<equiv> push_bit 15 (ucast (drop_bit 63 b)) OR (x AND 0x7fff) :: u16"
    and "sg \<equiv> push_bit 63 (drop_bit 63 b)"
  shows "j5r_x_to_double ([byte_of 1 se, byte_of 0 se, 0, 0] @ map (\<lambda>i. byte_of (7 - i) mant) [0..<8]) =
    (let exp15 = x AND 0x7fff; f = drop_bit 11 (mant AND NOT (push_bit 63 1)) in
     if exp15 = 0x7fff then sg OR push_bit 52 0x7ff OR f
     else if exp15 = 0 \<and> mant = 0 then sg
     else (let e = sint (ucast exp15 :: u32) - 16383 + 1023 in
       if e \<ge> 0x7ff then sg OR push_bit 52 0x7ff
       else if e > 0 then sg OR push_bit 52 (word_of_int e) OR f
       else (let m = drop_bit 11 mant; rs = nat (1 - e);
                 sub = (if rs \<ge> 64 then 0 else drop_bit rs m)
         in sg OR (sub AND 0xfffffffffffff))))"
  using sign_exp [of b x, folded se_def] be16_bytes [of se] mant_of_bytes [of "byte_of 1 se" "byte_of 0 se" 0 0 mant]
  by (simp add: j5r_x_to_double_def Let_def sg_def)

lemma exp_range: "unat ((b :: u64) AND 0x7ff) < 2048"
proof -
  have "(0x7ff :: u64) = mask 11" by (simp add: mask_eq_exp_minus_1)
  then have "b AND 0x7ff = take_bit 11 b" by (simp add: take_bit_eq_mask)
  then show ?thesis by (simp only: unsigned_take_bit_eq) (simp add: take_bit_eq_mod)
qed

lemma sint_ucast16: "sint (ucast (x :: u16) :: u32) = int (unat x)"
proof -
  have lt: "uint x < 2 ^ 16" using unsigned_less [of x, where ?'a = int] by simp
  have "(ucast x :: u32) = word_of_int (int (unat x))" by (simp add: unsigned_of_nat)
  moreover have "- (2 ^ 31) \<le> int (unat x)" by (rule order.trans [of _ 0]) simp_all
  moreover have "int (unat x) < 2 ^ 31" using lt by simp
  ultimately show ?thesis using sint_of_int32 [of "int (unat x)"] by simp
qed

lemma biased_exp:
  fixes e :: u64
  assumes "unat e < 2047" "e \<noteq> 0"
  shows "unat (ucast (e - 1023 + 16383) :: u16) = unat e + 15360"
    and "(ucast (e - 1023 + 16383) :: u16) AND 0x7fff = ucast (e - 1023 + 16383)"
proof -
  have s: "e - 1023 + 16383 = e + 15360" by simp
  have "unat (e + 15360) = unat e + 15360" using assms(1) by (simp add: unat_word_ariths)
  then show u: "unat (ucast (e - 1023 + 16383) :: u16) = unat e + 15360"
    unfolding s using assms(1) by (simp only: unsigned_ucast_eq) (simp add: take_bit_eq_mod)
  have m: "(0x7fff :: u16) = mask 15" by (simp add: mask_eq_exp_minus_1)
  show "(ucast (e - 1023 + 16383) :: u16) AND 0x7fff = ucast (e - 1023 + 16383)"
    unfolding m using u assms(1)
    by (simp only: take_bit_eq_mask [symmetric] word_unat_eq_iff unsigned_take_bit_eq)
      (rule take_bit_nat_eq_self, simp)
qed

text \<open>storing a double in the 96-bit format and loading it back is exact for zeros, normal
  numbers, infinities and NaNs (every bit pattern whose exponent field is nonzero or whose
  fraction is zero).\<close>

theorem double_x_roundtrip:
  assumes "drop_bit 52 b AND 0x7ff \<noteq> 0 \<or> b AND 0xfffffffffffff = 0"
  shows "\<exists>xb. j5r_double_to_x b = Some xb \<and> length xb = 12 \<and> j5r_x_to_double xb = b"
proof -
  define e where "e = drop_bit 52 b AND 0x7ff"
  define f where "f = b AND 0xfffffffffffff"
  note split = double_split [of b, folded e_def f_def]
  note fb = frac_back [of b, folded f_def]
  have er: "unat e < 2048" unfolding e_def by (rule exp_range)
  have "x_parts b \<noteq> None" using assms by (auto simp: x_parts_def Let_def)
  then obtain x mant where xp: "x_parts b = Some (x, mant)" by auto
  let ?se = "push_bit 15 (ucast (drop_bit 63 b)) OR (x AND 0x7fff) :: u16"
  let ?xb = "[byte_of 1 ?se, byte_of 0 ?se, 0, 0] @ map (\<lambda>i. byte_of (7 - i) mant) [0..<8]"
  have d: "j5r_double_to_x b = Some ?xb" by (simp add: j5r_double_to_x_def xp Let_def)
  consider "e = 0x7ff" | "e = 0" "f = 0" | "e \<noteq> 0x7ff" "e \<noteq> 0"
    using assms by (auto simp: e_def f_def)
  then have "j5r_x_to_double ?xb = b"
  proof cases
    case 1
    then have x: "x = 0x7fff" "mant = (if f = 0 then 0 else push_bit 63 1 OR push_bit 11 f)"
      using xp by (auto simp: x_parts_def Let_def e_def f_def split: if_splits)
    show ?thesis unfolding x_to_double_parts
      using split 1 fb by (auto simp: x Let_def)
  next
    case 2
    then have x: "x = 0" "mant = 0"
      using xp by (auto simp: x_parts_def Let_def e_def f_def split: if_splits)
    show ?thesis unfolding x_to_double_parts
      using split 2 by (simp add: x Let_def)
  next
    case 3
    then have x: "x = ucast (e - 1023 + 16383)" "mant = push_bit 63 1 OR push_bit 11 f"
      using xp by (auto simp: x_parts_def Let_def e_def f_def split: if_splits)
    have lt: "unat e < 2047" using er 3(1) by (simp add: word_unat_eq_iff)
    note be = biased_exp [OF lt 3(2)]
    have x15: "x AND 0x7fff = x" "unat x = unat e + 15360" using be by (simp_all only: x)
    have ne: "x \<noteq> 0x7fff" "x \<noteq> 0" using x15(2) lt by (auto simp: word_unat_eq_iff)
    have "sint (ucast x :: u32) = int (unat x)" by (rule sint_ucast16)
    then have ei: "sint (ucast x :: u32) - 16383 + 1023 = int (unat e)" using x15(2) by simp
    have e_pos: "0 < unat e" using 3(2) by (simp add: unat_gt_0)
    have ui: "0 < uint e" "uint e < 2047"
    proof -
      have "0 < int (unat e)" "int (unat e) < 2047" using e_pos lt by linarith+
      then show "0 < uint e" "uint e < 2047" by simp_all
    qed
    have e_back: "word_of_int (int (unat e)) = e" by simp
    show ?thesis
      unfolding x_to_double_parts
      using split ne ui fb by (simp add: x15(1) Let_def ei e_back x(2) del: of_int_eq_iff)
  qed
  then show ?thesis using d by simp
qed

text \<open>a subnormal double does not survive: the conversion shifts its fraction one place too
  far, so \<open>2^-1073\<close> (bit pattern 2) loads back as another number, and for the least subnormal
  (bit pattern 1) the shift count is 64, undefined in C.\<close>

theorem double_x_subnormal_lost:
  "\<exists>xb. j5r_double_to_x 2 = Some xb \<and> j5r_x_to_double xb \<noteq> 2 \<and> j5r_double_to_x 1 = None"
proof -
  have lz: "clz64 2 = 62" "clz64 1 = 63"
    by (simp_all add: clz64_def upt_rec bit_iff_odd)
  show ?thesis
    by (simp add: j5r_double_to_x_def x_parts_def lz Let_def x_to_double_parts j5r_x_to_double_def
        mant_of_def be16_def byte_of_def upt_rec)
qed

theorem double_x_roundtrip_witness:
  "\<exists>xb. j5r_double_to_x 0x3FF8000000000000 = Some xb \<and> j5r_x_to_double xb = 0x3FF8000000000000"
  using double_x_roundtrip [of "0x3FF8000000000000"] by auto

end
