(* ===== verification/M68k_Quirks.thy ===== *)
theory M68k_Quirks
  imports M68k_Flags
begin

text \<open>
  Instructions on which the block order or a block's own steps of
  \<open>hosted/jit68k/j5d_interp.c\<close> do not give the 68k result. Each theorem states what the
  code does on the whole dispatch or on the block, for every state the hypotheses allow.
\<close>

lemma ucast_up_down8 [simp]: "ucast (ucast (v :: u8) :: u32) = v"
  by (rule bit_word_eqI) (simp add: bit_simps)

lemma ucast_sum:
  fixes a b :: u32
  shows "ucast ((ucast a :: u64) + ucast b) = a + b" "ucast ((ucast a :: u64) + ucast b + 1) = a + b + 1"
  using addx_long(2) [where x = False, OF refl, of a b] addx_long(2) [where x = True, OF refl, of a b]
  by (simp_all add: word_unat_eq_iff unat_word_ariths mod_simps)

lemmas step_simps = adv_def jump_def seta_def setd_def setcc_def setbox_def need_def

text \<open>\<open>adda.l Dn,An\<close> (\<open>D1C0 | an << 9 | dn\<close>) is taken by the \<open>addx\<close> block, whose mask does
  not exclude the size field 3: it adds to a data register, with X and flags, and leaves the
  address register as it was.\<close>

theorem adda_l_dn_runs_addx:
  fixes st :: m68k
  shows "\<exists>s. try_blocks (blocks lf) st 0xD5C3 = Cont s \<and> areg s = areg st \<and>
    dreg s = (dreg st)(2 := dreg st 2 + dreg st 3 + (if ccr st AND CCR_X \<noteq> 0 then 1 else 0))"
proof -
  have w: "msk 32 = 0xFFFFFFFF" by (simp add: msk_def)
  have "(0xFFFFFFFF :: u32) = - 1" by simp
  then have n: "x AND 0xFFFFFFFF = x" "x AND NOT 0xFFFFFFFF = 0" for x :: u32
    by (simp_all only:) simp_all
  show ?thesis
    using n(2) [of "dreg st 2"]
    by (simp add: dispatch_simps step_simps bits_of_def w merge_def n(1) ucast_sum)
qed

text \<open>\<open>move.b (A0)+,-(A1)\<close> (\<open>1318\<close>): the byte block reads the source and increments A0
  before it finds that it does not know the destination mode, and the general block then
  reads the next byte and increments A0 again.\<close>

theorem move_b_postinc_predec_skips_a_byte:
  assumes "mem_rd8 (box st) (areg st 0) = Some v1" "mem_rd8 (box st) (areg st 0 + 1) = Some v2"
    and "mem_wr8 (box st) (areg st 1 - 1) v2 = Some sb"
  shows "\<exists>s. try_blocks (blocks lf) st 0x1318 = Cont s \<and> box s = sb \<and>
    areg s 0 = areg st 0 + 2 \<and> areg s 1 = areg st 1 - 1"
  using assms
  by (simp add: dispatch_simps step_simps move_b_src_def move_b_dst_def move_src_def move_dst_def
     rd_sz_def wr_sz_def mvcc_def)

text \<open>\<open>cmpm.l (An)+,(An)+\<close> with the same register twice compares the long with itself
  (the block reads both operands before either increment): Z is set whatever the two
  consecutive longs are.\<close>

theorem cmpm_same_register_always_equal:
  assumes "n < 8" "mem_rd32 (box st) (areg st n) = Some v"
  shows "\<exists>s. op_cmpm st (0xB188 OR push_bit 9 (of_nat n) OR of_nat n) = Cont s \<and>
    ccr s AND CCR_Z \<noteq> 0 \<and> areg s n = areg st n + 8"
proof -
  have "n = 0 \<or> n = 1 \<or> n = 2 \<or> n = 3 \<or> n = 4 \<or> n = 5 \<or> n = 6 \<or> n = 7"
    using assms(1) by linarith
  then have d: "let op = (0xB188 :: u16) OR push_bit 9 (of_nat n) OR of_nat n in
      op AND 0xF138 = 0xB108 \<and> r9 op = n \<and> r0 op = n \<and> sz6 op = 2"
    by (elim disjE; simp add: r9_def r0_def sz6_def)
  have "cmp_cc 32 c v v AND CCR_Z \<noteq> 0" for c
    by (simp add: cmp_cc_flags(2) width_ok_def fits_def less_le_trans [OF unsigned_less])
  with d assms(2) show ?thesis
    by (simp add: op_cmpm_def Let_def bits_of_def rd_sz_def step_simps)
qed

text \<open>a register-count \<open>rol.l\<close> or \<open>ror.l\<close> whose count is 32 shifts a 32-bit operand by 32,
  which C leaves undefined.\<close>

theorem rol_l_by_32_undefined:
  assumes "dreg st 1 AND 63 = 32"
  shows "try_blocks (blocks lf) st 0xE3B8 = Undef ''shift by the operand width''"
  using assms
  by (simp add: dispatch_simps rotate_reg_def bits_of_def)

text \<open>\<open>movem.l (A0)+,A0\<close>: the register is loaded and then incremented by 4, where the
  68k discards the loaded value.\<close>

theorem movem_postinc_keeps_loaded_base:
  assumes "ip16 st 2 = Some 0x0100" "mem_rd32 (box st) (areg st 0) = Some v"
  shows "\<exists>s. op_movem st 0x4CD8 = Cont s \<and> areg s 0 = v + 4"
proof -
  have "mask_bits 0x0100 = [8]" by (simp add: mask_bits_def upt_rec bit_iff_odd)
  then show ?thesis
    using assms by (simp add: op_movem_def with16_def f3_def r0_def Let_def bit_iff_odd mv_bits_def
        mv_step_def rd_sz_def MV_WRREG_def step_simps)
qed

section \<open>Witnesses\<close>

theorem move_b_postinc_predec_skips_a_byte_witness:
  "\<exists>s. try_blocks (blocks None) ((demo_state (demo_box 64 [1, 2, 3]))\<lparr>areg := (\<lambda>_. 0x1008)(0 := 0x1000)\<rparr>) 0x1318
     = Cont s \<and> areg s 0 = 0x1002"
proof -
  let ?st = "(demo_state (demo_box 64 [1, 2, 3]))\<lparr>areg := (\<lambda>_. 0x1008)(0 := 0x1000)\<rparr>"
  obtain sb where "mem_wr8 (box ?st) (areg ?st 1 - 1) 2 = Some sb"
    by (simp add: mem_wr8_def in_box_def hoff_def demo_defs)
  then show ?thesis
    using move_b_postinc_predec_skips_a_byte [of ?st 1 2 sb None]
    by (auto simp: mem_rd8_def in_box_def hoff_def demo_defs)
qed

theorem cmpm_same_register_always_equal_witness:
  "\<exists>s. op_cmpm ((demo_state (demo_box 64 [0, 0, 0, 1, 0, 0, 0, 2]))\<lparr>areg := (\<lambda>_. 0x1000)\<rparr>) 0xB188 = Cont s
     \<and> ccr s AND CCR_Z \<noteq> 0"
  using cmpm_same_register_always_equal [of 0
      "(demo_state (demo_box 64 [0, 0, 0, 1, 0, 0, 0, 2]))\<lparr>areg := (\<lambda>_. 0x1000)\<rparr>" 1]
  by (auto simp: mem_rd32_def in_box_def hoff_def demo_defs be32_def)

theorem rol_l_by_32_undefined_witness:
  "try_blocks (blocks None) ((demo_state (demo_box 64 []))\<lparr>dreg := (\<lambda>_. 32)\<rparr>) 0xE3B8
     = Undef ''shift by the operand width''"
  by (rule rol_l_by_32_undefined) simp

theorem movem_postinc_keeps_loaded_base_witness:
  "\<exists>s. op_movem ((demo_state (demo_box 64 [0x4C, 0xD8, 1, 0, 0, 0, 0, 9]))\<lparr>areg := (\<lambda>_. 0x1004)\<rparr>) 0x4CD8 = Cont s
     \<and> areg s 0 = 13"
  using movem_postinc_keeps_loaded_base [of
      "(demo_state (demo_box 64 [0x4C, 0xD8, 1, 0, 0, 0, 0, 9]))\<lparr>areg := (\<lambda>_. 0x1004)\<rparr>" 9]
  by (auto simp: mem_rd32_def in_box_def hoff_def demo_defs be32_def ip16_def be16_def)

end
