(* ===== verification/HunkLoader.thy ===== *)
theory HunkLoader
  imports Prelude
begin

text \<open>
  The hunk loader (\<open>hosted/jit68k/j4_loader.c\<close>, constants and layouts from
  \<open>j4_hunk.h\<close>): it parses a big-endian AmigaOS hunk file, gives every hunk a slice of the
  32-bit sandbox, copies the payloads and applies the relocations.

  The file is a byte list; the cursor position is a natural number (\<open>size_t\<close> positions
  stay within a few gigabytes of the file length, far from the wrap). All 32-bit sums of
  the source wrap here too. The host array behind the sandbox has \<open>jb_size\<close> bytes; a raw
  access the source makes outside it is undefined behaviour, the outcome \<open>LUndef\<close>.
  A failure keeps the state it left behind, because the segment-list entry point rolls
  back from it.
\<close>

section \<open>Data\<close>

record j4_sandbox =
  jb_mem :: "nat \<Rightarrow> u8"
  jb_origin :: u32
  jb_size :: u32
  next_alloc :: u32

record j4_seglist =
  numhunks :: nat
  hunk_base :: "u32 list"
  hunk_size :: "u32 list"
  hunk_type :: "u32 list"
  sl_entry :: u32

definition J4_HUNK_HEADER :: u32 where "J4_HUNK_HEADER = 1011"
definition J4_HUNK_CODE :: u32 where "J4_HUNK_CODE = 1001"
definition J4_HUNK_DATA :: u32 where "J4_HUNK_DATA = 1002"
definition J4_HUNK_BSS :: u32 where "J4_HUNK_BSS = 1003"
definition J4_HUNK_RELOC32 :: u32 where "J4_HUNK_RELOC32 = 1004"
definition J4_HUNK_DREL32 :: u32 where "J4_HUNK_DREL32 = 1017"
definition J4_HUNK_RELOC32SHORT :: u32 where "J4_HUNK_RELOC32SHORT = 1021"
definition J4_HUNK_SYMBOL :: u32 where "J4_HUNK_SYMBOL = 1008"
definition J4_HUNK_DEBUG :: u32 where "J4_HUNK_DEBUG = 1009"
definition J4_HUNK_END :: u32 where "J4_HUNK_END = 1010"
definition J4_MAX_HUNKS :: nat where "J4_MAX_HUNKS = 16"

lemmas hunk_consts =
  J4_HUNK_HEADER_def J4_HUNK_CODE_def J4_HUNK_DATA_def J4_HUNK_BSS_def J4_HUNK_RELOC32_def
  J4_HUNK_DREL32_def J4_HUNK_RELOC32SHORT_def J4_HUNK_SYMBOL_def J4_HUNK_DEBUG_def
  J4_HUNK_END_def J4_MAX_HUNKS_def

text \<open>The locals of \<open>load_hunks\<close>: the cursor, the sandbox, the segment list under
  construction, and the loop variables.\<close>

record lstate =
  c_pos :: nat
  l_box :: j4_sandbox
  l_seg :: j4_seglist
  curhunk :: nat
  lasthunk :: nat
  seen_code :: bool
  c_words :: u32

datatype lres = LOk lstate | LFail string lstate | LUndef

definition lbind :: "lres \<Rightarrow> (lstate \<Rightarrow> lres) \<Rightarrow> lres" where
  "lbind r f = (case r of LOk st \<Rightarrow> f st | LFail e st \<Rightarrow> LFail e st | LUndef \<Rightarrow> LUndef)"

lemma lbind_simps [simp]:
  "lbind (LOk st) f = f st" "lbind (LFail e st) f = LFail e st" "lbind LUndef f = LUndef"
  by (simp_all add: lbind_def)

lemma lbind_cong [fundef_cong]:
  "r = r' \<Longrightarrow> (\<And>st. r' = LOk st \<Longrightarrow> f st = g st) \<Longrightarrow> lbind r f = lbind r' g"
  by (cases r') auto

section \<open>Bytes and cursor\<close>

definition sb_read_be32 :: "j4_sandbox \<Rightarrow> nat \<Rightarrow> u32" where
  "sb_read_be32 sb p = be32 (jb_mem sb p) (jb_mem sb (p + 1)) (jb_mem sb (p + 2)) (jb_mem sb (p + 3))"

definition sb_write_be32 :: "j4_sandbox \<Rightarrow> nat \<Rightarrow> u32 \<Rightarrow> j4_sandbox" where
  "sb_write_be32 sb p v = sb\<lparr>jb_mem := (jb_mem sb)
     (p := byte_of 3 v, p + 1 := byte_of 2 v, p + 2 := byte_of 1 v, p + 3 := byte_of 0 v)\<rparr>"

definition cur_u32 :: "u8 list \<Rightarrow> lstate \<Rightarrow> (u32 \<times> lstate) option" where
  "cur_u32 buf st = (let p = c_pos st in
     if p + 4 > length buf then None
     else Some (be32 (buf ! p) (buf ! (p + 1)) (buf ! (p + 2)) (buf ! (p + 3)), st\<lparr>c_pos := p + 4\<rparr>))"

definition cur_u16 :: "u8 list \<Rightarrow> lstate \<Rightarrow> (u32 \<times> lstate) option" where
  "cur_u16 buf st = (let p = c_pos st in
     if p + 2 > length buf then None
     else Some (push_bit 8 (ucast (buf ! p)) OR ucast (buf ! (p + 1)), st\<lparr>c_pos := p + 2\<rparr>))"

text \<open>\<open>if (cur_u32(&c, &v)) FAIL(msg);\<close> and the code that follows it.\<close>

definition rd32 :: "u8 list \<Rightarrow> string \<Rightarrow> lstate \<Rightarrow> (u32 \<Rightarrow> lstate \<Rightarrow> lres) \<Rightarrow> lres" where
  "rd32 buf msg st f = (case cur_u32 buf st of None \<Rightarrow> LFail msg st | Some (v, st') \<Rightarrow> f v st')"

definition rd16 :: "u8 list \<Rightarrow> string \<Rightarrow> lstate \<Rightarrow> (u32 \<Rightarrow> lstate \<Rightarrow> lres) \<Rightarrow> lres" where
  "rd16 buf msg st f = (case cur_u16 buf st of None \<Rightarrow> LFail msg st | Some (v, st') \<Rightarrow> f v st')"

lemma cur_u32_Some:
  "cur_u32 buf st = Some (v, st') \<Longrightarrow> st' = st\<lparr>c_pos := c_pos st + 4\<rparr> \<and> c_pos st + 4 \<le> length buf"
  by (auto simp: cur_u32_def Let_def split: if_splits)

lemma cur_u16_Some:
  "cur_u16 buf st = Some (v, st') \<Longrightarrow> st' = st\<lparr>c_pos := c_pos st + 2\<rparr> \<and> c_pos st + 2 \<le> length buf"
  by (auto simp: cur_u16_def Let_def split: if_splits)

lemma rd32_cong [fundef_cong]:
  assumes "buf = buf'" "msg = msg'" "st = st'"
    and "\<And>v. c_pos st' + 4 \<le> length buf' \<Longrightarrow>
           f v (st'\<lparr>c_pos := c_pos st' + 4\<rparr>) = g v (st'\<lparr>c_pos := c_pos st' + 4\<rparr>)"
  shows "rd32 buf msg st f = rd32 buf' msg' st' g"
  using assms by (auto simp: rd32_def dest: cur_u32_Some split: option.split)

lemma rd16_cong [fundef_cong]:
  assumes "buf = buf'" "msg = msg'" "st = st'"
    and "\<And>v. c_pos st' + 2 \<le> length buf' \<Longrightarrow>
           f v (st'\<lparr>c_pos := c_pos st' + 2\<rparr>) = g v (st'\<lparr>c_pos := c_pos st' + 2\<rparr>)"
  shows "rd16 buf msg st f = rd16 buf' msg' st' g"
  using assms by (auto simp: rd16_def dest: cur_u16_Some split: option.split)

section \<open>The sandbox\<close>

definition j4_sandbox_init :: "(nat \<Rightarrow> u8) option \<Rightarrow> u32 \<Rightarrow> u32 \<Rightarrow> j4_sandbox option" where
  "j4_sandbox_init host org sz = (case host of
     None \<Rightarrow> None
   | Some m \<Rightarrow> Some \<lparr>jb_mem = (\<lambda>i. if i < unat sz then 0 else m i), jb_origin = org, jb_size = sz,
        next_alloc = org\<rparr>)"

definition j4_sandbox_host :: "j4_sandbox \<Rightarrow> u32 \<Rightarrow> nat" where
  "j4_sandbox_host sb addr = unat (addr - jb_origin sb)"

text \<open>\<open>n\<close> host bytes from \<open>j4_sandbox_host\<close> of an address lie inside the host array.\<close>

definition host_ok :: "j4_sandbox \<Rightarrow> u32 \<Rightarrow> nat \<Rightarrow> bool" where
  "host_ok sb addr n \<longleftrightarrow> j4_sandbox_host sb addr + n \<le> unat (jb_size sb)"

lemma host_ok_code [code]:
  "host_ok sb addr n \<longleftrightarrow> uint (addr - jb_origin sb) + int n \<le> uint (jb_size sb)"
  unfolding host_ok_def j4_sandbox_host_def uint_nat by linarith

definition sandbox_alloc :: "j4_sandbox \<Rightarrow> u32 \<Rightarrow> u32 \<times> j4_sandbox" where
  "sandbox_alloc sb bytes =
     (let aligned = (bytes + 15) AND NOT 15; at = next_alloc sb in
      if unat at + unat aligned > unat (jb_origin sb) + unat (jb_size sb) then (0, sb)
      else (at, sb\<lparr>next_alloc := at + aligned\<rparr>))"

section \<open>The header\<close>

text \<open>The header name list: length-prefixed names up to a zero.\<close>

function skip_names :: "u8 list \<Rightarrow> lstate \<Rightarrow> lres" where
  "skip_names buf st = rd32 buf ''short file in header name list'' st (\<lambda>v st.
     if v = 0 then LOk st
     else (let st = st\<lparr>c_pos := c_pos st + unat v * 4\<rparr> in
       if c_pos st > length buf then LFail ''header name list runs off end'' st
       else skip_names buf st))"
  by pat_completeness auto
termination
  by (relation "measure (\<lambda>(buf, st). length buf - c_pos st)") auto

text \<open>One hunk's slice: \<open>prefix\<close> bytes of frame, then the payload.\<close>

definition place_hunk :: "u32 \<Rightarrow> nat \<Rightarrow> u32 \<Rightarrow> u32 \<Rightarrow> lstate \<Rightarrow> lres" where
  "place_hunk prefix i payload bytes st = (case sandbox_alloc (l_box st) (payload + prefix) of (base, sb) \<Rightarrow>
     if base = 0 then LFail ''sandbox out of memory for hunk'' (st\<lparr>l_box := sb\<rparr>)
     else LOk (st\<lparr>l_box := sb,
       l_seg := (l_seg st)\<lparr>hunk_base := (hunk_base (l_seg st))[i := base + prefix],
                           hunk_size := (hunk_size (l_seg st))[i := bytes],
                           hunk_type := (hunk_type (l_seg st))[i := 0]\<rparr>\<rparr>))"

definition alloc_hunk :: "u8 list \<Rightarrow> u32 \<Rightarrow> nat \<Rightarrow> lstate \<Rightarrow> lres" where
  "alloc_hunk buf prefix i st = rd32 buf ''short header: hunk size word'' st (\<lambda>v st.
     if v AND 0xC0000000 = 0xC0000000 then LFail ''FAST|CHIP hunk flags not supported in spike'' st
     else (let longs = v AND 0x00FFFFFF; bytes = longs * 4;
               payload = (if bytes \<noteq> 0 then bytes else 16) in
       if payload > 0xFFFFFFFF - prefix then LFail ''hunk allocation size overflow'' st
       else place_hunk prefix i payload bytes st))"

fun alloc_hunks :: "u8 list \<Rightarrow> u32 \<Rightarrow> nat \<Rightarrow> nat \<Rightarrow> lstate \<Rightarrow> lres" where
  "alloc_hunks buf prefix 0 i st = LOk st"
| "alloc_hunks buf prefix (Suc k) i st =
     lbind (alloc_hunk buf prefix i st) (alloc_hunks buf prefix k (i + 1))"

section \<open>The hunk bodies\<close>

text \<open>\<open>memcpy\<close> of \<open>n\<close> file bytes from \<open>p\<close> to the host offset \<open>off\<close>.\<close>

definition copy_in :: "u8 list \<Rightarrow> nat \<Rightarrow> nat \<Rightarrow> nat \<Rightarrow> j4_sandbox \<Rightarrow> j4_sandbox" where
  "copy_in buf off p n sb = sb\<lparr>jb_mem :=
     (\<lambda>x. if off \<le> x \<and> x < off + n then buf ! (p + (x - off)) else jb_mem sb x)\<rparr>"

definition payload_hunk :: "u8 list \<Rightarrow> u32 \<Rightarrow> lstate \<Rightarrow> lres" where
  "payload_hunk buf htype st = rd32 buf ''short CODE/DATA/BSS length'' st (\<lambda>longs st.
     let bytes = longs * 4; i = curhunk st; seg = l_seg st in
     if i \<ge> numhunks seg then LFail ''more payload hunks than header declared'' st
     else if bytes > hunk_size seg ! i then LFail ''payload larger than the size the header allocated'' st
     else (let seg = seg\<lparr>hunk_type := (hunk_type seg)[i := htype]\<rparr>; st = st\<lparr>l_seg := seg\<rparr> in
       lbind
        (if htype \<noteq> J4_HUNK_BSS \<and> bytes \<noteq> 0 then
           (if c_pos st + unat bytes > length buf then LFail ''CODE/DATA payload runs off end'' st
            else if \<not> host_ok (l_box st) (hunk_base seg ! i) (unat bytes) then LUndef
            else LOk (st\<lparr>
                l_box := copy_in buf (j4_sandbox_host (l_box st) (hunk_base seg ! i)) (c_pos st)
                  (unat bytes) (l_box st),
                c_pos := c_pos st + unat bytes\<rparr>))
         else LOk st)
        (\<lambda>st. (let st = (if htype = J4_HUNK_CODE \<and> \<not> seen_code st
                  then st\<lparr>l_seg := (l_seg st)\<lparr>sl_entry := hunk_base (l_seg st) ! i\<rparr>, seen_code := True\<rparr>
                  else st) in
          LOk (st\<lparr>lasthunk := i, curhunk := i + 1\<rparr>)))))"

text \<open>One relocation: the site lies in the hunk loaded last.\<close>

definition patch_site :: "string \<Rightarrow> u32 \<Rightarrow> nat \<Rightarrow> lstate \<Rightarrow> lres" where
  "patch_site msg offset target st =
     (let seg = l_seg st; sb = l_box st; site_addr = hunk_base seg ! lasthunk st + offset in
      if offset + 4 > hunk_size seg ! lasthunk st then LFail msg st
      else if \<not> host_ok sb site_addr 4 then LUndef
      else (let site = j4_sandbox_host sb site_addr; cur_val = sb_read_be32 sb site;
                reloc = cur_val + hunk_base seg ! target in
        LOk (st\<lparr>l_box := sb_write_be32 sb site reloc\<rparr>)))"

fun reloc32_offsets :: "u8 list \<Rightarrow> bool \<Rightarrow> nat \<Rightarrow> nat \<Rightarrow> lstate \<Rightarrow> lres" where
  "reloc32_offsets buf skip target 0 st = LOk st"
| "reloc32_offsets buf skip target (Suc k) st = rd32 buf ''short RELOC32 offset'' st (\<lambda>offset st.
     if skip then reloc32_offsets buf skip target k st
     else lbind (patch_site ''RELOC32 offset outside lasthunk'' offset target st)
            (reloc32_offsets buf skip target k))"

fun reloc_short_offsets :: "u8 list \<Rightarrow> bool \<Rightarrow> nat \<Rightarrow> nat \<Rightarrow> lstate \<Rightarrow> lres" where
  "reloc_short_offsets buf skip target 0 st = LOk st"
| "reloc_short_offsets buf skip target (Suc k) st =
     rd16 buf ''short RELOC32SHORT offset'' (st\<lparr>c_words := c_words st + 1\<rparr>) (\<lambda>offset st.
       if skip then reloc_short_offsets buf skip target k st
       else lbind (patch_site ''RELOC32SHORT offset outside lasthunk'' offset target st)
              (reloc_short_offsets buf skip target k))"

section \<open>The cursor only advances\<close>

definition pos_ge :: "nat \<Rightarrow> lres \<Rightarrow> bool" where
  "pos_ge p r = (case r of LOk st \<Rightarrow> p \<le> c_pos st | LFail e st \<Rightarrow> True | LUndef \<Rightarrow> True)"

lemma pos_ge_simps [simp]:
  "pos_ge p (LOk st) = (p \<le> c_pos st)" "pos_ge p (LFail e st)" "pos_ge p LUndef"
  by (simp_all add: pos_ge_def)

lemma pos_ge_bind:
  "pos_ge p r \<Longrightarrow> (\<And>st. r = LOk st \<Longrightarrow> p \<le> c_pos st \<Longrightarrow> pos_ge p (f st)) \<Longrightarrow> pos_ge p (lbind r f)"
  by (cases r) auto

lemma pos_ge_rd32:
  "(\<And>v. c_pos st + 4 \<le> length buf \<Longrightarrow> pos_ge p (f v (st\<lparr>c_pos := c_pos st + 4\<rparr>))) \<Longrightarrow> pos_ge p (rd32 buf msg st f)"
  by (auto simp: rd32_def dest: cur_u32_Some split: option.split)

lemma pos_ge_rd16:
  "(\<And>v. c_pos st + 2 \<le> length buf \<Longrightarrow> pos_ge p (f v (st\<lparr>c_pos := c_pos st + 2\<rparr>))) \<Longrightarrow> pos_ge p (rd16 buf msg st f)"
  by (auto simp: rd16_def dest: cur_u16_Some split: option.split)

lemma pos_ge_patch: "p \<le> c_pos st \<Longrightarrow> pos_ge p (patch_site msg offset target st)"
  by (simp add: patch_site_def Let_def)

lemma pos_ge_reloc32_offsets: "p \<le> c_pos st \<Longrightarrow> pos_ge p (reloc32_offsets buf skip target k st)"
  by (induction k arbitrary: st) (auto intro!: pos_ge_rd32 pos_ge_bind pos_ge_patch)

lemma pos_ge_reloc_short_offsets:
  "p \<le> c_pos st \<Longrightarrow> pos_ge p (reloc_short_offsets buf skip target k st)"
  by (induction k arbitrary: st) (auto intro!: pos_ge_rd16 pos_ge_bind pos_ge_patch)

lemma pos_geD: "r = LOk st \<Longrightarrow> pos_ge p r \<Longrightarrow> p \<le> c_pos st"
  by simp

section \<open>The relocation tables and the skipped hunks\<close>

function reloc32_table :: "u8 list \<Rightarrow> bool \<Rightarrow> lstate \<Rightarrow> lres" where
  "reloc32_table buf skip st = rd32 buf ''short RELOC32 count'' st (\<lambda>count st.
     if count = 0 then LOk st
     else rd32 buf ''short RELOC32 target-hunk'' st (\<lambda>target st.
       if unat target \<ge> numhunks (l_seg st) then LFail ''RELOC32 target hunk out of range'' st
       else lbind (reloc32_offsets buf skip (unat target) (unat count) st) (reloc32_table buf skip)))"
  by pat_completeness auto
termination
proof (relation "measure (\<lambda>(buf, skip, st). length buf - c_pos st)", goal_cases)
  case (2 buf skip st count target st')
  then show ?case
    using pos_geD [OF 2(5) pos_ge_reloc32_offsets [OF order_refl]] by auto
qed simp

function reloc_short_table :: "u8 list \<Rightarrow> bool \<Rightarrow> lstate \<Rightarrow> lres" where
  "reloc_short_table buf skip st =
     rd16 buf ''short RELOC32SHORT count'' (st\<lparr>c_words := c_words st + 1\<rparr>) (\<lambda>count st.
       if count = 0 then LOk st
       else rd16 buf ''short RELOC32SHORT target-hunk'' (st\<lparr>c_words := c_words st + 1\<rparr>) (\<lambda>target st.
         if unat target \<ge> numhunks (l_seg st) then LFail ''RELOC32SHORT target hunk out of range'' st
         else lbind (reloc_short_offsets buf skip (unat target) (unat count) st)
                (reloc_short_table buf skip)))"
  by pat_completeness auto
termination
proof (relation "measure (\<lambda>(buf, skip, st). length buf - c_pos st)", goal_cases)
  case (2 buf skip st count target st')
  then show ?case
    using pos_geD [OF 2(5) pos_ge_reloc_short_offsets [OF order_refl]] by auto
qed simp

definition reloc_short_hunk :: "u8 list \<Rightarrow> bool \<Rightarrow> lstate \<Rightarrow> lres" where
  "reloc_short_hunk buf skip st = lbind (reloc_short_table buf skip (st\<lparr>c_words := 0\<rparr>)) (\<lambda>st.
     let st = (if c_words st AND 1 \<noteq> 0 then st\<lparr>c_pos := c_pos st + 2\<rparr> else st) in
     if c_pos st > length buf then LFail ''RELOC32SHORT runs off end'' st else LOk st)"

function symbol_hunk :: "u8 list \<Rightarrow> lstate \<Rightarrow> lres" where
  "symbol_hunk buf st = rd32 buf ''short HUNK_SYMBOL name length'' st (\<lambda>n st.
     if n = 0 then LOk st
     else (let st = st\<lparr>c_pos := c_pos st + (unat n + 1) * 4\<rparr> in
       if c_pos st > length buf then LFail ''HUNK_SYMBOL runs off end'' st
       else symbol_hunk buf st))"
  by pat_completeness auto
termination
  by (relation "measure (\<lambda>(buf, st). length buf - c_pos st)") auto

definition debug_hunk :: "u8 list \<Rightarrow> lstate \<Rightarrow> lres" where
  "debug_hunk buf st = rd32 buf ''short HUNK_DEBUG length'' st (\<lambda>longs st.
     let st = st\<lparr>c_pos := c_pos st + unat longs * 4\<rparr> in
     if c_pos st > length buf then LFail ''HUNK_DEBUG runs off end'' st else LOk st)"

definition body_hunk :: "u8 list \<Rightarrow> bool \<Rightarrow> u32 \<Rightarrow> lstate \<Rightarrow> lres" where
  "body_hunk buf skip htype st =
     (if htype = J4_HUNK_CODE \<or> htype = J4_HUNK_DATA \<or> htype = J4_HUNK_BSS then payload_hunk buf htype st
      else if htype = J4_HUNK_RELOC32 then reloc32_table buf skip st
      else if htype = J4_HUNK_RELOC32SHORT \<or> htype = J4_HUNK_DREL32 then reloc_short_hunk buf skip st
      else if htype = J4_HUNK_SYMBOL then symbol_hunk buf st
      else if htype = J4_HUNK_DEBUG then debug_hunk buf st
      else LFail ''unsupported hunk type in spike loader'' st)"

declare skip_names.simps [simp del] reloc32_table.simps [simp del]
  reloc_short_table.simps [simp del] symbol_hunk.simps [simp del]

lemma pos_ge_reloc32_table: "p \<le> c_pos st \<Longrightarrow> pos_ge p (reloc32_table buf skip st)"
  by (induction buf skip st rule: reloc32_table.induct, subst reloc32_table.simps)
    (auto intro!: pos_ge_rd32 pos_ge_bind pos_ge_reloc32_offsets)

lemma pos_ge_reloc_short_table: "p \<le> c_pos st \<Longrightarrow> pos_ge p (reloc_short_table buf skip st)"
  by (induction buf skip st rule: reloc_short_table.induct, subst reloc_short_table.simps)
    (auto intro!: pos_ge_rd16 pos_ge_bind pos_ge_reloc_short_offsets)

lemma pos_ge_symbol_hunk: "p \<le> c_pos st \<Longrightarrow> pos_ge p (symbol_hunk buf st)"
  by (induction buf st rule: symbol_hunk.induct, subst symbol_hunk.simps)
    (auto simp: Let_def intro!: pos_ge_rd32)

lemma pos_ge_payload_hunk: "p \<le> c_pos st \<Longrightarrow> pos_ge p (payload_hunk buf h st)"
  by (auto simp: payload_hunk_def Let_def intro!: pos_ge_rd32 pos_ge_bind)

lemma pos_ge_body_hunk: "p \<le> c_pos st \<Longrightarrow> pos_ge p (body_hunk buf skip h st)"
  by (auto simp: body_hunk_def reloc_short_hunk_def debug_hunk_def Let_def
      intro!: pos_ge_reloc32_table pos_ge_reloc_short_table pos_ge_symbol_hunk pos_ge_payload_hunk
        pos_ge_rd32 pos_ge_bind)

section \<open>The loader\<close>

function load_body :: "u8 list \<Rightarrow> bool \<Rightarrow> nat \<Rightarrow> lstate \<Rightarrow> lres" where
  "load_body buf skip lst st = (case cur_u32 buf st of
     None \<Rightarrow> if curhunk st > lst then LOk st
             else LFail ''unexpected end of hunk stream (missing payload hunks)'' st
   | Some (h, st1) \<Rightarrow> (let htype = h AND 0xFFFFFF in
       if htype = J4_HUNK_END then (if curhunk st1 > lst then LOk st1 else load_body buf skip lst st1)
       else lbind (body_hunk buf skip htype st1) (load_body buf skip lst)))"
  by pat_completeness auto
termination
proof (relation "measure (\<lambda>(buf, skip, lst, st). length buf - c_pos st)", goal_cases)
  case (2 buf skip lst st)
  then show ?case by (auto dest: cur_u32_Some)
next
  case (3 buf skip lst st x h st1 htype st')
  then show ?case
    using pos_geD [OF 3(5) pos_ge_body_hunk [OF order_refl]] by (auto dest!: cur_u32_Some)
qed simp

declare load_body.simps [simp del]

definition empty_seg :: j4_seglist where
  "empty_seg = \<lparr>numhunks = 0, hunk_base = replicate J4_MAX_HUNKS 0, hunk_size = replicate J4_MAX_HUNKS 0,
     hunk_type = replicate J4_MAX_HUNKS 0, sl_entry = 0\<rparr>"

definition load_hunks :: "j4_sandbox \<Rightarrow> u8 list \<Rightarrow> bool \<Rightarrow> u32 \<Rightarrow> lres" where
  "load_hunks sb buf skip prefix =
     (let st0 = \<lparr>c_pos = 0, l_box = sb, l_seg = empty_seg, curhunk = 0, lasthunk = 0,
                 seen_code = False, c_words = 0\<rparr> in
      rd32 buf ''short file: no magic'' st0 (\<lambda>v st.
      if v \<noteq> J4_HUNK_HEADER then LFail ''bad magic (not HUNK_HEADER 1011)'' st
      else lbind (skip_names buf st) (\<lambda>st.
      rd32 buf ''short header: numhunks'' st (\<lambda>n st.
      rd32 buf ''short header: first'' st (\<lambda>first st.
      rd32 buf ''short header: last'' st (\<lambda>last st.
      if n = 0 \<or> unat n > J4_MAX_HUNKS then LFail ''numhunks out of range'' st
      else if last < first \<or> last \<ge> n then LFail ''first/last out of range'' st
      else lbind (alloc_hunks buf prefix (unat n) 0 (st\<lparr>l_seg := (l_seg st)\<lparr>numhunks := unat n\<rparr>\<rparr>)) (\<lambda>st.
      lbind (load_body buf skip (unat last)
               (st\<lparr>curhunk := unat first, lasthunk := unat first, seen_code := False\<rparr>)) (\<lambda>st.
      if \<not> seen_code st then LFail ''no HUNK_CODE found (no entry)'' st else LOk st))))))))"

definition j4_load_hunks :: "j4_sandbox \<Rightarrow> u8 list \<Rightarrow> bool \<Rightarrow> lres" where
  "j4_load_hunks sb buf skip = load_hunks sb buf skip 0"

section \<open>The segment list\<close>

text \<open>The loop that frames every hunk as \<open>[length][link][payload]\<close>.\<close>

fun link_hunks :: "nat \<Rightarrow> nat \<Rightarrow> j4_seglist \<Rightarrow> j4_sandbox \<Rightarrow> j4_sandbox option" where
  "link_hunks 0 i seg sb = Some sb"
| "link_hunks (Suc k) i seg sb =
     (let node = hunk_base seg ! i - 4;
          nxt = (if i + 1 < numhunks seg then drop_bit 2 (hunk_base seg ! (i + 1) - 4) else 0) in
      if \<not> host_ok sb (node - 4) 4 then None
      else (let sb = sb_write_be32 sb (j4_sandbox_host sb (node - 4)) (hunk_size seg ! i + 8) in
        if \<not> host_ok sb node 4 then None
        else link_hunks k (i + 1) seg (sb_write_be32 sb (j4_sandbox_host sb node) nxt)))"

datatype bptr_res = BOk j4_sandbox j4_seglist u32 | BFail string j4_sandbox | BUndef

definition rollback :: "u32 \<Rightarrow> j4_sandbox \<Rightarrow> j4_sandbox option" where
  "rollback mark sb =
     (if next_alloc sb > mark then
        (if \<not> host_ok sb mark (unat (next_alloc sb - mark)) then None
         else (let off = j4_sandbox_host sb mark; m = jb_mem sb in
           Some (sb\<lparr>jb_mem := (\<lambda>x. if off \<le> x \<and> x < off + unat (next_alloc sb - mark) then 0 else m x),
                     next_alloc := mark\<rparr>)))
      else Some (sb\<lparr>next_alloc := mark\<rparr>))"

definition j4_load_hunks_bptr :: "j4_sandbox \<Rightarrow> u8 list \<Rightarrow> bptr_res" where
  "j4_load_hunks_bptr sb buf =
     (let mark = next_alloc sb in
      case load_hunks sb buf False 8 of
        LUndef \<Rightarrow> BUndef
      | LFail msg st \<Rightarrow> (case rollback mark (l_box st) of None \<Rightarrow> BUndef | Some sb' \<Rightarrow> BFail msg sb')
      | LOk st \<Rightarrow> (let seg = l_seg st in
          case link_hunks (numhunks seg) 0 seg (l_box st) of
            None \<Rightarrow> BUndef
          | Some sb' \<Rightarrow> BOk sb' seg (drop_bit 2 (hunk_base seg ! 0 - 4))))"

end
