(* ===== verification/HunkSafety.thy ===== *)
theory HunkSafety
  imports HunkLoader
begin

text \<open>
  Memory safety of the hunk loader. An invariant of the loader's state that survives a
  payload copy and a relocation survives the whole body (\<open>loader_invariant\<close>); it is
  interpreted with the frame of the slices the header allocated.
\<close>

section \<open>Postconditions of a loader step\<close>

definition lpost :: "(lstate \<Rightarrow> bool) \<Rightarrow> lres \<Rightarrow> bool" where
  "lpost P r = (case r of LOk st \<Rightarrow> P st | LFail e st \<Rightarrow> P st | LUndef \<Rightarrow> False)"

lemma lpost_simps [simp]:
  "lpost P (LOk st) = P st" "lpost P (LFail e st) = P st" "\<not> lpost P LUndef"
  by (simp_all add: lpost_def)

lemma lpost_bind:
  "lpost P r \<Longrightarrow> (\<And>st. r = LOk st \<Longrightarrow> P st \<Longrightarrow> lpost Q (f st)) \<Longrightarrow> (\<And>st. P st \<Longrightarrow> Q st)
   \<Longrightarrow> lpost Q (lbind r f)"
  by (cases r) auto

lemma lpost_if:
  "(c \<Longrightarrow> lpost P a) \<Longrightarrow> (\<not> c \<Longrightarrow> lpost P b) \<Longrightarrow> lpost P (if c then a else b)"
  by simp

lemma lpost_rd32:
  "P st \<Longrightarrow> (\<And>v. c_pos st + 4 \<le> length buf \<Longrightarrow> lpost P (f v (st\<lparr>c_pos := c_pos st + 4\<rparr>))) \<Longrightarrow> lpost P (rd32 buf msg st f)"
  by (auto simp: rd32_def dest: cur_u32_Some split: option.split)

lemma lpost_rd16:
  "P st \<Longrightarrow> (\<And>v. c_pos st + 2 \<le> length buf \<Longrightarrow> lpost P (f v (st\<lparr>c_pos := c_pos st + 2\<rparr>))) \<Longrightarrow> lpost P (rd16 buf msg st f)"
  by (auto simp: rd16_def dest: cur_u16_Some split: option.split)

section \<open>Invariants of the body\<close>

text \<open>A predicate on what the body of the loader changes, read off the loader's state.\<close>

definition holds :: "(j4_sandbox \<Rightarrow> nat \<Rightarrow> u32 list \<Rightarrow> u32 list \<Rightarrow> nat \<Rightarrow> bool) \<Rightarrow> lstate \<Rightarrow> bool" where
  "holds I st = I (l_box st) (numhunks (l_seg st)) (hunk_base (l_seg st)) (hunk_size (l_seg st)) (lasthunk st)"

lemma copy_in_simps [simp]:
  "jb_origin (copy_in buf off p n sb) = jb_origin sb" "jb_size (copy_in buf off p n sb) = jb_size sb"
  "next_alloc (copy_in buf off p n sb) = next_alloc sb"
  by (simp_all add: copy_in_def)

lemma sb_write_be32_simps [simp]:
  "jb_origin (sb_write_be32 sb p v) = jb_origin sb" "jb_size (sb_write_be32 sb p v) = jb_size sb"
  "next_alloc (sb_write_be32 sb p v) = next_alloc sb"
  by (simp_all add: sb_write_be32_def)

locale loader_invariant =
  fixes I :: "j4_sandbox \<Rightarrow> nat \<Rightarrow> u32 list \<Rightarrow> u32 list \<Rightarrow> nat \<Rightarrow> bool"
  assumes advanced: "I sb n bs ss l \<Longrightarrow> i < n \<Longrightarrow> I sb n bs ss i"
    and copied_ok: "I sb n bs ss l \<Longrightarrow> i < n \<Longrightarrow> k \<le> unat (ss ! i) \<Longrightarrow> host_ok sb (bs ! i) k"
    and copied: "I sb n bs ss l \<Longrightarrow> i < n \<Longrightarrow> k \<le> unat (ss ! i)
      \<Longrightarrow> I (copy_in buf (j4_sandbox_host sb (bs ! i)) p k sb) n bs ss l"
    and patched_ok: "I sb n bs ss l \<Longrightarrow> offset + 4 \<le> ss ! l \<Longrightarrow> host_ok sb (bs ! l + offset) 4"
    and patched: "I sb n bs ss l \<Longrightarrow> offset + 4 \<le> ss ! l
      \<Longrightarrow> I (sb_write_be32 sb (j4_sandbox_host sb (bs ! l + offset)) v) n bs ss l"
begin

abbreviation "keep r \<equiv> lpost (holds I) r"

lemma patch: "holds I st \<Longrightarrow> keep (patch_site msg offset target st)"
  using patched_ok patched by (simp add: patch_site_def Let_def holds_def not_less)

lemma payload: "holds I st \<Longrightarrow> keep (payload_hunk buf h st)"
  unfolding payload_hunk_def Let_def
  by (intro lpost_rd32 lpost_if lpost_bind [where P = "\<lambda>s. holds I s \<and> numhunks (l_seg s) = numhunks (l_seg st)"])
    (simp_all add: holds_def advanced copied copied_ok not_le not_less word_le_nat_alt split: if_splits, auto)

lemma reloc32_offsets: "holds I st \<Longrightarrow> keep (reloc32_offsets buf skip target k st)"
  by (induction k arbitrary: st)
    (auto intro!: lpost_rd32 lpost_bind [OF patch], auto simp: holds_def)

lemma reloc_short_offsets: "holds I st \<Longrightarrow> keep (reloc_short_offsets buf skip target k st)"
  by (induction k arbitrary: st)
    (auto intro!: lpost_rd16 lpost_bind [OF patch], auto simp: holds_def)

lemma reloc32_table: "holds I st \<Longrightarrow> keep (reloc32_table buf skip st)"
  by (induction buf skip st rule: reloc32_table.induct, subst reloc32_table.simps)
    (auto intro!: lpost_rd32 lpost_bind [OF reloc32_offsets], auto simp: holds_def)

lemma reloc_short_table: "holds I st \<Longrightarrow> keep (reloc_short_table buf skip st)"
  by (induction buf skip st rule: reloc_short_table.induct, subst reloc_short_table.simps)
    (auto intro!: lpost_rd16 lpost_bind [OF reloc_short_offsets], auto simp: holds_def)

lemma symbol: "holds I st \<Longrightarrow> keep (symbol_hunk buf st)"
  by (induction buf st rule: symbol_hunk.induct, subst symbol_hunk.simps)
    (auto intro!: lpost_rd32 simp: Let_def, auto simp: holds_def)

lemma body_hunk: "holds I st \<Longrightarrow> keep (body_hunk buf skip h st)"
  by (auto simp: body_hunk_def reloc_short_hunk_def debug_hunk_def Let_def
      intro!: payload reloc32_table symbol lpost_bind [OF reloc_short_table] lpost_rd32)
    (auto simp: holds_def)

lemma load_body: "holds I st \<Longrightarrow> keep (load_body buf skip lst st)"
proof (induction buf skip lst st rule: load_body.induct)
  case (1 buf skip lst st)
  have *: "holds I st1" if "cur_u32 buf st = Some (h, st1)" for h st1
    using cur_u32_Some [OF that] 1(3) by (simp add: holds_def)
  show ?case
    using * 1 by (subst load_body.simps)
      (auto simp: Let_def split: option.splits intro!: lpost_bind [OF body_hunk])
qed

end

section \<open>Rounding\<close>

lemma round16:
  assumes "unat (x :: u32) < 2 ^ 32 - 16"
  shows "unat ((x + 15) AND NOT 15) = (unat x + 15) div 16 * 16"
proof -
  have "unat (x + 15) = unat x + 15" using assms by (simp add: unat_word_ariths)
  then show ?thesis using unat_and_not_mask [of "x + 15" 4] by (simp add: mask_eq_exp_minus_1)
qed
section \<open>The layout the header lays down\<close>

definition top_off :: "j4_sandbox \<Rightarrow> nat" where
  "top_off sb = j4_sandbox_host sb (next_alloc sb)"

definition box_wf :: "j4_sandbox \<Rightarrow> bool" where
  "box_wf sb \<longleftrightarrow> unat (jb_origin sb) + unat (jb_size sb) < 2 ^ 32 \<and> jb_origin sb \<le> next_alloc sb \<and>
     unat (next_alloc sb) mod 4 = 0 \<and> top_off sb \<le> unat (jb_size sb)"

definition laid_out :: "nat \<Rightarrow> nat \<Rightarrow> nat \<Rightarrow> j4_sandbox \<Rightarrow> u32 list \<Rightarrow> u32 list \<Rightarrow> bool" where
  "laid_out pre lo n sb bs ss \<longleftrightarrow>
     (\<forall>i<n. lo + pre \<le> j4_sandbox_host sb (bs ! i) \<and>
        j4_sandbox_host sb (bs ! i) + unat (ss ! i) \<le> top_off sb \<and> jb_origin sb \<le> bs ! i \<and>
        unat (bs ! i) mod 4 = pre mod 4) \<and>
     (\<forall>j<n. \<forall>i<j. j4_sandbox_host sb (bs ! i) + unat (ss ! i) + pre \<le> j4_sandbox_host sb (bs ! j))"

lemma top_unat: "box_wf sb \<Longrightarrow> top_off sb = unat (next_alloc sb) - unat (jb_origin sb)"
  by (simp add: box_wf_def top_off_def j4_sandbox_host_def unat_sub_if_le)

lemma sandbox_alloc_wf:
  assumes "box_wf sb" "0 < unat bytes" "unat bytes < 2 ^ 32 - 16"
    and "sandbox_alloc sb bytes = (base, sb')"
  shows "box_wf sb' \<and> top_off sb \<le> top_off sb' \<and> jb_mem sb' = jb_mem sb \<and> jb_origin sb' = jb_origin sb \<and>
    jb_size sb' = jb_size sb \<and> (base \<noteq> 0 \<longrightarrow> base = next_alloc sb \<and> top_off sb + unat bytes \<le> top_off sb')"
proof (cases "unat (next_alloc sb) + unat ((bytes + 15) AND NOT 15) > unat (jb_origin sb) + unat (jb_size sb)")
  case True
  then show ?thesis using assms(1,4) by (auto simp: sandbox_alloc_def Let_def)
next
  case False
  let ?a = "(bytes + 15) AND NOT 15"
  have a: "unat ?a = (unat bytes + 15) div 16 * 16" using round16 assms(3) by blast
  have sb': "base = next_alloc sb" "sb' = sb\<lparr>next_alloc := next_alloc sb + ?a\<rparr>"
    using assms(4) False by (auto simp: sandbox_alloc_def Let_def)
  have org: "unat (jb_origin sb) + unat (jb_size sb) < 2 ^ 32" "unat (next_alloc sb) mod 4 = 0"
    "unat (jb_origin sb) \<le> unat (next_alloc sb)"
    using assms(1) by (auto simp: box_wf_def word_le_nat_alt)
  have sum: "unat (next_alloc sb + ?a) = unat (next_alloc sb) + unat ?a"
    using False org(1) by (simp add: unat_word_ariths)
  have le: "jb_origin sb \<le> next_alloc sb + ?a"
    using org(3) sum by (simp add: word_le_nat_alt)
  have tops: "top_off sb = unat (next_alloc sb) - unat (jb_origin sb)"
    "top_off sb' = unat (next_alloc sb) + unat ?a - unat (jb_origin sb)"
    using org(3) le sum sb'(2) by (simp_all add: top_off_def j4_sandbox_host_def unat_sub_if_le word_le_nat_alt)
  have "unat bytes \<le> unat ?a" "unat ?a mod 4 = 0" using a by presburger+
  then show ?thesis
    using sb' org sum le tops False by (auto simp: box_wf_def)
qed

section \<open>The frame of a load\<close>

text \<open>Only bytes between the old and the new allocation mark may have changed.\<close>

definition framed :: "j4_sandbox \<Rightarrow> j4_sandbox \<Rightarrow> bool" where
  "framed sb0 sb \<longleftrightarrow> box_wf sb \<and> jb_origin sb = jb_origin sb0 \<and> jb_size sb = jb_size sb0 \<and>
     top_off sb0 \<le> top_off sb \<and> (\<forall>x. x < top_off sb0 \<or> top_off sb \<le> x \<longrightarrow> jb_mem sb x = jb_mem sb0 x)"

text \<open>The state while the header is read: nothing is written yet.\<close>

definition header_inv :: "u32 \<Rightarrow> j4_sandbox \<Rightarrow> nat \<Rightarrow> nat \<Rightarrow> lstate \<Rightarrow> bool" where
  "header_inv pre sb0 n i st \<longleftrightarrow> framed sb0 (l_box st) \<and> jb_mem (l_box st) = jb_mem sb0 \<and>
     numhunks (l_seg st) = n \<and> length (hunk_base (l_seg st)) = J4_MAX_HUNKS \<and>
     length (hunk_size (l_seg st)) = J4_MAX_HUNKS \<and>
     laid_out (unat pre) (top_off sb0) i (l_box st) (hunk_base (l_seg st)) (hunk_size (l_seg st))"

definition lpost2 :: "(lstate \<Rightarrow> bool) \<Rightarrow> (lstate \<Rightarrow> bool) \<Rightarrow> lres \<Rightarrow> bool" where
  "lpost2 Q P r = (case r of LOk st \<Rightarrow> Q st | LFail e st \<Rightarrow> P st | LUndef \<Rightarrow> False)"

lemma lpost2_simps [simp]:
  "lpost2 Q P (LOk st) = Q st" "lpost2 Q P (LFail e st) = P st" "\<not> lpost2 Q P LUndef"
  by (simp_all add: lpost2_def)

lemma lpost2_bind:
  "lpost2 R P r \<Longrightarrow> (\<And>st. r = LOk st \<Longrightarrow> R st \<Longrightarrow> lpost2 Q P (f st)) \<Longrightarrow> lpost2 Q P (lbind r f)"
  by (cases r) auto

lemma lpost2_rd32:
  "P st \<Longrightarrow> (\<And>v. c_pos st + 4 \<le> length buf \<Longrightarrow> lpost2 Q P (f v (st\<lparr>c_pos := c_pos st + 4\<rparr>)))
   \<Longrightarrow> lpost2 Q P (rd32 buf msg st f)"
  by (auto simp: rd32_def dest: cur_u32_Some split: option.split)

lemma laid_out_extend:
  assumes "laid_out pre lo i sb bs ss" "i < length bs" "i < length ss" "lo \<le> top_off sb"
    and "jb_origin sb' = jb_origin sb" "top_off sb + pre + unat s \<le> top_off sb'"
    and "j4_sandbox_host sb b = top_off sb + pre" "jb_origin sb \<le> b" "unat b mod 4 = pre mod 4"
  shows "laid_out pre lo (Suc i) sb' (bs[i := b]) (ss[i := s])"
proof -
  have h: "j4_sandbox_host sb' a = j4_sandbox_host sb a" for a
    using assms(5) by (simp add: j4_sandbox_host_def)
  show ?thesis
    using assms unfolding laid_out_def h
    by (auto simp: less_Suc_eq nth_list_update intro: le_trans)
qed

lemma place_hunk_inv:
  assumes "header_inv pre sb0 n i st" "i < J4_MAX_HUNKS" "unat pre \<le> 16" "unat pre mod 4 = 0"
    and "unat bytes < 2 ^ 26" "payload = (if bytes \<noteq> 0 then bytes else 16)"
  shows "lpost2 (header_inv pre sb0 n (Suc i)) (\<lambda>st. framed sb0 (l_box st)) (place_hunk pre i payload bytes st)"
proof -
  have wf: "box_wf (l_box st)" using assms(1) by (simp add: header_inv_def framed_def)
  obtain base sb where al: "sandbox_alloc (l_box st) (payload + pre) = (base, sb)" by fastforce
  have pay: "unat payload < 2 ^ 26" "unat bytes \<le> unat payload" "0 < unat payload"
    using assms(5,6) by (auto simp: unat_gt_0)
  then have sum: "unat (payload + pre) = unat payload + unat pre"
    using assms(3) by (simp add: unat_word_ariths)
  note A = sandbox_alloc_wf [OF wf _ _ al]
  have A': "box_wf sb" "top_off (l_box st) \<le> top_off sb" "jb_mem sb = jb_mem (l_box st)"
    "jb_origin sb = jb_origin (l_box st)" "jb_size sb = jb_size (l_box st)"
    "base \<noteq> 0 \<Longrightarrow> base = next_alloc (l_box st) \<and> top_off (l_box st) + unat (payload + pre) \<le> top_off sb"
    using A sum pay assms(3) by auto
  have fr: "framed sb0 sb" using assms(1) A' by (auto simp: header_inv_def framed_def)
  show ?thesis
  proof (cases "base = 0")
    case True then show ?thesis using al fr by (simp add: place_hunk_def)
  next
    case False
    note B = A'(6) [OF False]
    have na: "unat (next_alloc (l_box st)) = unat (jb_origin (l_box st)) + top_off (l_box st)"
      "unat (next_alloc (l_box st)) mod 4 = 0"
      using wf top_unat [OF wf] by (auto simp: box_wf_def word_le_nat_alt)
    have lim: "unat (jb_origin (l_box st)) + top_off sb < 2 ^ 32"
      using A' by (auto simp: box_wf_def)
    have ub: "unat (base + pre) = unat base + unat pre"
      using B na lim sum by (simp add: unat_word_ariths)
    have le: "jb_origin (l_box st) \<le> base + pre" using ub B na by (simp add: word_le_nat_alt)
    have host: "j4_sandbox_host (l_box st) (base + pre) = top_off (l_box st) + unat pre"
      using ub B na le by (simp add: j4_sandbox_host_def unat_sub_if_le)
    have "laid_out (unat pre) (top_off sb0) (Suc i) sb ((hunk_base (l_seg st))[i := base + pre])
        ((hunk_size (l_seg st))[i := bytes])"
      using assms(1,2) B sum pay ub na le host A'(4)
      by (intro laid_out_extend [where sb = "l_box st"]) (auto simp: header_inv_def framed_def mod_simps)
    then show ?thesis using al False fr A'(3) assms(1) by (simp add: header_inv_def place_hunk_def)
  qed
qed

lemma alloc_hunk_inv:
  assumes "header_inv pre sb0 n i st" "i < J4_MAX_HUNKS" "unat pre \<le> 16" "unat pre mod 4 = 0"
  shows "lpost2 (header_inv pre sb0 n (Suc i)) (\<lambda>st. framed sb0 (l_box st)) (alloc_hunk buf pre i st)"
proof -
  have bytes: "unat ((v AND 0x00FFFFFF :: u32) * 4) < 2 ^ 26" for v
  proof -
    have "unat (v AND 0x00FFFFFF) \<le> 0x00FFFFFF"
      using word_and_le1 [of v "0x00FFFFFF"] by (simp add: word_le_nat_alt)
    then show ?thesis by (simp add: unat_word_ariths)
  qed
  have "header_inv pre sb0 n i (st\<lparr>c_pos := p\<rparr>)" for p
    using assms(1) by (simp add: header_inv_def)
  moreover have "framed sb0 (l_box st)" using assms(1) by (simp add: header_inv_def)
  ultimately show ?thesis
    unfolding alloc_hunk_def Let_def
    by (intro lpost2_rd32) (auto intro!: place_hunk_inv assms bytes)
qed

lemma alloc_hunks_inv:
  assumes "header_inv pre sb0 n i st" "i + k \<le> J4_MAX_HUNKS" "unat pre \<le> 16" "unat pre mod 4 = 0"
  shows "lpost2 (header_inv pre sb0 n (i + k)) (\<lambda>st. framed sb0 (l_box st)) (alloc_hunks buf pre k i st)"
  using assms
proof (induction k arbitrary: i st)
  case 0 then show ?case by simp
next
  case (Suc k)
  show ?case
    using Suc.IH [of "Suc i"] Suc.prems
    by (auto intro!: lpost2_bind [OF alloc_hunk_inv])
qed

lemma skip_names_box: "lpost (\<lambda>s. l_box s = l_box st \<and> l_seg s = l_seg st) (skip_names buf st)"
proof (induction buf st rule: skip_names.induct)
  case (1 buf st)
  then show ?case by (subst skip_names.simps) (auto intro!: lpost_rd32 simp: Let_def)
qed

section \<open>The frame of the body\<close>

definition body_frame ::
  "nat \<Rightarrow> j4_sandbox \<Rightarrow> j4_sandbox \<Rightarrow> nat \<Rightarrow> u32 list \<Rightarrow> u32 list \<Rightarrow> nat \<Rightarrow> bool" where
  "body_frame pre sb0 sb n bs ss l \<longleftrightarrow>
     framed sb0 sb \<and> 4 \<le> pre \<and> l < n \<and> laid_out pre (top_off sb0) n sb bs ss"

lemma laid_out_cong:
  "jb_origin sb' = jb_origin sb \<Longrightarrow> next_alloc sb' = next_alloc sb \<Longrightarrow>
   laid_out pre lo n sb' bs ss = laid_out pre lo n sb bs ss"
  by (simp add: laid_out_def top_off_def j4_sandbox_host_def)

lemma laid_out_writes [simp]:
  "laid_out pre lo n (copy_in buf off p k sb) bs ss = laid_out pre lo n sb bs ss"
  "laid_out pre lo n (sb_write_be32 sb off v) bs ss = laid_out pre lo n sb bs ss"
  by (rule laid_out_cong; simp)+

lemma framed_write:
  assumes "framed sb0 sb" "jb_origin sb' = jb_origin sb" "jb_size sb' = jb_size sb" "next_alloc sb' = next_alloc sb"
    and "\<And>x. x < top_off sb0 \<or> top_off sb \<le> x \<Longrightarrow> jb_mem sb' x = jb_mem sb x"
  shows "framed sb0 sb'"
  using assms by (auto simp: framed_def box_wf_def top_off_def j4_sandbox_host_def)

lemma framed_copy_in:
  "framed sb0 sb \<Longrightarrow> top_off sb0 \<le> off \<Longrightarrow> off + k \<le> top_off sb \<Longrightarrow> framed sb0 (copy_in buf off p k sb)"
  by (rule framed_write) (auto simp: copy_in_def)

lemma framed_write32:
  "framed sb0 sb \<Longrightarrow> top_off sb0 \<le> off \<Longrightarrow> off + 4 \<le> top_off sb \<Longrightarrow> framed sb0 (sb_write_be32 sb off v)"
  by (rule framed_write) (auto simp: sb_write_be32_def)

text \<open>The site a passed bounds check designates: the wrap of \<open>offset + 4\<close> reaches at most
  four bytes below the payload.\<close>

lemma patch_site_inside:
  assumes "body_frame pre sb0 sb n bs ss l" "offset + 4 \<le> ss ! l"
  shows "top_off sb0 \<le> j4_sandbox_host sb (bs ! l + offset)
    \<and> j4_sandbox_host sb (bs ! l + offset) + 4 \<le> top_off sb \<and> host_ok sb (bs ! l + offset) 4"
proof -
  define B where "B = bs ! l - jb_origin sb"
  have B: "top_off sb0 + pre \<le> unat B" "unat B + unat (ss ! l) \<le> top_off sb" "4 \<le> pre"
    "top_off sb \<le> unat (jb_size sb)" "unat (jb_size sb) < 2 ^ 32"
    using assms(1) by (auto simp: body_frame_def laid_out_def framed_def box_wf_def B_def j4_sandbox_host_def)
  have host: "j4_sandbox_host sb (bs ! l + offset) = unat (B + offset)"
    by (simp add: j4_sandbox_host_def B_def algebra_simps)
  have o4: "unat (offset + 4) \<le> unat (ss ! l)" using assms(2) by (simp add: word_le_nat_alt)
  have "top_off sb0 \<le> unat (B + offset) \<and> unat (B + offset) + 4 \<le> top_off sb"
  proof (cases "unat offset + 4 < 2 ^ 32")
    case True
    then have "unat (offset + 4) = unat offset + 4" by (simp add: unat_word_ariths)
    moreover from this have "unat (B + offset) = unat B + unat offset"
      using o4 B by (simp add: unat_word_ariths)
    ultimately show ?thesis using B o4 by linarith
  next
    case False
    then have "unat (offset + 4) = unat offset + 4 - 2 ^ 32"
      using unsigned_less [of offset, where ?'a = nat] by (simp add: unat_word_ariths mod_if)
    moreover have "unat (B + offset) = unat B + unat offset - 2 ^ 32"
      using False B unsigned_less [of offset, where ?'a = nat] unsigned_less [of B, where ?'a = nat]
      by (simp add: unat_word_ariths mod_if)
    ultimately show ?thesis using B o4 False by linarith
  qed
  then show ?thesis using B host by (simp add: host_ok_def)
qed

interpretation body: loader_invariant "body_frame pre sb0" for pre sb0
proof
  fix sb n bs ss l i k
  assume I: "body_frame pre sb0 sb n bs ss l"
  show "i < n \<Longrightarrow> body_frame pre sb0 sb n bs ss i" using I by (simp add: body_frame_def)
  have L: "\<forall>i<n. top_off sb0 + pre \<le> j4_sandbox_host sb (bs ! i) \<and>
      j4_sandbox_host sb (bs ! i) + unat (ss ! i) \<le> top_off sb" "top_off sb \<le> unat (jb_size sb)"
    using I by (auto simp: body_frame_def laid_out_def framed_def box_wf_def)
  have inside: "top_off sb0 \<le> j4_sandbox_host sb (bs ! i)
      \<and> j4_sandbox_host sb (bs ! i) + k \<le> top_off sb \<and> top_off sb \<le> unat (jb_size sb)"
    if "i < n" "k \<le> unat (ss ! i)"
    using L(1) [rule_format, OF that(1)] L(2) that(2) by linarith
  then show "i < n \<Longrightarrow> k \<le> unat (ss ! i) \<Longrightarrow> host_ok sb (bs ! i) k"
    by (simp add: host_ok_def)
  show "i < n \<Longrightarrow> k \<le> unat (ss ! i) \<Longrightarrow>
      body_frame pre sb0 (copy_in buf (j4_sandbox_host sb (bs ! i)) p k sb) n bs ss l" for buf p
    using I inside by (simp add: body_frame_def framed_copy_in)
next
  fix sb n bs ss l offset
  assume I: "body_frame pre sb0 sb n bs ss l" "offset + 4 \<le> ss ! l"
  note S = patch_site_inside [OF I]
  show "host_ok sb (bs ! l + offset) 4" using S by simp
  show "body_frame pre sb0 (sb_write_be32 sb (j4_sandbox_host sb (bs ! l + offset)) v) n bs ss l" for v
    using I(1) S by (simp add: body_frame_def framed_write32)
qed

section \<open>The whole load\<close>

definition loaded :: "nat \<Rightarrow> j4_sandbox \<Rightarrow> lstate \<Rightarrow> bool" where
  "loaded pre sb0 st \<longleftrightarrow> framed sb0 (l_box st) \<and> 0 < numhunks (l_seg st) \<and>
     laid_out pre (top_off sb0) (numhunks (l_seg st)) (l_box st) (hunk_base (l_seg st)) (hunk_size (l_seg st))"

lemma rd32_box:
  "P st \<Longrightarrow> (\<And>v st'. l_box st' = l_box st \<Longrightarrow> l_seg st' = l_seg st \<Longrightarrow> lpost2 Q P (f v st'))
   \<Longrightarrow> lpost2 Q P (rd32 buf msg st f)"
  by (rule lpost2_rd32) auto

lemma load_hunks_frame:
  assumes "box_wf sb" "4 \<le> unat pre" "unat pre \<le> 16" "unat pre mod 4 = 0"
  shows "lpost2 (loaded (unat pre) sb) (\<lambda>st. framed sb (l_box st)) (load_hunks sb buf skip pre)"
proof -
  let ?F = "\<lambda>st. framed sb (l_box st)"
  have refl: "framed sb sb" using assms(1) by (simp add: framed_def)
  have start: "header_inv pre sb (unat n) 0
      (st\<lparr>l_seg := empty_seg\<lparr>numhunks := unat n\<rparr>\<rparr>)" if "l_box st = sb" for st n
    using that refl by (simp add: header_inv_def laid_out_def empty_seg_def)
  have body: "lpost2 (loaded (unat pre) sb) ?F
     (lbind (load_body buf skip lst (st\<lparr>curhunk := unat first, lasthunk := unat first, seen_code := False\<rparr>))
       (\<lambda>st. if \<not> seen_code st then LFail msg st else LOk st))"
    if "header_inv pre sb (unat n) (unat n) st" "\<not> last < first" "\<not> n \<le> last"
    for st n first last lst msg
  proof -
    have "holds (body_frame (unat pre) sb)
        (st\<lparr>curhunk := unat first, lasthunk := unat first, seen_code := False\<rparr>)"
      using that assms(2) by (auto simp: holds_def body_frame_def header_inv_def word_less_nat_alt word_le_nat_alt)
    from body.load_body [OF this, of buf skip lst]
    show ?thesis
      by (cases "load_body buf skip lst (st\<lparr>curhunk := unat first, lasthunk := unat first, seen_code := False\<rparr>)")
        (auto simp: holds_def body_frame_def loaded_def)
  qed
  have rest: "lpost2 (loaded (unat pre) sb) ?F
     (if n = 0 \<or> unat n > J4_MAX_HUNKS then LFail m1 st
      else if last < first \<or> last \<ge> n then LFail m2 st
      else lbind (alloc_hunks buf pre (unat n) 0 (st\<lparr>l_seg := (l_seg st)\<lparr>numhunks := unat n\<rparr>\<rparr>)) (\<lambda>st.
        lbind (load_body buf skip (unat last)
               (st\<lparr>curhunk := unat first, lasthunk := unat first, seen_code := False\<rparr>)) (\<lambda>st.
        if \<not> seen_code st then LFail msg st else LOk st)))"
    if "l_box st = sb" "l_seg st = empty_seg" for st n first last m1 m2 msg
  proof (cases "n = 0 \<or> unat n > J4_MAX_HUNKS \<or> last < first \<or> last \<ge> n")
    case True then show ?thesis using that refl by auto
  next
    case False
    then have n: "\<not> (n = 0 \<or> unat n > J4_MAX_HUNKS)" "\<not> (last < first \<or> last \<ge> n)" by auto
    have "lpost2 (header_inv pre sb (unat n) (0 + unat n)) ?F
        (alloc_hunks buf pre (unat n) 0 (st\<lparr>l_seg := (l_seg st)\<lparr>numhunks := unat n\<rparr>\<rparr>))"
      using start [of st n] that n assms by (intro alloc_hunks_inv) auto
    from lpost2_bind [OF this body] show ?thesis
      unfolding if_not_P [OF n(1)] if_not_P [OF n(2)] using n(2) by auto
  qed
  show ?thesis
    unfolding load_hunks_def Let_def
    apply (rule rd32_box, simp add: refl)
    apply (simp only: split: if_split, intro conjI impI)
     apply (simp add: refl)
    apply (rule lpost2_bind [where R = "\<lambda>st. l_box st = sb \<and> l_seg st = empty_seg"])
    subgoal for v st using skip_names_box [of st buf] refl
      by (cases "skip_names buf st") auto
    apply (rule rd32_box, simp add: refl)+
    apply (rule rest; simp)
    done
qed

end
