(* ===== verification/HunkSeglist.thy ===== *)
theory HunkSeglist
  imports HunkSafety
begin

text \<open>
  What \<open>j4_load_hunks_bptr\<close> promises its caller: it is memory safe on every input file,
  a failed load leaves the sandbox as it was, a successful one leaves disjoint hunks in a
  segment list that can be walked; and the byte offset that the unframed entry point
  \<open>j4_load_hunks\<close> lets escape.
\<close>

section \<open>Writing and reading long words\<close>

lemma sb_read_write [simp]: "sb_read_be32 (sb_write_be32 sb p v) p = v"
  using be32_bytes [of v] by (simp add: sb_read_be32_def sb_write_be32_def)

lemma sb_read_cong:
  "(\<And>x. p \<le> x \<Longrightarrow> x < p + 4 \<Longrightarrow> jb_mem sb' x = jb_mem sb x) \<Longrightarrow> sb_read_be32 sb' p = sb_read_be32 sb p"
  by (simp add: sb_read_be32_def)

lemma sb_write_outside: "x < p \<or> p + 4 \<le> x \<Longrightarrow> jb_mem (sb_write_be32 sb p v) x = jb_mem sb x"
  by (auto simp: sb_write_be32_def)

lemma j4_sandbox_host_write [simp]:
  "j4_sandbox_host (sb_write_be32 sb p v) a = j4_sandbox_host sb a"
  "host_ok (sb_write_be32 sb p v) a n = host_ok sb a n"
  by (simp_all add: j4_sandbox_host_def host_ok_def)

section \<open>The links\<close>

text \<open>The BPTR stored in node \<open>i\<close>.\<close>

definition next_bptr :: "j4_seglist \<Rightarrow> nat \<Rightarrow> u32" where
  "next_bptr seg i = (if i + 1 < numhunks seg then drop_bit 2 (hunk_base seg ! (i + 1) - 4) else 0)"

abbreviation "boff sb seg i \<equiv> j4_sandbox_host sb (hunk_base seg ! i)"

lemma host_minus:
  assumes "laid_out 8 lo n sb bs ss" "i < n" "k = 4 \<or> k = 8"
  shows "j4_sandbox_host sb (bs ! i - k) = j4_sandbox_host sb (bs ! i) - unat k"
proof -
  have "8 \<le> unat (bs ! i - jb_origin sb)"
    using assms(1,2) by (force simp: laid_out_def j4_sandbox_host_def)
  then have "unat (bs ! i - jb_origin sb - k) = unat (bs ! i - jb_origin sb) - unat k"
    using assms(3) by (intro unat_sub_if_le) (auto simp: word_le_nat_alt)
  then show ?thesis by (simp add: j4_sandbox_host_def algebra_simps)
qed

definition links_upto :: "j4_sandbox \<Rightarrow> j4_sandbox \<Rightarrow> j4_seglist \<Rightarrow> nat \<Rightarrow> bool" where
  "links_upto sb sb' seg i \<longleftrightarrow> jb_origin sb' = jb_origin sb \<and> jb_size sb' = jb_size sb \<and>
     next_alloc sb' = next_alloc sb \<and>
     (\<forall>j. i \<le> j \<and> j < numhunks seg \<longrightarrow>
        sb_read_be32 sb' (boff sb seg j - 8) = hunk_size seg ! j + 8 \<and>
        sb_read_be32 sb' (boff sb seg j - 4) = next_bptr seg j) \<and>
     (\<forall>x. (\<forall>j. i \<le> j \<and> j < numhunks seg \<longrightarrow> x < boff sb seg j - 8 \<or> boff sb seg j \<le> x) \<longrightarrow>
        jb_mem sb' x = jb_mem sb x)"

lemma link_hunks_links:
  assumes "laid_out 8 lo (numhunks seg) sb (hunk_base seg) (hunk_size seg)"
    and "top_off sb \<le> unat (jb_size sb)" "i + k = numhunks seg"
  shows "\<exists>sb'. link_hunks k i seg sb = Some sb' \<and> links_upto sb sb' seg i"
  using assms
proof (induction k arbitrary: i sb)
  case 0 then show ?case by (auto simp: links_upto_def)
next
  case (Suc k)
  let ?b = "boff sb seg i" and ?n = "numhunks seg"
  define sb1 where "sb1 = sb_write_be32 sb (?b - 8) (hunk_size seg ! i + 8)"
  define sb2 where "sb2 = sb_write_be32 sb1 (?b - 4) (next_bptr seg i)"
  have i: "i < ?n" using Suc.prems(3) by simp
  have b: "8 \<le> ?b" "?b \<le> unat (jb_size sb)"
    using Suc.prems(1,2) i by (force simp: laid_out_def)+
  have later: "?b \<le> boff sb seg j - 8" if "i < j" "j < ?n" for j
    using Suc.prems(1) that by (force simp: laid_out_def)
  have off: "j4_sandbox_host sb (hunk_base seg ! i - 8) = ?b - 8"
    "j4_sandbox_host sb (hunk_base seg ! i - 4) = ?b - 4"
    using host_minus [OF Suc.prems(1) i, of 8] host_minus [OF Suc.prems(1) i, of 4] by simp_all
  have unfold: "link_hunks (Suc k) i seg sb = link_hunks k (Suc i) seg sb2"
    using b by (auto simp: Let_def sb1_def sb2_def host_ok_def off next_bptr_def)
  have same: "jb_origin sb2 = jb_origin sb" "jb_size sb2 = jb_size sb" "next_alloc sb2 = next_alloc sb"
    "\<And>a. j4_sandbox_host sb2 a = j4_sandbox_host sb a" "top_off sb2 = top_off sb"
    by (simp_all add: sb1_def sb2_def top_off_def)
  have "laid_out 8 lo ?n sb2 (hunk_base seg) (hunk_size seg)"
    using Suc.prems(1) by (simp add: sb1_def sb2_def)
  then obtain sb' where sb': "link_hunks k (Suc i) seg sb2 = Some sb'" "links_upto sb2 sb' seg (Suc i)"
    using Suc.IH [of sb2 "Suc i"] Suc.prems(2,3) same by auto
  have keep: "jb_mem sb' x = jb_mem sb2 x" if "x < ?b" for x
  proof -
    have "x < boff sb seg j - 8" if "Suc i \<le> j" "j < ?n" for j
      using later [of j] that \<open>x < ?b\<close> by simp
    then show ?thesis using sb'(2) unfolding links_upto_def same by blast
  qed
  have "sb_read_be32 sb' (?b - 8) = hunk_size seg ! i + 8"
  proof -
    have "sb_read_be32 sb' (?b - 8) = sb_read_be32 sb1 (?b - 8)"
      using b by (intro sb_read_cong) (auto simp: keep sb2_def sb_write_outside)
    then show ?thesis by (simp add: sb1_def)
  qed
  moreover have "sb_read_be32 sb' (?b - 4) = next_bptr seg i"
  proof -
    have "sb_read_be32 sb' (?b - 4) = sb_read_be32 sb2 (?b - 4)"
      using b by (intro sb_read_cong) (auto simp: keep)
    then show ?thesis by (simp add: sb2_def)
  qed
  moreover have "jb_mem sb' x = jb_mem sb x"
    if x: "\<forall>j. i \<le> j \<and> j < ?n \<longrightarrow> x < boff sb seg j - 8 \<or> boff sb seg j \<le> x" for x
  proof -
    have "jb_mem sb' x = jb_mem sb2 x" using sb'(2) x by (simp add: links_upto_def same)
    also have "\<dots> = jb_mem sb x"
    proof -
      have "x < ?b - 8 \<or> ?b \<le> x" using x i by simp
      then have "x < ?b - 8 \<or> ?b - 8 + 4 \<le> x" "x < ?b - 4 \<or> ?b - 4 + 4 \<le> x" using b by linarith+
      then show ?thesis unfolding sb1_def sb2_def by (simp only: sb_write_outside)
    qed
    finally show ?thesis .
  qed
  moreover have "(i \<le> j \<and> j < ?n) = (j = i \<or> Suc i \<le> j \<and> j < ?n)" for j using i by auto
  ultimately have "links_upto sb sb' seg i"
    using sb'(2) unfolding links_upto_def same by simp
  then show ?case using unfold sb'(1) by simp
qed

section \<open>The rollback\<close>

lemma rollback_framed:
  assumes "framed sb0 sb" "box_wf sb0"
  shows "\<exists>sb'. rollback (next_alloc sb0) sb = Some sb' \<and> jb_origin sb' = jb_origin sb0 \<and>
    jb_size sb' = jb_size sb0 \<and> next_alloc sb' = next_alloc sb0 \<and>
    (\<forall>x. jb_mem sb' x = (if top_off sb0 \<le> x \<and> x < top_off sb then 0 else jb_mem sb0 x))"
proof -
  have f: "box_wf sb" "jb_origin sb = jb_origin sb0" "jb_size sb = jb_size sb0" "top_off sb0 \<le> top_off sb"
    "\<And>x. x < top_off sb0 \<or> top_off sb \<le> x \<Longrightarrow> jb_mem sb x = jb_mem sb0 x"
    using assms(1) by (auto simp: framed_def)
  have n: "unat (next_alloc sb) = unat (jb_origin sb0) + top_off sb"
    "unat (next_alloc sb0) = unat (jb_origin sb0) + top_off sb0"
    using top_unat [OF f(1)] top_unat [OF assms(2)] f assms(2) by (auto simp: box_wf_def word_le_nat_alt)
  have host: "j4_sandbox_host sb (next_alloc sb0) = top_off sb0"
    by (simp add: j4_sandbox_host_def top_off_def f)
  show ?thesis
  proof (cases "next_alloc sb > next_alloc sb0")
    case True
    then have len: "unat (next_alloc sb - next_alloc sb0) = top_off sb - top_off sb0"
      using n by (simp add: unat_sub_if_le order_less_imp_le)
    have "top_off sb \<le> unat (jb_size sb)" using f(1) by (simp add: box_wf_def)
    then have "host_ok sb (next_alloc sb0) (unat (next_alloc sb - next_alloc sb0))"
      using len host f(4) by (simp add: host_ok_def)
    then show ?thesis using True len host f by (auto simp: rollback_def Let_def)
  next
    case False
    then have eq: "top_off sb = top_off sb0" using n f(4) by (simp add: word_less_nat_alt)
    then have "jb_mem sb x = jb_mem sb0 x" for x using f(5) [of x] by linarith
    then show ?thesis using False f(2,3) eq by (auto simp: rollback_def)
  qed
qed

section \<open>The properties\<close>

text \<open>The blocks of a segment list: \<open>(length word, payload address)\<close> of every node from
  a BPTR on, as a caller that follows the links reads them.\<close>

fun walk_seglist :: "nat \<Rightarrow> j4_sandbox \<Rightarrow> u32 \<Rightarrow> (u32 \<times> u32) list" where
  "walk_seglist 0 sb bptr = []"
| "walk_seglist (Suc k) sb bptr =
     (if bptr = 0 then []
      else (let node = push_bit 2 bptr in
        (sb_read_be32 sb (j4_sandbox_host sb (node - 4)), node + 4) #
        walk_seglist k sb (sb_read_be32 sb (j4_sandbox_host sb node))))"

lemma bptr_loaded:
  assumes "box_wf sb" "j4_load_hunks_bptr sb buf = BOk sb' seg b"
  shows "\<exists>st. loaded 8 sb st \<and> l_seg st = seg \<and> links_upto (l_box st) sb' seg 0 \<and>
    b = drop_bit 2 (hunk_base seg ! 0 - 4)"
proof -
  obtain st where st: "load_hunks sb buf False 8 = LOk st" "l_seg st = seg"
    "link_hunks (numhunks seg) 0 seg (l_box st) = Some sb'" "b = drop_bit 2 (hunk_base seg ! 0 - 4)"
    using assms(2) by (auto simp: j4_load_hunks_bptr_def Let_def split: lres.splits option.splits)
  have L: "loaded 8 sb st"
    using load_hunks_frame [of sb 8 buf False] assms(1) st(1) by simp
  have "\<exists>sb'. link_hunks (numhunks seg) 0 seg (l_box st) = Some sb' \<and> links_upto (l_box st) sb' seg 0"
    using L st(2) by (intro link_hunks_links) (auto simp: loaded_def framed_def box_wf_def)
  then show ?thesis using L st by auto
qed

lemma links_framed:
  assumes "loaded 8 sb st" "links_upto (l_box st) sb' (l_seg st) 0"
  shows "framed sb sb' \<and> top_off sb' = top_off (l_box st)"
proof -
  have L: "framed sb (l_box st)" "laid_out 8 (top_off sb) (numhunks (l_seg st)) (l_box st)
      (hunk_base (l_seg st)) (hunk_size (l_seg st))"
    using assms(1) by (auto simp: loaded_def)
  have "jb_mem sb' x = jb_mem (l_box st) x" if "x < top_off sb \<or> top_off (l_box st) \<le> x" for x
  proof -
    have "x < boff (l_box st) (l_seg st) j - 8 \<or> boff (l_box st) (l_seg st) j \<le> x" if "j < numhunks (l_seg st)" for j
      using L(2) that \<open>x < _ \<or> _\<close> by (force simp: laid_out_def)
    then show ?thesis using assms(2) by (simp add: links_upto_def)
  qed
  then have "framed sb sb'"
    using assms(2) L(1) by (intro framed_write [OF L(1)]) (auto simp: links_upto_def)
  then show ?thesis using assms(2) by (simp add: links_upto_def top_off_def j4_sandbox_host_def)
qed

text \<open>C8: On every input file the segment-list loader stays inside the host array, and it
  writes only bytes of the slices it allocated itself: between the old allocation mark and
  the new one when the load succeeds, and between the old mark and the highest mark the
  failed load had reached (which the rollback clears, and nothing beyond it) when it fails.
  A failed load puts the allocation mark back.\<close>

theorem bptr_load_safe:
  assumes "box_wf sb"
  shows "case j4_load_hunks_bptr sb buf of
      BOk sb' seg b \<Rightarrow> framed sb sb'
    | BFail msg sb' \<Rightarrow> (\<exists>st. load_hunks sb buf False 8 = LFail msg st \<and> framed sb (l_box st) \<and>
        next_alloc sb' = next_alloc sb \<and> jb_origin sb' = jb_origin sb \<and> jb_size sb' = jb_size sb \<and>
        (\<forall>x. x < top_off sb \<or> top_off (l_box st) \<le> x \<longrightarrow> jb_mem sb' x = jb_mem sb x))
    | BUndef \<Rightarrow> False"
proof (cases "load_hunks sb buf False 8")
  case (LOk st)
  then have L: "loaded 8 sb st" using load_hunks_frame [OF assms, of 8 buf False] by simp
  obtain sb' where "link_hunks (numhunks (l_seg st)) 0 (l_seg st) (l_box st) = Some sb'"
    "links_upto (l_box st) sb' (l_seg st) 0"
    using link_hunks_links [of "top_off sb" "l_seg st" "l_box st" 0] L
    by (auto simp: loaded_def framed_def box_wf_def)
  then show ?thesis using LOk links_framed [OF L] by (simp add: j4_load_hunks_bptr_def Let_def)
next
  case (LFail msg st)
  then have F: "framed sb (l_box st)" using load_hunks_frame [OF assms, of 8 buf False] by simp
  with rollback_framed [OF F assms] show ?thesis
    using LFail by (auto simp: j4_load_hunks_bptr_def Let_def)
next
  case LUndef
  then show ?thesis using load_hunks_frame [OF assms, of 8 buf False] by simp
qed


lemma bptr_node: "unat (w :: u32) mod 4 = 0 \<Longrightarrow> push_bit 2 (drop_bit 2 w) = w"
proof -
  assume *: "unat w mod 4 = 0"
  have "push_bit 2 (drop_bit 2 w) = w AND NOT (mask 2)"
    by (rule bit_word_eqI) (auto simp: bit_simps not_less simp flip: Suc_diff_le numeral_2_eq_2)
  then show ?thesis using unat_and_not_mask [of w 2] * div_mult_mod_eq [of "unat w" 4]
    by (simp add: word_unat_eq_iff)
qed

text \<open>C10: After a successful load the returned BPTR leads through exactly the loaded hunks, in
  file order: following the links yields every hunk's frame length and payload address,
  and the last link is null.\<close>

theorem bptr_chain:
  assumes "box_wf sb" "j4_load_hunks_bptr sb buf = BOk sb' seg b" "numhunks seg < k"
  shows "walk_seglist k sb' b = map (\<lambda>i. (hunk_size seg ! i + 8, hunk_base seg ! i)) [0..<numhunks seg]"
proof -
  obtain st where st: "loaded 8 sb st" "l_seg st = seg" "links_upto (l_box st) sb' seg 0"
    "b = drop_bit 2 (hunk_base seg ! 0 - 4)"
    using bptr_loaded [OF assms(1,2)] by blast
  let ?n = "numhunks seg" and ?sb = "l_box st"
  define bp where "bp i = (if i < ?n then drop_bit 2 (hunk_base seg ! i - 4) else 0)" for i
  have lay: "laid_out 8 (top_off sb) ?n ?sb (hunk_base seg) (hunk_size seg)"
    using st(1,2) by (auto simp: loaded_def)
  have host: "j4_sandbox_host sb' a = j4_sandbox_host ?sb a" for a
    using st(3) by (simp add: links_upto_def j4_sandbox_host_def)
  have node: "push_bit 2 (bp i) = hunk_base seg ! i - 4 \<and> bp i \<noteq> 0" if "i < ?n" for i
  proof -
    have *: "8 \<le> unat (hunk_base seg ! i - jb_origin ?sb)" "jb_origin ?sb \<le> hunk_base seg ! i"
      "unat (hunk_base seg ! i) mod 4 = 0"
      using lay that by (force simp: laid_out_def j4_sandbox_host_def)+
    then have "8 \<le> unat (hunk_base seg ! i)" by (simp add: unat_sub_if_le)
    moreover from this have "unat (hunk_base seg ! i - 4) = unat (hunk_base seg ! i) - 4"
      using unat_sub_if_le [of 4 "hunk_base seg ! i"] by (simp add: word_le_nat_alt)
    ultimately have "unat (hunk_base seg ! i - 4) mod 4 = 0" "hunk_base seg ! i - 4 \<noteq> 0"
      using *(3) by (presburger, force)
    then show ?thesis using bptr_node [of "hunk_base seg ! i - 4"] that by (auto simp: bp_def)
  qed
  have reads: "sb_read_be32 sb' (j4_sandbox_host sb' (hunk_base seg ! i - 4 - 4)) = hunk_size seg ! i + 8"
    "sb_read_be32 sb' (j4_sandbox_host sb' (hunk_base seg ! i - 4)) = bp (Suc i)" if "i < ?n" for i
    using st(3) that host_minus [OF lay that, of 8] host_minus [OF lay that, of 4]
    by (auto simp: links_upto_def host next_bptr_def bp_def)
  have walk: "walk_seglist k sb' (bp i) = map (\<lambda>i. (hunk_size seg ! i + 8, hunk_base seg ! i)) [i..<?n]"
    if "?n - i < k" for i
    using that
  proof (induction k arbitrary: i)
    case 0 then show ?case by simp
  next
    case (Suc k)
    show ?case
    proof (cases "i < ?n")
      case True
      then show ?thesis using Suc node [OF True] reads [OF True] by (simp add: upt_conv_Cons)
    next
      case False then show ?thesis by (simp add: bp_def)
    qed
  qed
  have "0 < ?n" using st(1,2) by (auto simp: loaded_def)
  then show ?thesis using assms(3) st(4) walk [of 0] by (simp add: bp_def)
qed

text \<open>C11: The hunks of a successful load, one or many, each lie behind the old allocation
  mark with eight bytes of frame before them, inside the sandbox, at an address divisible
  by four, and each hunk's frame begins only after the end of every earlier hunk.\<close>

theorem bptr_hunks_disjoint:
  assumes "box_wf sb" "j4_load_hunks_bptr sb buf = BOk sb' seg b"
  shows "0 < numhunks seg \<and>
    (\<forall>j < numhunks seg. top_off sb + 8 \<le> boff sb' seg j \<and>
       boff sb' seg j + unat (hunk_size seg ! j) \<le> unat (jb_size sb') \<and>
       unat (hunk_base seg ! j) mod 4 = 0 \<and>
       (\<forall>i < j. boff sb' seg i + unat (hunk_size seg ! i) + 8 \<le> boff sb' seg j))"
proof -
  obtain st where st: "loaded 8 sb st" "l_seg st = seg" "links_upto (l_box st) sb' seg 0"
    using bptr_loaded [OF assms] by blast
  then have "laid_out 8 (top_off sb) (numhunks seg) (l_box st) (hunk_base seg) (hunk_size seg)"
    "top_off (l_box st) \<le> unat (jb_size sb')" "\<And>a. j4_sandbox_host sb' a = j4_sandbox_host (l_box st) a"
    "0 < numhunks seg"
    by (auto simp: loaded_def framed_def box_wf_def links_upto_def j4_sandbox_host_def)
  then show ?thesis by (force simp: laid_out_def)
qed

section \<open>Instances\<close>

definition be_long :: "u32 \<Rightarrow> u8 list" where
  "be_long v = [byte_of 3 v, byte_of 2 v, byte_of 1 v, byte_of 0 v]"

definition hunk_file :: "u32 list \<Rightarrow> u8 list" where
  "hunk_file vs = concat (map be_long vs)"

text \<open>A code hunk of two longs whose second is relocated by the data hunk's address.\<close>

definition demo_file :: "u8 list" where
  "demo_file = hunk_file [1011, 0, 2, 0, 1, 2, 1, 1001, 2, 0x4E754E71, 4, 1004, 1, 1, 4, 0, 1010,
     1002, 1, 0x12345678, 1010]"

text \<open>The same with the site's offset four bytes before the hunk.\<close>

definition wrap_file :: "u8 list" where
  "wrap_file = hunk_file [1011, 0, 2, 0, 1, 2, 1, 1001, 2, 0x4E754E71, 4, 1004, 1, 1, 0xFFFFFFFC, 0, 1010,
     1002, 1, 0x12345678, 1010]"

definition demo_jbox :: j4_sandbox where
  "demo_jbox = \<lparr>jb_mem = (\<lambda>i. 0), jb_origin = 0x1000, jb_size = 0x400, next_alloc = 0x1000\<rparr>"

lemma demo_jbox_wf: "box_wf demo_jbox"
  by (simp add: box_wf_def demo_jbox_def top_off_def j4_sandbox_host_def)

lemma demo_jbox_fields: "next_alloc demo_jbox = 0x1000" "jb_mem demo_jbox x = 0"
  by (simp_all add: demo_jbox_def)

lemma demo_load:
  "case j4_load_hunks_bptr demo_jbox demo_file of
     BOk sb' seg b \<Rightarrow> numhunks seg = 2 \<and> hunk_base seg ! 0 = 0x1008 \<and> hunk_base seg ! 1 = 0x1018
      \<and> hunk_size seg ! 0 = 8 \<and> hunk_size seg ! 1 = 4 \<and> sb_read_be32 sb' 0xC = 0x101C
   | _ \<Rightarrow> False"
  by code_simp

lemma demo_load_Ok:
  obtains sb' seg b where "j4_load_hunks_bptr demo_jbox demo_file = BOk sb' seg b" "numhunks seg = 2"
    "hunk_base seg ! 0 = 0x1008" "hunk_base seg ! 1 = 0x1018" "hunk_size seg ! 0 = 8" "hunk_size seg ! 1 = 4"
  using demo_load by (auto split: bptr_res.splits)

lemma short_load_fails:
  "\<exists>sb'. j4_load_hunks_bptr demo_jbox (take 60 demo_file) = BFail ''short RELOC32 count'' sb'"
proof -
  have "case j4_load_hunks_bptr demo_jbox (take 60 demo_file) of BFail msg sb' \<Rightarrow> msg = ''short RELOC32 count'' | _ \<Rightarrow> False"
    by code_simp
  then show ?thesis by (auto split: bptr_res.splits)
qed

theorem bptr_load_safe_witness:
  "(case j4_load_hunks_bptr demo_jbox demo_file of BOk sb' seg b \<Rightarrow> framed demo_jbox sb' | _ \<Rightarrow> False) \<and>
   (\<exists>msg sb' st. j4_load_hunks_bptr demo_jbox (take 60 demo_file) = BFail msg sb' \<and>
      load_hunks demo_jbox (take 60 demo_file) False 8 = LFail msg st \<and> next_alloc sb' = 0x1000 \<and>
      (\<forall>x. top_off (l_box st) \<le> x \<longrightarrow> jb_mem sb' x = 0))"
proof (intro conjI)
  show "case j4_load_hunks_bptr demo_jbox demo_file of BOk sb' seg b \<Rightarrow> framed demo_jbox sb' | _ \<Rightarrow> False"
    using bptr_load_safe [OF demo_jbox_wf, of demo_file] demo_load by (auto split: bptr_res.splits)
  obtain sb' where *: "j4_load_hunks_bptr demo_jbox (take 60 demo_file) = BFail ''short RELOC32 count'' sb'"
    using short_load_fails by blast
  show "\<exists>msg sb' st. j4_load_hunks_bptr demo_jbox (take 60 demo_file) = BFail msg sb' \<and>
      load_hunks demo_jbox (take 60 demo_file) False 8 = LFail msg st \<and> next_alloc sb' = 0x1000 \<and>
      (\<forall>x. top_off (l_box st) \<le> x \<longrightarrow> jb_mem sb' x = 0)"
    using bptr_load_safe [OF demo_jbox_wf, of "take 60 demo_file"]
    unfolding * bptr_res.case demo_jbox_fields by fastforce
qed


theorem bptr_chain_witness:
  "\<exists>sb' seg b. j4_load_hunks_bptr demo_jbox demo_file = BOk sb' seg b \<and>
     walk_seglist 3 sb' b = [(16, 0x1008), (12, 0x1018)]"
proof -
  obtain sb' seg b where *: "j4_load_hunks_bptr demo_jbox demo_file = BOk sb' seg b" "numhunks seg = 2"
    "hunk_base seg ! 0 = 0x1008" "hunk_base seg ! 1 = 0x1018" "hunk_size seg ! 0 = 8" "hunk_size seg ! 1 = 4"
    by (rule demo_load_Ok)
  then have "walk_seglist 3 sb' b = [(16, 0x1008), (12, 0x1018)]"
    using bptr_chain [OF demo_jbox_wf *(1), of 3] by (simp add: upt_rec)
  with *(1) show ?thesis by blast
qed

theorem bptr_hunks_disjoint_witness:
  "\<exists>sb' seg b. j4_load_hunks_bptr demo_jbox demo_file = BOk sb' seg b \<and>
     boff sb' seg 0 + unat (hunk_size seg ! 0) + 8 \<le> boff sb' seg 1 \<and>
     8 \<le> boff sb' seg 0 \<and> unat (hunk_base seg ! 1) mod 4 = 0 \<and>
     boff sb' seg 1 + unat (hunk_size seg ! 1) \<le> unat (jb_size sb')"
proof -
  obtain sb' seg b where *: "j4_load_hunks_bptr demo_jbox demo_file = BOk sb' seg b" "numhunks seg = 2"
    by (rule demo_load_Ok)
  show ?thesis using bptr_hunks_disjoint [OF demo_jbox_wf *(1)] * by force
qed

text \<open>The unframed entry point has no such guarantee: the bounds check
  \<open>offset + 4 > hunk_size\<close> wraps, and an offset of \<open>0xFFFFFFFC\<close> in the first hunk of the
  sandbox makes the loader read and write outside the host array.\<close>

theorem plain_load_offset_wraps:
  "j4_load_hunks demo_jbox wrap_file False = LUndef"
proof -
  have "case j4_load_hunks demo_jbox wrap_file False of LUndef \<Rightarrow> True | _ \<Rightarrow> False" by code_simp
  then show ?thesis by (auto split: lres.splits)
qed

end
