(* ===== verification/HunkReloc.thy ===== *)
theory HunkReloc
  imports HunkSeglist
begin

text \<open>
  What the relocation tables mean. The two encodings (\<open>HUNK_RELOC32\<close> with long words,
  \<open>HUNK_RELOC32SHORT\<close> with words and padding) are compared with one reference that knows
  no bytes, only groups of a target hunk and a list of offsets.
\<close>

section \<open>The reference\<close>

text \<open>\<open>None\<close>: undefined behaviour; otherwise the sandbox and whether the load goes on.\<close>

type_synonym reloc_out = "(j4_sandbox \<times> bool) option"

definition spec_site :: "j4_seglist \<Rightarrow> nat \<Rightarrow> nat \<Rightarrow> u32 \<Rightarrow> j4_sandbox \<Rightarrow> reloc_out" where
  "spec_site seg l t offset sb =
     (if offset + 4 > hunk_size seg ! l then Some (sb, False)
      else if \<not> host_ok sb (hunk_base seg ! l + offset) 4 then None
      else (let p = j4_sandbox_host sb (hunk_base seg ! l + offset) in
        Some (sb_write_be32 sb p (sb_read_be32 sb p + hunk_base seg ! t), True)))"

fun spec_relocs :: "j4_seglist \<Rightarrow> nat \<Rightarrow> (nat \<times> u32) list \<Rightarrow> j4_sandbox \<Rightarrow> reloc_out" where
  "spec_relocs seg l [] sb = Some (sb, True)"
| "spec_relocs seg l ((t, offset) # rs) sb = (case spec_site seg l t offset sb of
     Some (sb', True) \<Rightarrow> spec_relocs seg l rs sb' | r \<Rightarrow> r)"

lemma spec_relocs_append:
  "spec_relocs seg l (rs @ rs') sb = (case spec_relocs seg l rs sb of
     Some (sb', True) \<Rightarrow> spec_relocs seg l rs' sb' | r \<Rightarrow> r)"
  by (induction rs arbitrary: sb) (auto split: option.splits prod.splits bool.splits)

text \<open>The entries of a list of groups.\<close>

definition entries :: "(nat \<times> u32 list) list \<Rightarrow> (nat \<times> u32) list" where
  "entries gs = concat (map (\<lambda>(t, offs). map (Pair t) offs) gs)"

lemma entries_simps [simp]:
  "entries [] = []" "entries ((t, offs) # gs) = map (Pair t) offs @ entries gs"
  by (simp_all add: entries_def)

definition out :: "lres \<Rightarrow> reloc_out" where
  "out r = (case r of LOk st \<Rightarrow> Some (l_box st, True) | LFail e st \<Rightarrow> Some (l_box st, False) | LUndef \<Rightarrow> None)"

lemma out_simps [simp]:
  "out (LOk st) = Some (l_box st, True)" "out (LFail e st) = Some (l_box st, False)" "out LUndef = None"
  by (simp_all add: out_def)

section \<open>The encodings\<close>

definition be_word :: "u32 \<Rightarrow> u8 list" where
  "be_word v = [byte_of 1 v, byte_of 0 v]"

definition group32 :: "nat \<times> u32 list \<Rightarrow> u8 list" where
  "group32 g = be_long (of_nat (length (snd g))) @ be_long (of_nat (fst g)) @ concat (map be_long (snd g))"

definition group16 :: "nat \<times> u32 list \<Rightarrow> u8 list" where
  "group16 g = be_word (of_nat (length (snd g))) @ be_word (of_nat (fst g)) @ concat (map be_word (snd g))"

definition table32 :: "(nat \<times> u32 list) list \<Rightarrow> u8 list" where
  "table32 gs = concat (map group32 gs) @ be_long 0"

definition table16 :: "(nat \<times> u32 list) list \<Rightarrow> u8 list" where
  "table16 gs = (let t = concat (map group16 gs) @ be_word 0 in
     if length t mod 4 = 0 then t else t @ [0, 0])"

text \<open>Groups both encodings can express.\<close>

definition short_group :: "nat \<Rightarrow> nat \<times> u32 list \<Rightarrow> bool" where
  "short_group n g \<longleftrightarrow> fst g < n \<and> snd g \<noteq> [] \<and> length (snd g) < 2 ^ 16 \<and> (\<forall>v \<in> set (snd g). v < 2 ^ 16)"

lemma length_enc [simp]:
  "length (be_long v) = 4" "length (be_word v) = 2"
  "length (concat (map be_long vs)) = 4 * length vs" "length (concat (map be_word vs)) = 2 * length vs"
  "length (group32 (t, offs)) = 8 + 4 * length offs" "length (group16 (t, offs)) = 4 + 2 * length offs"
proof -
  show "length (be_long v) = 4" "length (be_word v) = 2" for v by (simp_all add: be_long_def be_word_def)
  show *: "length (concat (map be_long vs)) = 4 * length vs" "length (concat (map be_word vs)) = 2 * length vs" for vs
    by (induction vs) (simp_all add: be_long_def be_word_def)
  show "length (group32 (t, offs)) = 8 + 4 * length offs" "length (group16 (t, offs)) = 4 + 2 * length offs"
    using * by (simp_all add: group32_def group16_def be_long_def be_word_def)
qed

section \<open>Reading what was written\<close>

lemma cur_u32_be_long:
  assumes "drop (c_pos st) buf = be_long v @ rest"
  shows "cur_u32 buf st = Some (v, st\<lparr>c_pos := c_pos st + 4\<rparr>) \<and> drop (c_pos st + 4) buf = rest"
proof -
  have len: "c_pos st + 4 \<le> length buf"
    using arg_cong [OF assms, of length] by (simp add: be_long_def)
  have "buf ! (c_pos st + k) = (be_long v @ rest) ! k" for k
    using len by (simp flip: assms)
  from this [of 0] this [of 1] this [of 2] this [of 3] len
  have "buf ! c_pos st = byte_of 3 v" "buf ! (c_pos st + 1) = byte_of 2 v"
    "buf ! (c_pos st + 2) = byte_of 1 v" "buf ! (c_pos st + 3) = byte_of 0 v"
    by (simp_all add: be_long_def)
  moreover have "drop (c_pos st + 4) buf = rest"
    using arg_cong [OF assms, of "drop 4"] by (simp add: be_long_def add.commute)
  ultimately show ?thesis using len be32_bytes [of v] by (simp add: cur_u32_def)
qed

lemma word_of_bytes:
  assumes "v < 2 ^ 16"
  shows "push_bit 8 (ucast (byte_of 1 v)) OR ucast (byte_of 0 v) = (v :: u32)"
proof (rule bit_word_eqI)
  fix n assume n: "n < LENGTH(32)"
  have "\<not> bit v n" if "16 \<le> n"
  proof -
    have "unat v < 2 ^ 16" using assms by (simp add: word_less_nat_alt)
    also have "\<dots> \<le> (2::nat) ^ n" using that by (rule power_increasing) simp
    finally have "bit (unat v) n = False" by (simp add: bit_iff_odd)
    then show ?thesis by (simp add: bit_unsigned_iff)
  qed
  then show "bit (push_bit 8 (ucast (byte_of 1 v)) OR ucast (byte_of 0 v) :: u32) n = bit v n"
    using n by (cases "n < 8"; cases "n < 16") (auto simp: byte_of_def bit_simps)
qed

lemma cur_u16_be_word:
  assumes "drop (c_pos st) buf = be_word v @ rest" "v < 2 ^ 16"
  shows "cur_u16 buf st = Some (v, st\<lparr>c_pos := c_pos st + 2\<rparr>) \<and> drop (c_pos st + 2) buf = rest"
proof -
  have len: "c_pos st + 2 \<le> length buf"
    using arg_cong [OF assms(1), of length] by (simp add: be_word_def)
  have "buf ! (c_pos st + k) = (be_word v @ rest) ! k" for k
    using len by (simp flip: assms(1))
  from this [of 0] this [of 1] len
  have "buf ! c_pos st = byte_of 1 v" "buf ! (c_pos st + 1) = byte_of 0 v"
    by (simp_all add: be_word_def)
  moreover have "drop (c_pos st + 2) buf = rest"
    using arg_cong [OF assms(1), of "drop 2"] by (simp add: be_word_def add.commute)
  ultimately show ?thesis using len word_of_bytes [OF assms(2)] by (simp add: cur_u16_def)
qed

lemma patch_site_out:
  "out (patch_site msg offset t st) = spec_site (l_seg st) (lasthunk st) t offset (l_box st) \<and>
   (\<forall>st'. patch_site msg offset t st = LOk st' \<longrightarrow> (\<exists>b. st' = st\<lparr>l_box := b\<rparr>))"
  by (auto simp: patch_site_def spec_site_def Let_def)

lemma reloc32_offsets_out:
  assumes "drop (c_pos st) buf = concat (map be_long offs) @ rest"
  shows "out (reloc32_offsets buf False t (length offs) st) =
      spec_relocs (l_seg st) (lasthunk st) (map (Pair t) offs) (l_box st) \<and>
    (\<forall>st'. reloc32_offsets buf False t (length offs) st = LOk st' \<longrightarrow>
      (\<exists>b. st' = st\<lparr>l_box := b, c_pos := c_pos st + 4 * length offs\<rparr>))"
  using assms
proof (induction offs arbitrary: st)
  case Nil then show ?case by (auto intro: exI [of _ "l_box st"])
next
  case (Cons offset offs)
  let ?st = "st\<lparr>c_pos := c_pos st + 4\<rparr>"
  have cur: "cur_u32 buf st = Some (offset, ?st)" "drop (c_pos st + 4) buf = concat (map be_long offs) @ rest"
    using cur_u32_be_long [of st buf offset] Cons.prems by simp_all
  note P = patch_site_out [of "''RELOC32 offset outside lasthunk''" offset t ?st]
  show ?case
  proof (cases "patch_site ''RELOC32 offset outside lasthunk'' offset t ?st")
    case (LOk st1)
    then obtain b where st1: "st1 = ?st\<lparr>l_box := b\<rparr>" using P by blast
    then have "spec_site (l_seg st) (lasthunk st) t offset (l_box st) = Some (b, True)"
      using P LOk by simp
    then show ?thesis
      using Cons.IH [of st1] LOk cur st1 by (simp add: rd32_def add.assoc)
  next
    case (LFail e st1)
    then have "spec_site (l_seg st) (lasthunk st) t offset (l_box st) = Some (l_box st1, False)" using P by simp
    then show ?thesis using LFail cur(1) by (simp add: rd32_def)
  next
    case LUndef
    then have "spec_site (l_seg st) (lasthunk st) t offset (l_box st) = None" using P by simp
    then show ?thesis using LUndef cur(1) by (simp add: rd32_def)
  qed
qed

lemma reloc_short_offsets_out:
  assumes "drop (c_pos st) buf = concat (map be_word offs) @ rest" "\<forall>v \<in> set offs. v < 2 ^ 16"
  shows "out (reloc_short_offsets buf False t (length offs) st) =
      spec_relocs (l_seg st) (lasthunk st) (map (Pair t) offs) (l_box st) \<and>
    (\<forall>st'. reloc_short_offsets buf False t (length offs) st = LOk st' \<longrightarrow>
      (\<exists>b. st' = st\<lparr>l_box := b, c_pos := c_pos st + 2 * length offs,
        c_words := c_words st + of_nat (length offs)\<rparr>))"
  using assms
proof (induction offs arbitrary: st)
  case Nil then show ?case by (auto intro: exI [of _ "l_box st"])
next
  case (Cons offset offs)
  let ?w = "st\<lparr>c_words := c_words st + 1\<rparr>"
  let ?st = "?w\<lparr>c_pos := c_pos st + 2\<rparr>"
  have cur: "cur_u16 buf ?w = Some (offset, ?st)" "drop (c_pos st + 2) buf = concat (map be_word offs) @ rest"
    using cur_u16_be_word [of ?w buf offset] Cons.prems by simp_all
  note P = patch_site_out [of "''RELOC32SHORT offset outside lasthunk''" offset t ?st]
  show ?case
  proof (cases "patch_site ''RELOC32SHORT offset outside lasthunk'' offset t ?st")
    case (LOk st1)
    then obtain b where st1: "st1 = ?st\<lparr>l_box := b\<rparr>" using P by blast
    then have "spec_site (l_seg st) (lasthunk st) t offset (l_box st) = Some (b, True)"
      using P LOk by simp
    then show ?thesis
      using Cons.IH [of st1] Cons.prems(2) LOk cur st1 by (simp add: rd16_def add.assoc)
  next
    case (LFail e st1)
    then have "spec_site (l_seg st) (lasthunk st) t offset (l_box st) = Some (l_box st1, False)" using P by simp
    then show ?thesis using LFail cur(1) by (simp add: rd16_def)
  next
    case LUndef
    then have "spec_site (l_seg st) (lasthunk st) t offset (l_box st) = None" using P by simp
    then show ?thesis using LUndef cur(1) by (simp add: rd16_def)
  qed
qed

section \<open>Whole tables\<close>

lemma unat_small: "k < 2 ^ 16 \<Longrightarrow> unat (of_nat k :: u32) = k"
  by (simp add: unat_of_nat)

lemma reloc32_table_out:
  assumes "drop (c_pos st) buf = table32 gs @ rest" "\<forall>g \<in> set gs. short_group (numhunks (l_seg st)) g"
    and "numhunks (l_seg st) < 2 ^ 16"
  shows "out (reloc32_table buf False st) =
      spec_relocs (l_seg st) (lasthunk st) (entries gs) (l_box st) \<and>
    (\<forall>st'. reloc32_table buf False st = LOk st' \<longrightarrow>
      (\<exists>b. st' = st\<lparr>l_box := b, c_pos := c_pos st + length (table32 gs)\<rparr>))"
  using assms
proof (induction gs arbitrary: st)
  case Nil
  then have "cur_u32 buf st = Some (0, st\<lparr>c_pos := c_pos st + 4\<rparr>)"
    using cur_u32_be_long [of st buf 0 rest] by (simp add: table32_def)
  then show ?case
    by (subst reloc32_table.simps)+ (auto simp: rd32_def table32_def intro: exI [of _ "l_box st"])
next
  case (Cons g gs)
  obtain t offs where g: "g = (t, offs)" by (cases g)
  have G: "t < numhunks (l_seg st)" "offs \<noteq> []" "length offs < 2 ^ 16"
    using Cons.prems(2) g by (auto simp: short_group_def)
  let ?n = "of_nat (length offs) :: u32" and ?t = "of_nat t :: u32"
  have u: "unat ?n = length offs" "unat ?t = t" "?n \<noteq> 0"
    using G Cons.prems(3) unat_small [of "length offs"] unat_small [of t]
    by (auto simp: unat_eq_zero simp flip: unat_eq_0)
  let ?s1 = "st\<lparr>c_pos := c_pos st + 4\<rparr>" and ?s2 = "st\<lparr>c_pos := c_pos st + 8\<rparr>"
  have c1: "cur_u32 buf st = Some (?n, ?s1)"
    "drop (c_pos st + 4) buf = be_long ?t @ concat (map be_long offs) @ table32 gs @ rest"
    using cur_u32_be_long [of st buf ?n] Cons.prems(1) group32_def [of g] g by (simp_all add: table32_def)
  have c2: "cur_u32 buf ?s1 = Some (?t, ?s2)"
    "drop (c_pos ?s2) buf = concat (map be_long offs) @ table32 gs @ rest"
    using cur_u32_be_long [of ?s1 buf ?t] c1(2) by (simp_all add: add.commute)
  note O = reloc32_offsets_out [OF c2(2), of t]
  have unfold: "reloc32_table buf False st =
      lbind (reloc32_offsets buf False t (length offs) ?s2) (reloc32_table buf False)"
    using c1(1) c2(1) u G(1) by (subst reloc32_table.simps) (simp add: rd32_def)
  show ?case
  proof (cases "reloc32_offsets buf False t (length offs) ?s2")
    case (LOk st1)
    then obtain b where st1: "st1 = st\<lparr>l_box := b, c_pos := c_pos st + 8 + 4 * length offs\<rparr>"
      using O by fastforce
    have "drop (c_pos st1) buf = table32 gs @ rest"
      using arg_cong [OF c2(2), of "drop (4 * length offs)"] st1
      by (simp add: add.commute)
    moreover have "spec_relocs (l_seg st) (lasthunk st) (map (Pair t) offs) (l_box st) = Some (b, True)"
      using O LOk st1 by simp
    ultimately show ?thesis
      using Cons.IH [of st1] Cons.prems(2,3) LOk st1 unfold g
      by (simp add: spec_relocs_append table32_def algebra_simps)
  next
    case (LFail e st1)
    then have "spec_relocs (l_seg st) (lasthunk st) (map (Pair t) offs) (l_box st) = Some (l_box st1, False)"
      using O by simp
    then show ?thesis using LFail unfold g by (simp add: spec_relocs_append)
  next
    case LUndef
    then have "spec_relocs (l_seg st) (lasthunk st) (map (Pair t) offs) (l_box st) = None"
      using O by simp
    then show ?thesis using LUndef unfold g by (simp add: spec_relocs_append)
  qed
qed

text \<open>The 16-bit words of a table of groups.\<close>

fun words16 :: "(nat \<times> u32 list) list \<Rightarrow> nat" where
  "words16 [] = 0"
| "words16 ((t, offs) # gs) = 2 + length offs + words16 gs"

lemma length_groups16 [simp]: "length (concat (map group16 gs)) = 2 * words16 gs"
  by (induction gs rule: words16.induct) simp_all

lemma reloc_short_table_out:
  assumes "drop (c_pos st) buf = concat (map group16 gs) @ be_word 0 @ rest"
    and "\<forall>g \<in> set gs. short_group (numhunks (l_seg st)) g" "numhunks (l_seg st) < 2 ^ 16"
  shows "out (reloc_short_table buf False st) =
      spec_relocs (l_seg st) (lasthunk st) (entries gs) (l_box st) \<and>
    (\<forall>st'. reloc_short_table buf False st = LOk st' \<longrightarrow>
      (\<exists>b. st' = st\<lparr>l_box := b, c_pos := c_pos st + 2 * words16 gs + 2,
        c_words := c_words st + of_nat (words16 gs + 1)\<rparr>))"
  using assms
proof (induction gs arbitrary: st)
  case Nil
  then have "cur_u16 buf (st\<lparr>c_words := c_words st + 1\<rparr>) = Some (0, st\<lparr>c_words := c_words st + 1, c_pos := c_pos st + 2\<rparr>)"
    using cur_u16_be_word [of "st\<lparr>c_words := c_words st + 1\<rparr>" buf 0 rest] by simp
  then show ?case
    by (subst reloc_short_table.simps)+ (auto simp: rd16_def intro: exI [of _ "l_box st"])
next
  case (Cons g gs)
  obtain t offs where g: "g = (t, offs)" by (cases g)
  have G: "t < numhunks (l_seg st)" "offs \<noteq> []" "length offs < 2 ^ 16" "\<forall>v \<in> set offs. v < 2 ^ 16"
    using Cons.prems(2) g by (auto simp: short_group_def)
  let ?n = "of_nat (length offs) :: u32" and ?t = "of_nat t :: u32"
  have u: "unat ?n = length offs" "unat ?t = t" "?n \<noteq> 0"
    using G Cons.prems(3) unat_small [of "length offs"] unat_small [of t]
    by (auto simp: unat_eq_zero simp flip: unat_eq_0)
  have lt: "?n < 2 ^ 16" "?t < 2 ^ 16"
    using u G(1,3) Cons.prems(3) by (simp_all add: word_less_nat_alt)
  let ?s0 = "st\<lparr>c_words := c_words st + 1\<rparr>"
  let ?s1 = "?s0\<lparr>c_pos := c_pos st + 2\<rparr>"
  let ?s1' = "?s1\<lparr>c_words := 2 + c_words st\<rparr>"
  let ?s2 = "?s1'\<lparr>c_pos := c_pos st + 4\<rparr>"
  have c1: "cur_u16 buf ?s0 = Some (?n, ?s1)"
    "drop (c_pos st + 2) buf = be_word ?t @ concat (map be_word offs) @ concat (map group16 gs) @ be_word 0 @ rest"
    using cur_u16_be_word [of ?s0 buf ?n] Cons.prems(1) lt group16_def [of g] g by simp_all
  have c2: "cur_u16 buf ?s1' = Some (?t, ?s2)"
    "drop (c_pos ?s2) buf = concat (map be_word offs) @ concat (map group16 gs) @ be_word 0 @ rest"
    using cur_u16_be_word [of ?s1' buf ?t] c1(2) lt by (simp_all add: eval_nat_numeral)
  note O = reloc_short_offsets_out [OF c2(2) G(4), of t]
  have unfold: "reloc_short_table buf False st =
      lbind (reloc_short_offsets buf False t (length offs) ?s2) (reloc_short_table buf False)"
    using c1(1) c2(1) u G(1) by (subst reloc_short_table.simps) (simp add: rd16_def)
  show ?case
  proof (cases "reloc_short_offsets buf False t (length offs) ?s2")
    case (LOk st1)
    then obtain b where st1: "st1 = st\<lparr>l_box := b, c_pos := c_pos st + 4 + 2 * length offs,
        c_words := 2 + c_words st + of_nat (length offs)\<rparr>"
      using O by fastforce
    have "drop (c_pos st1) buf = concat (map group16 gs) @ be_word 0 @ rest"
      using arg_cong [OF c2(2), of "drop (2 * length offs)"] st1
      by (simp add: add.commute)
    moreover have "spec_relocs (l_seg st) (lasthunk st) (map (Pair t) offs) (l_box st) = Some (b, True)"
      using O LOk st1 by simp
    ultimately show ?thesis
      using Cons.IH [of st1] Cons.prems(2,3) LOk st1 unfold g
      by (simp add: spec_relocs_append algebra_simps del: add_2_eq_Suc add_2_eq_Suc')
  next
    case (LFail e st1)
    then have "spec_relocs (l_seg st) (lasthunk st) (map (Pair t) offs) (l_box st) = Some (l_box st1, False)"
      using O by simp
    then show ?thesis using LFail unfold g by (simp add: spec_relocs_append)
  next
    case LUndef
    then have "spec_relocs (l_seg st) (lasthunk st) (map (Pair t) offs) (l_box st) = None"
      using O by simp
    then show ?thesis using LUndef unfold g by (simp add: spec_relocs_append)
  qed
qed

text \<open>The padding: the reader's word count is odd exactly when the table stops halfway
  through a long.\<close>

lemma table16_pad:
  "table16 gs = concat (map group16 gs) @ be_word 0 @
     (if odd (words16 gs + 1) then [0, 0] else [])"
proof -
  have "(2 * words16 gs + 2) mod 4 = 0 \<longleftrightarrow> \<not> odd (words16 gs + 1)" by presburger
  then show ?thesis by (simp add: table16_def Let_def)
qed

lemma reloc_short_hunk_out:
  assumes "drop (c_pos st) buf = table16 gs @ rest" "\<forall>g \<in> set gs. short_group (numhunks (l_seg st)) g"
    and "numhunks (l_seg st) < 2 ^ 16"
  shows "out (reloc_short_hunk buf False st) =
      spec_relocs (l_seg st) (lasthunk st) (entries gs) (l_box st) \<and>
    (\<forall>st'. reloc_short_hunk buf False st = LOk st' \<longrightarrow> c_pos st' = c_pos st + length (table16 gs))"
proof -
  let ?st = "st\<lparr>c_words := 0\<rparr>" and ?n = "words16 gs + 1"
  have "table16 gs \<noteq> []" by (simp add: table16_pad be_word_def)
  then have len: "c_pos st + length (table16 gs) \<le> length buf"
    using arg_cong [OF assms(1), of length] by (cases "c_pos st \<le> length buf") auto
  note T = reloc_short_table_out [of ?st buf gs]
  have T': "out (reloc_short_table buf False ?st) =
      spec_relocs (l_seg st) (lasthunk st) (entries gs) (l_box st)"
    "\<And>st'. reloc_short_table buf False ?st = LOk st' \<Longrightarrow> \<exists>b. st' = st\<lparr>l_box := b,
        c_pos := c_pos st + 2 * words16 gs + 2, c_words := of_nat ?n\<rparr>"
    using T assms by (auto simp: table16_pad)
  have parity: "(of_nat ?n :: u32) AND 1 \<noteq> 0 \<longleftrightarrow> odd ?n"
    by (simp add: and_one_eq mod_2_eq_odd flip: of_nat_Suc)
  show ?thesis
  proof (cases "reloc_short_table buf False ?st")
    case (LOk st1)
    then obtain b where st1: "st1 = st\<lparr>l_box := b,
        c_pos := c_pos st + 2 * words16 gs + 2, c_words := of_nat ?n\<rparr>"
      using T'(2) by blast
    show ?thesis
      using T'(1) LOk st1 parity len
      by (auto simp: reloc_short_hunk_def Let_def table16_pad split: if_splits)
  qed (use T'(1) in \<open>auto simp: reloc_short_hunk_def\<close>)
qed

section \<open>The properties\<close>

text \<open>C12: A \<open>HUNK_RELOC32SHORT\<close> block and a \<open>HUNK_RELOC32\<close> block that list the same
  relocations have the same effect on the sandbox, errors included, and after the short
  one the cursor stands behind its padding.\<close>

theorem reloc_forms_agree:
  assumes "drop (c_pos st) buf = table32 gs @ rest" "drop (c_pos st') buf' = table16 gs @ rest'"
    and "l_seg st' = l_seg st" "lasthunk st' = lasthunk st" "l_box st' = l_box st"
    and "\<forall>g \<in> set gs. short_group (numhunks (l_seg st)) g" "numhunks (l_seg st) \<le> J4_MAX_HUNKS"
  shows "out (reloc32_table buf False st) = out (reloc_short_hunk buf' False st') \<and>
    (\<forall>st''. reloc_short_hunk buf' False st' = LOk st'' \<longrightarrow> c_pos st'' = c_pos st' + length (table16 gs))"
proof -
  have n1: "numhunks (l_seg st) < 2 ^ 16" using assms(7) by (simp add: J4_MAX_HUNKS_def)
  note n = n1 n1 [folded assms(3)] assms(6) [folded assms(3)]
  note long = conjunct1 [OF reloc32_table_out [OF assms(1,6) n(1)]]
    and short = reloc_short_hunk_out [OF assms(2) n(3,2)]
  show ?thesis
    by (rule conjI, simp only: long conjunct1 [OF short] assms(3-5), rule conjunct2 [OF short])
qed

lemma spec_relocs_adds:
  assumes "spec_relocs seg l rs sb = Some (sb', True)"
    and "sorted_wrt (\<lambda>(t, a) (t', a'). let p = j4_sandbox_host sb (hunk_base seg ! l + a);
            p' = j4_sandbox_host sb (hunk_base seg ! l + a') in p + 4 \<le> p' \<or> p' + 4 \<le> p) rs"
  shows "(\<forall>(t, a) \<in> set rs. let p = j4_sandbox_host sb (hunk_base seg ! l + a) in
        sb_read_be32 sb' p = sb_read_be32 sb p + hunk_base seg ! t) \<and>
     (\<forall>x. (\<forall>(t, a) \<in> set rs. let p = j4_sandbox_host sb (hunk_base seg ! l + a) in x < p \<or> p + 4 \<le> x)
        \<longrightarrow> jb_mem sb' x = jb_mem sb x)"
  using assms
proof (induction rs arbitrary: sb)
  case Nil then show ?case by simp
next
  case (Cons r rs)
  obtain t a where r: "r = (t, a)" by (cases r)
  let ?p = "\<lambda>a. j4_sandbox_host sb (hunk_base seg ! l + a)"
  define sb1 where "sb1 = sb_write_be32 sb (?p a) (sb_read_be32 sb (?p a) + hunk_base seg ! t)"
  have host: "j4_sandbox_host sb1 b = j4_sandbox_host sb b" for b by (simp add: sb1_def)
  have 1: "spec_relocs seg l rs sb1 = Some (sb', True)"
    using Cons.prems(1) r
    by (auto simp: spec_site_def sb1_def Let_def split: if_splits option.splits bool.splits)
  have apart: "?p a + 4 \<le> ?p a' \<or> ?p a' + 4 \<le> ?p a" if "(t', a') \<in> set rs" for t' a'
    using Cons.prems(2) that r by (fastforce simp: Let_def)
  have IH: "(\<forall>(t, a) \<in> set rs. sb_read_be32 sb' (?p a) = sb_read_be32 sb1 (?p a) + hunk_base seg ! t)"
    "\<And>x. (\<forall>(t, a) \<in> set rs. x < ?p a \<or> ?p a + 4 \<le> x) \<Longrightarrow> jb_mem sb' x = jb_mem sb1 x"
    using Cons.IH [OF 1] Cons.prems(2) unfolding host by (auto simp: Let_def)
  have "sb_read_be32 sb1 (?p a') = sb_read_be32 sb (?p a')" if "(t', a') \<in> set rs" for t' a'
    using apart [OF that] by (intro sb_read_cong) (auto simp: sb1_def sb_write_outside)
  moreover have "sb_read_be32 sb' (?p a) = sb_read_be32 sb1 (?p a)"
    using apart by (intro sb_read_cong IH(2)) fastforce
  moreover have "sb_read_be32 sb1 (?p a) = sb_read_be32 sb (?p a) + hunk_base seg ! t"
    by (simp add: sb1_def)
  moreover have "jb_mem sb1 x = jb_mem sb x" if "x < ?p a \<or> ?p a + 4 \<le> x" for x
    using that by (simp add: sb1_def sb_write_outside)
  ultimately show ?case using IH r by (auto simp: Let_def)
qed

text \<open>A relocation table that is accepted and whose sites do not overlap adds to the long
  at every site the address of its target hunk, and changes no other byte.\<close>

theorem reloc_table_adds_bases:
  assumes "drop (c_pos st) buf = table32 gs @ rest" "\<forall>g \<in> set gs. short_group (numhunks (l_seg st)) g"
    and "numhunks (l_seg st) \<le> J4_MAX_HUNKS" "reloc32_table buf False st = LOk st'"
    and "site = (\<lambda>a. j4_sandbox_host (l_box st) (hunk_base (l_seg st) ! lasthunk st + a))"
    and "sorted_wrt (\<lambda>(t, a) (t', a'). site a + 4 \<le> site a' \<or> site a' + 4 \<le> site a) (entries gs)"
  shows "(\<forall>(t, a) \<in> set (entries gs).
        sb_read_be32 (l_box st') (site a) = sb_read_be32 (l_box st) (site a) + hunk_base (l_seg st) ! t) \<and>
     (\<forall>x. (\<forall>(t, a) \<in> set (entries gs). x < site a \<or> site a + 4 \<le> x) \<longrightarrow>
        jb_mem (l_box st') x = jb_mem (l_box st) x)"
proof -
  have "spec_relocs (l_seg st) (lasthunk st) (entries gs) (l_box st) = Some (l_box st', True)"
    using reloc32_table_out [OF assms(1,2)] assms(3,4) by (simp add: J4_MAX_HUNKS_def)
  from spec_relocs_adds [OF this] assms(5,6) show ?thesis by (simp add: Let_def)
qed

section \<open>Instances\<close>

definition demo_groups :: "(nat \<times> u32 list) list" where
  "demo_groups = [(1, [0, 8]), (0, [4])]"

definition demo_lstate :: lstate where
  "demo_lstate = \<lparr>c_pos = 0, l_box = demo_jbox, l_seg = \<lparr>numhunks = 2, hunk_base = [0x1000, 0x1020],
     hunk_size = [16, 16], hunk_type = [1001, 1002], sl_entry = 0x1000\<rparr>, curhunk = 1, lasthunk = 0,
     seen_code = True, c_words = 0\<rparr>"

theorem reloc_forms_agree_witness:
  "out (reloc32_table (table32 demo_groups) False demo_lstate) =
     out (reloc_short_hunk (table16 demo_groups) False demo_lstate)"
  using reloc_forms_agree [of demo_lstate "table32 demo_groups" demo_groups "[]" demo_lstate "table16 demo_groups" "[]"]
  by (simp add: demo_lstate_def demo_groups_def short_group_def J4_MAX_HUNKS_def)

lemma demo_reloc:
  "case reloc32_table (table32 demo_groups) False demo_lstate of LOk st \<Rightarrow> True | _ \<Rightarrow> False"
  by code_simp

theorem reloc_table_adds_bases_witness:
  "\<exists>st'. reloc32_table (table32 demo_groups) False demo_lstate = LOk st' \<and>
     sb_read_be32 (l_box st') 8 = sb_read_be32 (l_box demo_lstate) 8 + 0x1020"
proof -
  obtain st' where st': "reloc32_table (table32 demo_groups) False demo_lstate = LOk st'"
    using demo_reloc by (auto split: lres.splits)
  have "sb_read_be32 (l_box st') 8 = sb_read_be32 (l_box demo_lstate) 8 + 0x1020"
    using reloc_table_adds_bases [of demo_lstate "table32 demo_groups" demo_groups "[]" st', OF _ _ _ st' refl]
    by (simp add: demo_lstate_def demo_groups_def short_group_def J4_MAX_HUNKS_def j4_sandbox_host_def demo_jbox_def)
  with st' show ?thesis by blast
qed

end
