(* ===== verification/HostMem.thy ===== *)
theory HostMem
  imports Prelude
begin

text \<open>
  The hosted exec allocator (\<open>hosted/mem.c\<close>): a \<open>MemHeader\<close> over a raw region whose free
  chunks form a singly linked list kept in the free memory itself.

  The region is a store of 64-bit words by byte address; a chunk at \<open>a\<close> has its link
  (\<open>mc_Next\<close>) at \<open>a\<close> and its size (\<open>mc_Bytes\<close>) at \<open>a + 8\<close>, and the null pointer is 0. The
  source lets a pointer to \<open>mh_First\<close> stand for a chunk so that writing its link rewrites
  the list head; here such a pointer is an option, \<open>None\<close> for the header.

  The list walks need not end (a corrupted list may be cyclic), so they are partial
  functions and \<open>None\<close> means that they do not return.
\<close>

record memheader =
  mh_First :: u64
  mh_Lower :: u64
  mh_Upper :: u64
  mh_Free :: u64
  words :: "u64 \<Rightarrow> u64"

definition MEMCHUNK_TOTAL :: u64 where "MEMCHUNK_TOTAL = 16"
definition MEMF_ANY :: u64 where "MEMF_ANY = 0"
definition MEMF_CLEAR :: u64 where "MEMF_CLEAR = push_bit 16 1"
definition MEMF_REVERSE :: u64 where "MEMF_REVERSE = push_bit 18 1"

definition ROUNDUP :: "u64 \<Rightarrow> u64 \<Rightarrow> u64" where
  "ROUNDUP x a = (x + a - 1) AND NOT (a - 1)"

definition mc_Next :: "memheader \<Rightarrow> u64 option \<Rightarrow> u64" where
  "mc_Next mh p = (case p of None \<Rightarrow> mh_First mh | Some a \<Rightarrow> words mh a)"

definition mc_Bytes :: "memheader \<Rightarrow> u64 \<Rightarrow> u64" where
  "mc_Bytes mh a = words mh (a + 8)"

definition set_Next :: "u64 option \<Rightarrow> u64 \<Rightarrow> memheader \<Rightarrow> memheader" where
  "set_Next p v mh = (case p of None \<Rightarrow> mh\<lparr>mh_First := v\<rparr> | Some a \<Rightarrow> mh\<lparr>words := (words mh)(a := v)\<rparr>)"

definition set_Bytes :: "u64 \<Rightarrow> u64 \<Rightarrow> memheader \<Rightarrow> memheader" where
  "set_Bytes a v mh = mh\<lparr>words := (words mh)(a + 8 := v)\<rparr>"

definition clear_block :: "u64 \<Rightarrow> u64 \<Rightarrow> memheader \<Rightarrow> memheader" where
  "clear_block p n mh = mh\<lparr>words := (\<lambda>a. if p \<le> a \<and> a - p < n then 0 else words mh a)\<rparr>"

section \<open>Allocate\<close>

text \<open>The scan: the result is the predecessor of the chunk to use, if any.\<close>

partial_function (option) alloc_scan ::
  "memheader \<Rightarrow> u64 \<Rightarrow> bool \<Rightarrow> u64 option \<Rightarrow> u64 \<Rightarrow> u64 option option \<Rightarrow> u64 option option option" where
  "alloc_scan mh byteSize backward p1 p2 mc =
     (if p2 = 0 then Some mc
      else if mc_Bytes mh p2 \<ge> byteSize then
        (if \<not> backward then Some (Some p1)
         else alloc_scan mh byteSize backward (Some p2) (mc_Next mh (Some p2)) (Some p1))
      else alloc_scan mh byteSize backward (Some p2) (mc_Next mh (Some p2)) mc)"

definition take_chunk :: "u64 option \<Rightarrow> u64 \<Rightarrow> memheader \<Rightarrow> u64 \<times> memheader" where
  "take_chunk p1 byteSize mh =
     (let p2 = mc_Next mh p1 in
      if mc_Bytes mh p2 = byteSize then (p2, set_Next p1 (mc_Next mh (Some p2)) mh)
      else (let rem = p2 + byteSize;
                mh = set_Next p1 rem mh;
                mh = set_Next (Some rem) (mc_Next mh (Some p2)) mh;
                mh = set_Bytes rem (mc_Bytes mh p2 - byteSize) mh in (p2, mh)))"

definition Allocate :: "memheader \<Rightarrow> u64 \<Rightarrow> u64 \<Rightarrow> (u64 \<times> memheader) option" where
  "Allocate mh sz flags =
     (if sz = 0 then Some (0, mh)
      else (let byteSize = ROUNDUP sz MEMCHUNK_TOTAL in
        if mh_Free mh < byteSize then Some (0, mh)
        else (case alloc_scan mh byteSize (flags AND MEMF_REVERSE \<noteq> 0) None (mc_Next mh None) None of
            None \<Rightarrow> None
          | Some None \<Rightarrow> Some (0, mh)
          | Some (Some p1) \<Rightarrow>
              (case take_chunk p1 byteSize mh of (mc, mh) \<Rightarrow>
                let mh = mh\<lparr>mh_Free := mh_Free mh - byteSize\<rparr> in
                Some (mc, if flags AND MEMF_CLEAR \<noteq> 0 then clear_block mc byteSize mh else mh)))))"

section \<open>Deallocate\<close>

text \<open>The search for the insertion point: \<open>Some None\<close> is the overlap with the successor.\<close>

partial_function (option) free_scan ::
  "memheader \<Rightarrow> u64 option \<Rightarrow> u64 \<Rightarrow> u64 \<Rightarrow> u64 \<Rightarrow> (u64 option \<times> u64) option option" where
  "free_scan mh p1 p2 p3 p4 =
     (if p2 \<ge> p3 then (if p4 > p2 then Some None else Some (Some (p1, p2)))
      else (let p1 = Some p2; p2 = mc_Next mh p1 in
        if p2 = 0 then Some (Some (p1, 0)) else free_scan mh p1 p2 p3 p4))"

text \<open>Merge with the next chunk if adjacent, then write the chunk at \<open>p3\<close>.\<close>

definition merge_next :: "u64 \<Rightarrow> u64 \<Rightarrow> u64 \<Rightarrow> memheader \<Rightarrow> memheader" where
  "merge_next p2 p3 p4 mh =
     (if p4 = p2 \<and> p2 \<noteq> 0 then
        (let p4 = p4 + mc_Bytes mh p2; p2 = mc_Next mh (Some p2) in set_Bytes p3 (p4 - p3) (set_Next (Some p3) p2 mh))
      else set_Bytes p3 (p4 - p3) (set_Next (Some p3) p2 mh))"

text \<open>Merge with the previous chunk if adjacent; \<open>None\<close> is the overlap with it.\<close>

definition put_chunk :: "u64 option \<Rightarrow> u64 \<Rightarrow> u64 \<Rightarrow> u64 \<Rightarrow> memheader \<Rightarrow> memheader option" where
  "put_chunk p1 p2 p3 p4 mh = (case p1 of
     None \<Rightarrow> Some (merge_next p2 p3 p4 (set_Next p1 p3 mh))
   | Some a \<Rightarrow>
       if a + mc_Bytes mh a > p3 then None
       else if a + mc_Bytes mh a = p3 then Some (merge_next p2 a p4 mh)
       else Some (merge_next p2 p3 p4 (set_Next p1 p3 mh)))"

definition Deallocate :: "memheader \<Rightarrow> u64 \<Rightarrow> u64 \<Rightarrow> (bool \<times> memheader) option" where
  "Deallocate mh addr sz =
     (if addr = 0 \<or> sz = 0 then Some (True, mh)
      else (let byteSize = ROUNDUP (sz + (addr AND (MEMCHUNK_TOTAL - 1))) MEMCHUNK_TOTAL;
                p3 = addr AND NOT (MEMCHUNK_TOTAL - 1);
                p4 = p3 + byteSize;
                p2 = mh_First mh in
        if p2 = 0 then
          (let mh = set_Bytes p3 byteSize mh; mh = set_Next (Some p3) 0 mh; mh = set_Next None p3 mh in
           Some (True, mh\<lparr>mh_Free := mh_Free mh + byteSize\<rparr>))
        else (case free_scan mh None p2 p3 p4 of
            None \<Rightarrow> None
          | Some None \<Rightarrow> Some (False, mh)
          | Some (Some (p1, p2)) \<Rightarrow>
              (case put_chunk p1 p2 p3 p4 mh of
                None \<Rightarrow> Some (False, mh)
              | Some mh \<Rightarrow> Some (True, mh\<lparr>mh_Free := mh_Free mh + byteSize\<rparr>)))))"

section \<open>Initialisation and the verifier's walks\<close>

definition mh_Init :: "u64 \<Rightarrow> u64 \<Rightarrow> (u64 \<Rightarrow> u64) \<Rightarrow> memheader" where
  "mh_Init base len w =
     (let len = len AND NOT (MEMCHUNK_TOTAL - 1) in
      \<lparr>mh_First = base, mh_Lower = base, mh_Upper = base + len, mh_Free = len,
       words = w(base := 0, base + 8 := len)\<rparr>)"

partial_function (option) chunk_count_from :: "memheader \<Rightarrow> u64 \<Rightarrow> nat \<Rightarrow> nat option" where
  "chunk_count_from mh c n =
     (if c = 0 then Some n else chunk_count_from mh (mc_Next mh (Some c)) (n + 1))"

partial_function (option) free_sum_from :: "memheader \<Rightarrow> u64 \<Rightarrow> u64 \<Rightarrow> u64 option" where
  "free_sum_from mh c s =
     (if c = 0 then Some s else free_sum_from mh (mc_Next mh (Some c)) (s + mc_Bytes mh c))"

partial_function (option) sane_from :: "memheader \<Rightarrow> u64 \<Rightarrow> u64 \<Rightarrow> bool option" where
  "sane_from mh c prev_end =
     (if c = 0 then Some True
      else if c < mh_Lower mh \<or> c + mc_Bytes mh c > mh_Upper mh then Some False
      else if c < prev_end then Some False
      else sane_from mh (mc_Next mh (Some c)) (c + mc_Bytes mh c))"

definition chunk_count :: "memheader \<Rightarrow> nat option" where
  "chunk_count mh = chunk_count_from mh (mh_First mh) 0"

definition free_sum :: "memheader \<Rightarrow> u64 option" where
  "free_sum mh = free_sum_from mh (mh_First mh) 0"

definition freelist_sane :: "memheader \<Rightarrow> bool option" where
  "freelist_sane mh = sane_from mh (mh_First mh) (mh_Lower mh)"

definition AllocMem :: "memheader \<Rightarrow> u64 \<Rightarrow> u64 \<Rightarrow> (u64 \<times> memheader) option" where
  "AllocMem sysmh sz flags = Allocate sysmh sz flags"

definition FreeMem :: "memheader \<Rightarrow> u64 \<Rightarrow> u64 \<Rightarrow> (bool \<times> memheader) option" where
  "FreeMem sysmh p sz = Deallocate sysmh p sz"

end
