(* ===== verification/HostMemFacts.thy ===== *)
theory HostMemFacts
  imports HostMem
begin

text \<open>
  Correctness of the hosted allocator. A free list is well formed when its chunks are
  aligned, ascending, inside the arena and never adjacent; it is read off the store by
  \<open>seg\<close>. The abstract view is the set of free bytes.
\<close>

section \<open>Lists in the store\<close>

type_synonym chunk = "u64 \<times> u64"

fun seg :: "(u64 \<Rightarrow> u64) \<Rightarrow> u64 \<Rightarrow> chunk list \<Rightarrow> u64 \<Rightarrow> bool" where
  "seg w p [] q \<longleftrightarrow> p = q"
| "seg w p ((a, n) # cs) q \<longleftrightarrow> p = a \<and> a \<noteq> 0 \<and> w (a + 8) = n \<and> seg w (w a) cs q"

lemma seg_append: "seg w p (us @ vs) q \<longleftrightarrow> (\<exists>r. seg w p us r \<and> seg w r vs q)"
  by (induction us arbitrary: p) auto

text \<open>The words a list occupies.\<close>

definition cells :: "chunk list \<Rightarrow> u64 set" where
  "cells cs = (\<Union>(a, n) \<in> set cs. {a, a + 8})"

lemma cells_simps [simp]:
  "cells [] = {}" "cells ((a, n) # cs) = {a, a + 8} \<union> cells cs" "cells (us @ vs) = cells us \<union> cells vs"
  by (auto simp: cells_def)

lemma seg_frame: "(\<And>c. c \<in> cells cs \<Longrightarrow> w' c = w c) \<Longrightarrow> seg w' p cs q = seg w p cs q"
  by (induction cs arbitrary: p) auto

section \<open>Well-formed lists\<close>

fun chunks_ok :: "nat \<Rightarrow> nat \<Rightarrow> chunk list \<Rightarrow> bool" where
  "chunks_ok lo hi [] \<longleftrightarrow> True"
| "chunks_ok lo hi ((a, n) # cs) \<longleftrightarrow> lo \<le> unat a \<and> unat a mod 16 = 0 \<and> 0 < unat n \<and> unat n mod 16 = 0 \<and>
     unat a + unat n \<le> hi \<and> chunks_ok (unat a + unat n + 1) hi cs"

text \<open>The least address a chunk after \<open>cs\<close> may have.\<close>

definition after :: "nat \<Rightarrow> chunk list \<Rightarrow> nat" where
  "after lo cs = (if cs = [] then lo else unat (fst (last cs)) + unat (snd (last cs)) + 1)"

lemma after_simps [simp]:
  "after lo [] = lo" "after lo ((a, n) # cs) = after (unat a + unat n + 1) cs"
  by (simp_all add: after_def)

lemma after_snoc [simp]: "after lo (cs @ [(a, n)]) = unat a + unat n + 1"
  by (simp add: after_def)

lemma chunks_ok_append: "chunks_ok lo hi (us @ vs) \<longleftrightarrow> chunks_ok lo hi us \<and> chunks_ok (after lo us) hi vs"
  by (induction us arbitrary: lo) auto

lemma chunks_ok_mono: "chunks_ok lo hi cs \<Longrightarrow> lo' \<le> lo \<Longrightarrow> chunks_ok lo' hi cs"
  by (cases cs) auto

lemma after_ge: "chunks_ok lo hi cs \<Longrightarrow> lo \<le> after lo cs"
  by (induction cs arbitrary: lo) (auto intro: le_trans, fastforce)

lemma chunk_size16: "0 < unat n \<Longrightarrow> unat n mod 16 = 0 \<Longrightarrow> 16 \<le> unat n"
  by presburger

lemma unat_plus8: "unat (a :: u64) + 16 \<le> 2 ^ 64 \<Longrightarrow> unat (a + 8) = unat a + 8"
  by (simp add: unat_word_ariths)

text \<open>A word of the list lies inside a chunk.\<close>

lemma cells_between:
  assumes "chunks_ok lo hi cs" "hi \<le> 2 ^ 64" "c \<in> cells cs"
  shows "lo \<le> unat c \<and> unat c + 8 < after lo cs \<and> unat c + 8 \<le> hi \<and> unat c mod 8 = 0"
  using assms
proof (induction cs arbitrary: lo)
  case Nil then show ?case by simp
next
  case (Cons ch cs)
  obtain a n where ch: "ch = (a, n)" by (cases ch)
  have n: "16 \<le> unat n" "unat a + unat n \<le> hi" "unat a mod 16 = 0" "lo \<le> unat a"
    "chunks_ok (unat a + unat n + 1) hi cs"
    using Cons.prems(1) ch chunk_size16 [of n] by auto
  have a8: "unat (a + 8) = unat a + 8" using n Cons.prems(2) by (intro unat_plus8) linarith
  have ge: "unat a + unat n + 1 \<le> after (unat a + unat n + 1) cs" by (rule after_ge [OF n(5)])
  show ?case
  proof (cases "c \<in> cells cs")
    case True
    then show ?thesis using Cons.IH [OF n(5) Cons.prems(2)] n ch by auto
  next
    case False
    then have "c = a \<or> c = a + 8" using Cons.prems(3) ch by auto
    moreover have "unat a mod 8 = 0" "(unat a + 8) mod 8 = 0" using n(3) by presburger+
    ultimately show ?thesis using n a8 ge ch by auto
  qed
qed

lemma cells_after:
  assumes "chunks_ok lo hi (us @ vs)" "hi \<le> 2 ^ 64" "c \<in> cells us" "d \<in> cells vs"
  shows "unat c + 8 < unat d \<or> unat c + 8 \<le> unat d"
  using cells_between [of lo hi us c] cells_between [of "after lo us" hi vs d] assms
  by (auto simp: chunks_ok_append)

definition free_ok :: "memheader \<Rightarrow> chunk list \<Rightarrow> bool" where
  "free_ok mh cs \<longleftrightarrow> seg (words mh) (mh_First mh) cs 0 \<and>
     chunks_ok (unat (mh_Lower mh)) (unat (mh_Upper mh)) cs \<and> 0 < unat (mh_Lower mh) \<and>
     unat (mh_Free mh) = sum_list (map (unat \<circ> snd) cs)"

definition free_bytes :: "chunk list \<Rightarrow> nat set" where
  "free_bytes cs = (\<Union>(a, n) \<in> set cs. {unat a ..< unat a + unat n})"

lemma free_bytes_simps [simp]:
  "free_bytes [] = {}" "free_bytes ((a, n) # cs) = {unat a ..< unat a + unat n} \<union> free_bytes cs"
  "free_bytes (us @ vs) = free_bytes us \<union> free_bytes vs"
  by (auto simp: free_bytes_def)

lemma free_bytes_between: "chunks_ok lo hi cs \<Longrightarrow> x \<in> free_bytes cs \<Longrightarrow> lo \<le> x \<and> x + 1 < after lo cs \<and> x < hi"
proof (induction cs arbitrary: lo)
  case Nil then show ?case by simp
next
  case (Cons c cs)
  obtain a n where c: "c = (a, n)" by (cases c)
  then show ?case
    using Cons.IH [of "unat a + unat n + 1"] Cons.prems after_ge [of "unat a + unat n + 1" hi cs] by force
qed

text \<open>A well-formed list is determined by the bytes it covers: adjacent chunks are merged.\<close>

lemma chunks_unique:
  "chunks_ok lo hi cs \<Longrightarrow> chunks_ok lo' hi' ds \<Longrightarrow> free_bytes cs = free_bytes ds \<Longrightarrow> cs = ds"
proof (induction cs arbitrary: ds lo lo')
  case Nil
  then show ?case by (cases ds) auto
next
  case (Cons c cs)
  obtain a n where c: "c = (a, n)" by (cases c)
  have "ds \<noteq> []" using Cons.prems(1,3) c by auto
  then obtain b m es where ds: "ds = (b, m) # es" by (cases ds) auto
  let ?x = "unat a" and ?y = "unat b"
  have A: "0 < unat n" "chunks_ok (?x + unat n + 1) hi cs" and B: "0 < unat m" "chunks_ok (?y + unat m + 1) hi' es"
    using Cons.prems c ds by auto
  have cs: "?x + unat n + 1 \<le> x" if "x \<in> free_bytes cs" for x using free_bytes_between [OF A(2) that] by simp
  have es: "?y + unat m + 1 \<le> x" if "x \<in> free_bytes es" for x using free_bytes_between [OF B(2) that] by simp
  have E: "{?x ..< ?x + unat n} \<union> free_bytes cs = {?y ..< ?y + unat m} \<union> free_bytes es"
    using Cons.prems(3) c ds by simp
  have "?x = ?y"
  proof (rule antisym)
    have "?y \<in> {?x ..< ?x + unat n} \<union> free_bytes cs" using E B(1) by auto
    then show "?x \<le> ?y" using cs by fastforce
    have "?x \<in> {?y ..< ?y + unat m} \<union> free_bytes es" using E A(1) by auto
    then show "?y \<le> ?x" using es by fastforce
  qed
  moreover have "unat n = unat m"
  proof (rule ccontr)
    assume "unat n \<noteq> unat m"
    then consider "unat n < unat m" | "unat m < unat n" by linarith
    then show False
    proof cases
      case 1
      then have "?x + unat n \<in> {?y ..< ?y + unat m} \<union> free_bytes es" using \<open>?x = ?y\<close> by simp
      then have "?x + unat n \<in> {?x ..< ?x + unat n} \<union> free_bytes cs" using E by simp
      then show False using cs by fastforce
    next
      case 2
      then have "?y + unat m \<in> {?x ..< ?x + unat n} \<union> free_bytes cs" using \<open>?x = ?y\<close> by simp
      then have "?y + unat m \<in> {?y ..< ?y + unat m} \<union> free_bytes es" using E by simp
      then show False using es by fastforce
    qed
  qed
  ultimately have ab: "a = b \<and> n = m" by (simp add: word_unat_eq_iff)
  have "free_bytes cs = free_bytes es"
  proof (intro set_eqI iffI)
    fix x assume "x \<in> free_bytes cs"
    moreover from this have "x \<in> {?y ..< ?y + unat m} \<union> free_bytes es" using E by blast
    ultimately show "x \<in> free_bytes es" using cs [of x] ab by auto
  next
    fix x assume "x \<in> free_bytes es"
    moreover from this have "x \<in> {?x ..< ?x + unat n} \<union> free_bytes cs" using E by blast
    ultimately show "x \<in> free_bytes cs" using es [of x] ab by auto
  qed
  then show ?case using Cons.IH [OF A(2) B(2)] c ds ab by simp
qed

section \<open>The scan\<close>

definition pred_of :: "chunk list \<Rightarrow> u64 option" where
  "pred_of us = (if us = [] then None else Some (fst (last us)))"

lemma pred_of_simps [simp]: "pred_of [] = None" "pred_of (us @ [(a, n)]) = Some a"
  by (simp_all add: pred_of_def)

text \<open>The prefix of the list before the chosen chunk: the first or the last that fits.\<close>

fun fit :: "u64 \<Rightarrow> bool \<Rightarrow> chunk list \<Rightarrow> chunk list \<Rightarrow> chunk list option \<Rightarrow> chunk list option" where
  "fit k backward us [] best = best"
| "fit k backward us (c # cs) best =
     (if k \<le> snd c then (if \<not> backward then Some us else fit k backward (us @ [c]) cs (Some us))
      else fit k backward (us @ [c]) cs best)"

lemma alloc_scan_fit:
  "seg (words mh) p2 cs 0 \<Longrightarrow>
   alloc_scan mh k backward (pred_of us) p2 (map_option pred_of best) = Some (map_option pred_of (fit k backward us cs best))"
proof (induction cs arbitrary: us p2 best)
  case Nil
  then show ?case by (subst alloc_scan.simps) simp
next
  case (Cons ch cs)
  obtain a n where ch: "ch = (a, n)" by (cases ch)
  have p2: "p2 = a" "a \<noteq> 0" "words mh (a + 8) = n" "seg (words mh) (words mh a) cs 0"
    using Cons.prems ch by auto
  show ?case
    using Cons.IH [OF p2(4), of "us @ [(a, n)]" "Some us"] Cons.IH [OF p2(4), of "us @ [(a, n)]" best] p2 ch
    by (cases backward; subst alloc_scan.simps) (simp_all add: mc_Bytes_def mc_Next_def)
qed

lemma fit_None: "fit k backward us cs best = None \<Longrightarrow> best = None \<and> (\<forall>c \<in> set cs. snd c < k)"
  by (induction k backward us cs best rule: fit.induct) (auto split: if_splits)

lemma fit_Some:
  "fit k backward us cs best = Some vs \<Longrightarrow> \<not> (best = Some vs \<and> (\<forall>c \<in> set cs. snd c < k)) \<Longrightarrow>
   \<exists>ws c zs. cs = ws @ c # zs \<and> vs = us @ ws \<and> k \<le> snd c \<and>
     (\<not> backward \<longrightarrow> best = None \<longrightarrow> (\<forall>d \<in> set ws. snd d < k)) \<and> (backward \<longrightarrow> (\<forall>d \<in> set zs. snd d < k))"
proof (induction cs arbitrary: us best)
  case Nil then show ?case by simp
next
  case (Cons c cs)
  consider (stop) "k \<le> snd c" "\<not> backward" | (more) "k \<le> snd c" "backward" | (skip) "\<not> k \<le> snd c" by blast
  then show ?case
  proof cases
    case stop
    then show ?thesis using Cons.prems by (intro exI [of _ "[]"]) auto
  next
    case more
    show ?thesis
    proof (cases "vs = us \<and> (\<forall>c \<in> set cs. snd c < k)")
      case True then show ?thesis using more by (intro exI [of _ "[]"]) auto
    next
      case False
      then obtain ws d zs where "cs = ws @ d # zs" "vs = (us @ [c]) @ ws" "k \<le> snd d" "\<forall>e \<in> set zs. snd e < k"
        using Cons.IH [of "us @ [c]" "Some us"] Cons.prems(1) more by auto
      then show ?thesis using more by (intro exI [of _ "c # ws"]) auto
    qed
  next
    case skip
    then obtain ws d zs where "cs = ws @ d # zs" "vs = (us @ [c]) @ ws" "k \<le> snd d"
      "\<not> backward \<longrightarrow> best = None \<longrightarrow> (\<forall>d \<in> set ws. snd d < k)" "backward \<longrightarrow> (\<forall>d \<in> set zs. snd d < k)"
      using Cons.IH [of "us @ [c]" best] Cons.prems by auto
    then show ?thesis using skip by (intro exI [of _ "c # ws"]) auto
  qed
qed

section \<open>Writing a list\<close>

definition set_Next_First :: "u64 option \<Rightarrow> u64 \<Rightarrow> u64 \<Rightarrow> u64" where
  "set_Next_First p v f = (case p of None \<Rightarrow> v | Some a \<Rightarrow> f)"

text \<open>Relinking behind a prefix keeps the prefix and continues at the new target.\<close>

lemma seg_relink:
  assumes "seg (words mh) (mh_First mh) us r" "chunks_ok lo hi us" "hi \<le> 2 ^ 64"
  shows "seg (words (set_Next (pred_of us) q mh)) (mh_First (set_Next (pred_of us) q mh)) us q"
proof (cases us rule: rev_cases)
  case Nil then show ?thesis by (simp add: set_Next_def)
next
  case (snoc vs c)
  obtain a n where c: "c = (a, n)" by (cases c)
  let ?w = "(words mh)(a := q)"
  obtain s where s: "seg (words mh) (mh_First mh) vs s" "s = a" "a \<noteq> 0" "words mh (a + 8) = n"
    using assms(1) snoc c by (auto simp: seg_append)
  have "d \<noteq> a" if "d \<in> cells vs" for d
    using cells_after [of lo hi vs "[(a, n)]" d a] assms(2,3) snoc c that by auto
  then have "seg ?w (mh_First mh) vs s" using s(1) by (subst seg_frame [where w = "words mh"]) auto
  moreover have "a + 8 \<noteq> a" by simp
  ultimately show ?thesis using s snoc c by (auto simp: set_Next_def seg_append)
qed

lemma set_Next_simps [simp]:
  "mh_Lower (set_Next p v mh) = mh_Lower mh" "mh_Upper (set_Next p v mh) = mh_Upper mh"
  "mh_Free (set_Next p v mh) = mh_Free mh" "mh_First (set_Next (Some a) v mh) = mh_First mh"
  "words (set_Next None v mh) = words mh" "words (set_Next (Some a) v mh) = (words mh)(a := v)"
  by (simp_all add: set_Next_def split: option.split)

lemma set_Bytes_simps [simp]:
  "mh_Lower (set_Bytes a v mh) = mh_Lower mh" "mh_Upper (set_Bytes a v mh) = mh_Upper mh"
  "mh_Free (set_Bytes a v mh) = mh_Free mh" "mh_First (set_Bytes a v mh) = mh_First mh"
  "words (set_Bytes a v mh) = (words mh)(a + 8 := v)"
  by (simp_all add: set_Bytes_def)

lemma mc_Next_pred: "seg (words mh) (mh_First mh) us r \<Longrightarrow> mc_Next mh (pred_of us) = r"
  by (cases us rule: rev_cases) (auto simp: mc_Next_def pred_of_def seg_append split_paired_all)

text \<open>The link of a prefix is in the prefix.\<close>

lemma set_Next_outside: "c \<notin> cells us \<Longrightarrow> words (set_Next (pred_of us) q mh) c = words mh c"
  by (cases us rule: rev_cases) (auto simp: set_Next_def pred_of_def split_paired_all)

text \<open>Writing one chunk between a prefix that leads to it and a tail.\<close>

lemma seg_insert:
  assumes "seg w f us p" "seg w q vs 0" "p \<noteq> 0"
    and "p \<notin> cells us" "p + 8 \<notin> cells us" "p \<notin> cells vs" "p + 8 \<notin> cells vs"
  shows "seg (w(p := q, p + 8 := n)) f (us @ (p, n) # vs) 0"
proof -
  let ?w = "w(p := q, p + 8 := n)"
  have "seg ?w f us p" using assms by (subst seg_frame [where w = w]) auto
  moreover have "seg ?w q vs 0" using assms by (subst seg_frame [where w = w]) auto
  moreover have "p + 8 \<noteq> p" by simp
  ultimately show ?thesis using assms(3) by (auto simp: seg_append)
qed

text \<open>The words of a list are words of its chunks.\<close>

lemma cells_free_bytes:
  assumes "chunks_ok lo hi cs" "hi \<le> 2 ^ 64" "c \<in> cells cs"
  shows "unat c \<in> free_bytes cs"
  using assms
proof (induction cs arbitrary: lo)
  case Nil then show ?case by simp
next
  case (Cons ch cs)
  obtain a n where ch: "ch = (a, n)" by (cases ch)
  have n: "16 \<le> unat n" "unat a + unat n \<le> hi" "chunks_ok (unat a + unat n + 1) hi cs"
    using Cons.prems(1) ch chunk_size16 [of n] by auto
  have "unat (a + 8) = unat a + 8" using n Cons.prems(2) by (intro unat_plus8) linarith
  then show ?case using Cons.IH [OF n(3)] Cons.prems n ch by auto
qed

section \<open>Taking a chunk\<close>

definition rest_of :: "u64 \<Rightarrow> chunk \<Rightarrow> chunk list" where
  "rest_of k c = (if snd c = k then [] else [(fst c + k, snd c - k)])"

text \<open>A cell of a list that lies elsewhere.\<close>

lemma not_cells:
  assumes "chunks_ok lo hi cs" "hi \<le> 2 ^ 64" "unat x + 8 \<le> lo \<or> after lo cs \<le> unat x + 8 \<or> hi \<le> unat x"
  shows "x \<notin> cells cs"
proof
  assume "x \<in> cells cs"
  with cells_between [OF assms(1,2) this] assms(3) show False by auto
qed

lemma take_chunk_correct:
  assumes "seg (words mh) (mh_First mh) (us @ (a, n) # vs) 0" "chunks_ok lo hi (us @ (a, n) # vs)" "hi \<le> 2 ^ 64"
    and "k \<le> n" "0 < unat k" "unat k mod 16 = 0"
  shows "\<exists>mh'. take_chunk (pred_of us) k mh = (a, mh') \<and> a \<noteq> 0 \<and>
     seg (words mh') (mh_First mh') (us @ rest_of k (a, n) @ vs) 0 \<and>
     mh_Lower mh' = mh_Lower mh \<and> mh_Upper mh' = mh_Upper mh \<and> mh_Free mh' = mh_Free mh"
proof -
  let ?p = "pred_of us"
  have S: "seg (words mh) (mh_First mh) us a" "a \<noteq> 0" "words mh (a + 8) = n" "seg (words mh) (words mh a) vs 0"
    using assms(1) by (auto simp: seg_append)
  have C: "chunks_ok lo hi us" "after lo us \<le> unat a" "unat a mod 16 = 0" "0 < unat n" "unat n mod 16 = 0"
    "unat a + unat n \<le> hi" "chunks_ok (unat a + unat n + 1) hi vs"
    using assms(2) by (auto simp: chunks_ok_append)
  have n16: "16 \<le> unat n" using C(4,5) by (rule chunk_size16)
  have a8: "unat (a + 8) = unat a + 8" using C n16 assms(3) by (intro unat_plus8) linarith
  have next_p: "mc_Next mh ?p = a" using S(1) by (rule mc_Next_pred)
  have keep: "words (set_Next ?p q mh) c = words mh c" if "c \<in> cells vs \<or> c = a \<or> c = a + 8" for c q
  proof (rule set_Next_outside)
    have "after lo us \<le> unat c"
      using that C(2,4) a8 cells_between [OF C(7) assms(3), of c] by (elim disjE) simp_all
    then show "c \<notin> cells us" by (intro not_cells [OF C(1) assms(3)]) simp
  qed
  show ?thesis
  proof (cases "n = k")
    case True
    let ?mh = "set_Next ?p (words mh a) mh"
    have "seg (words ?mh) (words mh a) vs 0"
      using S(4) keep by (subst seg_frame [where w = "words mh"]) auto
    moreover have "seg (words ?mh) (mh_First ?mh) us (words mh a)" by (rule seg_relink [OF S(1) C(1) assms(3)])
    ultimately show ?thesis
      using True next_p S by (auto simp: take_chunk_def Let_def mc_Bytes_def mc_Next_def rest_of_def seg_append)
  next
    case False
    let ?mh = "set_Next ?p (a + k) mh"
    have kn: "unat k < unat n" using False assms(4) by (simp add: word_le_nat_alt word_unat_eq_iff le_neq_implies_less)
    then have k16: "unat k + 16 \<le> unat n" "16 \<le> unat k" using kn assms(5,6) C(5) by presburger+
    have ak: "unat (a + k) = unat a + unat k" using kn C assms(3) by (simp add: unat_word_ariths)
    have ak8: "unat (a + k + 8) = unat a + unat k + 8"
      using ak k16 C assms(3) unat_plus8 [of "a + k"] by simp
    have "seg (words ?mh) (mh_First ?mh) us (a + k)" by (rule seg_relink [OF S(1) C(1) assms(3)])
    moreover have "seg (words ?mh) (words mh a) vs 0"
      using S(4) keep by (subst seg_frame [where w = "words mh"]) auto
    moreover have "a + k \<noteq> 0" using ak k16 by (metis add_is_0 not_numeral_le_zero unat_0)
    moreover have "a + k \<notin> cells us" "a + k + 8 \<notin> cells us"
      using C k16 ak ak8 by (auto intro!: not_cells [OF C(1) assms(3)])
    moreover have "a + k \<notin> cells vs" "a + k + 8 \<notin> cells vs"
      using C k16 ak ak8 by (auto intro!: not_cells [OF C(7) assms(3)])
    ultimately have "seg ((words ?mh)(a + k := words mh a, a + k + 8 := n - k)) (mh_First ?mh) (us @ (a + k, n - k) # vs) 0"
      by (rule seg_insert)
    moreover have "a \<noteq> a + k" "a + 8 \<noteq> a + k" using ak a8 k16 by auto
    ultimately show ?thesis
      using False next_p S keep by (auto simp: take_chunk_def Let_def mc_Bytes_def mc_Next_def rest_of_def)
  qed
qed

lemma take_chunk_ok:
  assumes "chunks_ok lo hi (us @ (a, n) # vs)" "hi < 2 ^ 64" "k \<le> n" "0 < unat k" "unat k mod 16 = 0"
  shows "chunks_ok lo hi (us @ rest_of k (a, n) @ vs)"
    "free_bytes (us @ rest_of k (a, n) @ vs) = free_bytes (us @ (a, n) # vs) - {unat a ..< unat a + unat k}"
    "{unat a ..< unat a + unat k} \<subseteq> free_bytes (us @ (a, n) # vs)"
    "sum_list (map (unat \<circ> snd) (us @ rest_of k (a, n) @ vs)) + unat k =
       sum_list (map (unat \<circ> snd) (us @ (a, n) # vs))"
proof -
  have C: "chunks_ok lo hi us" "after lo us \<le> unat a" "unat a mod 16 = 0" "0 < unat n" "unat n mod 16 = 0"
    "unat a + unat n \<le> hi" "chunks_ok (unat a + unat n + 1) hi vs"
    using assms(1) by (auto simp: chunks_ok_append)
  have kn: "unat k \<le> unat n" using assms(3) by (simp add: word_le_nat_alt)
  have ak: "unat (a + k) = unat a + unat k" using kn C(6) assms(2) by (simp add: unat_word_ariths)
  have nk: "unat (n - k) = unat n - unat k" using assms(3) by (rule unat_sub_if_le)
  have ne: "unat k < unat n" if "n \<noteq> k" using kn that by (simp add: le_neq_implies_less word_unat_eq_iff)
  have ge: "chunks_ok (after lo us) hi vs" by (rule chunks_ok_mono [OF C(7)]) (use C(2) in simp)
  have m: "(unat a + unat k) mod 16 = 0" "(unat n - unat k) mod 16 = 0"
    using C(3,5) assms(5) kn by (simp_all add: mod_eq_0_iff_dvd)
  show "chunks_ok lo hi (us @ rest_of k (a, n) @ vs)"
  proof (cases "n = k")
    case True
    then show ?thesis using C(1) ge by (simp add: chunks_ok_append rest_of_def)
  next
    case False
    then show ?thesis using C ne m kn by (simp add: chunks_ok_append rest_of_def ak nk)
  qed
  have us: "x < unat a" if "x \<in> free_bytes us" for x using free_bytes_between [OF C(1) that] C(2) by simp
  have vs: "unat a + unat n < x" if "x \<in> free_bytes vs" for x using free_bytes_between [OF C(7) that] by simp
  have mid: "free_bytes (rest_of k (a, n)) = {unat a + unat k ..< unat a + unat n}"
    using kn by (auto simp: rest_of_def ak nk)
  show "free_bytes (us @ rest_of k (a, n) @ vs) = free_bytes (us @ (a, n) # vs) - {unat a ..< unat a + unat k}"
    using kn us vs by (fastforce simp: mid)
  show "{unat a ..< unat a + unat k} \<subseteq> free_bytes (us @ (a, n) # vs)" using kn by auto
  show "sum_list (map (unat \<circ> snd) (us @ rest_of k (a, n) @ vs)) + unat k =
       sum_list (map (unat \<circ> snd) (us @ (a, n) # vs))"
    using kn by (simp add: rest_of_def nk)
qed

section \<open>Rounding\<close>

definition round_nat :: "nat \<Rightarrow> nat" where
  "round_nat n = (n + 15) div 16 * 16"

lemma ROUNDUP_unat:
  assumes "unat x \<le> 2 ^ 64 - 16"
  shows "unat (ROUNDUP x MEMCHUNK_TOTAL) = round_nat (unat x)"
proof -
  have "unat (x + 15) = unat x + 15" using assms by (simp add: unat_word_ariths)
  then show ?thesis
    using unat_and_not_15 [of "x + 15"] by (simp add: ROUNDUP_def MEMCHUNK_TOTAL_def round_nat_def add.commute)
qed

lemma round_nat_facts: "0 < n \<Longrightarrow> 0 < round_nat n" "round_nat n mod 16 = 0" "n \<le> round_nat n" "round_nat n < n + 16"
  unfolding round_nat_def by presburger+

lemma round_nat_id: "n mod 16 = 0 \<Longrightarrow> round_nat n = n"
  unfolding round_nat_def by presburger

section \<open>Allocation\<close>

definition block :: "u64 \<Rightarrow> nat \<Rightarrow> nat set" where
  "block p n = {unat p ..< unat p + n}"

lemma clear_block_simps [simp]:
  "mh_Lower (clear_block p n mh) = mh_Lower mh" "mh_Upper (clear_block p n mh) = mh_Upper mh"
  "mh_Free (clear_block p n mh) = mh_Free mh" "mh_First (clear_block p n mh) = mh_First mh"
  by (simp_all add: clear_block_def)

lemma clear_block_words:
  "words (clear_block p n mh) c = (if unat p \<le> unat c \<and> unat c < unat p + unat n then 0 else words mh c)"
proof -
  have "(p \<le> c \<and> c - p < n) = (unat p \<le> unat c \<and> unat c < unat p + unat n)"
    by (auto simp: word_le_nat_alt word_less_nat_alt unat_sub_if_le)
  then show ?thesis by (simp add: clear_block_def)
qed

text \<open>The whole of \<open>Allocate\<close>, with the chunk it picks.\<close>

lemma Allocate_cases:
  assumes "free_ok mh cs" "0 < unat sz" "unat sz \<le> 2 ^ 64 - 16"
    and "bw = (flags AND MEMF_REVERSE \<noteq> 0)" "k = round_nat (unat sz)"
  obtains (none) "Allocate mh sz flags = Some (0, mh)" "\<forall>c \<in> set cs. unat (snd c) < k"
  | (some) us a n vs mh' where "cs = us @ (a, n) # vs" "k \<le> unat n" "a \<noteq> 0"
    "\<not> bw \<longrightarrow> (\<forall>d \<in> set us. unat (snd d) < k)" "bw \<longrightarrow> (\<forall>d \<in> set vs. unat (snd d) < k)"
    "Allocate mh sz flags = Some (a, mh')" "free_ok mh' (us @ rest_of (of_nat k) (a, n) @ vs)"
    "mh_Lower mh' = mh_Lower mh" "mh_Upper mh' = mh_Upper mh"
    "flags AND MEMF_CLEAR \<noteq> 0 \<longrightarrow> (\<forall>c. unat c \<in> block a k \<longrightarrow> words mh' c = 0)"
proof -
  let ?K = "ROUNDUP sz MEMCHUNK_TOTAL"
  have K1: "unat ?K = k" using ROUNDUP_unat [OF assms(3)] assms(5) by simp
  have K2: "of_nat k = ?K" using arg_cong [OF K1, of "of_nat :: nat \<Rightarrow> u64"] by simp
  have K: "unat ?K = k" "of_nat k = ?K" "0 < unat ?K" "unat ?K mod 16 = 0"
    using round_nat_facts(1) [OF assms(2)] round_nat_facts(2) assms(5) K1 K2 by simp_all
  have ok: "seg (words mh) (mh_First mh) cs 0" "chunks_ok (unat (mh_Lower mh)) (unat (mh_Upper mh)) cs"
    "unat (mh_Free mh) = sum_list (map (unat \<circ> snd) cs)" "0 < unat (mh_Lower mh)"
    using assms(1) by (auto simp: free_ok_def)
  have up: "unat (mh_Upper mh) < 2 ^ 64" using unsigned_less [of "mh_Upper mh", where ?'a = nat] by simp
  have sz: "sz \<noteq> 0" using assms(2) by auto
  show thesis
  proof (cases "mh_Free mh < ?K")
    case True
    have "unat (snd c) < k" if "c \<in> set cs" for c
    proof -
      have "unat (snd c) \<le> sum_list (map (unat \<circ> snd) cs)" using that by (intro member_le_sum_list) auto
      then show ?thesis using True ok(3) K(1) by (simp add: word_less_nat_alt)
    qed
    then show thesis using True sz by (intro none) (auto simp: Allocate_def)
  next
    case False
    have scan: "alloc_scan mh ?K bw None (mc_Next mh None) None = Some (map_option pred_of (fit ?K bw [] cs None))"
      using alloc_scan_fit [OF ok(1), of ?K bw "[]" None] by (simp add: mc_Next_def)
    show thesis
    proof (cases "fit ?K bw [] cs None")
      case None
      have "\<forall>c \<in> set cs. snd c < ?K" using fit_None [OF None] by simp
      then have "\<forall>c \<in> set cs. unat (snd c) < k" using K(1) by (simp add: word_less_nat_alt)
      then show thesis using False scan None sz assms(4) by (intro none) (simp_all add: Allocate_def)
    next
      case (Some us)
      then obtain c vs where c: "cs = us @ c # vs" "?K \<le> snd c"
        "\<not> bw \<longrightarrow> (\<forall>d \<in> set us. snd d < ?K)" "bw \<longrightarrow> (\<forall>d \<in> set vs. snd d < ?K)"
        using fit_Some [OF Some] by auto
      obtain a n where an: "c = (a, n)" by (cases c)
      note S = ok(1) [unfolded c(1) an] and O = ok(2) [unfolded c(1) an]
      have kn: "?K \<le> n" using c(2) an by simp
      obtain mh1 where mh1: "take_chunk (pred_of us) ?K mh = (a, mh1)" "a \<noteq> 0"
        "seg (words mh1) (mh_First mh1) (us @ rest_of ?K (a, n) @ vs) 0"
        "mh_Lower mh1 = mh_Lower mh" "mh_Upper mh1 = mh_Upper mh" "mh_Free mh1 = mh_Free mh"
        using take_chunk_correct [OF S O less_imp_le [OF up] kn K(3,4)] by blast
      note T = take_chunk_ok [OF O up kn K(3,4)]
      let ?mh2 = "mh1\<lparr>mh_Free := mh_Free mh1 - ?K\<rparr>"
      let ?mh3 = "if flags AND MEMF_CLEAR \<noteq> 0 then clear_block a ?K ?mh2 else ?mh2"
      have alloc: "Allocate mh sz flags = Some (a, ?mh3)"
        using False scan Some sz mh1(1) assms(4) by (simp add: Allocate_def Let_def)
      have free: "unat (mh_Free ?mh2) = sum_list (map (unat \<circ> snd) (us @ rest_of ?K (a, n) @ vs))"
        using T(4) ok(3) c(1) an False mh1(6) by (simp add: unat_sub_if_le not_less)
      have outside: "x \<notin> block a k" if "x \<in> free_bytes (us @ rest_of ?K (a, n) @ vs)" for x
        using that T(2) K(1) by (auto simp: block_def)
      have seg3: "seg (words ?mh3) (mh_First ?mh3) (us @ rest_of ?K (a, n) @ vs) 0"
      proof -
        have "words ?mh3 x = words mh1 x" if "x \<in> cells (us @ rest_of ?K (a, n) @ vs)" for x
          using outside [OF cells_free_bytes [OF T(1) less_imp_le [OF up] that]] K(1)
          by (auto simp: clear_block_words block_def)
        then show ?thesis using mh1(3) by (subst seg_frame [where w = "words mh1"]) simp_all
      qed
      show thesis
      proof (rule some [OF c(1) [unfolded an] _ mh1(2) _ _ alloc])
        show "k \<le> unat n" using kn K(1) by (simp add: word_le_nat_alt)
        show "\<not> bw \<longrightarrow> (\<forall>d \<in> set us. unat (snd d) < k)" "bw \<longrightarrow> (\<forall>d \<in> set vs. unat (snd d) < k)"
          using c(3,4) K(1) by (simp_all add: word_less_nat_alt)
        show "free_ok ?mh3 (us @ rest_of (of_nat k) (a, n) @ vs)"
          using seg3 T(1) free mh1 ok(4) by (simp add: free_ok_def K(2))
        show "mh_Lower ?mh3 = mh_Lower mh" "mh_Upper ?mh3 = mh_Upper mh" using mh1 by simp_all
        show "flags AND MEMF_CLEAR \<noteq> 0 \<longrightarrow> (\<forall>c. unat c \<in> block a k \<longrightarrow> words ?mh3 c = 0)"
          using K(1) by (simp add: clear_block_words block_def)
      qed
    qed
  qed
qed

end
