(* ===== verification/HostMemFree.thy ===== *)
theory HostMemFree
  imports HostMemFacts
begin

text \<open>
  Freeing in the hosted allocator, and the properties of the allocator as a whole: what
  each call does to the set of free bytes, the detection of double frees, and that the
  free list is a function of the free bytes, so that a block given back leaves the list
  it was taken from.
\<close>

section \<open>The insertion point\<close>

definition head :: "chunk list \<Rightarrow> u64" where
  "head cs = (case cs of [] \<Rightarrow> 0 | c # _ \<Rightarrow> fst c)"

lemma head_simps [simp]: "head [] = 0" "head (c # cs) = fst c"
  by (simp_all add: head_def)

lemma seg_head: "seg w p cs 0 \<Longrightarrow> p = head cs \<and> (p = 0 \<longleftrightarrow> cs = [])"
  by (cases cs) auto

lemma free_scan_split:
  assumes "seg (words mh) p2 (vs @ ws) 0" "vs @ ws \<noteq> []"
    and "\<forall>c \<in> set vs. fst c < x" "\<forall>c \<in> set ws. x \<le> fst c"
  shows "free_scan mh (pred_of us) p2 x p4 =
     Some (if ws \<noteq> [] \<and> p4 > head ws then None else Some (pred_of (us @ vs), head ws))"
  using assms
proof (induction vs arbitrary: us p2)
  case Nil
  then obtain c cs where ws: "ws = c # cs" by (cases ws) auto
  obtain a n where "c = (a, n)" by (cases c)
  then show ?case using Nil ws by (subst free_scan.simps) simp
next
  case (Cons ch vs)
  obtain a n where ch: "ch = (a, n)" by (cases ch)
  have p2: "p2 = a" "a < x" "seg (words mh) (words mh a) (vs @ ws) 0" using Cons.prems(1,3) ch by auto
  note h = seg_head [OF p2(3)]
  show ?case
  proof (cases "vs @ ws = []")
    case True
    then have "\<not> x \<le> a" "words mh a = 0" using p2(2) h by auto
    then show ?thesis using True p2(1) ch by (subst free_scan.simps) (simp add: mc_Next_def pred_of_def)
  next
    case False
    then have "free_scan mh (pred_of us) p2 x p4 = free_scan mh (pred_of (us @ [(a, n)])) (words mh a) x p4"
    proof -
      have "\<not> x \<le> a" "words mh a \<noteq> 0" using p2(2) h False by auto
      then show ?thesis using p2(1) by (subst free_scan.simps) (simp add: mc_Next_def Let_def)
    qed
    then show ?thesis using Cons.IH [OF p2(3) False, of "us @ [(a, n)]"] Cons.prems(3,4) ch by simp
  qed
qed

section \<open>Writing the freed chunk\<close>

text \<open>What \<open>merge_next\<close> leaves behind a prefix that leads to \<open>p3\<close>.\<close>

definition merged :: "u64 \<Rightarrow> u64 \<Rightarrow> chunk list \<Rightarrow> chunk list" where
  "merged p3 p4 ws = (if ws \<noteq> [] \<and> p4 = head ws then (p3, p4 + snd (hd ws) - p3) # tl ws else (p3, p4 - p3) # ws)"

lemma merge_next_seg:
  assumes "seg (words mh) (mh_First mh) us p3" "seg (words mh) (head ws) ws 0" "p3 \<noteq> 0"
    and "p3 \<notin> cells us" "p3 + 8 \<notin> cells us" "p3 \<notin> cells ws" "p3 + 8 \<notin> cells ws"
  shows "seg (words (merge_next (head ws) p3 p4 mh)) (mh_First (merge_next (head ws) p3 p4 mh)) (us @ merged p3 p4 ws) 0"
proof (cases "ws \<noteq> [] \<and> p4 = head ws")
  case True
  then obtain a n ds where ws: "ws = (a, n) # ds" by (cases ws) auto
  have a: "a \<noteq> 0" "words mh (a + 8) = n" "seg (words mh) (words mh a) ds 0" using assms(2) ws by auto
  from seg_insert [OF assms(1) a(3) assms(3-5)] assms(6,7) show ?thesis
    using True ws a by (simp add: merge_next_def merged_def Let_def mc_Bytes_def mc_Next_def)
next
  case False
  have "\<not> (p4 = head ws \<and> head ws \<noteq> 0)" using False by (cases ws) auto
  moreover have "merged p3 p4 ws = (p3, p4 - p3) # ws" using False by (auto simp: merged_def)
  ultimately show ?thesis
    using seg_insert [OF assms(1,2,3-7)] unfolding merge_next_def by (simp only: if_False simp_thms) simp
qed

lemma merge_next_fields [simp]:
  "mh_Lower (merge_next p2 p3 p4 mh) = mh_Lower mh" "mh_Upper (merge_next p2 p3 p4 mh) = mh_Upper mh"
  "mh_Free (merge_next p2 p3 p4 mh) = mh_Free mh"
  by (simp_all add: merge_next_def Let_def)

text \<open>The list after freeing \<open>[x, p4)\<close> between \<open>vs\<close> and \<open>ws\<close>.\<close>

definition put_list :: "chunk list \<Rightarrow> u64 \<Rightarrow> u64 \<Rightarrow> chunk list \<Rightarrow> chunk list" where
  "put_list vs x p4 ws =
     (if vs \<noteq> [] \<and> fst (last vs) + snd (last vs) = x then butlast vs @ merged (fst (last vs)) p4 ws
      else vs @ merged x p4 ws)"

lemma put_chunk_seg:
  assumes "seg (words mh) (mh_First mh) (vs @ ws) 0" "chunks_ok lo hi (vs @ ws)" "hi < 2 ^ 64" "0 < lo"
    and "vs \<noteq> [] \<Longrightarrow> unat (fst (last vs)) + unat (snd (last vs)) \<le> unat x" "lo \<le> unat x" "unat x + 16 \<le> hi"
    and "ws \<noteq> [] \<Longrightarrow> unat x + 16 \<le> unat (head ws)"
  shows "\<exists>mh'. put_chunk (pred_of vs) (head ws) x p4 mh = Some mh' \<and>
     seg (words mh') (mh_First mh') (put_list vs x p4 ws) 0 \<and>
     mh_Lower mh' = mh_Lower mh \<and> mh_Upper mh' = mh_Upper mh \<and> mh_Free mh' = mh_Free mh"
proof -
  obtain r where S: "seg (words mh) (mh_First mh) vs r" "seg (words mh) r ws 0"
    using assms(1) by (auto simp: seg_append)
  have r: "r = head ws" using seg_head [OF S(2)] by simp
  have C: "chunks_ok lo hi vs" "chunks_ok (after lo vs) hi ws" using assms(2) by (auto simp: chunks_ok_append)
  have hi: "hi \<le> 2 ^ 64" using assms(3) by simp
  have x8: "unat (x + 8) = unat x + 8" using assms(3,7) by (intro unat_plus8) linarith
  have x0: "x \<noteq> 0" using assms(4,6) by auto
  have ws_lo: "chunks_ok (unat x + 16) hi ws"
  proof (cases ws)
    case (Cons c cs) then show ?thesis using C(2) assms(8) by (cases c) auto
  qed simp
  have xw: "x \<notin> cells ws" "x + 8 \<notin> cells ws" using x8 by (auto intro!: not_cells [OF ws_lo hi])
  have xv: "x \<notin> cells vs" "x + 8 \<notin> cells vs"
  proof -
    have "after lo vs \<le> unat x + 1" using assms(5,6) by (simp add: after_def)
    then show "x \<notin> cells vs" "x + 8 \<notin> cells vs" using x8 by (auto intro!: not_cells [OF C(1) hi])
  qed
  show ?thesis
  proof (cases vs rule: rev_cases)
    case Nil
    then have "seg (words (set_Next None x mh)) (mh_First (set_Next None x mh)) [] x" by (simp add: set_Next_def)
    from merge_next_seg [OF this _ x0] Nil S(2) r xw show ?thesis
      by (simp add: put_chunk_def put_list_def)
  next
    case (snoc us c)
    obtain b m where c: "c = (b, m)" by (cases c)
    have B: "seg (words mh) (mh_First mh) us b" "b \<noteq> 0" "words mh (b + 8) = m"
      using S(1) snoc c by (auto simp: seg_append)
    have D: "chunks_ok lo hi us" "after lo us \<le> unat b" "unat b mod 16 = 0" "0 < unat m" "unat m mod 16 = 0"
      "unat b + unat m \<le> hi" "chunks_ok (unat b + unat m + 1) hi ws"
      using C snoc c by (auto simp: chunks_ok_append)
    have m16: "16 \<le> unat m" using D(4,5) by (rule chunk_size16)
    have b8: "unat (b + 8) = unat b + 8" using D(6) m16 hi by (intro unat_plus8) linarith
    have bm: "unat (b + m) = unat b + unat m" using D(6) assms(3) by (simp add: unat_word_ariths)
    have le: "\<not> b + m > x" using assms(5) snoc c bm by (simp add: word_le_nat_alt not_less)
    show ?thesis
    proof (cases "b + m = x")
      case True
      have "b \<notin> cells us" "b + 8 \<notin> cells us" using D(2) b8 by (auto intro!: not_cells [OF D(1) hi])
      moreover have "b \<notin> cells ws" "b + 8 \<notin> cells ws" using D b8 m16 by (auto intro!: not_cells [OF D(7) hi])
      ultimately show ?thesis
        using merge_next_seg [OF B(1) _ B(2), of ws] S(2) r True le snoc c B(3)
        by (simp add: put_chunk_def put_list_def mc_Bytes_def)
    next
      case False
      let ?mh = "set_Next (Some b) x mh"
      have "seg (words (set_Next (pred_of vs) x mh)) (mh_First (set_Next (pred_of vs) x mh)) vs x"
        by (rule seg_relink [OF S(1) C(1) hi])
      then have 1: "seg (words ?mh) (mh_First ?mh) vs x" using snoc c by simp
      have "b \<notin> cells ws" using D b8 m16 by (auto intro!: not_cells [OF D(7) hi])
      then have 2: "seg (words ?mh) (head ws) ws 0"
        using S(2) r by (subst seg_frame [where w = "words mh"]) auto
      show ?thesis
        using merge_next_seg [OF 1 2 x0 xv xw] False le snoc c B(3)
        by (simp add: put_chunk_def put_list_def mc_Bytes_def)
    qed
  qed
qed

section \<open>The list after freeing\<close>

lemma merged_ok:
  assumes "chunks_ok lo' hi ws" "hi < 2 ^ 64" "lo \<le> unat p3" "unat p3 mod 16 = 0"
    and "unat p4 = unat p3 + s" "0 < s" "s mod 16 = 0" "unat p3 + s \<le> hi"
    and "ws \<noteq> [] \<Longrightarrow> unat p3 + s \<le> unat (head ws)"
  shows "chunks_ok lo hi (merged p3 p4 ws)"
    "free_bytes (merged p3 p4 ws) = {unat p3 ..< unat p3 + s} \<union> free_bytes ws"
    "sum_list (map (unat \<circ> snd) (merged p3 p4 ws)) = s + sum_list (map (unat \<circ> snd) ws)"
proof -
  have s: "unat (p4 - p3) = s"
    using assms(5) by (subst unat_sub_if_le) (simp_all add: word_le_nat_alt)
  have "chunks_ok lo hi (merged p3 p4 ws) \<and> free_bytes (merged p3 p4 ws) = {unat p3 ..< unat p3 + s} \<union> free_bytes ws
    \<and> sum_list (map (unat \<circ> snd) (merged p3 p4 ws)) = s + sum_list (map (unat \<circ> snd) ws)"
  proof (cases "ws \<noteq> [] \<and> p4 = head ws")
    case True
    then obtain a n ds where ws: "ws = (a, n) # ds" by (cases ws) auto
    have a: "a = p4" "0 < unat n" "unat n mod 16 = 0" "unat a + unat n \<le> hi" "chunks_ok (unat a + unat n + 1) hi ds"
      using assms(1) True ws by auto
    have "unat (p4 + n) = unat p4 + unat n" using a assms(2) by (simp add: unat_word_ariths)
    then have "unat (p4 + n - p3) = s + unat n"
      using assms(5) by (subst unat_sub_if_le) (simp_all add: word_le_nat_alt)
    then have m: "merged p3 p4 ws = (p3, p4 + n - p3) # ds" "unat (p4 + n - p3) = s + unat n"
      using True ws by (simp_all add: merged_def)
    have "(s + unat n) mod 16 = 0" using assms(7) a(3) by presburger
    moreover have e: "unat p3 + (s + unat n) = unat a + unat n" using a(1) assms(5) by simp
    ultimately have "chunks_ok lo hi (merged p3 p4 ws)"
      unfolding m chunks_ok.simps e using assms(3,4,6) a(4,5) by simp
    moreover have "{unat p3 ..< unat p3 + (s + unat n)} = {unat p3 ..< unat p3 + s} \<union> {unat a ..< unat a + unat n}"
      using e a(1) assms(5) by auto
    ultimately show ?thesis using m ws by (simp add: Un_assoc)
  next
    case False
    then have m: "merged p3 p4 ws = (p3, p4 - p3) # ws" by (auto simp: merged_def)
    have "chunks_ok (unat p3 + s + 1) hi ws"
    proof (cases ws)
      case (Cons c cs)
      then have "unat p3 + s \<noteq> unat (fst c)" using False assms(5) by (simp add: word_unat_eq_iff)
      then show ?thesis using assms(1,9) Cons by (cases c) auto
    qed simp
    then show ?thesis using assms s by (simp add: m)
  qed
  then show "chunks_ok lo hi (merged p3 p4 ws)"
    "free_bytes (merged p3 p4 ws) = {unat p3 ..< unat p3 + s} \<union> free_bytes ws"
    "sum_list (map (unat \<circ> snd) (merged p3 p4 ws)) = s + sum_list (map (unat \<circ> snd) ws)" by auto
qed

lemma put_list_ok:
  assumes "chunks_ok lo hi (vs @ ws)" "hi < 2 ^ 64" "lo \<le> unat x" "unat x mod 16 = 0"
    and "unat p4 = unat x + k" "0 < k" "k mod 16 = 0" "unat x + k \<le> hi"
    and "vs \<noteq> [] \<Longrightarrow> unat (fst (last vs)) + unat (snd (last vs)) \<le> unat x"
    and "ws \<noteq> [] \<Longrightarrow> unat x + k \<le> unat (head ws)"
  shows "chunks_ok lo hi (put_list vs x p4 ws) \<and>
    free_bytes (put_list vs x p4 ws) = free_bytes (vs @ ws) \<union> {unat x ..< unat x + k} \<and>
    sum_list (map (unat \<circ> snd) (put_list vs x p4 ws)) = sum_list (map (unat \<circ> snd) (vs @ ws)) + k"
proof (cases "vs \<noteq> [] \<and> fst (last vs) + snd (last vs) = x")
  case True
  then obtain us b m where vs: "vs = us @ [(b, m)]" by (cases vs rule: rev_cases) auto
  have D: "chunks_ok lo hi us" "after lo us \<le> unat b" "unat b mod 16 = 0" "0 < unat m" "unat m mod 16 = 0"
    "unat b + unat m \<le> hi" "chunks_ok (unat b + unat m + 1) hi ws"
    using assms(1) vs by (auto simp: chunks_ok_append)
  have bm: "unat x = unat b + unat m" using True vs D(6) assms(2) by (auto simp: unat_word_ariths)
  have s: "(unat m + k) mod 16 = 0" using assms(7) D(5) by presburger
  have p4: "unat p4 = unat b + (unat m + k)" using assms(5) bm by simp
  have hd: "ws \<noteq> [] \<Longrightarrow> unat b + (unat m + k) \<le> unat (head ws)" using assms(10) bm by simp
  have M: "chunks_ok (after lo us) hi (merged b p4 ws)"
    "free_bytes (merged b p4 ws) = {unat b ..< unat b + (unat m + k)} \<union> free_bytes ws"
    "sum_list (map (unat \<circ> snd) (merged b p4 ws)) = unat m + k + sum_list (map (unat \<circ> snd) ws)"
    using merged_ok [OF D(7) assms(2) D(2,3) p4 _ s _ hd] assms(6,8) bm by auto
  have "put_list vs x p4 ws = us @ merged b p4 ws" using True vs by (simp add: put_list_def)
  moreover have "{unat b ..< unat b + (unat m + k)} = {unat b ..< unat b + unat m} \<union> {unat x ..< unat x + k}"
    using bm by auto
  ultimately show ?thesis using M D(1) vs by (simp add: chunks_ok_append Un_ac)
next
  case False
  have C: "chunks_ok lo hi vs" "chunks_ok (after lo vs) hi ws" using assms(1) by (auto simp: chunks_ok_append)
  have "after lo vs \<le> unat x"
  proof (cases vs rule: rev_cases)
    case Nil then show ?thesis using assms(3) by simp
  next
    case (snoc us c)
    obtain b m where c: "c = (b, m)" by (cases c)
    have "unat b + unat m \<le> hi" using C(1) snoc c by (simp add: chunks_ok_append)
    then have "unat (b + m) = unat b + unat m" using assms(2) by (simp add: unat_word_ariths)
    then have "unat b + unat m \<noteq> unat x" using False snoc c by (auto simp: word_unat_eq_iff)
    then show ?thesis using assms(9) snoc c by simp
  qed
  from merged_ok [OF C(2) assms(2) this assms(4-8,10)] show ?thesis
    using False C by (auto simp: put_list_def chunks_ok_append)
qed

section \<open>Freeing\<close>

lemma chunks_sum: "chunks_ok lo hi cs \<Longrightarrow> lo \<le> hi \<or> cs \<noteq> [] \<Longrightarrow> lo + sum_list (map (unat \<circ> snd) cs) \<le> hi"
proof (induction cs arbitrary: lo)
  case Nil then show ?case by simp
next
  case (Cons c cs)
  obtain a n where c: "c = (a, n)" by (cases c)
  have C: "lo \<le> unat a" "unat a + unat n \<le> hi" "chunks_ok (unat a + unat n + 1) hi cs" using Cons.prems c by auto
  then show ?case using Cons.IH [OF C(3)] c by (cases cs) auto
qed

lemma chunks_above: "chunks_ok lo hi cs \<Longrightarrow> c \<in> set cs \<Longrightarrow> lo \<le> unat (fst c) \<and> unat (fst c) + unat (snd c) < after lo cs"
proof (induction cs arbitrary: lo)
  case Nil then show ?case by simp
next
  case (Cons d cs)
  obtain a n where d: "d = (a, n)" by (cases d)
  have C: "lo \<le> unat a" "chunks_ok (unat a + unat n + 1) hi cs" using Cons.prems d by auto
  then show ?case using Cons.IH [OF C(2)] Cons.prems(2) d after_ge [OF C(2)] by fastforce
qed

lemma chunks_split:
  "chunks_ok lo hi cs \<Longrightarrow> \<exists>vs ws. cs = vs @ ws \<and> (\<forall>c \<in> set vs. fst c < x) \<and> (\<forall>c \<in> set ws. x \<le> fst c)"
proof (induction cs arbitrary: lo)
  case Nil then show ?case by simp
next
  case (Cons c cs)
  obtain a n where c: "c = (a, n)" by (cases c)
  have C: "chunks_ok (unat a + unat n + 1) hi cs" using Cons.prems c by simp
  show ?case
  proof (cases "a < x")
    case True
    obtain vs ws where "cs = vs @ ws" "\<forall>c \<in> set vs. fst c < x" "\<forall>c \<in> set ws. x \<le> fst c"
      using Cons.IH [OF C] by blast
    then show ?thesis using True c by (intro exI [of _ "c # vs"] exI [of _ ws]) auto
  next
    case False
    have "x \<le> fst d" if "d \<in> set cs" for d
      using chunks_above [OF C that] False by (simp add: word_le_nat_alt not_less)
    then show ?thesis using False c by (intro exI [of _ "[]"] exI [of _ "c # cs"]) auto
  qed
qed

text \<open>The block a call of \<open>Deallocate\<close> names: aligned down, with its size rounded up.\<close>

definition freed_at :: "u64 \<Rightarrow> nat" where "freed_at addr = unat addr div 16 * 16"

definition freed_size :: "u64 \<Rightarrow> u64 \<Rightarrow> nat" where "freed_size addr sz = round_nat (unat sz + unat addr mod 16)"

definition freed :: "u64 \<Rightarrow> u64 \<Rightarrow> nat set" where
  "freed addr sz = {freed_at addr ..< freed_at addr + freed_size addr sz}"

lemma freed_words:
  assumes "freed_at addr + freed_size addr sz < 2 ^ 64" "sz \<noteq> 0"
  defines "x \<equiv> addr AND NOT (MEMCHUNK_TOTAL - 1)"
    and "k \<equiv> ROUNDUP (sz + (addr AND (MEMCHUNK_TOTAL - 1))) MEMCHUNK_TOTAL"
  shows "unat x = freed_at addr" "unat k = freed_size addr sz" "unat (x + k) = unat x + unat k"
    "unat x mod 16 = 0" "0 < unat k" "unat k mod 16 = 0"
proof -
  let ?s = "unat sz + unat addr mod 16"
  have s: "?s \<le> round_nat ?s" "round_nat ?s mod 16 = 0" "round_nat ?s < 2 ^ 64"
    using assms(1) round_nat_facts by (auto simp: freed_size_def)
  obtain q where "round_nat ?s = 16 * q" using s(2) by (auto elim: dvdE simp: mod_eq_0_iff_dvd)
  then have le: "?s \<le> 2 ^ 64 - 16" using s(1,3) by simp
  then have "unat sz + unat (addr AND 15) < 2 ^ LENGTH(64)" by (simp add: unat_and_15)
  then have sum: "unat (sz + (addr AND 15)) = ?s" by (simp add: unat_add_lem [THEN iffD1] unat_and_15)
  show x: "unat x = freed_at addr"
    using unat_and_not_15 [of addr] by (simp add: x_def MEMCHUNK_TOTAL_def freed_at_def)
  show k: "unat k = freed_size addr sz"
    using ROUNDUP_unat [of "sz + (addr AND 15)"] sum le
    by (simp add: k_def MEMCHUNK_TOTAL_def freed_size_def)
  show "unat (x + k) = unat x + unat k" using assms(1) x k by (simp add: unat_word_ariths)
  show "unat x mod 16 = 0" "unat k mod 16 = 0" using x k s(2) by (simp_all add: freed_at_def freed_size_def)
  have "0 < unat sz" using assms(2) by (simp add: unat_gt_0)
  then show "0 < unat k" using k s(1) by (simp add: freed_size_def)
qed

lemma Deallocate_frees:
  assumes "free_ok mh cs" "addr \<noteq> 0" "sz \<noteq> 0"
    and "unat (mh_Lower mh) \<le> freed_at addr" "freed_at addr + freed_size addr sz \<le> unat (mh_Upper mh)"
    and "freed addr sz \<inter> free_bytes cs = {}"
  shows "\<exists>mh' cs'. Deallocate mh addr sz = Some (True, mh') \<and> free_ok mh' cs' \<and>
     free_bytes cs' = free_bytes cs \<union> freed addr sz \<and>
     mh_Lower mh' = mh_Lower mh \<and> mh_Upper mh' = mh_Upper mh"
proof -
  define x where "x = addr AND NOT (MEMCHUNK_TOTAL - 1)"
  define k where "k = ROUNDUP (sz + (addr AND (MEMCHUNK_TOTAL - 1))) MEMCHUNK_TOTAL"
  have up: "unat (mh_Upper mh) < 2 ^ 64" using unsigned_less [of "mh_Upper mh", where ?'a = nat] by simp
  have W: "unat x = freed_at addr" "unat k = freed_size addr sz" "unat (x + k) = unat x + unat k"
    "unat x mod 16 = 0" "0 < unat k" "unat k mod 16 = 0"
    using freed_words [of addr sz] assms(3,5) up unfolding x_def k_def by auto
  have fr: "freed addr sz = {unat x ..< unat x + unat k}" using W by (simp add: freed_def)
  have k16: "16 \<le> unat k" using W(5,6) by (rule chunk_size16)
  have ok: "seg (words mh) (mh_First mh) cs 0" "chunks_ok (unat (mh_Lower mh)) (unat (mh_Upper mh)) cs"
    "unat (mh_Free mh) = sum_list (map (unat \<circ> snd) cs)" "0 < unat (mh_Lower mh)"
    using assms(1) by (auto simp: free_ok_def)
  show ?thesis
  proof (cases "cs = []")
    case True
    then have "mh_First mh = 0" "mh_Free mh = 0" using ok(1,3) by (auto simp: unat_eq_zero)
    moreover have "x \<noteq> 0" using ok(4) assms(4) W(1) by auto
    ultimately show ?thesis
      using True assms W up ok
      by (intro exI [of _ "(set_Next None x (set_Next (Some x) 0 (set_Bytes x k mh)))\<lparr>mh_Free := k\<rparr>"] exI [of _ "[(x, k)]"])
        (auto simp: Deallocate_def Let_def free_ok_def fr set_Next_def simp flip: x_def k_def)
  next
    case False
    obtain vs ws where cs: "cs = vs @ ws" "\<forall>c \<in> set vs. fst c < x" "\<forall>c \<in> set ws. x \<le> fst c"
      using chunks_split [OF ok(2)] by blast
    have C: "chunks_ok (unat (mh_Lower mh)) (unat (mh_Upper mh)) vs"
      "chunks_ok (after (unat (mh_Lower mh)) vs) (unat (mh_Upper mh)) ws"
      using ok(2) cs(1) by (auto simp: chunks_ok_append)
    have hd: "unat x + unat k \<le> unat (head ws)" if ne: "ws \<noteq> []"
    proof -
      obtain a n ds where ws: "ws = (a, n) # ds" using ne by (cases ws) auto
      then have "0 < unat n" "x \<le> a" using C(2) cs(3) by auto
      then have "unat a \<in> free_bytes cs" "unat x \<le> unat a" using cs(1) ws by (auto simp: word_le_nat_alt)
      then have "unat a \<notin> {unat x ..< unat x + unat k}" using assms(6) fr by blast
      then show ?thesis using \<open>unat x \<le> unat a\<close> ws by simp
    qed
    have lst: "unat (fst (last vs)) + unat (snd (last vs)) \<le> unat x" if ne: "vs \<noteq> []"
    proof -
      obtain us b m where vs: "vs = us @ [(b, m)]" using ne by (cases vs rule: rev_cases) auto
      then have "b < x" using cs(2) by simp
      moreover have "unat x \<notin> {unat b ..< unat b + unat m}"
      proof
        assume "unat x \<in> {unat b ..< unat b + unat m}"
        then have "unat x \<in> free_bytes cs" using cs(1) vs by simp
        then show False using assms(6) fr W(5) by auto
      qed
      ultimately show ?thesis using vs by (auto simp: word_less_nat_alt)
    qed
    have scan: "free_scan mh None (mh_First mh) x (x + k) = Some (Some (pred_of vs, head ws))"
    proof -
      have "\<not> (ws \<noteq> [] \<and> x + k > head ws)" using hd W(3) by (auto simp: word_less_nat_alt)
      then show ?thesis
        using free_scan_split [OF ok(1) [unfolded cs(1)] False [unfolded cs(1)] cs(2,3), of "[]" "x + k"] by auto
    qed
    have x16: "unat x + 16 \<le> unat (mh_Upper mh)" "ws \<noteq> [] \<Longrightarrow> unat x + 16 \<le> unat (head ws)"
      using k16 W(1,2) assms(5) hd by fastforce+
    have lo: "unat (mh_Lower mh) \<le> unat x" using assms(4) W(1) by simp
    obtain mh1 where mh1: "put_chunk (pred_of vs) (head ws) x (x + k) mh = Some mh1"
      "seg (words mh1) (mh_First mh1) (put_list vs x (x + k) ws) 0"
      "mh_Lower mh1 = mh_Lower mh" "mh_Upper mh1 = mh_Upper mh" "mh_Free mh1 = mh_Free mh"
      using put_chunk_seg [OF ok(1) [unfolded cs(1)] ok(2) [unfolded cs(1)] up ok(4) lst lo x16] by blast
    have L: "chunks_ok (unat (mh_Lower mh)) (unat (mh_Upper mh)) (put_list vs x (x + k) ws)"
      "free_bytes (put_list vs x (x + k) ws) = free_bytes cs \<union> freed addr sz"
      "sum_list (map (unat \<circ> snd) (put_list vs x (x + k) ws)) = unat (mh_Free mh) + unat k"
      using put_list_ok [OF ok(2) [unfolded cs(1)] up lo W(4,3,5,6) _ lst hd] assms(5) W ok(3) cs(1) fr by auto
    have "unat (mh_Lower mh) \<le> unat (mh_Upper mh)" using lo x16(1) by simp
    then have "unat (mh_Free mh) + unat k < 2 ^ 64" using chunks_sum [OF L(1)] L(3) up by simp
    then have "unat (mh_Free mh + k) = unat (mh_Free mh) + unat k" by (simp add: unat_word_ariths)
    moreover have "mh_First mh \<noteq> 0" using seg_head [OF ok(1)] False by blast
    moreover have "Deallocate mh addr sz = Some (True, mh1\<lparr>mh_Free := mh_Free mh1 + k\<rparr>)"
      using assms(2,3) \<open>mh_First mh \<noteq> 0\<close> scan mh1(1) by (simp add: Deallocate_def Let_def flip: x_def k_def)
    ultimately show ?thesis using L mh1 ok(4) by (auto simp: free_ok_def)
  qed
qed

lemma Deallocate_overlap:
  assumes "free_ok mh cs" "addr \<noteq> 0" "sz \<noteq> 0" "freed_at addr + freed_size addr sz < 2 ^ 64"
    and "freed addr sz \<inter> free_bytes cs \<noteq> {}"
  shows "Deallocate mh addr sz = Some (False, mh)"
proof -
  define x where "x = addr AND NOT (MEMCHUNK_TOTAL - 1)"
  define k where "k = ROUNDUP (sz + (addr AND (MEMCHUNK_TOTAL - 1))) MEMCHUNK_TOTAL"
  have up: "unat (mh_Upper mh) < 2 ^ 64" using unsigned_less [of "mh_Upper mh", where ?'a = nat] by simp
  have W: "unat x = freed_at addr" "unat k = freed_size addr sz" "unat (x + k) = unat x + unat k"
    using freed_words [OF assms(4,3)] unfolding x_def k_def by auto
  have fr: "freed addr sz = {unat x ..< unat x + unat k}" using W by (simp add: freed_def)
  have ok: "seg (words mh) (mh_First mh) cs 0" "chunks_ok (unat (mh_Lower mh)) (unat (mh_Upper mh)) cs"
    using assms(1) by (auto simp: free_ok_def)
  have ne: "cs \<noteq> []" using assms(5) by auto
  then have f0: "mh_First mh \<noteq> 0" using seg_head [OF ok(1)] by blast
  obtain vs ws where cs: "cs = vs @ ws" "\<forall>c \<in> set vs. fst c < x" "\<forall>c \<in> set ws. x \<le> fst c"
    using chunks_split [OF ok(2)] by blast
  note scan = free_scan_split [OF ok(1) [unfolded cs(1)] ne [unfolded cs(1)] cs(2,3), of "[]" "x + k"]
  show ?thesis
  proof (cases "ws \<noteq> [] \<and> x + k > head ws")
    case True
    then show ?thesis
      using scan f0 assms(2,3) by (simp add: Deallocate_def Let_def flip: x_def k_def)
  next
    case False
    have C: "chunks_ok (unat (mh_Lower mh)) (unat (mh_Upper mh)) vs"
      "chunks_ok (after (unat (mh_Lower mh)) vs) (unat (mh_Upper mh)) ws"
      using ok(2) cs(1) by (auto simp: chunks_ok_append)
    obtain y where y: "unat x \<le> y" "y < unat x + unat k" "y \<in> free_bytes cs" using assms(5) fr by auto
    have "y \<notin> free_bytes ws"
    proof (cases ws)
      case (Cons c ds)
      obtain a n where c: "c = (a, n)" by (cases c)
      have "unat x + unat k \<le> unat a" using False W(3) Cons c by (simp add: word_less_nat_alt not_less)
      moreover have "chunks_ok (unat a) (unat (mh_Upper mh)) ws" using C(2) Cons c by simp
      ultimately show ?thesis using y(2) free_bytes_between [of "unat a" _ ws y] by auto
    qed simp
    then have yv: "y \<in> free_bytes vs" using y(3) cs(1) by simp
    then obtain us b m where vs: "vs = us @ [(b, m)]" by (cases vs rule: rev_cases) auto
    have "y < unat b + unat m" using free_bytes_between [OF C(1) yv] vs by simp
    moreover have "unat b + unat m \<le> unat (mh_Upper mh)" using C(1) vs by (simp add: chunks_ok_append)
    ultimately have "b + m > x"
      using y(1) up by (simp add: word_less_nat_alt unat_word_ariths)
    moreover have "words mh (b + 8) = m" using ok(1) cs(1) vs by (auto simp: seg_append)
    ultimately have "put_chunk (pred_of vs) (head ws) x (x + k) mh = None"
      using vs by (simp add: put_chunk_def mc_Bytes_def)
    then show ?thesis
      using scan False f0 assms(2,3) by (auto simp: Deallocate_def Let_def simp flip: x_def k_def)
  qed
qed

end
