(* ===== verification/HostMemProps.thy ===== *)
theory HostMemProps
  imports HostMemFree
begin

text \<open>
  The contract of the hosted allocator as an interface on sets of free bytes
  (\<open>block_heap\<close>), its interpretation on the model of \<open>hosted/mem.c\<close>, and the properties.
\<close>

section \<open>The interface\<close>

text \<open>What a client of \<open>AllocMem\<close> and \<open>FreeMem\<close> relies on: sets of bytes, no lists.\<close>

locale block_heap =
  fixes ok :: "'h \<Rightarrow> bool" and arena :: "'h \<Rightarrow> nat set" and avail :: "'h \<Rightarrow> nat set"
    and good :: "u64 \<Rightarrow> bool" and rounded :: "u64 \<Rightarrow> nat"
    and alloc :: "'h \<Rightarrow> u64 \<Rightarrow> (u64 \<times> 'h) option"
    and dealloc :: "'h \<Rightarrow> u64 \<Rightarrow> u64 \<Rightarrow> (bool \<times> 'h) option"
  assumes rounded_pos: "good n \<Longrightarrow> 0 < rounded n"
    and avail_arena: "ok h \<Longrightarrow> avail h \<subseteq> arena h"
    and alloc_law: "ok h \<Longrightarrow> good n \<Longrightarrow> \<exists>p h'. alloc h n = Some (p, h') \<and> ok h' \<and> arena h' = arena h \<and>
      unat p mod 16 = 0 \<and>
      (if p = 0 then h' = h
       else block p (rounded n) \<subseteq> avail h \<and> avail h' = avail h - block p (rounded n))"
    and free_law: "ok h \<Longrightarrow> good n \<Longrightarrow> p \<noteq> 0 \<Longrightarrow> unat p mod 16 = 0 \<Longrightarrow> block p (rounded n) \<subseteq> arena h \<Longrightarrow>
      block p (rounded n) \<inter> avail h = {} \<Longrightarrow>
      \<exists>h'. dealloc h p n = Some (True, h') \<and> ok h' \<and> arena h' = arena h \<and> avail h' = avail h \<union> block p (rounded n)"
    and twice_law: "ok h \<Longrightarrow> good n \<Longrightarrow> p \<noteq> 0 \<Longrightarrow> unat p mod 16 = 0 \<Longrightarrow> block p (rounded n) \<subseteq> arena h \<Longrightarrow>
      block p (rounded n) \<inter> avail h \<noteq> {} \<Longrightarrow> dealloc h p n = Some (False, h)"
begin

lemma allocated:
  assumes "ok h" "good n" "alloc h n = Some (p, h')" "p \<noteq> 0"
  shows "ok h' \<and> arena h' = arena h \<and> unat p mod 16 = 0 \<and> block p (rounded n) \<subseteq> avail h \<and>
     avail h' = avail h - block p (rounded n)"
  using alloc_law [OF assms(1,2)] assms(3,4) by auto

text \<open>Two blocks handed out one after the other do not overlap.\<close>

lemma blocks_disjoint:
  assumes "ok h" "good n" "alloc h n = Some (p, h1)" "p \<noteq> 0" "good m" "alloc h1 m = Some (q, h2)" "q \<noteq> 0"
  shows "block p (rounded n) \<inter> block q (rounded m) = {}"
proof -
  note A = allocated [OF assms(1-4)]
  then have "block q (rounded m) \<subseteq> avail h1" using allocated [of h1 m q h2] assms(5-7) by simp
  then show ?thesis using A by blast
qed

text \<open>Giving back what was just taken restores the free bytes; giving it back twice is refused.\<close>

lemma free_restores:
  assumes "ok h" "good n" "alloc h n = Some (p, h1)" "p \<noteq> 0"
  shows "\<exists>h2. dealloc h1 p n = Some (True, h2) \<and> ok h2 \<and> arena h2 = arena h \<and> avail h2 = avail h \<and>
     dealloc h2 p n = Some (False, h2)"
proof -
  note A = allocated [OF assms]
  have in_arena: "block p (rounded n) \<subseteq> arena h" using A avail_arena [OF assms(1)] by blast
  obtain h2 where h2: "dealloc h1 p n = Some (True, h2)" "ok h2" "arena h2 = arena h"
    "avail h2 = avail h1 \<union> block p (rounded n)"
    using free_law [of h1 n p] A assms(2,4) in_arena by auto
  have av: "avail h2 = avail h" using A h2(4) by auto
  have "block p (rounded n) \<noteq> {}" using rounded_pos [OF assms(2)] by (auto simp: block_def)
  then have "block p (rounded n) \<inter> avail h2 \<noteq> {}" using A av by auto
  then have "dealloc h2 p n = Some (False, h2)"
    using twice_law [OF h2(2) assms(2,4)] A h2(3) in_arena by simp
  then show ?thesis using h2(1-3) av by (intro exI [of _ h2]) simp
qed

end

section \<open>The model provides it\<close>

lemma seg_unique: "seg w p cs 0 \<Longrightarrow> seg w p ds 0 \<Longrightarrow> cs = ds"
proof (induction cs arbitrary: p ds)
  case Nil then show ?case by (cases ds) auto
next
  case (Cons c cs)
  obtain a n where c: "c = (a, n)" by (cases c)
  then obtain es where "ds = (a, n) # es" using Cons.prems by (cases ds) auto
  then show ?case using Cons c by auto
qed

definition heap_ok :: "memheader \<Rightarrow> bool" where
  "heap_ok mh \<longleftrightarrow> (\<exists>cs. free_ok mh cs)"

definition heap_arena :: "memheader \<Rightarrow> nat set" where
  "heap_arena mh = {unat (mh_Lower mh) ..< unat (mh_Upper mh)}"

definition heap_avail :: "memheader \<Rightarrow> nat set" where
  "heap_avail mh = {x. \<exists>cs. free_ok mh cs \<and> x \<in> free_bytes cs}"

lemma heap_avail: "free_ok mh cs \<Longrightarrow> heap_avail mh = free_bytes cs"
  unfolding heap_avail_def free_ok_def using seg_unique by blast

definition sensible :: "u64 \<Rightarrow> bool" where
  "sensible n \<longleftrightarrow> 0 < unat n \<and> unat n \<le> 2 ^ 64 - 16"

definition rounded_size :: "u64 \<Rightarrow> nat" where
  "rounded_size n = round_nat (unat n)"

lemma Allocate_refines:
  assumes "free_ok mh cs" "sensible n"
  shows "\<exists>p mh' cs'. Allocate mh n flags = Some (p, mh') \<and> free_ok mh' cs' \<and> heap_arena mh' = heap_arena mh \<and>
     unat p mod 16 = 0 \<and>
     (if \<exists>c \<in> set cs. rounded_size n \<le> unat (snd c)
      then p \<noteq> 0 \<and> block p (rounded_size n) \<subseteq> free_bytes cs \<and>
        free_bytes cs' = free_bytes cs - block p (rounded_size n) \<and>
        (flags AND MEMF_CLEAR \<noteq> 0 \<longrightarrow> (\<forall>a. unat a \<in> block p (rounded_size n) \<longrightarrow> words mh' a = 0))
      else p = 0 \<and> mh' = mh \<and> cs' = cs)"
proof -
  let ?k = "rounded_size n"
  have n: "0 < unat n" "unat n \<le> 2 ^ 64 - 16" using assms(2) by (auto simp: sensible_def)
  show ?thesis
  proof (rule Allocate_cases [OF assms(1) n refl rounded_size_def, of flags])
    assume "Allocate mh n flags = Some (0, mh)" "\<forall>c \<in> set cs. unat (snd c) < ?k"
    then show ?thesis using assms(1) by (intro exI [of _ 0] exI [of _ mh] exI [of _ cs]) auto
  next
    fix us a m vs mh'
    assume A: "cs = us @ (a, m) # vs" "?k \<le> unat m" "a \<noteq> 0"
      "Allocate mh n flags = Some (a, mh')" "free_ok mh' (us @ rest_of (of_nat ?k) (a, m) @ vs)"
      "mh_Lower mh' = mh_Lower mh" "mh_Upper mh' = mh_Upper mh"
      "flags AND MEMF_CLEAR \<noteq> 0 \<longrightarrow> (\<forall>c. unat c \<in> block a ?k \<longrightarrow> words mh' c = 0)"
    have ok: "chunks_ok (unat (mh_Lower mh)) (unat (mh_Upper mh)) cs" using assms(1) by (simp add: free_ok_def)
    have up: "unat (mh_Upper mh) < 2 ^ 64" using unsigned_less [of "mh_Upper mh", where ?'a = nat] by simp
    have "?k < 2 ^ 64" using A(2) unsigned_less [of m, where ?'a = nat] by simp
    then have K: "unat (of_nat ?k :: u64) = ?k" by (simp add: unat_of_nat)
    have k: "0 < ?k" "?k mod 16 = 0" using n(1) round_nat_facts by (auto simp: rounded_size_def)
    note T = take_chunk_ok [OF ok [unfolded A(1)] up, of "of_nat ?k"]
    have "unat a mod 16 = 0" using ok A(1) by (simp add: chunks_ok_append)
    moreover have "block a ?k \<subseteq> free_bytes cs"
      "free_bytes (us @ rest_of (of_nat ?k) (a, m) @ vs) = free_bytes cs - block a ?k"
      using T(2,3) A(1,2) K k by (simp_all add: block_def word_le_nat_alt)
    moreover have "\<exists>c \<in> set cs. ?k \<le> unat (snd c)" using A(1,2) by force
    ultimately show ?thesis
      using A by (intro exI [of _ a] exI [of _ mh'] exI [of _ "us @ rest_of (of_nat ?k) (a, m) @ vs"])
        (simp add: heap_arena_def)
  qed
qed

lemma block_freed:
  "unat p mod 16 = 0 \<Longrightarrow> freed p n = block p (rounded_size n) \<and> freed_at p = unat p \<and> freed_size p n = rounded_size n"
  by (auto simp: freed_def block_def freed_at_def freed_size_def rounded_size_def)

lemma free_bytes_arena: "free_ok mh cs \<Longrightarrow> free_bytes cs \<subseteq> heap_arena mh"
  using free_bytes_between by (fastforce simp: free_ok_def heap_arena_def)

interpretation hosted_mem: block_heap heap_ok heap_arena heap_avail sensible rounded_size
  "\<lambda>mh n. Allocate mh n flags" Deallocate for flags
proof
  show "0 < rounded_size n" if "sensible n" for n
    using that round_nat_facts(1) by (simp add: sensible_def rounded_size_def)
  show "heap_avail mh \<subseteq> heap_arena mh" if h: "heap_ok mh" for mh
  proof -
    obtain cs where "free_ok mh cs" using h by (auto simp: heap_ok_def)
    then show ?thesis using free_bytes_arena by (simp add: heap_avail)
  qed
  show "\<exists>p mh'. Allocate mh n flags = Some (p, mh') \<and> heap_ok mh' \<and> heap_arena mh' = heap_arena mh \<and>
      unat p mod 16 = 0 \<and> (if p = 0 then mh' = mh
       else block p (rounded_size n) \<subseteq> heap_avail mh \<and> heap_avail mh' = heap_avail mh - block p (rounded_size n))"
    if h: "heap_ok mh" "sensible n" for mh n
  proof -
    obtain cs where cs: "free_ok mh cs" using h(1) by (auto simp: heap_ok_def)
    from Allocate_refines [OF this h(2), of flags] show ?thesis
      using heap_avail [OF cs] heap_avail unfolding heap_ok_def by (smt (verit))
  qed
  fix mh n and p :: u64
  assume A: "heap_ok mh" "sensible n" "p \<noteq> 0" "unat p mod 16 = 0" "block p (rounded_size n) \<subseteq> heap_arena mh"
  obtain cs where cs: "free_ok mh cs" using A(1) by (auto simp: heap_ok_def)
  note B = block_freed [OF A(4), of n]
  have n: "n \<noteq> 0" "0 < rounded_size n" using A(2) round_nat_facts(1) by (auto simp: sensible_def rounded_size_def)
  have "unat p \<in> block p (rounded_size n)" "unat p + rounded_size n - 1 \<in> block p (rounded_size n)"
    using n(2) by (auto simp: block_def)
  then have arena: "unat (mh_Lower mh) \<le> unat p" "unat p + rounded_size n \<le> unat (mh_Upper mh)"
    using subsetD [OF A(5)] n(2) unfolding heap_arena_def by fastforce+
  show "\<exists>mh'. Deallocate mh p n = Some (True, mh') \<and> heap_ok mh' \<and> heap_arena mh' = heap_arena mh \<and>
      heap_avail mh' = heap_avail mh \<union> block p (rounded_size n)"
    if h: "block p (rounded_size n) \<inter> heap_avail mh = {}"
  proof -
    obtain mh' cs' where *: "Deallocate mh p n = Some (True, mh')" "free_ok mh' cs'"
      "free_bytes cs' = free_bytes cs \<union> freed p n" "mh_Lower mh' = mh_Lower mh" "mh_Upper mh' = mh_Upper mh"
      using Deallocate_frees [OF cs A(3) n(1)] B arena h heap_avail [OF cs] by auto
    then show ?thesis using B heap_avail [OF cs] heap_avail [OF *(2)] by (auto simp: heap_ok_def heap_arena_def)
  qed
  show "Deallocate mh p n = Some (False, mh)" if "block p (rounded_size n) \<inter> heap_avail mh \<noteq> {}"
    using Deallocate_overlap [OF cs A(3) n(1)] B arena that heap_avail [OF cs]
      unsigned_less [of "mh_Upper mh", where ?'a = nat] by simp
qed

text \<open>The initial region is one chunk.\<close>

lemma mh_Init_ok:
  assumes "base \<noteq> 0" "unat base mod 16 = 0" "16 \<le> unat len" "unat base + unat len < 2 ^ 64"
  shows "free_ok (mh_Init base len w) [(base, len AND NOT 15)]"
proof -
  have l: "unat (len AND NOT 15) = unat len div 16 * 16" using unat_and_not_15 [of len] by simp
  have "0 < unat len div 16 * 16" "unat len div 16 * 16 \<le> unat len" using assms(3) by presburger+
  then show ?thesis
    using assms l by (simp add: free_ok_def mh_Init_def Let_def MEMCHUNK_TOTAL_def unat_word_ariths unat_gt_0)
qed

section \<open>The properties\<close>

text \<open>C13: An allocation refines taking a block out of the set of free bytes: it succeeds
  exactly when some chunk is large enough, the block is aligned, lies in free memory and is
  what leaves the free bytes, cleared memory is zero, the free list stays well formed, and
  a failed allocation changes nothing.\<close>

theorem allocate_refines:
  assumes "free_ok mh cs" "sensible n"
  shows "\<exists>p mh' cs'. Allocate mh n flags = Some (p, mh') \<and> free_ok mh' cs' \<and> unat p mod 16 = 0 \<and>
     (if \<exists>c \<in> set cs. rounded_size n \<le> unat (snd c)
      then p \<noteq> 0 \<and> block p (rounded_size n) \<subseteq> free_bytes cs \<and>
        free_bytes cs' = free_bytes cs - block p (rounded_size n) \<and>
        (flags AND MEMF_CLEAR \<noteq> 0 \<longrightarrow> (\<forall>a. unat a \<in> block p (rounded_size n) \<longrightarrow> words mh' a = 0))
      else p = 0 \<and> mh' = mh \<and> cs' = cs)"
  using Allocate_refines [OF assms, of flags] by (elim exE conjE, intro exI conjI) assumption+

text \<open>Without \<open>MEMF_REVERSE\<close> the block is the start of the first chunk that is large
  enough, with it the start of the last one.\<close>

theorem allocate_picks:
  assumes "free_ok mh cs" "sensible n" "Allocate mh n flags = Some (p, mh')" "p \<noteq> 0"
  shows "map_option fst (List.find (\<lambda>c. rounded_size n \<le> unat (snd c))
      (if flags AND MEMF_REVERSE = 0 then cs else rev cs)) = Some p"
proof -
  have n: "0 < unat n" "unat n \<le> 2 ^ 64 - 16" using assms(2) by (auto simp: sensible_def)
  show ?thesis
  proof (rule Allocate_cases [OF assms(1) n refl rounded_size_def, of flags])
    assume "Allocate mh n flags = Some (0, mh)"
    then show ?thesis using assms(3,4) by simp
  next
    fix us a m vs mh1
    assume A: "cs = us @ (a, m) # vs" "rounded_size n \<le> unat m" "Allocate mh n flags = Some (a, mh1)"
      "\<not> flags AND MEMF_REVERSE \<noteq> 0 \<longrightarrow> (\<forall>d \<in> set us. unat (snd d) < rounded_size n)"
      "flags AND MEMF_REVERSE \<noteq> 0 \<longrightarrow> (\<forall>d \<in> set vs. unat (snd d) < rounded_size n)"
    have skip: "List.find P (xs @ (a, m) # ys) = Some (a, m)" if "\<forall>x \<in> set xs. \<not> P x" "P (a, m)" for P xs ys
      using that by (induction xs) auto
    show ?thesis
      using A assms(3) skip [of us] skip [of "rev vs"] by (auto simp: not_le)
  qed
qed

text \<open>C14: A free of a block of the arena that is not free adds exactly its bytes to the free
  bytes and keeps the list well formed; a free of a block that overlaps free memory anywhere
  is refused and changes nothing.\<close>

theorem deallocate_refines:
  assumes "free_ok mh cs" "addr \<noteq> 0" "sz \<noteq> 0"
    and "unat (mh_Lower mh) \<le> freed_at addr" "freed_at addr + freed_size addr sz \<le> unat (mh_Upper mh)"
  shows "if freed addr sz \<inter> free_bytes cs = {}
    then \<exists>mh' cs'. Deallocate mh addr sz = Some (True, mh') \<and> free_ok mh' cs' \<and>
       free_bytes cs' = free_bytes cs \<union> freed addr sz
    else Deallocate mh addr sz = Some (False, mh)"
proof (cases "freed addr sz \<inter> free_bytes cs = {}")
  case True
  then show ?thesis using Deallocate_frees [OF assms True] by auto
next
  case False
  have "freed_at addr + freed_size addr sz < 2 ^ 64"
    using assms(5) unsigned_less [of "mh_Upper mh", where ?'a = nat] by simp
  then show ?thesis using Deallocate_overlap [OF assms(1-3) _ False] False by simp
qed

text \<open>C15: Freeing a block right after allocating it restores the free list, chunk by chunk,
  and a second free of it is refused.\<close>

theorem alloc_free_restores:
  assumes "free_ok mh cs" "sensible n" "AllocMem mh n flags = Some (p, mh1)" "p \<noteq> 0"
  shows "\<exists>mh2. FreeMem mh1 p n = Some (True, mh2) \<and> free_ok mh2 cs \<and> FreeMem mh2 p n = Some (False, mh2)"
proof -
  have h: "heap_ok mh" using assms(1) by (auto simp: heap_ok_def)
  obtain mh2 where mh2: "Deallocate mh1 p n = Some (True, mh2)" "heap_ok mh2" "heap_avail mh2 = heap_avail mh"
    "Deallocate mh2 p n = Some (False, mh2)"
    using hosted_mem.free_restores [OF h assms(2) assms(3) [unfolded AllocMem_def] assms(4)] by blast
  obtain ds where ds: "free_ok mh2 ds" using mh2(2) by (auto simp: heap_ok_def)
  have "free_bytes cs = free_bytes ds" using mh2(3) heap_avail [OF assms(1)] heap_avail [OF ds] by simp
  then have "cs = ds" using assms(1) ds chunks_unique by (auto simp: free_ok_def)
  then show ?thesis using mh2 ds by (auto simp: FreeMem_def)
qed

text \<open>Two allocations in a row never share a byte.\<close>

theorem blocks_never_overlap:
  assumes "free_ok mh cs" "sensible n" "sensible m"
    and "AllocMem mh n flags = Some (p, mh1)" "AllocMem mh1 m flags = Some (q, mh2)" "p \<noteq> 0" "q \<noteq> 0"
  shows "block p (rounded_size n) \<inter> block q (rounded_size m) = {}"
  using hosted_mem.blocks_disjoint [of mh n flags p mh1 m q mh2] assms
  by (auto simp: AllocMem_def heap_ok_def)

lemma count_walk: "seg (words mh) p cs 0 \<Longrightarrow> chunk_count_from mh p k = Some (k + length cs)"
proof (induction cs arbitrary: p k)
  case Nil then show ?case by (subst chunk_count_from.simps) simp
next
  case (Cons c cs)
  obtain a n where c: "c = (a, n)" by (cases c)
  then have "p = a" "a \<noteq> 0" "seg (words mh) (words mh a) cs 0" using Cons.prems by auto
  then show ?case using Cons.IH [of "words mh a" "k + 1"]
    by (subst chunk_count_from.simps) (simp add: mc_Next_def)
qed

lemma sum_walk: "seg (words mh) p cs 0 \<Longrightarrow> free_sum_from mh p s = Some (s + of_nat (sum_list (map (unat \<circ> snd) cs)))"
proof (induction cs arbitrary: p s)
  case Nil then show ?case by (subst free_sum_from.simps) simp
next
  case (Cons c cs)
  obtain a n where c: "c = (a, n)" by (cases c)
  then have "p = a" "a \<noteq> 0" "words mh (a + 8) = n" "seg (words mh) (words mh a) cs 0" using Cons.prems by auto
  then show ?case using Cons.IH [of "words mh a" "s + n"] c
    by (subst free_sum_from.simps) (simp add: mc_Next_def mc_Bytes_def add.assoc comp_def)
qed

lemma sane_walk:
  assumes "hi < 2 ^ 64" "unat (mh_Upper mh) = hi" "unat (mh_Lower mh) \<le> lo"
  shows "seg (words mh) p cs 0 \<Longrightarrow> chunks_ok lo hi cs \<Longrightarrow> unat e \<le> lo \<Longrightarrow> sane_from mh p e = Some True"
  using assms(3)
proof (induction cs arbitrary: p lo e)
  case Nil then show ?case by (subst sane_from.simps) simp
next
  case (Cons c cs)
  obtain a n where c: "c = (a, n)" by (cases c)
  have S: "p = a" "a \<noteq> 0" "words mh (a + 8) = n" "seg (words mh) (words mh a) cs 0" using Cons.prems(1) c by auto
  have C: "lo \<le> unat a" "unat a + unat n \<le> hi" "chunks_ok (unat a + unat n + 1) hi cs" using Cons.prems(2) c by auto
  have an: "unat (a + n) = unat a + unat n" using C(2) assms(1) by (simp add: unat_word_ariths)
  have "sane_from mh (words mh a) (a + n) = Some True"
    using Cons.IH [OF S(4) C(3)] an C(1) Cons.prems(4) by simp
  then show ?case using S C an assms(2) Cons.prems(3,4)
    by (subst sane_from.simps) (simp add: mc_Next_def mc_Bytes_def word_less_nat_alt)
qed

text \<open>The verifier's walks end and accept every well-formed list: it is sane, its sizes
  add up to \<open>mh_Free\<close>, and it is counted.\<close>

theorem verifier_accepts:
  assumes "free_ok mh cs"
  shows "freelist_sane mh = Some True \<and> free_sum mh = Some (mh_Free mh) \<and> chunk_count mh = Some (length cs)"
proof -
  have ok: "seg (words mh) (mh_First mh) cs 0" "chunks_ok (unat (mh_Lower mh)) (unat (mh_Upper mh)) cs"
    "unat (mh_Free mh) = sum_list (map (unat \<circ> snd) cs)"
    using assms by (auto simp: free_ok_def)
  have up: "unat (mh_Upper mh) < 2 ^ 64" using unsigned_less [of "mh_Upper mh", where ?'a = nat] by simp
  have "freelist_sane mh = Some True"
    unfolding freelist_sane_def by (rule sane_walk [OF up refl order_refl ok(1,2) order_refl])
  moreover have "free_sum mh = Some (mh_Free mh)"
    unfolding free_sum_def sum_walk [OF ok(1)] ok(3) [symmetric] by simp
  ultimately show ?thesis using count_walk [OF ok(1)] by (simp add: chunk_count_def)
qed

text \<open>A size above \<open>2^64 - 16\<close> rounds to zero: the allocator then returns the first free
  chunk without taking anything out of the list.\<close>

theorem huge_allocation_wraps:
  assumes "free_ok mh cs" "cs \<noteq> []" "2 ^ 64 - 16 < unat n" "flags AND MEMF_REVERSE = 0"
  shows "Allocate mh n flags = Some (fst (hd cs), mh)"
proof -
  obtain a m ds where cs: "cs = (a, m) # ds" using assms(2) by (cases cs) auto
  have S: "mh_First mh = a" "a \<noteq> 0" "words mh (a + 8) = m" "0 < unat m"
    using assms(1) cs by (auto simp: free_ok_def)
  have "unat (n + 15) = unat n + 15 - 2 ^ 64"
    using assms(3) unsigned_less [of n, where ?'a = nat] by (simp add: unat_word_ariths mod_if)
  also have "\<dots> < 16" using unsigned_less [of n, where ?'a = nat] by simp
  finally have "ROUNDUP n MEMCHUNK_TOTAL = 0"
    using unat_and_not_15 [of "n + 15"]
    by (simp add: ROUNDUP_def MEMCHUNK_TOTAL_def word_unat_eq_iff add.commute)
  moreover have "alloc_scan mh 0 False None a None = Some (Some None)"
    using S by (subst alloc_scan.simps) simp
  moreover have "m \<noteq> 0" "n \<noteq> 0" using S(4) assms(3) by auto
  moreover have "mh\<lparr>mh_First := a, words := (words mh)(a + 8 := m)\<rparr> = mh" using S by (cases mh) auto
  moreover have "clear_block a 0 mh = mh" by (simp add: clear_block_def)
  ultimately show ?thesis
    using S assms(4) cs
    by (simp add: Allocate_def Let_def take_chunk_def mc_Next_def mc_Bytes_def set_Next_def set_Bytes_def)
qed

section \<open>Instances\<close>

text \<open>An arena of 256 bytes in which 64 bytes at \<open>0x1020\<close> are in use.\<close>

definition demo_heap :: memheader where
  "demo_heap = \<lparr>mh_First = 0x1000, mh_Lower = 0x1000, mh_Upper = 0x1100, mh_Free = 0xC0,
     words = (\<lambda>a. 0)(0x1000 := 0x1060, 0x1008 := 0x20, 0x1060 := 0, 0x1068 := 0xA0)\<rparr>"

definition demo_chunks :: "chunk list" where
  "demo_chunks = [(0x1000, 0x20), (0x1060, 0xA0)]"

lemma demo_heap_ok: "free_ok demo_heap demo_chunks"
  by (simp add: free_ok_def demo_heap_def demo_chunks_def)

theorem allocate_refines_witness:
  "\<exists>p mh' cs'. Allocate demo_heap 48 MEMF_CLEAR = Some (p, mh') \<and> free_ok mh' cs' \<and> p \<noteq> 0 \<and>
     block p 48 \<subseteq> free_bytes demo_chunks"
proof -
  have n: "sensible 48" "rounded_size 48 = 48" by (simp_all add: sensible_def rounded_size_def round_nat_def)
  have "\<exists>c \<in> set demo_chunks. rounded_size 48 \<le> unat (snd c)" by (simp add: demo_chunks_def n(2))
  then show ?thesis using allocate_refines [OF demo_heap_ok n(1), of MEMF_CLEAR] n(2) by (simp only: if_True) blast
qed

lemma demo_alloc: "\<exists>mh'. Allocate demo_heap 48 MEMF_ANY = Some (0x1060, mh')"
proof -
  have "alloc_scan demo_heap 0x30 False None 0x1000 None = Some (Some (Some 0x1000))"
    by (subst alloc_scan.simps, simp add: demo_heap_def mc_Bytes_def mc_Next_def)
      (subst alloc_scan.simps, simp add: demo_heap_def mc_Bytes_def mc_Next_def)
  then show ?thesis
    by (simp add: Allocate_def demo_heap_def ROUNDUP_def MEMCHUNK_TOTAL_def MEMF_ANY_def mc_Next_def
        take_chunk_def mc_Bytes_def set_Next_def set_Bytes_def split: prod.split)
qed

theorem allocate_picks_witness:
  "map_option fst (List.find (\<lambda>c. rounded_size 48 \<le> unat (snd c)) demo_chunks) = Some 0x1060"
proof -
  obtain mh' where "Allocate demo_heap 48 MEMF_ANY = Some (0x1060, mh')" using demo_alloc by blast
  then show ?thesis
    using allocate_picks [OF demo_heap_ok, of 48 MEMF_ANY "0x1060" mh']
    by (simp add: sensible_def MEMF_ANY_def)
qed

lemma demo_freed: "freed_at 0x1020 = 0x1020" "freed_size 0x1020 64 = 64" "freed 0x1020 64 = {0x1020 ..< 0x1060}"
  by (simp_all add: freed_def freed_at_def freed_size_def round_nat_def)

theorem deallocate_refines_witness:
  "\<exists>mh' cs'. Deallocate demo_heap 0x1020 64 = Some (True, mh') \<and> free_ok mh' cs' \<and>
     free_bytes cs' = free_bytes demo_chunks \<union> {0x1020 ..< 0x1060}"
proof -
  have "freed 0x1020 64 \<inter> free_bytes demo_chunks = {}" by (auto simp: demo_freed demo_chunks_def)
  then show ?thesis
    using deallocate_refines [OF demo_heap_ok, of "0x1020" 64] by (simp add: demo_freed demo_heap_def)
qed

theorem alloc_free_restores_witness:
  "\<exists>mh1 mh2. AllocMem demo_heap 48 MEMF_ANY = Some (0x1060, mh1) \<and> FreeMem mh1 0x1060 48 = Some (True, mh2) \<and>
     free_ok mh2 demo_chunks"
proof -
  obtain mh1 where "Allocate demo_heap 48 MEMF_ANY = Some (0x1060, mh1)" using demo_alloc by blast
  then show ?thesis
    using alloc_free_restores [OF demo_heap_ok, of 48 MEMF_ANY "0x1060" mh1]
    by (auto simp: sensible_def AllocMem_def)
qed

lemma chunk_member16: "chunks_ok lo hi cs \<Longrightarrow> (a, m) \<in> set cs \<Longrightarrow> 16 \<le> unat m"
  by (induction cs arbitrary: lo) (auto intro: dvd_imp_le)

theorem blocks_never_overlap_witness:
  "\<exists>p q mh1 mh2. AllocMem demo_heap 48 MEMF_ANY = Some (p, mh1) \<and> AllocMem mh1 16 MEMF_ANY = Some (q, mh2) \<and>
     block p 48 \<inter> block q 16 = {}"
proof -
  have n: "sensible 48" "sensible 16" "rounded_size 48 = 48" "rounded_size 16 = 16"
    by (simp_all add: sensible_def rounded_size_def round_nat_def)
  obtain mh1 where mh1: "Allocate demo_heap 48 MEMF_ANY = Some (0x1060, mh1)" using demo_alloc by blast
  have "\<exists>c \<in> set demo_chunks. rounded_size 48 \<le> unat (snd c)" by (simp add: demo_chunks_def n)
  then obtain cs' where cs': "free_ok mh1 cs'" "free_bytes cs' = free_bytes demo_chunks - block 0x1060 48"
    using Allocate_refines [OF demo_heap_ok n(1), of MEMF_ANY] mh1 n by auto
  have "0x1000 \<in> free_bytes cs'" by (simp add: cs'(2) demo_chunks_def block_def)
  then obtain a m where am: "(a, m) \<in> set cs'" "0 < unat m" by (auto simp: free_bytes_def)
  have "16 \<le> unat m"
    using am chunk_member16 [of _ _ cs'] cs'(1) by (auto simp: free_ok_def)
  then have "\<exists>c \<in> set cs'. rounded_size 16 \<le> unat (snd c)" using am n by force
  then obtain q mh2 where q: "Allocate mh1 16 MEMF_ANY = Some (q, mh2)" "q \<noteq> 0"
    using Allocate_refines [OF cs'(1) n(2), of MEMF_ANY] by auto
  then show ?thesis
    using blocks_never_overlap [OF demo_heap_ok n(1,2), of MEMF_ANY "0x1060" mh1 q mh2] mh1 n
    by (auto simp: AllocMem_def)
qed

theorem verifier_accepts_witness:
  "freelist_sane demo_heap = Some True \<and> free_sum demo_heap = Some 0xC0"
  using verifier_accepts [OF demo_heap_ok] by (simp add: demo_heap_def)

theorem huge_allocation_wraps_witness:
  "Allocate demo_heap 0xFFFFFFFFFFFFFFF8 MEMF_ANY = Some (0x1000, demo_heap)"
  using huge_allocation_wraps [OF demo_heap_ok, of "0xFFFFFFFFFFFFFFF8" MEMF_ANY]
  by (simp add: demo_chunks_def MEMF_ANY_def)

end
