(* ===== verification/Ameta.thy ===== *)
theory Ameta
  imports Prelude
begin

text \<open>
  The per-directory metadata file \<open>.ameta\<close> (\<open>hosted/hostvolume/ameta.c\<close>, \<open>ameta.h\<close>): an
  arena allocator, the percent escape of names and comments, the parser, the edits on the
  parsed entries, and the canonical writer.

  Strings are byte lists. A block of the arena is written once, before any pointer to it is
  kept, so an entry holds the bytes themselves and the arena only counts; the one array that
  is overwritten in place, \<open>entries\<close>, is the list of the file and a pointer into it
  is an index. An output buffer is a function on byte offsets, so that every byte the writer
  touches is visible. Reports are the list of the calls of the callback, in order.
\<close>

type_synonym bytes = "u8 list"

text \<open>The bytes of a string literal.\<close>

definition lit :: "string \<Rightarrow> bytes" where
  "lit s = map of_char s"

abbreviation NL :: u8 where "NL \<equiv> 10"
abbreviation CR :: u8 where "CR \<equiv> 13"
abbreviation BLANK :: u8 where "BLANK \<equiv> 0x20"
abbreviation PCT :: u8 where "PCT \<equiv> 0x25"
abbreviation DOT :: u8 where "DOT \<equiv> 0x2E"
abbreviation SLASH :: u8 where "SLASH \<equiv> 0x2F"

definition AMETA_RECORD_MASK :: u64 where "AMETA_RECORD_MASK = 0xEE02"
definition AMETA_MAX_LINE :: nat where "AMETA_MAX_LINE = 4096"
definition AMETA_MAX_FILE :: nat where "AMETA_MAX_FILE = 2 ^ 20"

record ameta_arena =
  acap :: u64
  used :: u64

record ameta_entry =
  ename :: bytes
  has_prot :: bool
  prot :: u64
  comment :: bytes
  has_uid :: bool
  has_gid :: bool
  uid :: u32
  gid :: u32
  unknown :: "bytes list"

record ameta_file =
  entries :: "ameta_entry list"
  fcap :: nat

text \<open>\<open>sizeof (ameta_entry)\<close> and \<open>sizeof (ameta_line)\<close> on a 64-bit host.\<close>

definition sizeof_entry :: nat where "sizeof_entry = 80"
definition sizeof_line :: nat where "sizeof_line = 16"

definition zero_entry :: ameta_entry where
  "zero_entry = \<lparr>ename = [], has_prot = False, prot = 0, comment = [], has_uid = False,
     has_gid = False, uid = 0, gid = 0, unknown = []\<rparr>"

section \<open>The arena\<close>

definition arena_alloc :: "ameta_arena \<Rightarrow> u64 \<Rightarrow> (u64 \<times> ameta_arena) option" where
  "arena_alloc a sz =
     (let start = (used a + 7) AND NOT 7 in
      if start > acap a \<or> sz > acap a - start then None
      else Some (start, a\<lparr>used := start + sz\<rparr>))"

text \<open>The block's own address is not needed where only the bytes put into it matter.\<close>

definition arena_take :: "ameta_arena \<Rightarrow> nat \<Rightarrow> ameta_arena option" where
  "arena_take a n = map_option snd (arena_alloc a (of_nat n))"

definition arena_copy :: "ameta_arena \<Rightarrow> bytes \<Rightarrow> (bytes \<times> ameta_arena) option" where
  "arena_copy a src = map_option (\<lambda>a'. (src, a')) (arena_take a (if src \<noteq> [] then length src else 1))"

section \<open>Escaping\<close>

type_synonym obuf = "nat \<Rightarrow> u8"

definition hexdigit :: "'a::len word \<Rightarrow> u8" where
  "hexdigit d = lit ''0123456789ABCDEF'' ! unat d"

definition escaped_byte :: "u8 \<Rightarrow> bool" where
  "escaped_byte b \<longleftrightarrow> b = PCT \<or> b \<le> 0x20 \<or> b \<ge> 0x7F"

text \<open>The \<open>PUT\<close> macro: \<open>off\<close> is the buffer argument as an offset.\<close>

definition put_at :: "nat \<Rightarrow> nat \<Rightarrow> u8 \<Rightarrow> obuf \<times> nat \<Rightarrow> obuf \<times> nat" where
  "put_at off cap c w = (case w of (out, need) \<Rightarrow>
     (if need < cap then out(off + need := c) else out, need + 1))"

fun ameta_escape_loop :: "nat \<Rightarrow> nat \<Rightarrow> bytes \<Rightarrow> obuf \<times> nat \<Rightarrow> obuf \<times> nat" where
  "ameta_escape_loop off cap [] w = w"
| "ameta_escape_loop off cap (b # bs) w = ameta_escape_loop off cap bs
     (if escaped_byte b then
        put_at off cap (hexdigit (b AND 0xF)) (put_at off cap (hexdigit (drop_bit 4 b)) (put_at off cap PCT w))
      else put_at off cap b w)"

definition ameta_escape :: "bytes \<Rightarrow> obuf \<Rightarrow> nat \<Rightarrow> nat \<Rightarrow> obuf \<times> nat" where
  "ameta_escape inp out off cap = ameta_escape_loop off cap inp (out, 0)"

definition hexval :: "u8 \<Rightarrow> int" where
  "hexval c =
     (if c \<ge> 0x30 \<and> c \<le> 0x39 then uint c - 0x30
      else if c \<ge> 0x61 \<and> c \<le> 0x66 then uint c - 0x61 + 10
      else if c \<ge> 0x41 \<and> c \<le> 0x46 then uint c - 0x41 + 10
      else - 1)"

text \<open>The output is the prefix stored so far and \<open>o\<close>, the length it needs.\<close>

fun ameta_unescape_loop :: "nat \<Rightarrow> bytes \<Rightarrow> bytes \<times> nat \<Rightarrow> (bytes \<times> nat) option" where
  "ameta_unescape_loop cap [] w = Some w"
| "ameta_unescape_loop cap (c # cs) (out, n) =
     (if c = PCT then
        (case cs of
           h # l # rest \<Rightarrow>
             (if hexval h < 0 \<or> hexval l < 0 then None
              else ameta_unescape_loop cap rest
                (if n < cap then out @ [of_int (hexval h * 16 + hexval l)] else out, n + 1))
         | _ \<Rightarrow> None)
      else ameta_unescape_loop cap cs (if n < cap then out @ [c] else out, n + 1))"

definition ameta_unescape :: "bytes \<Rightarrow> nat \<Rightarrow> (bytes \<times> nat) option" where
  "ameta_unescape inp cap = ameta_unescape_loop cap inp ([], 0)"

record esc_stream =
  es_name :: bytes
  es_at :: nat
  pend0 :: u8
  pend1 :: u8
  npending :: nat

definition esc_next :: "esc_stream \<Rightarrow> int \<times> esc_stream" where
  "esc_next s =
     (if npending s \<noteq> 0 then (uint (pend0 s), s\<lparr>pend0 := pend1 s, npending := npending s - 1\<rparr>)
      else if es_at s \<ge> length (es_name s) then (- 1, s)
      else (let b = es_name s ! es_at s; s = s\<lparr>es_at := es_at s + 1\<rparr> in
        if \<not> escaped_byte b then (uint b, s)
        else (uint PCT, s\<lparr>pend0 := hexdigit (drop_bit 4 b), pend1 := hexdigit (b AND 0xF), npending := 2\<rparr>)))"

definition esc_left :: "esc_stream \<Rightarrow> nat" where
  "esc_left s = npending s + 3 * (length (es_name s) - es_at s)"

lemma esc_next_left: "esc_next s = (c, s') \<Longrightarrow> 0 \<le> c \<Longrightarrow> esc_left s' < esc_left s"
  by (auto simp: esc_next_def esc_left_def Let_def split: if_splits)

function escaped_cmp_loop :: "esc_stream \<Rightarrow> esc_stream \<Rightarrow> int" where
  "escaped_cmp_loop x y = (case esc_next x of (p, x') \<Rightarrow> case esc_next y of (q, y') \<Rightarrow>
     if p \<noteq> q then (if p < q then - 1 else 1)
     else if p < 0 then 0
     else escaped_cmp_loop x' y')"
  by pat_completeness auto
termination
  by (relation "measure (\<lambda>(x, y). esc_left x)") (auto dest: esc_next_left [OF sym])

definition esc_start :: "bytes \<Rightarrow> esc_stream" where
  "esc_start s = \<lparr>es_name = s, es_at = 0, pend0 = 0, pend1 = 0, npending = 0\<rparr>"

definition escaped_compare :: "ameta_entry \<Rightarrow> ameta_entry \<Rightarrow> int" where
  "escaped_compare a b = escaped_cmp_loop (esc_start (ename a)) (esc_start (ename b))"

section \<open>Scalars\<close>

fun utf8_tail :: "nat \<Rightarrow> bytes \<Rightarrow> u32 \<Rightarrow> u32 option" where
  "utf8_tail (Suc k) (b # bs) cp =
     (if b AND 0xC0 \<noteq> 0x80 then None else utf8_tail k bs (push_bit 6 cp OR (ucast b AND 0x3F)))"
| "utf8_tail _ _ cp = Some cp"

function valid_utf8 :: "bytes \<Rightarrow> bool" where
  "valid_utf8 [] = True"
| "valid_utf8 (c # s) =
     (if c < 0x80 then valid_utf8 s
      else (case (if c \<ge> 0xC2 \<and> c \<le> 0xDF then Some (1, ucast c AND 0x1F)
                  else if c \<ge> 0xE0 \<and> c \<le> 0xEF then Some (2, ucast c AND 0x0F)
                  else if c \<ge> 0xF0 \<and> c \<le> 0xF4 then Some (3, ucast c AND 0x07)
                  else None) of
              None \<Rightarrow> False
            | Some (n, cp0) \<Rightarrow>
                (if length (c # s) \<le> n then False
                 else (case utf8_tail n s cp0 of
                         None \<Rightarrow> False
                       | Some cp \<Rightarrow>
                           (if n = 2 \<and> cp < 0x800 \<or> n = 3 \<and> (cp < 0x10000 \<or> cp > 0x10FFFF)
                               \<or> (cp \<ge> 0xD800 \<and> cp \<le> 0xDFFF) then False
                            else valid_utf8 (drop n s))))))"
  by pat_completeness auto
termination
  by (relation "measure length") auto

fun parse_prot_loop :: "bytes \<Rightarrow> u64 \<Rightarrow> string + u64" where
  "parse_prot_loop [] w = Inr w"
| "parse_prot_loop (c # cs) w =
     (if hexval c < 0 then Inl ''bad-number''
      else parse_prot_loop cs (push_bit 4 w OR of_int (hexval c)))"

definition parse_prot :: "bytes \<Rightarrow> string + u64" where
  "parse_prot v =
     (if length v < 3 \<or> v ! 0 \<noteq> 0x30 \<or> v ! 1 \<noteq> 0x78 then Inl ''bad-number''
      else if length v - 2 > 16 then Inl ''prot-too-long''
      else parse_prot_loop (drop 2 v) 0)"

fun parse_id_loop :: "bytes \<Rightarrow> u64 \<Rightarrow> u32 option" where
  "parse_id_loop [] n = Some (ucast n)"
| "parse_id_loop (c # cs) n =
     (if c < 0x30 \<or> c > 0x39 then None
      else (let n = n * 10 + ucast (c - 0x30) in
        if n > 0xFFFFFFFF then None else parse_id_loop cs n))"

definition parse_id :: "bytes \<Rightarrow> u32 option" where
  "parse_id v = (if length v = 0 then None else parse_id_loop v 0)"

section \<open>Entries\<close>

definition add_entry :: "ameta_file \<Rightarrow> ameta_arena \<Rightarrow> (ameta_file \<times> ameta_arena) option" where
  "add_entry f a =
     (if length (entries f) = fcap f then
        (let cap = (if fcap f \<noteq> 0 then fcap f * 2 else 8) in
         case arena_take a (cap * sizeof_entry) of
           None \<Rightarrow> None
         | Some a' \<Rightarrow> Some (f\<lparr>entries := entries f @ [zero_entry], fcap := cap\<rparr>, a'))
      else Some (f\<lparr>entries := entries f @ [zero_entry]\<rparr>, a))"

definition add_unknown :: "ameta_entry \<Rightarrow> ameta_arena \<Rightarrow> bytes \<Rightarrow> (ameta_entry \<times> ameta_arena) option" where
  "add_unknown e a t =
     (case arena_take a ((length (unknown e) + 1) * sizeof_line) of
        None \<Rightarrow> None
      | Some a1 \<Rightarrow> (case arena_copy a1 t of
          None \<Rightarrow> None
        | Some (t', a2) \<Rightarrow> Some (e\<lparr>unknown := unknown e @ [t']\<rparr>, a2)))"

fun find_from :: "ameta_entry list \<Rightarrow> bytes \<Rightarrow> nat \<Rightarrow> nat option" where
  "find_from [] nm i = None"
| "find_from (e # es) nm i =
     (if length (ename e) = length nm \<and> ename e = nm then Some i else find_from es nm (i + 1))"

definition ameta_find :: "ameta_file \<Rightarrow> bytes \<Rightarrow> nat option" where
  "ameta_find f nm = find_from (entries f) nm 0"

definition set_entry :: "nat \<Rightarrow> ameta_entry \<Rightarrow> ameta_file \<Rightarrow> ameta_file" where
  "set_entry i e f = f\<lparr>entries := (entries f)[i := e]\<rparr>"

section \<open>Parsing\<close>

text \<open>The parser's variables: file, arena, the current section and the reports made.\<close>

record pstate =
  p_file :: ameta_file
  p_arena :: ameta_arena
  p_cur :: "nat option"
  p_reports :: "(nat \<times> string) list"

datatype pres = PGo pstate | PNomem pstate

definition rep :: "nat \<Rightarrow> string \<Rightarrow> pstate \<Rightarrow> pstate" where
  "rep line why ps = ps\<lparr>p_reports := p_reports ps @ [(line, why)]\<rparr>"

definition bad_name :: "bytes \<Rightarrow> bool" where
  "bad_name nm \<longleftrightarrow> length nm = 0 \<or> length nm = 1 \<and> nm ! 0 = DOT
     \<or> length nm = 2 \<and> nm ! 0 = DOT \<and> nm ! 1 = DOT \<or> SLASH \<in> set nm"

text \<open>The \<open>file\<close> key opens a section.\<close>

definition parse_file_key :: "nat \<Rightarrow> bytes \<Rightarrow> pstate \<Rightarrow> pres" where
  "parse_file_key number val ps =
     (case arena_take (p_arena ps) (if length val \<noteq> 0 then length val else 1) of
        None \<Rightarrow> PNomem ps
      | Some a \<Rightarrow> (let ps = ps\<lparr>p_arena := a\<rparr> in
          case ameta_unescape val (length val) of
            None \<Rightarrow> PGo ((rep number ''malformed-escape'' ps)\<lparr>p_cur := None\<rparr>)
          | Some (nm, n) \<Rightarrow>
              if bad_name nm then PGo ((rep number ''bad-name'' ps)\<lparr>p_cur := None\<rparr>)
              else (case ameta_find (p_file ps) nm of
                Some i \<Rightarrow> PGo ((rep number ''duplicate'' ps)\<lparr>p_cur := Some i,
                    p_file := set_entry i (zero_entry\<lparr>ename := nm\<rparr>) (p_file ps)\<rparr>)
              | None \<Rightarrow> (case add_entry (p_file ps) a of
                    None \<Rightarrow> PNomem ps
                  | Some (f, a') \<Rightarrow> (let i = length (entries f) - 1 in
                      PGo (ps\<lparr>p_arena := a', p_cur := Some i,
                           p_file := set_entry i (zero_entry\<lparr>ename := nm\<rparr>) f\<rparr>))))))"

text \<open>The other keys change the current section; \<open>line\<close> is the whole line.\<close>

definition parse_key :: "nat \<Rightarrow> bytes \<Rightarrow> bytes \<Rightarrow> bytes \<Rightarrow> nat \<Rightarrow> pstate \<Rightarrow> pres" where
  "parse_key number key val line i ps =
     (let e = entries (p_file ps) ! i;
          put = (\<lambda>e ps. ps\<lparr>p_file := set_entry i e (p_file ps)\<rparr>) in
      if key = lit ''prot'' then
        (case parse_prot val of
           Inr word \<Rightarrow> PGo (put (e\<lparr>has_prot := True, prot := word\<rparr>) ps)
         | Inl why \<Rightarrow> PGo (rep number why ps))
      else if key = lit ''comment'' then
        (case arena_take (p_arena ps) (if length val \<noteq> 0 then length val else 1) of
           None \<Rightarrow> PNomem ps
         | Some a \<Rightarrow> (let ps = ps\<lparr>p_arena := a\<rparr> in
             case ameta_unescape val (length val) of
               None \<Rightarrow> PGo (rep number ''malformed-escape'' ps)
             | Some (t, n) \<Rightarrow> PGo (put (e\<lparr>comment := t\<rparr>) ps)))
      else if key = lit ''uid'' \<or> key = lit ''gid'' then
        (case parse_id val of
           None \<Rightarrow> PGo (rep number ''bad-number'' ps)
         | Some n \<Rightarrow>
             if key ! 0 = 0x75 then PGo (put (e\<lparr>has_uid := True, uid := n\<rparr>) ps)
             else PGo (put (e\<lparr>has_gid := True, gid := n\<rparr>) ps))
      else (case add_unknown e (p_arena ps) line of
              None \<Rightarrow> PNomem ps
            | Some (e', a) \<Rightarrow> PGo ((put e' ps)\<lparr>p_arena := a\<rparr>)))"

text \<open>One line after the first.\<close>

definition parse_line :: "nat \<Rightarrow> bytes \<Rightarrow> pstate \<Rightarrow> pres" where
  "parse_line number line ps =
     (if length line > AMETA_MAX_LINE then PGo (rep number ''line-too-long'' ps)
      else if \<not> valid_utf8 line then PGo (rep number ''not-utf8'' ps)
      else (let key = takeWhile (\<lambda>c. c \<noteq> BLANK) line; val = drop (length key + 1) line in
        if key = lit ''file'' then parse_file_key number val ps
        else (case p_cur ps of
                None \<Rightarrow> PGo (rep number ''key-before-file'' ps)
              | Some i \<Rightarrow> parse_key number key val line i ps)))"

definition strip_cr :: "bytes \<Rightarrow> bytes" where
  "strip_cr line = (if line \<noteq> [] \<and> last line = CR then butlast line else line)"

datatype parse_res = AMETA_OK pstate | AMETA_UNUSABLE pstate | AMETA_NOMEM pstate

function parse_lines :: "bytes \<Rightarrow> nat \<Rightarrow> pstate \<Rightarrow> parse_res" where
  "parse_lines buf number ps =
     (if buf = [] then
        (if number = 0 then AMETA_UNUSABLE (rep 1 ''bad-header'' ps) else AMETA_OK ps)
      else (let raw = takeWhile (\<lambda>c. c \<noteq> NL) buf;
                rest = drop (length raw + 1) buf;
                line = strip_cr raw;
                number = number + 1 in
        if number = 1 then
          (if line \<noteq> lit ''ameta 1'' then AMETA_UNUSABLE (rep 1 ''bad-header'' ps)
           else parse_lines rest number ps)
        else (case parse_line number line ps of
                PGo ps' \<Rightarrow> parse_lines rest number ps'
              | PNomem ps' \<Rightarrow> AMETA_NOMEM ps')))"
  by pat_completeness auto
termination
  by (relation "measure (\<lambda>(buf, number, ps). length buf)") auto

definition ameta_parse :: "bytes \<Rightarrow> ameta_arena \<Rightarrow> parse_res" where
  "ameta_parse buf a =
     (let ps = \<lparr>p_file = \<lparr>entries = [], fcap = 0\<rparr>, p_arena = a, p_cur = None, p_reports = []\<rparr> in
      if length buf = 0 then AMETA_OK ps
      else if length buf > AMETA_MAX_FILE then AMETA_UNUSABLE (rep 0 ''file-too-large'' ps)
      else parse_lines buf 0 ps)"

section \<open>Editing\<close>

definition ameta_get :: "ameta_file \<Rightarrow> ameta_arena \<Rightarrow> bytes \<Rightarrow> nat option \<times> ameta_file \<times> ameta_arena" where
  "ameta_get f a nm = (case ameta_find f nm of
     Some i \<Rightarrow> (Some i, f, a)
   | None \<Rightarrow> (case arena_copy a nm of
       None \<Rightarrow> (None, f, a)
     | Some (copy, a1) \<Rightarrow> (case add_entry f a1 of
         None \<Rightarrow> (None, f, a1)
       | Some (f', a2) \<Rightarrow> (let i = length (entries f') - 1 in
           (Some i, set_entry i ((entries f' ! i)\<lparr>ename := copy\<rparr>) f', a2)))))"

definition ameta_set_comment :: "ameta_entry \<Rightarrow> ameta_arena \<Rightarrow> bytes \<Rightarrow> (ameta_entry \<times> ameta_arena) option" where
  "ameta_set_comment e a c = (case arena_copy a c of
     None \<Rightarrow> None
   | Some (copy, a') \<Rightarrow> Some (e\<lparr>comment := copy\<rparr>, a'))"

text \<open>\<open>memmove\<close> of the tail over index \<open>i\<close>, and the count one less.\<close>

definition remove_at :: "nat \<Rightarrow> ameta_file \<Rightarrow> ameta_file" where
  "remove_at i f = f\<lparr>entries := take i (entries f) @ drop (i + 1) (entries f)\<rparr>"

definition ameta_remove :: "ameta_file \<Rightarrow> bytes \<Rightarrow> ameta_file" where
  "ameta_remove f nm = (case ameta_find f nm of None \<Rightarrow> f | Some i \<Rightarrow> remove_at i f)"

fun copy_lines :: "ameta_arena \<Rightarrow> bytes list \<Rightarrow> bytes list option \<times> ameta_arena" where
  "copy_lines a [] = (Some [], a)"
| "copy_lines a (t # ts) = (case arena_copy a t of
     None \<Rightarrow> (None, a)
   | Some (t', a') \<Rightarrow> (case copy_lines a' ts of (r, a'') \<Rightarrow> (map_option ((#) t') r, a'')))"

text \<open>The first three allocations are all made before their results are tested.\<close>

definition alloc_or_keep :: "ameta_arena \<Rightarrow> nat \<Rightarrow> bool \<times> ameta_arena" where
  "alloc_or_keep a n = (case arena_take a n of None \<Rightarrow> (False, a) | Some a' \<Rightarrow> (True, a'))"

definition ameta_copy_entry ::
  "ameta_file \<Rightarrow> ameta_arena \<Rightarrow> ameta_entry \<Rightarrow> bytes \<Rightarrow> nat option \<times> ameta_file \<times> ameta_arena" where
  "ameta_copy_entry f a src nm =
     (case alloc_or_keep a (if nm \<noteq> [] then length nm else 1) of (ok1, a1) \<Rightarrow>
      case alloc_or_keep a1 (if comment src \<noteq> [] then length (comment src) else 1) of (ok2, a2) \<Rightarrow>
      case (if unknown src \<noteq> [] then alloc_or_keep a2 (length (unknown src) * sizeof_line)
            else (True, a2)) of (ok3, a3) \<Rightarrow>
      if \<not> ok1 \<or> \<not> ok2 \<or> \<not> ok3 then (None, f, a3)
      else (case copy_lines a3 (unknown src) of
          (None, a4) \<Rightarrow> (None, f, a4)
        | (Some us, a4) \<Rightarrow> (let f1 = ameta_remove f nm in
            case add_entry f1 a4 of
              None \<Rightarrow> (None, f1, a4)
            | Some (f2, a5) \<Rightarrow> (let i = length (entries f2) - 1 in
                (Some i, set_entry i (src\<lparr>ename := nm, unknown := us\<rparr>) f2, a5)))))"

text \<open>\<open>RenUndef\<close> is the store through the null pointer of the second \<open>ameta_find\<close>.\<close>

datatype rename_res = RenOk ameta_file ameta_arena | RenFail ameta_file ameta_arena | RenUndef

definition ameta_rename :: "ameta_file \<Rightarrow> ameta_arena \<Rightarrow> bytes \<Rightarrow> bytes \<Rightarrow> rename_res" where
  "ameta_rename f a src dst = (case ameta_find f src of
     None \<Rightarrow> RenOk f a
   | Some _ \<Rightarrow> (let f1 = ameta_remove f dst; e = ameta_find f1 src in
       case arena_copy a dst of
         None \<Rightarrow> RenFail f1 a
       | Some (copy, a') \<Rightarrow> (case e of
           None \<Rightarrow> RenUndef
         | Some i \<Rightarrow> RenOk (set_entry i ((entries f1 ! i)\<lparr>ename := copy\<rparr>) f1) a')))"

function prune_from :: "(bytes \<Rightarrow> bool) \<Rightarrow> nat \<Rightarrow> ameta_file \<Rightarrow> ameta_file" where
  "prune_from ex i f =
     (if i < length (entries f) then
        (if ex (ename (entries f ! i)) then prune_from ex (i + 1) f
         else prune_from ex i (remove_at i f))
      else f)"
  by pat_completeness auto
termination
  by (relation "measure (\<lambda>(ex, i, f). length (entries f) - i)") (auto simp: remove_at_def)

definition ameta_prune :: "(bytes \<Rightarrow> bool) \<Rightarrow> ameta_file \<Rightarrow> ameta_file" where
  "ameta_prune ex f = prune_from ex 0 f"

definition recorded_prot :: "ameta_entry \<Rightarrow> bool" where
  "recorded_prot e \<longleftrightarrow> has_prot e \<and> prot e AND NOT AMETA_RECORD_MASK \<noteq> 0"

definition ameta_entry_is_default :: "ameta_entry \<Rightarrow> bool" where
  "ameta_entry_is_default e \<longleftrightarrow> (\<not> has_prot e \<or> prot e AND NOT AMETA_RECORD_MASK = 0) \<and>
     length (comment e) = 0 \<and> \<not> has_uid e \<and> \<not> has_gid e \<and> length (unknown e) = 0"

section \<open>Writing\<close>

fun put_text :: "nat \<Rightarrow> bytes \<Rightarrow> obuf \<times> nat \<Rightarrow> obuf \<times> nat" where
  "put_text cap [] w = w"
| "put_text cap (c # cs) w = put_text cap cs (put_at 0 cap c w)"

definition put_str :: "nat \<Rightarrow> string \<Rightarrow> obuf \<times> nat \<Rightarrow> obuf \<times> nat" where
  "put_str cap s w = put_text cap (lit s) w"

fun put_hex_loop :: "nat \<Rightarrow> nat \<Rightarrow> u64 \<Rightarrow> obuf \<times> nat \<Rightarrow> obuf \<times> nat" where
  "put_hex_loop cap 0 word w = w"
| "put_hex_loop cap (Suc i) word w =
     put_hex_loop cap i word (put_text cap [hexdigit (drop_bit (4 * i) word AND 0xF)] w)"

definition put_hex :: "nat \<Rightarrow> u64 \<Rightarrow> obuf \<times> nat \<Rightarrow> obuf \<times> nat" where
  "put_hex cap word w =
     put_hex_loop cap (if word > 0xFFFFFFFF then 16 else 8) word (put_str cap ''0x'' w)"

text \<open>The digits in the order they are produced, the last one first.\<close>

function dec_digits :: "u32 \<Rightarrow> bytes" where
  "dec_digits n = (0x30 + ucast (n mod 10)) # (if n div 10 \<noteq> 0 then dec_digits (n div 10) else [])"
  by pat_completeness auto
termination
  by (relation "measure unat") (auto simp: unat_div unat_gt_0 intro!: div_less_dividend)

definition put_decimal :: "nat \<Rightarrow> u32 \<Rightarrow> obuf \<times> nat \<Rightarrow> obuf \<times> nat" where
  "put_decimal cap n w = put_text cap (rev (dec_digits n)) w"

text \<open>The insertion sort of \<open>ameta_format\<close>, on the array.\<close>

fun shift_in :: "ameta_entry \<Rightarrow> nat \<Rightarrow> ameta_entry list \<Rightarrow> ameta_entry list" where
  "shift_in moving 0 es = es[0 := moving]"
| "shift_in moving (Suc j) es =
     (if escaped_compare (es ! j) moving > 0 then shift_in moving j (es[Suc j := es ! j])
      else es[Suc j := moving])"

fun sort_from :: "nat \<Rightarrow> nat \<Rightarrow> ameta_entry list \<Rightarrow> ameta_entry list" where
  "sort_from 0 i es = es"
| "sort_from (Suc k) i es = sort_from k (i + 1) (shift_in (es ! i) i es)"

definition sort_entries :: "ameta_entry list \<Rightarrow> ameta_entry list" where
  "sort_entries es = sort_from (length es - 1) 1 es"

definition put_escaped :: "nat \<Rightarrow> bytes \<Rightarrow> obuf \<times> nat \<Rightarrow> obuf \<times> nat" where
  "put_escaped cap s w = (case w of (out, at) \<Rightarrow>
     case ameta_escape s out (if at < cap then at else 0) (if at < cap then cap - at else 0) of
       (out', n) \<Rightarrow> (out', at + n))"

fun put_unknown :: "nat \<Rightarrow> bytes list \<Rightarrow> obuf \<times> nat \<Rightarrow> obuf \<times> nat" where
  "put_unknown cap [] w = w"
| "put_unknown cap (t # ts) w = put_unknown cap ts (put_str cap ''\<newline>'' (put_text cap t w))"

definition put_entry :: "nat \<Rightarrow> ameta_entry \<Rightarrow> obuf \<times> nat \<Rightarrow> obuf \<times> nat" where
  "put_entry cap e w =
     (let w = put_str cap ''\<newline>'' (put_escaped cap (ename e) (put_str cap ''file '' w));
          w = (if has_prot e \<and> prot e AND NOT AMETA_RECORD_MASK \<noteq> 0
               then put_str cap ''\<newline>'' (put_hex cap (prot e) (put_str cap ''prot '' w)) else w);
          w = (if length (comment e) \<noteq> 0
               then put_str cap ''\<newline>'' (put_escaped cap (comment e) (put_str cap ''comment '' w)) else w);
          w = (if has_uid e
               then put_str cap ''\<newline>'' (put_decimal cap (uid e) (put_str cap ''uid '' w)) else w);
          w = (if has_gid e
               then put_str cap ''\<newline>'' (put_decimal cap (gid e) (put_str cap ''gid '' w)) else w) in
      put_unknown cap (unknown e) w)"

fun put_entries :: "nat \<Rightarrow> ameta_entry list \<Rightarrow> obuf \<times> nat \<Rightarrow> obuf \<times> nat" where
  "put_entries cap [] w = w"
| "put_entries cap (e # es) w =
     put_entries cap es (if ameta_entry_is_default e then w else put_entry cap e w)"

definition ameta_format :: "ameta_file \<Rightarrow> obuf \<Rightarrow> nat \<Rightarrow> ameta_file \<times> obuf \<times> nat" where
  "ameta_format f out cap =
     (let f = f\<lparr>entries := sort_entries (entries f)\<rparr>;
          kept = length (filter (\<lambda>e. \<not> ameta_entry_is_default e) (entries f)) in
      if kept = 0 then (f, out, 0)
      else (f, put_entries cap (entries f) (put_str cap ''ameta 1\<newline>'' (out, 0))))"

text \<open>These unfold by \<open>subst\<close> only: a recursive call has no constructor to stop at.\<close>

declare escaped_cmp_loop.simps [simp del] parse_lines.simps [simp del]
  prune_from.simps [simp del] dec_digits.simps [simp del]

end
