(* ===== verification/AmetaText.thy ===== *)
theory AmetaText
  imports Ameta
begin

text \<open>
  The writer of \<open>.ameta\<close> against the text it means to write. Each \<open>put_\<close> operation is
  \<open>put_text\<close> of a list of bytes, so \<open>ameta_format\<close> is the overlay of one text on the
  buffer: the bytes below the capacity, nothing else, and the length it needs. The escape and
  its inverse, the number formats and the byte-wise comparison are related to lists too.
\<close>

named_theorems as_text \<open>an output operation as \<open>put_text\<close> of a list\<close>

section \<open>The overlay\<close>

definition overlay :: "obuf \<Rightarrow> nat \<Rightarrow> nat \<Rightarrow> bytes \<Rightarrow> obuf" where
  "overlay out at cap s = (\<lambda>k. if at \<le> k \<and> k < at + length s \<and> k < cap then s ! (k - at) else out k)"

lemma overlay_Nil [simp]: "overlay out at cap [] = out"
  by (rule ext) (auto simp: overlay_def)

lemma overlay_Cons:
  "overlay out at cap (c # s) = overlay (if at < cap then out(at := c) else out) (at + 1) cap s"
  by (rule ext) (auto simp: overlay_def nth_Cons' Suc_le_eq)

lemma fold_put_at:
  "fold (put_at off cap) s (out, n) = (overlay out (off + n) (off + cap) s, n + length s)"
  by (induction s arbitrary: out n) (simp_all add: put_at_def overlay_Cons)

lemma put_text_fold: "put_text cap s w = fold (put_at 0 cap) s w"
  by (induction s arbitrary: w) auto

lemma put_text_overlay: "put_text cap s (out, at) = (overlay out at cap s, at + length s)"
  by (simp add: put_text_fold fold_put_at)

lemma put_text_append [as_text]: "put_text cap t (put_text cap s w) = put_text cap (s @ t) w"
  by (simp add: put_text_fold)

lemma put_text_if [as_text]:
  "(if b then put_text cap s w else w) = put_text cap (if b then s else []) w"
  by simp

lemma put_str_text [as_text]: "put_str cap s w = put_text cap (lit s) w"
  by (simp add: put_str_def)

section \<open>The escape\<close>

definition esc1 :: "u8 \<Rightarrow> bytes" where
  "esc1 b = (if escaped_byte b then [PCT, hexdigit (drop_bit 4 b), hexdigit (b AND 0xF)] else [b])"

definition esc :: "bytes \<Rightarrow> bytes" where
  "esc s = concat (map esc1 s)"

lemma esc_simps [simp]: "esc [] = []" "esc (b # s) = esc1 b @ esc s" "esc (s @ t) = esc s @ esc t"
  by (simp_all add: esc_def)

lemma escape_loop_text: "ameta_escape_loop off cap s w = fold (put_at off cap) (esc s) w"
  by (induction s arbitrary: w) (simp_all add: esc1_def)

lemma ameta_escape_text:
  "ameta_escape s out off cap = (overlay out off (off + cap) (esc s), length (esc s))"
  by (simp add: ameta_escape_def escape_loop_text fold_put_at)

lemma overlay_none: "cap \<le> at \<Longrightarrow> overlay out at cap s = out"
  by (rule ext) (auto simp: overlay_def)

lemma put_escaped_text [as_text]: "put_escaped cap s w = put_text cap (esc s) w"
  by (cases w) (simp add: put_escaped_def ameta_escape_text put_text_overlay overlay_none)

lemma hex_table: "\<forall>n\<in>set [0..<16]. hexval (lit ''0123456789ABCDEF'' ! n) = int n"
  by code_simp

lemma hexval_hexdigit: "unat d < 16 \<Longrightarrow> hexval (hexdigit d) = int (unat d)"
  using hex_table by (simp add: hexdigit_def)

lemma unat_drop_bit: "unat (drop_bit k w) = unat w div 2 ^ k"
  by (simp add: unsigned_drop_bit_eq take_bit_nat_eq_self [OF unsigned_less]
      drop_bit_eq_div [of k "unat w"])

lemma nibble_hi: "unat (drop_bit 4 (b :: u8)) < 16"
  using unsigned_less [of b, where ?'a = nat] by (simp add: unat_drop_bit del: unsigned_less)

lemma nibble_lo: "unat (w AND 0xF :: 'a::len word) < 16" if "4 < LENGTH('a)"
  using unat_and_15 [OF that, of w] by simp

lemma nibbles: "int (unat (drop_bit 4 (b :: u8))) * 16 + int (unat (b AND 0xF)) = uint b"
proof -
  have "unat (drop_bit 4 b) * 16 + unat (b AND 0xF) = unat b"
    using unat_and_15 [of b] by (simp add: unat_drop_bit)
  then show ?thesis by (metis of_nat_add of_nat_mult of_nat_numeral uint_nat)
qed

text \<open>Unescaping with any capacity: the bytes of the whole, cut at the capacity.\<close>

lemma unescape_esc:
  "ameta_unescape_loop cap (esc s @ t) (out, n) =
     ameta_unescape_loop cap t (out @ take (cap - n) s, n + length s)"
proof (induction s arbitrary: out n)
  case (Cons b s)
  have v: "hexval (hexdigit (drop_bit 4 b)) = int (unat (drop_bit 4 b))"
    "hexval (hexdigit (b AND 0xF)) = int (unat (b AND 0xF))"
    by (simp_all add: hexval_hexdigit nibble_hi nibble_lo)
  have w: "drop_bit 4 b * 16 + (b AND 0xF) = b"
    using arg_cong [OF nibbles [of b], of "word_of_int :: int \<Rightarrow> u8"] by simp
  have p: "\<not> escaped_byte b \<Longrightarrow> b \<noteq> PCT"
    by (auto simp: escaped_byte_def)
  have "n < cap \<Longrightarrow> take (cap - n) (b # s) = b # take (cap - Suc n) s"
    by (simp add: take_Cons' Suc_diff_Suc)
  then show ?case
    using Cons [of "if n < cap then out @ [b] else out" "n + 1"] p
    by (auto simp: esc1_def v w)
qed simp

lemma ameta_unescape_esc: "length s \<le> cap \<Longrightarrow> ameta_unescape (esc s) cap = Some (s, length s)"
  using unescape_esc [of cap s "[]" "[]" 0] by (simp add: ameta_unescape_def)

lemma length_esc_ge: "length s \<le> length (esc s)"
  by (induction s) (auto simp: esc1_def)

lemma esc_eq_Nil [simp]: "esc s = [] \<longleftrightarrow> s = []"
  using length_esc_ge [of s] by auto

lemma esc_inj: "esc s = esc t \<Longrightarrow> s = t"
  by (metis ameta_unescape_esc max.cobounded1 max.cobounded2 option.inject prod.inject)

section \<open>Numbers\<close>

fun hex_text :: "nat \<Rightarrow> u64 \<Rightarrow> bytes" where
  "hex_text 0 w = []"
| "hex_text (Suc i) w = hexdigit (drop_bit (4 * i) w AND 0xF) # hex_text i w"

lemma put_hex_loop_text: "put_hex_loop cap i word w = put_text cap (hex_text i word) w"
  by (induction i arbitrary: w) simp_all

definition prot_text :: "u64 \<Rightarrow> bytes" where
  "prot_text w = lit ''0x'' @ hex_text (if w > 0xFFFFFFFF then 16 else 8) w"

lemma put_hex_text [as_text]: "put_hex cap word w = put_text cap (prot_text word) w"
  unfolding put_hex_def prot_text_def put_hex_loop_text put_str_text put_text_append ..

lemma put_decimal_text [as_text]: "put_decimal cap n w = put_text cap (rev (dec_digits n)) w"
  by (simp add: put_decimal_def)

section \<open>The file\<close>

definition opt_line :: "bool \<Rightarrow> bytes \<Rightarrow> bytes list" where
  "opt_line b l = (if b then [l] else [])"

text \<open>The lines of an entry, without their newlines.\<close>

definition entry_lines :: "ameta_entry \<Rightarrow> bytes list" where
  "entry_lines e =
     [lit ''file '' @ esc (ename e)] @
     opt_line (recorded_prot e) (lit ''prot '' @ prot_text (prot e)) @
     opt_line (comment e \<noteq> []) (lit ''comment '' @ esc (comment e)) @
     opt_line (has_uid e) (lit ''uid '' @ rev (dec_digits (uid e))) @
     opt_line (has_gid e) (lit ''gid '' @ rev (dec_digits (gid e))) @
     unknown e"

definition unlines :: "bytes list \<Rightarrow> bytes" where
  "unlines ls = concat (map (\<lambda>l. l @ [NL]) ls)"

lemma unlines_simps [simp]:
  "unlines [] = []" "unlines (l # ls) = l @ NL # unlines ls" "unlines (ls @ ls') = unlines ls @ unlines ls'"
  by (simp_all add: unlines_def)

definition kept :: "ameta_entry list \<Rightarrow> ameta_entry list" where
  "kept es = filter (\<lambda>e. \<not> ameta_entry_is_default e) es"

definition file_lines :: "ameta_entry list \<Rightarrow> bytes list" where
  "file_lines es = lit ''ameta 1'' # concat (map entry_lines (kept es))"

lemma lit_NL [simp]: "lit ''\<newline>'' = [NL]"
  by (simp add: lit_def)

lemma put_unknown_text [as_text]: "put_unknown cap ts w = put_text cap (unlines ts) w"
  by (induction ts arbitrary: w) (simp_all add: as_text lit_def)

lemma unlines_opt [simp]: "unlines (opt_line b l) = (if b then l @ [NL] else [])"
  by (simp add: opt_line_def)

lemma put_entry_text [as_text]: "put_entry cap e w = put_text cap (unlines (entry_lines e)) w"
  by (simp add: put_entry_def entry_lines_def recorded_prot_def Let_def as_text
      del: put_text.simps split del: if_split cong: if_cong)

lemma put_entries_text [as_text]:
  "put_entries cap es w = put_text cap (unlines (concat (map entry_lines (kept es)))) w"
  by (induction es arbitrary: w) (simp_all add: kept_def as_text)

lemma lit_append: "lit (s @ t) = lit s @ lit t"
  by (simp add: lit_def)

lemma ameta_format_text:
  "ameta_format f out cap =
    (let es = sort_entries (entries f); t = (if kept es = [] then [] else unlines (file_lines es)) in
     (f\<lparr>entries := es\<rparr>, overlay out 0 cap t, length t))"
proof -
  have "put_entries cap es (put_str cap ''ameta 1\<newline>'' (out, 0)) =
      put_text cap (unlines (file_lines es)) (out, 0)" for es
    using lit_append [of "''ameta 1''" "''\<newline>''"]
    by (simp add: as_text file_lines_def del: put_text.simps)
  then show ?thesis
    by (simp add: ameta_format_def Let_def put_text_overlay kept_def [symmetric])
qed

end
