(* ===== verification/AmetaSort.thy ===== *)
theory AmetaSort
  imports AmetaText "HOL-Library.List_Lexorder" "HOL-Library.Multiset"
begin

text \<open>
  The canonical order of \<open>.ameta\<close>: the comparison that escapes two names on the fly is the
  lexicographic order of their escaped forms, and the insertion sort of the writer puts the
  entries into it.
\<close>

section \<open>The escaping stream\<close>

text \<open>What a stream still has to deliver.\<close>

definition es_text :: "esc_stream \<Rightarrow> bytes" where
  "es_text s = take (npending s) [pend0 s, pend1 s] @ esc (drop (es_at s) (es_name s))"

definition es_ok :: "esc_stream \<Rightarrow> bool" where
  "es_ok s \<longleftrightarrow> npending s \<le> 2"

lemma es_start [simp]: "es_text (esc_start nm) = esc nm" "es_ok (esc_start nm)"
  by (simp_all add: es_text_def es_ok_def esc_start_def)

lemma es_next_text:
  assumes "es_ok s"
  shows "\<exists>s'. esc_next s = (case es_text s of [] \<Rightarrow> - 1 | c # _ \<Rightarrow> uint c, s') \<and>
    es_ok s' \<and> es_text s' = tl (es_text s)"
proof -
  consider (p0) "npending s = 0" | (p1) "npending s = 1" | (p2) "npending s = 2"
    using assms unfolding es_ok_def by linarith
  then show ?thesis
  proof cases
    case p0
    show ?thesis
    proof (cases "es_at s \<ge> length (es_name s)")
      case False
      then obtain b bs where "drop (es_at s) (es_name s) = b # bs" "es_name s ! es_at s = b"
        "drop (Suc (es_at s)) (es_name s) = bs"
        by (metis Cons_nth_drop_Suc not_le)
      with p0 False show ?thesis
        by (auto simp: esc_next_def es_text_def es_ok_def esc1_def Let_def)
    qed (use p0 in \<open>auto simp: esc_next_def es_text_def es_ok_def\<close>)
  qed (auto simp: esc_next_def es_text_def es_ok_def)
qed

lemma uint_less_iff: "uint (a :: u8) < uint b \<longleftrightarrow> a < b" "uint a = uint b \<longleftrightarrow> a = b"
  by (simp_all add: word_less_def word_uint_eq_iff)

lemma eof_byte: "- 1 < uint (a :: u8)" "- 1 \<noteq> uint a" "uint a \<noteq> - 1" "\<not> uint a < - 1"
  using uint_ge_0 [of a] by linarith+

lemma escaped_cmp_loop_lex:
  "es_ok x \<Longrightarrow> es_ok y \<Longrightarrow> escaped_cmp_loop x y =
     (if es_text x = es_text y then 0 else if es_text x < es_text y then - 1 else 1)"
proof (induction x y rule: escaped_cmp_loop.induct)
  case (1 x y)
  obtain x' where x: "esc_next x = (case es_text x of [] \<Rightarrow> - 1 | c # _ \<Rightarrow> uint c, x')"
    "es_ok x'" "es_text x' = tl (es_text x)" using es_next_text [OF "1.prems"(1)] by blast
  obtain y' where y: "esc_next y = (case es_text y of [] \<Rightarrow> - 1 | c # _ \<Rightarrow> uint c, y')"
    "es_ok y'" "es_text y' = tl (es_text y)" using es_next_text [OF "1.prems"(2)] by blast
  show ?case
  proof (cases "es_text x")
    case Nil
    with x y show ?thesis
      by (cases "es_text y") (auto simp: escaped_cmp_loop.simps [of x y] eof_byte)
  next
    case xs: (Cons c cs)
    show ?thesis
    proof (cases "es_text y")
      case Nil
      with x y xs show ?thesis
        by (auto simp: escaped_cmp_loop.simps [of x y] eof_byte)
    next
      case (Cons d ds)
      with x y xs "1.IH" [OF x(1) [symmetric] y(1) [symmetric]] show ?thesis
        by (auto simp: escaped_cmp_loop.simps [of x y] uint_less_iff)
    qed
  qed
qed

lemma escaped_compare_lex:
  "escaped_compare a b = (if esc (ename a) = esc (ename b) then 0
     else if esc (ename a) < esc (ename b) then - 1 else 1)"
  by (simp add: escaped_compare_def escaped_cmp_loop_lex)

section \<open>The insertion sort\<close>

abbreviation ekey :: "ameta_entry \<Rightarrow> bytes" where
  "ekey e \<equiv> esc (ename e)"

lemma compare_pos: "escaped_compare a b > 0 \<longleftrightarrow> ekey b < ekey a"
  by (auto simp: escaped_compare_lex)

text \<open>Shifting stops at an index \<open>k\<close>: everything from there on is greater.\<close>

lemma shift_in_at:
  "j < length es \<Longrightarrow> \<exists>k\<le>j. shift_in m j es = take k es @ m # drop k (take j es) @ drop (Suc j) es \<and>
     (\<forall>e\<in>set (drop k (take j es)). ekey m < ekey e) \<and> (k = 0 \<or> ekey (es ! (k - 1)) \<le> ekey m)"
proof (induction j arbitrary: es)
  case 0
  then show ?case by (cases es) auto
next
  case (Suc j)
  show ?case
  proof (cases "ekey m < ekey (es ! j)")
    case True
    let ?es = "es[Suc j := es ! j]"
    have "j < length ?es" using Suc.prems by simp
    from Suc.IH [OF this] obtain k where k: "k \<le> j" "shift_in m j ?es = take k ?es @ m # drop k (take j ?es) @ drop (Suc j) ?es"
      "\<forall>e\<in>set (drop k (take j ?es)). ekey m < ekey e" "k = 0 \<or> ekey (?es ! (k - 1)) \<le> ekey m"
      by blast
    have d: "drop (Suc j) ?es = es ! j # drop (Suc (Suc j)) es"
      using Suc.prems by (simp add: drop_update_swap Cons_nth_drop_Suc [symmetric] flip: Cons_nth_drop_Suc)
    have t: "take (Suc j) es = take j es @ [es ! j]"
      using Suc.prems by (simp add: take_Suc_conv_app_nth)
    have dt: "drop k (take (Suc j) es) = drop k (take j es) @ [es ! j]"
      using t k(1) Suc.prems by simp
    have n: "k = 0 \<or> ?es ! (k - 1) = es ! (k - 1)" using k(1) by auto
    show ?thesis
      using k True d dt n by (intro exI [of _ k]) (auto simp: compare_pos)
  next
    case False
    then show ?thesis
      using Suc.prems by (intro exI [of _ "Suc j"]) (auto simp: compare_pos upd_conv_take_nth_drop)
  qed
qed

lemma shift_in_sorted:
  assumes "i < length es" "sorted (map ekey (take i es))"
  shows "sorted (map ekey (take (Suc i) (shift_in (es ! i) i es)))"
    "mset (shift_in (es ! i) i es) = mset es"
    "length (shift_in (es ! i) i es) = length es"
proof -
  obtain k where k: "k \<le> i" "shift_in (es ! i) i es = take k es @ es ! i # drop k (take i es) @ drop (Suc i) es"
    "\<forall>e\<in>set (drop k (take i es)). ekey (es ! i) < ekey e" "k = 0 \<or> ekey (es ! (k - 1)) \<le> ekey (es ! i)"
    using shift_in_at [OF assms(1)] by blast
  have s: "take i es = take k es @ drop k (take i es)"
    using k(1) by (metis append_take_drop_id min.absorb1 take_take)
  have t: "es = take i es @ es ! i # drop (Suc i) es"
    using assms(1) by (simp add: id_take_nth_drop)
  show l: "length (shift_in (es ! i) i es) = length es"
    unfolding k(2) using k(1) assms(1) by simp
  have "mset es = mset (take k es) + mset (drop k (take i es)) + {#es ! i#} + mset (drop (Suc i) es)"
    using arg_cong [OF t, of mset] arg_cong [OF s, of mset] by simp
  then show "mset (shift_in (es ! i) i es) = mset es"
    unfolding k(2) by simp
  have le: "ekey e \<le> ekey (es ! i)" if e: "e \<in> set (take k es)" for e
  proof (cases "k = 0")
    case False
    have "sorted (map ekey (take k es))"
      using assms(2) k(1) by (subst (asm) s) (simp add: sorted_append)
    moreover obtain j where "j < k" "e = es ! j"
      using e by (auto simp: in_set_conv_nth)
    ultimately have "ekey e \<le> ekey (es ! (k - 1))"
      using False k(1) assms(1) sorted_nth_mono [of "map ekey (take k es)" j "k - 1"] by simp
    with k(4) False show ?thesis by auto
  qed (use e in simp)
  have "take (Suc i) (shift_in (es ! i) i es) = take k es @ es ! i # drop k (take i es)"
    unfolding k(2) using k(1) assms(1) by (simp add: Suc_diff_le)
  then show "sorted (map ekey (take (Suc i) (shift_in (es ! i) i es)))"
    using assms(2) le k(3) by (subst (asm) s) (auto simp: sorted_append le_less dest: le)
qed

lemma sort_from_sorted:
  "i + k = length es \<Longrightarrow> sorted (map ekey (take i es)) \<Longrightarrow>
     sorted (map ekey (sort_from k i es)) \<and> mset (sort_from k i es) = mset es"
proof (induction k arbitrary: i es)
  case (Suc k)
  then show ?case
    using shift_in_sorted [of i es] Suc.IH [of "Suc i" "shift_in (es ! i) i es"] by simp
qed simp

lemma sort_entries_sorted: "sorted (map ekey (sort_entries es))" "mset (sort_entries es) = mset es"
proof -
  have "sorted (map ekey (sort_entries es)) \<and> mset (sort_entries es) = mset es"
  proof (cases es)
    case (Cons e es')
    then show ?thesis
      unfolding sort_entries_def by (intro sort_from_sorted) simp_all
  qed (simp add: sort_entries_def)
  then show "sorted (map ekey (sort_entries es))" "mset (sort_entries es) = mset es" by auto
qed

end
