(* ===== verification/AmetaParse.thy ===== *)
theory AmetaParse
  imports AmetaSort
begin

text \<open>
  Reading back what the writer wrote, line by line: the parser on a text of lines is a run
  over the lines, and each line of an entry sets the field it was written from.
\<close>

section \<open>Lines\<close>

fun run_lines :: "bytes list \<Rightarrow> nat \<Rightarrow> pstate \<Rightarrow> pres" where
  "run_lines [] n ps = PGo ps"
| "run_lines (l # ls) n ps = (case parse_line (n + 1) l ps of
     PGo ps' \<Rightarrow> run_lines ls (n + 1) ps' | PNomem ps' \<Rightarrow> PNomem ps')"

text \<open>A line that the line splitting of the parser gives back unchanged.\<close>

definition plain_line :: "bytes \<Rightarrow> bool" where
  "plain_line l \<longleftrightarrow> NL \<notin> set l \<and> strip_cr l = l"

lemma takeWhile_line: "NL \<notin> set l \<Longrightarrow> takeWhile (\<lambda>c. c \<noteq> NL) (l @ NL # r) = l"
  by (subst takeWhile_append2) auto

lemma parse_lines_line:
  assumes "plain_line l" "0 < n"
  shows "parse_lines (l @ NL # r) n ps = (case parse_line (n + 1) l ps of
     PGo ps' \<Rightarrow> parse_lines r (n + 1) ps' | PNomem ps' \<Rightarrow> AMETA_NOMEM ps')"
  using assms
  by (subst parse_lines.simps) (simp add: takeWhile_line plain_line_def Let_def Suc_diff_le cong: pres.case_cong)

lemma parse_lines_run:
  "\<forall>l\<in>set ls. plain_line l \<Longrightarrow> 0 < n \<Longrightarrow> parse_lines (unlines ls) n ps =
     (case run_lines ls n ps of PGo ps' \<Rightarrow> AMETA_OK ps' | PNomem ps' \<Rightarrow> AMETA_NOMEM ps')"
  by (induction ls arbitrary: n ps)
    (auto simp: parse_lines.simps [of "[]"] parse_lines_line split: pres.split)

lemma parse_lines_header: "parse_lines (lit ''ameta 1'' @ NL # r) 0 ps = parse_lines r 1 ps"
  by (subst parse_lines.simps) (simp add: takeWhile_line lit_def Let_def strip_cr_def)

text \<open>A step that succeeds and leads to a state with a property.\<close>

definition step_to :: "pres \<Rightarrow> (pstate \<Rightarrow> bool) \<Rightarrow> bool" where
  "step_to r P \<longleftrightarrow> (\<exists>ps. r = PGo ps \<and> P ps)"

lemma step_to_simps [simp]: "step_to (PGo ps) P = P ps" "\<not> step_to (PNomem ps) P"
  by (simp_all add: step_to_def)

lemma step_to_mono: "step_to r P \<Longrightarrow> (\<And>ps. P ps \<Longrightarrow> Q ps) \<Longrightarrow> step_to r Q"
  by (auto simp: step_to_def)

lemma run_one: "run_lines [l] n ps = parse_line (n + 1) l ps"
  by (simp split: pres.split)

lemma run_append:
  "step_to (run_lines ls n ps) P \<Longrightarrow> (\<And>ps' n'. P ps' \<Longrightarrow> step_to (run_lines ls' n' ps') Q) \<Longrightarrow>
     step_to (run_lines (ls @ ls') n ps) Q"
  by (induction ls arbitrary: n ps) (auto split: pres.splits)

section \<open>Room in the arena\<close>

text \<open>
  The entry array doubles, so its blocks cost at most 162 bytes per slot; the potential counts
  two slots of that per entry and takes back the slots that are still free.
\<close>

definition room :: "nat \<Rightarrow> pstate \<Rightarrow> bool" where
  "room B ps \<longleftrightarrow>
     unat (used (p_arena ps)) + 324 * length (entries (p_file ps)) + 1296 + B
       \<le> unat (acap (p_arena ps)) + 162 * fcap (p_file ps) \<and>
     unat (acap (p_arena ps)) < 2 ^ 63 \<and> length (entries (p_file ps)) \<le> fcap (p_file ps) \<and>
     (fcap (p_file ps) \<le> 8 \<or> fcap (p_file ps) \<le> 2 * length (entries (p_file ps)))"

lemma arena_take_enough:
  assumes "unat (used a) + 7 + n \<le> unat (acap a)" "unat (acap a) < 2 ^ 63"
  shows "\<exists>a'. arena_take a n = Some a' \<and> acap a' = acap a \<and> unat (used a') \<le> unat (used a) + 7 + n"
proof -
  let ?s = "(used a + 7) AND NOT 7"
  have u: "unat (used a + 7) = unat (used a) + 7"
    using assms by (simp add: unat_word_ariths)
  have s: "unat ?s = (unat (used a) + 7) div 8 * 8"
    using unat_and_not_mask [of "used a + 7" 3] u by (simp add: mask_eq_exp_minus_1)
  then have le: "unat ?s \<le> unat (used a) + 7" by linarith
  have n: "unat (of_nat n :: u64) = n"
    using assms by (simp add: unat_of_nat)
  have "unat (acap a - ?s) = unat (acap a) - unat ?s"
    using le assms by (intro unat_sub) (simp add: word_le_nat_alt)
  then have "\<not> ?s > acap a \<and> \<not> of_nat n > acap a - ?s"
    using le assms n by (auto simp: word_less_nat_alt)
  moreover have "unat (?s + of_nat n) = unat ?s + n"
    using le assms n by (simp add: unat_word_ariths)
  ultimately show ?thesis
    using le by (simp add: arena_take_def arena_alloc_def Let_def)
qed

lemma room_used: "room B ps \<Longrightarrow> unat (used (p_arena ps)) + B \<le> unat (acap (p_arena ps)) \<and> unat (acap (p_arena ps)) < 2 ^ 63"
  by (auto simp: room_def)

lemma room_mono: "room B ps \<Longrightarrow> B' \<le> B \<Longrightarrow> room B' ps"
  by (auto simp: room_def)

lemma room_take:
  assumes "room (B + 7 + n) ps"
  obtains a where "arena_take (p_arena ps) n = Some a" "room B (ps\<lparr>p_arena := a\<rparr>)"
proof -
  from arena_take_enough [of "p_arena ps" n] room_used [OF assms]
  obtain a where a: "arena_take (p_arena ps) n = Some a" "acap a = acap (p_arena ps)"
    "unat (used a) \<le> unat (used (p_arena ps)) + 7 + n" by auto
  with assms have "room B (ps\<lparr>p_arena := a\<rparr>)" by (auto simp: room_def)
  with a that show ?thesis by blast
qed

lemma room_block:
  assumes "room (B + 8 + length s) ps"
  obtains a where "arena_take (p_arena ps) (if s \<noteq> [] then length s else 1) = Some a"
    "arena_copy (p_arena ps) s = Some (s, a)" "room B (ps\<lparr>p_arena := a\<rparr>)"
proof -
  have "room (B + 7 + (if s \<noteq> [] then length s else 1)) ps"
    by (rule room_mono [OF assms]) simp
  then obtain a where "arena_take (p_arena ps) (if s \<noteq> [] then length s else 1) = Some a"
    "room B (ps\<lparr>p_arena := a\<rparr>)" by (rule room_take)
  with that show ?thesis by (simp add: arena_copy_def)
qed

lemma room_same:
  "room B ps \<Longrightarrow> length (entries f) = length (entries (p_file ps)) \<Longrightarrow> fcap f = fcap (p_file ps) \<Longrightarrow>
     p_file ps' = f \<Longrightarrow> p_arena ps' = p_arena ps \<Longrightarrow> room B ps'"
  by (auto simp: room_def)

lemma room_add_entry:
  assumes "room (B + 331) ps"
  obtains f a where "add_entry (p_file ps) (p_arena ps) = Some (f, a)"
    "entries f = entries (p_file ps) @ [zero_entry]" "room B (ps\<lparr>p_file := f, p_arena := a\<rparr>)"
proof -
  let ?f = "p_file ps" and ?a = "p_arena ps"
  show ?thesis
  proof (cases "length (entries ?f) = fcap ?f")
    case False
    then show ?thesis
      using assms by (intro that [of "?f\<lparr>entries := entries ?f @ [zero_entry]\<rparr>" ?a])
        (auto simp: add_entry_def room_def)
  next
    case full: True
    let ?c = "if fcap ?f \<noteq> 0 then fcap ?f * 2 else 8"
    have "unat (used ?a) + 7 + ?c * sizeof_entry \<le> unat (acap ?a) \<and> unat (acap ?a) < 2 ^ 63"
      using assms full by (auto simp: room_def sizeof_entry_def)
    then obtain a where a: "arena_take ?a (?c * sizeof_entry) = Some a" "acap a = acap ?a"
      "unat (used a) \<le> unat (used ?a) + 7 + ?c * sizeof_entry"
      using arena_take_enough [of ?a "?c * sizeof_entry"] by auto
    show ?thesis
    proof (rule that)
      show "add_entry ?f ?a = Some (?f\<lparr>entries := entries ?f @ [zero_entry], fcap := ?c\<rparr>, a)"
        using full a by (simp add: add_entry_def Let_def)
      show "room B (ps\<lparr>p_file := ?f\<lparr>entries := entries ?f @ [zero_entry], fcap := ?c\<rparr>, p_arena := a\<rparr>)"
        using assms full a by (auto simp: room_def sizeof_entry_def)
    qed simp
  qed
qed

section \<open>Printable text\<close>

definition graphic :: "u8 \<Rightarrow> bool" where
  "graphic b \<longleftrightarrow> 0x20 < b \<and> b < 0x7F"

lemma valid_ascii: "\<forall>b\<in>set s. b < 0x80 \<Longrightarrow> valid_utf8 s"
  by (induction s) auto

lemma hexdigit_graphic: "unat d < 16 \<Longrightarrow> graphic (hexdigit d)"
proof -
  have "\<forall>n\<in>set [0..<16]. graphic (lit ''0123456789ABCDEF'' ! n)" by code_simp
  then show "unat d < 16 \<Longrightarrow> graphic (hexdigit d)" by (simp add: hexdigit_def)
qed

lemma esc_graphic: "b \<in> set (esc s) \<Longrightarrow> graphic b"
  by (induction s)
    (auto simp: esc1_def hexdigit_graphic nibble_hi nibble_lo split: if_splits,
     auto simp: escaped_byte_def graphic_def)

definition printable :: "bytes \<Rightarrow> bool" where
  "printable l \<longleftrightarrow> (\<forall>b\<in>set l. b = BLANK \<or> graphic b)"

lemma printable_plain: "printable l \<Longrightarrow> plain_line l \<and> valid_utf8 l"
proof -
  assume p: "printable l"
  have g: "b = BLANK \<or> 0x20 < b \<and> b < 0x7F" if "b \<in> set l" for b
    using p that unfolding printable_def graphic_def by blast
  have "b < 0x80 \<and> b \<noteq> NL \<and> b \<noteq> CR" if "b \<in> set l" for b
    using g [OF that] by (auto elim: less_trans)
  then show ?thesis
    by (auto simp: plain_line_def strip_cr_def valid_ascii dest: last_in_set)
qed

lemma printable_append [simp]: "printable (s @ t) \<longleftrightarrow> printable s \<and> printable t"
  by (auto simp: printable_def)

lemma printable_esc [simp]: "printable (esc s)"
  by (simp add: printable_def esc_graphic)

lemma printable_lits [simp]:
  "printable (lit ''file '')" "printable (lit ''prot '')" "printable (lit ''comment '')"
  "printable (lit ''uid '')" "printable (lit ''gid '')" "printable (lit ''0x'')"
  by (simp_all add: printable_def lit_def graphic_def)

section \<open>Numbers read back\<close>

lemma hexdigit_value: "unat (d :: 'a::len word) < 16 \<Longrightarrow>
    (of_int (hexval (hexdigit d)) :: 'b::len word) = of_nat (unat d) \<and> \<not> hexval (hexdigit d) < 0"
  by (simp add: hexval_hexdigit)

lemma push_nibble:
  "push_bit (4 * i) (push_bit 4 acc OR (drop_bit (4 * i) w AND 0xF)) OR take_bit (4 * i) w =
     push_bit (4 * Suc i) acc OR take_bit (4 * Suc i) (w :: u64)"
proof -
  have n: "drop_bit (4 * i) w AND 0xF = take_bit 4 (drop_bit (4 * i) w)"
    by (simp add: take_bit_eq_mask mask_eq_exp_minus_1)
  show ?thesis
    unfolding n by (rule bit_word_eqI) (auto simp: bit_simps add.commute [of "4 * i"])
qed

lemma parse_prot_hex: "parse_prot_loop (hex_text i w) acc = Inr (push_bit (4 * i) acc OR take_bit (4 * i) w)"
proof (induction i arbitrary: acc)
  case (Suc i)
  have n: "unat (drop_bit (4 * i) w AND 0xF) < 16" by (rule nibble_lo) simp
  show ?case
    using hexdigit_value [OF n, where ?'b = 64] Suc push_nibble [of i acc w] by simp
qed simp

lemma length_hex_text [simp]: "length (hex_text i w) = i"
  by (induction i) simp_all

lemma parse_prot_text [simp]: "parse_prot (prot_text w) = Inr w"
proof (cases "w > 0xFFFFFFFF")
  case True
  then show ?thesis
    by (simp add: parse_prot_def prot_text_def lit_def parse_prot_hex take_bit_word_eq_self)
next
  case False
  then have "unat w < 2 ^ 32" by (simp add: not_less word_le_nat_alt)
  then have "take_bit 32 w = w"
    by (metis take_bit_nat_eq_self unsigned_take_bit_eq word_unat_eq_iff)
  with False show ?thesis
    by (simp add: parse_prot_def prot_text_def lit_def parse_prot_hex)
qed

lemma printable_hex [simp]: "printable (hex_text i w)"
  by (induction i) (auto simp: printable_def intro!: hexdigit_graphic nibble_lo)

lemma printable_prot [simp]: "printable (prot_text w)"
  by (simp add: prot_text_def)

lemma unat_mod10: "unat (n mod 10 :: u32) = unat n mod 10" "unat (n mod 10) < 10"
  by (simp_all add: unat_mod)

lemma digit_byte: "unat (0x30 + ucast (n mod 10 :: u32) :: u8) = 0x30 + unat n mod 10"
proof -
  have "unat (ucast (n mod 10) :: u8) = unat n mod 10"
    using unat_mod10 [of n] by (simp add: unsigned_ucast_eq take_bit_nat_eq_self)
  then show ?thesis by (simp add: unat_word_ariths)
qed

lemma ucast_32_64_32: "ucast (ucast (n :: u32) :: u64) = n"
  by (rule bit_word_eqI) (simp add: bit_simps)

lemma parse_id_digit:
  "parse_id_loop ((0x30 + ucast (n mod 10)) # t) (ucast (n div 10)) = parse_id_loop t (ucast (n :: u32))"
proof -
  define d :: u8 where "d = 0x30 + ucast (n mod 10)"
  have d: "unat d = 0x30 + unat n mod 10" unfolding d_def by (rule digit_byte)
  then have r: "\<not> d < 0x30 \<and> \<not> d > 0x39"
    by (simp add: word_less_nat_alt)
  have "unat (d - 0x30) = unat n mod 10"
    using d by (subst unat_sub) (simp_all add: word_le_nat_alt)
  then have c: "unat (ucast (d - 0x30) :: u64) = unat n mod 10"
    using unat_ucast_8_64 [of "d - 0x30"] by (rule trans [rotated])
  have q: "unat (ucast (n div 10) :: u64) = unat n div 10" "unat (ucast n :: u64) = unat n"
    by (simp_all add: unat_ucast_32_64 unat_div)
  have n: "(ucast (n div 10) :: u64) * 10 + ucast (d - 0x30) = ucast n"
    using unsigned_less [of n, where ?'a = nat]
    by (simp add: word_unat_eq_iff unat_word_ariths c q)
  have "\<not> (0xFFFFFFFF < (ucast n :: u64))"
    using unsigned_less [of n, where ?'a = nat] q(2) by (simp add: word_less_nat_alt)
  then show ?thesis
    using r n by (simp add: Let_def flip: d_def)
qed

lemma parse_id_dec: "parse_id_loop (rev (dec_digits n) @ t) 0 = parse_id_loop t (ucast n)"
proof (induction n arbitrary: t rule: dec_digits.induct)
  case (1 n)
  show ?case
  proof (cases "n div 10 = 0")
    case True
    then show ?thesis
      using parse_id_digit [of n t] by (simp add: dec_digits.simps [of n])
  next
    case False
    then show ?thesis
      using "1.IH" [OF False] parse_id_digit [of n t] by (subst dec_digits.simps) simp
  qed
qed

lemma parse_id_text [simp]: "parse_id (rev (dec_digits n)) = Some n"
proof -
  have "dec_digits n \<noteq> []" by (subst dec_digits.simps) simp
  then show ?thesis
    using parse_id_dec [of n "[]"] by (simp add: parse_id_def ucast_32_64_32)
qed

lemma printable_dec [simp]: "printable (rev (dec_digits n))"
proof (induction n rule: dec_digits.induct)
  case (1 n)
  have "graphic (0x30 + ucast (n mod 10))"
    using digit_byte [of n] by (simp add: graphic_def word_less_nat_alt)
  with 1 show ?case
    by (subst dec_digits.simps) (simp add: printable_def)
qed

lemma length_dec: "unat n < 10 ^ Suc k \<Longrightarrow> length (dec_digits n) \<le> Suc k"
proof (induction k arbitrary: n)
  case 0
  then show ?case
    by (subst dec_digits.simps) (simp add: word_unat_eq_iff unat_div)
next
  case (Suc k)
  have "unat (n div 10) < 10 ^ Suc k"
    using Suc.prems by (simp add: unat_div less_mult_imp_div_less)
  with Suc.IH show ?case by (subst dec_digits.simps) simp
qed

text \<open>The ten bytes of \<open>digits\<close> in \<open>put_decimal\<close> are enough.\<close>

lemma length_dec_digits: "length (dec_digits n) \<le> 10"
  using length_dec [of n 9] unsigned_less [of n, where ?'a = nat] by simp

end
