(* ===== verification/AmetaRound.thy ===== *)
theory AmetaRound
  imports AmetaParse
begin

text \<open>
  The round trip of \<open>.ameta\<close>: what \<open>ameta_format\<close> writes, \<open>ameta_parse\<close> reads back as the
  recorded entries in canonical order, without a report.
\<close>

section \<open>What an entry records\<close>

text \<open>The part of an entry that its lines carry.\<close>

definition recorded :: "ameta_entry \<Rightarrow> ameta_entry" where
  "recorded e = \<lparr>ename = ename e, has_prot = recorded_prot e,
     prot = (if recorded_prot e then prot e else 0), comment = comment e,
     has_uid = has_uid e, has_gid = has_gid e,
     uid = (if has_uid e then uid e else 0), gid = (if has_gid e then gid e else 0),
     unknown = unknown e\<rparr>"

lemma ename_recorded [simp]: "ename (recorded e) = ename e"
  by (simp add: recorded_def)

definition known_keys :: "bytes set" where
  "known_keys = {lit ''file'', lit ''prot'', lit ''comment'', lit ''uid'', lit ''gid''}"

text \<open>An unknown line the parser keeps: valid, no newline, no trailing CR, no known key.\<close>

definition foreign_line :: "bytes \<Rightarrow> bool" where
  "foreign_line t \<longleftrightarrow> plain_line t \<and> valid_utf8 t \<and> length t \<le> AMETA_MAX_LINE \<and>
     takeWhile (\<lambda>c. c \<noteq> BLANK) t \<notin> known_keys"

text \<open>An entry that can be written: a legal name and lines the parser takes.\<close>

definition writable :: "ameta_entry \<Rightarrow> bool" where
  "writable e \<longleftrightarrow> \<not> bad_name (ename e) \<and> length (esc (ename e)) + 5 \<le> AMETA_MAX_LINE \<and>
     length (esc (comment e)) + 8 \<le> AMETA_MAX_LINE \<and> (\<forall>t\<in>set (unknown e). foreign_line t)"

section \<open>One line at a time\<close>

lemma key_lit: "BLANK \<notin> set k \<Longrightarrow> takeWhile (\<lambda>c. c \<noteq> BLANK) (k @ BLANK # v) = k"
  by (subst takeWhile_append2) auto

lemma key_of [simp]:
  "takeWhile (\<lambda>c. c \<noteq> BLANK) (lit ''file '' @ v) = lit ''file''"
  "takeWhile (\<lambda>c. c \<noteq> BLANK) (lit ''prot '' @ v) = lit ''prot''"
  "takeWhile (\<lambda>c. c \<noteq> BLANK) (lit ''comment '' @ v) = lit ''comment''"
  "takeWhile (\<lambda>c. c \<noteq> BLANK) (lit ''uid '' @ v) = lit ''uid''"
  "takeWhile (\<lambda>c. c \<noteq> BLANK) (lit ''gid '' @ v) = lit ''gid''"
  by (simp_all add: lit_def)

lemma keys_differ [simp]:
  "lit ''prot'' \<noteq> lit ''file''" "lit ''comment'' \<noteq> lit ''file''" "lit ''uid'' \<noteq> lit ''file''"
  "lit ''gid'' \<noteq> lit ''file''" "lit ''comment'' \<noteq> lit ''prot''" "lit ''uid'' \<noteq> lit ''prot''"
  "lit ''gid'' \<noteq> lit ''prot''" "lit ''uid'' \<noteq> lit ''comment''" "lit ''gid'' \<noteq> lit ''comment''"
  "lit ''gid'' \<noteq> lit ''uid''" "lit ''uid'' ! 0 = 0x75" "lit ''gid'' ! 0 \<noteq> 0x75"
  by (simp_all add: lit_def)

lemma lit_lengths [simp]:
  "length (lit ''file '') = 5" "length (lit ''prot '') = 5" "length (lit ''comment '') = 8"
  "length (lit ''uid '') = 4" "length (lit ''gid '') = 4" "length (lit ''0x'') = 2"
  "length (lit ''file'') = 4" "length (lit ''prot'') = 4" "length (lit ''comment'') = 7"
  "length (lit ''uid'') = 3" "length (lit ''gid'') = 3"
  by (simp_all add: lit_def)

lemma unescape_Nil [simp]: "ameta_unescape [] cap = Some ([], 0)"
  by (simp add: ameta_unescape_def)

text \<open>The state after some lines: the section \<open>x\<close> is open after \<open>es\<close>, with room for more.\<close>

definition at_last :: "ameta_entry list \<Rightarrow> ameta_entry \<Rightarrow> nat \<Rightarrow> pstate \<Rightarrow> bool" where
  "at_last es x B ps \<longleftrightarrow> entries (p_file ps) = es @ [x] \<and> p_cur ps = Some (length es) \<and>
     p_reports ps = [] \<and> room B ps"

definition holds_entries :: "ameta_entry list \<Rightarrow> nat \<Rightarrow> pstate \<Rightarrow> bool" where
  "holds_entries es B ps \<longleftrightarrow> entries (p_file ps) = es \<and> p_reports ps = [] \<and> room B ps"

lemma at_last_holds: "at_last es x B ps \<Longrightarrow> holds_entries (es @ [x]) B ps"
  by (simp add: at_last_def holds_entries_def)

lemma line_gate:
  "printable l \<Longrightarrow> length l \<le> AMETA_MAX_LINE \<Longrightarrow> parse_line n l ps =
    (let key = takeWhile (\<lambda>c. c \<noteq> BLANK) l; val = drop (length key + 1) l in
        if key = lit ''file'' then parse_file_key n val ps
        else (case p_cur ps of
                None \<Rightarrow> PGo (rep n ''key-before-file'' ps)
              | Some i \<Rightarrow> parse_key n key val l i ps))"
  using printable_plain [of l] by (simp add: parse_line_def)

lemma find_from_None: "find_from es nm i = None \<longleftrightarrow> nm \<notin> ename ` set es"
  by (induction es arbitrary: i) auto

lemma read_file_line:
  assumes "\<not> bad_name nm" "length (esc nm) + 5 \<le> AMETA_MAX_LINE" "nm \<notin> ename ` set es"
    and "holds_entries es (B + 339 + length (esc nm)) ps"
  shows "step_to (parse_line n (lit ''file '' @ esc nm) ps) (at_last es (zero_entry\<lparr>ename := nm\<rparr>) B)"
proof -
  have "room (B + 331 + 8 + length (esc nm)) ps"
    using assms(4) by (simp add: holds_entries_def add.commute add.left_commute)
  then obtain a where a: "arena_take (p_arena ps) (if esc nm \<noteq> [] then length (esc nm) else 1) = Some a"
    "room (B + 331) (ps\<lparr>p_arena := a\<rparr>)" by (rule room_block)
  from a(2) obtain f a' where f: "add_entry (p_file ps) a = Some (f, a')"
    "entries f = entries (p_file ps) @ [zero_entry]" "room B (ps\<lparr>p_arena := a'\<rparr>\<lparr>p_file := f\<rparr>)"
    by (rule room_add_entry) (auto simp: room_def)
  have none: "ameta_find (p_file ps) nm = None"
    using assms(3,4) by (simp add: ameta_find_def find_from_None holds_entries_def)
  have "parse_line n (lit ''file '' @ esc nm) ps = parse_file_key n (esc nm) ps"
    using assms(2) by (simp add: line_gate)
  also have "\<dots> = PGo (ps\<lparr>p_arena := a', p_cur := Some (length es),
      p_file := set_entry (length es) (zero_entry\<lparr>ename := nm\<rparr>) f\<rparr>)"
    using assms(1,4) a(1) f none ameta_unescape_esc [OF length_esc_ge, of nm]
    by (simp add: parse_file_key_def Let_def holds_entries_def)
  finally show ?thesis
    using assms(4) f by (simp add: at_last_def holds_entries_def set_entry_def room_def)
qed

text \<open>A line that overwrites the open section.\<close>

lemma put_last:
  "at_last es x B ps \<Longrightarrow> at_last es y B (ps\<lparr>p_file := set_entry (length es) y (p_file ps)\<rparr>)"
  by (auto simp: at_last_def set_entry_def room_def)

lemma length_prot_text: "length (prot_text w) \<le> 18"
  by (simp add: prot_text_def)

lemma read_prot_line:
  "at_last es x B ps \<Longrightarrow> step_to (parse_line n (lit ''prot '' @ prot_text w) ps)
     (at_last es (x\<lparr>has_prot := True, prot := w\<rparr>) B)"
  using length_prot_text [of w] put_last [of es x B ps "x\<lparr>has_prot := True, prot := w\<rparr>"]
  by (simp add: line_gate AMETA_MAX_LINE_def parse_key_def at_last_def [of es x] Let_def)

lemma read_uid_line:
  "at_last es x B ps \<Longrightarrow> step_to (parse_line n (lit ''uid '' @ rev (dec_digits v)) ps)
     (at_last es (x\<lparr>has_uid := True, uid := v\<rparr>) B)"
  using length_dec_digits [of v] put_last [of es x B ps "x\<lparr>has_uid := True, uid := v\<rparr>"]
  by (simp add: line_gate AMETA_MAX_LINE_def parse_key_def at_last_def [of es x] Let_def)

lemma read_gid_line:
  "at_last es x B ps \<Longrightarrow> step_to (parse_line n (lit ''gid '' @ rev (dec_digits v)) ps)
     (at_last es (x\<lparr>has_gid := True, gid := v\<rparr>) B)"
  using length_dec_digits [of v] put_last [of es x B ps "x\<lparr>has_gid := True, gid := v\<rparr>"]
  by (simp add: line_gate AMETA_MAX_LINE_def parse_key_def at_last_def [of es x] Let_def)

lemma read_comment_line:
  assumes "at_last es x (B + 8 + length (esc c)) ps" "length (esc c) + 8 \<le> AMETA_MAX_LINE"
  shows "step_to (parse_line n (lit ''comment '' @ esc c) ps) (at_last es (x\<lparr>comment := c\<rparr>) B)"
proof -
  from assms(1) have "room (B + 8 + length (esc c)) ps" by (simp add: at_last_def)
  then obtain a where a: "arena_take (p_arena ps) (if esc c \<noteq> [] then length (esc c) else 1) = Some a"
    "room B (ps\<lparr>p_arena := a\<rparr>)" by (rule room_block)
  then have "at_last es x B (ps\<lparr>p_arena := a\<rparr>)" using assms(1) by (simp add: at_last_def)
  from put_last [OF this, of "x\<lparr>comment := c\<rparr>"] show ?thesis
    using assms a ameta_unescape_esc [OF length_esc_ge, of c]
    by (simp add: line_gate parse_key_def at_last_def [of es x] Let_def)
qed

definition line_cost :: "nat \<Rightarrow> bytes \<Rightarrow> nat" where
  "line_cost k t = 16 * (k + 1) + 15 + length t"

lemma read_unknown_line:
  assumes "at_last es x (B + line_cost (length (unknown x)) t) ps" "foreign_line t"
  shows "step_to (parse_line n t ps) (at_last es (x\<lparr>unknown := unknown x @ [t]\<rparr>) B)"
proof -
  from assms(1) have "room (B + 8 + length t + 7 + (length (unknown x) + 1) * sizeof_line) ps"
    by (simp add: at_last_def line_cost_def sizeof_line_def algebra_simps)
  then obtain a where a: "arena_take (p_arena ps) ((length (unknown x) + 1) * sizeof_line) = Some a"
    "room (B + 8 + length t) (ps\<lparr>p_arena := a\<rparr>)" by (rule room_take)
  from a(2) obtain a' where a': "arena_copy a t = Some (t, a')" "room B (ps\<lparr>p_arena := a'\<rparr>)"
    by (rule room_block) simp
  then have "at_last es x B (ps\<lparr>p_arena := a'\<rparr>)" using assms(1) by (simp add: at_last_def)
  from put_last [OF this, of "x\<lparr>unknown := unknown x @ [t]\<rparr>"]
  have put: "at_last es (x\<lparr>unknown := unknown x @ [t]\<rparr>) B
      (ps\<lparr>p_file := set_entry (length es) (x\<lparr>unknown := unknown x @ [t]\<rparr>) (p_file ps), p_arena := a'\<rparr>)"
    by (cases ps) simp
  have k: "takeWhile (\<lambda>c. c \<noteq> BLANK) t \<notin> known_keys" "valid_utf8 t" "\<not> length t > AMETA_MAX_LINE"
    using assms(2) by (auto simp: foreign_line_def)
  with put show ?thesis
    using assms(1) a(1) a'(1)
    by (simp add: parse_line_def parse_key_def known_keys_def at_last_def [of es x] Let_def add_unknown_def)
qed

section \<open>An entry, all entries\<close>

lemma read_opt_line:
  assumes "at_last es x (B + (if b then c else 0)) ps"
    and "\<And>n ps. b \<Longrightarrow> at_last es x (B + c) ps \<Longrightarrow> step_to (parse_line n l ps) (at_last es y B)"
  shows "step_to (run_lines (opt_line b l) n ps) (at_last es (if b then y else x) B)"
  using assms by (cases b) (auto simp: opt_line_def run_one simp del: run_lines.simps(2))

fun unknown_cost :: "nat \<Rightarrow> bytes list \<Rightarrow> nat" where
  "unknown_cost k [] = 0"
| "unknown_cost k (t # ts) = line_cost k t + unknown_cost (k + 1) ts"

lemma read_unknown_lines:
  "\<forall>t\<in>set ts. foreign_line t \<Longrightarrow> at_last es x (B + unknown_cost (length (unknown x)) ts) ps \<Longrightarrow>
     step_to (run_lines ts n ps) (at_last es (x\<lparr>unknown := unknown x @ ts\<rparr>) B)"
proof (induction ts arbitrary: x n ps)
  case (Cons t ts)
  have "step_to (parse_line (n + 1) t ps)
      (at_last es (x\<lparr>unknown := unknown x @ [t]\<rparr>) (B + unknown_cost (length (unknown x) + 1) ts))"
    using Cons.prems by (intro read_unknown_line) (simp_all add: algebra_simps)
  then obtain ps' where ps': "parse_line (n + 1) t ps = PGo ps'"
    "at_last es (x\<lparr>unknown := unknown x @ [t]\<rparr>) (B + unknown_cost (length (unknown x) + 1) ts) ps'"
    by (auto simp: step_to_def)
  show ?case
    using Cons.IH [of "x\<lparr>unknown := unknown x @ [t]\<rparr>" ps' "n + 1"] Cons.prems ps' by simp
qed simp

definition entry_cost :: "ameta_entry \<Rightarrow> nat" where
  "entry_cost e = 347 + length (esc (ename e)) + length (esc (comment e)) + unknown_cost 0 (unknown e)"


lemma read_entry:
  assumes "writable e" "ename e \<notin> ename ` set es" "holds_entries es (B + entry_cost e) ps"
  shows "step_to (run_lines (entry_lines e) n ps) (at_last es (recorded e) B)"
proof -
  let ?cu = "unknown_cost 0 (unknown e)"
  let ?cc = "if comment e \<noteq> [] then 8 + length (esc (comment e)) else 0"
  let ?x0 = "zero_entry\<lparr>ename := ename e\<rparr>"
  let ?x1 = "if recorded_prot e then ?x0\<lparr>has_prot := True, prot := prot e\<rparr> else ?x0"
  let ?x2 = "if comment e \<noteq> [] then ?x1\<lparr>comment := comment e\<rparr> else ?x1"
  let ?x3 = "if has_uid e then ?x2\<lparr>has_uid := True, uid := uid e\<rparr> else ?x2"
  let ?x4 = "if has_gid e then ?x3\<lparr>has_gid := True, gid := gid e\<rparr> else ?x3"
  have h0: "holds_entries es (B + ?cu + ?cc + 339 + length (esc (ename e))) ps"
    using assms(3) room_mono [of "B + entry_cost e" ps "B + ?cu + ?cc + 339 + length (esc (ename e))"]
    by (simp add: holds_entries_def entry_cost_def)
  have s0: "step_to (run_lines [lit ''file '' @ esc (ename e)] n ps) (at_last es ?x0 (B + ?cu + ?cc))"
    unfolding run_one using assms h0 by (intro read_file_line) (simp_all add: writable_def)
  have s1: "step_to (run_lines (opt_line (recorded_prot e) (lit ''prot '' @ prot_text (prot e))) n ps)
      (at_last es ?x1 (B + ?cu + ?cc))" if "at_last es ?x0 (B + ?cu + ?cc) ps" for n ps
    using that by (intro read_opt_line [where c = 0] read_prot_line) simp_all
  have s2: "step_to (run_lines (opt_line (comment e \<noteq> []) (lit ''comment '' @ esc (comment e))) n ps)
      (at_last es ?x2 (B + ?cu))" if "at_last es ?x1 (B + ?cu + ?cc) ps" for n ps
    using that assms(1) by (intro read_opt_line [where c = "8 + length (esc (comment e))"] read_comment_line)
      (simp_all add: writable_def add.assoc)
  have s3: "step_to (run_lines (opt_line (has_uid e) (lit ''uid '' @ rev (dec_digits (uid e)))) n ps)
      (at_last es ?x3 (B + ?cu))" if "at_last es ?x2 (B + ?cu) ps" for n ps
    using that by (intro read_opt_line [where c = 0] read_uid_line) simp_all
  have s4: "step_to (run_lines (opt_line (has_gid e) (lit ''gid '' @ rev (dec_digits (gid e)))) n ps)
      (at_last es ?x4 (B + ?cu))" if "at_last es ?x3 (B + ?cu) ps" for n ps
    using that by (intro read_opt_line [where c = 0] read_gid_line) simp_all
  have u: "unknown ?x4 = []" and r: "?x4\<lparr>unknown := unknown e\<rparr> = recorded e"
    by (simp_all add: zero_entry_def recorded_def)
  have s5: "step_to (run_lines (unknown e) n ps) (at_last es (recorded e) B)"
    if "at_last es ?x4 (B + ?cu) ps" for n ps
    using read_unknown_lines [of "unknown e" es ?x4 B ps n] that assms(1) u r
    by (simp add: writable_def split del: if_split)
  show ?thesis
    unfolding entry_lines_def
    by (rule run_append [OF s0 run_append [OF s1 run_append [OF s2 run_append [OF s3
        run_append [OF s4 s5]]]]])
qed

lemma read_entries:
  "\<forall>e\<in>set ks. writable e \<Longrightarrow> distinct (map ename es @ map ename ks) \<Longrightarrow>
     holds_entries es (B + sum_list (map entry_cost ks)) ps \<Longrightarrow>
     step_to (run_lines (concat (map entry_lines ks)) n ps) (holds_entries (es @ map recorded ks) B)"
proof (induction ks arbitrary: es n ps)
  case (Cons e ks)
  have "step_to (run_lines (entry_lines e) n ps)
      (at_last es (recorded e) (B + sum_list (map entry_cost ks)))"
    using Cons.prems by (intro read_entry) (auto simp: algebra_simps)
  moreover have "step_to (run_lines (concat (map entry_lines ks)) n' ps')
      (holds_entries (es @ recorded e # map recorded ks) B)"
    if "at_last es (recorded e) (B + sum_list (map entry_cost ks)) ps'" for n' ps'
    using Cons.IH [of "es @ [recorded e]" ps' n'] at_last_holds [OF that] Cons.prems by simp
  ultimately show ?case
    using run_append by fastforce
qed simp


section \<open>The whole file\<close>

lemma mset_kept: "mset (kept (sort_entries es)) = mset (kept es)"
  by (simp add: kept_def mset_filter sort_entries_sorted)

lemma plain_entry_lines: "writable e \<Longrightarrow> l \<in> set (entry_lines e) \<Longrightarrow> plain_line l"
  using printable_plain
  by (auto simp: entry_lines_def opt_line_def writable_def foreign_line_def split: if_splits)

lemma map_overlay: "length s \<le> cap \<Longrightarrow> map (overlay out 0 cap s) [0..<length s] = s"
  by (rule nth_equalityI) (simp_all add: overlay_def)

lemma parse_file_lines:
  assumes "\<forall>e\<in>set es. writable e" "distinct (map ename es)" "kept es \<noteq> []"
    and "length (unlines (file_lines es)) \<le> AMETA_MAX_FILE"
    and "unat (used a) + 1296 + sum_list (map entry_cost (kept es)) \<le> unat (acap a)" "unat (acap a) < 2 ^ 63"
  shows "\<exists>ps. ameta_parse (unlines (file_lines es)) a = AMETA_OK ps \<and>
    entries (p_file ps) = map recorded (kept es) \<and> p_reports ps = []"
proof -
  let ?ps = "\<lparr>p_file = \<lparr>entries = [], fcap = 0\<rparr>, p_arena = a, p_cur = None, p_reports = []\<rparr>"
  let ?ls = "concat (map entry_lines (kept es))"
  have w: "\<forall>e\<in>set (kept es). writable e" and d: "distinct (map ename [] @ map ename (kept es))"
    using assms(1,2) by (auto simp: kept_def distinct_map_filter)
  have "step_to (run_lines ?ls 1 ?ps) (holds_entries ([] @ map recorded (kept es)) 0)"
    using assms(5,6) by (intro read_entries [OF w d]) (simp add: holds_entries_def room_def)
  then obtain ps where ps: "run_lines ?ls 1 ?ps = PGo ps" "holds_entries (map recorded (kept es)) 0 ps"
    by (auto simp: step_to_def)
  have "parse_lines (unlines ?ls) 1 ?ps = AMETA_OK ps"
    using parse_lines_run [of ?ls 1 ?ps] plain_entry_lines w ps(1) by auto
  then show ?thesis
    using ps(2) assms(4) parse_lines_header [of "unlines ?ls" ?ps]
    by (simp add: ameta_parse_def file_lines_def holds_entries_def)
qed

text \<open>Whatever the capacity, \<open>ameta_format\<close> puts the entries into the order of their escaped
  names, stores the first bytes of one text that depends on the entries only, as many as fit,
  touches no other byte of the buffer, and returns the length of the whole text.\<close>

theorem ameta_format_exact:
  "\<exists>es. mset es = mset (entries f) \<and> sorted (map ekey es) \<and>
     (let t = (if kept es = [] then [] else unlines (file_lines es)) in
      ameta_format f out cap = (f\<lparr>entries := es\<rparr>, overlay out 0 cap t, length t))"
  by (intro exI [of _ "sort_entries (entries f)"])
    (simp add: ameta_format_text sort_entries_sorted Let_def)

text \<open>C17: A file of entries with distinct legal names, short enough lines and foreign unknown lines,
  written in full by \<open>ameta_format\<close>, is read back by \<open>ameta_parse\<close> without a report. What is
  read are exactly the entries of the file that was formatted that are not default, each
  once and with exactly what it recorded, in ascending bytewise order of their escaped
  names; the formatted file itself keeps the same entries, in that order. An arena with
  room for them suffices.\<close>

theorem ameta_format_parse:
  assumes "\<forall>e\<in>set (entries f). writable e" "distinct (map ename (entries f))"
    and "ameta_format f out cap = (f', out', need)" "need \<le> cap" "need \<le> AMETA_MAX_FILE"
    and "unat (used a) + 1296 + sum_list (map entry_cost (kept (entries f))) \<le> unat (acap a)"
    and "unat (acap a) < 2 ^ 63"
  shows "\<exists>ps es. ameta_parse (map out' [0..<need]) a = AMETA_OK ps \<and> p_reports ps = [] \<and>
    entries (p_file ps) = map recorded es \<and>
    mset es = {#e \<in># mset (entries f). \<not> ameta_entry_is_default e#} \<and>
    sorted (map (\<lambda>e. esc (ename e)) es) \<and>
    mset (entries f') = mset (entries f) \<and> sorted (map (\<lambda>e. esc (ename e)) (entries f'))"
proof -
  let ?es = "sort_entries (entries f)"
  let ?t = "if kept ?es = [] then [] else unlines (file_lines ?es)"
  have f: "f' = f\<lparr>entries := ?es\<rparr>" "out' = overlay out 0 cap ?t" "need = length ?t"
    using assms(3) by (simp_all add: ameta_format_text Let_def)
  then have t: "map out' [0..<need] = ?t" using assms(4) map_overlay by simp
  have m: "mset ?es = mset (entries f)" by (rule sort_entries_sorted)
  then have w: "\<forall>e\<in>set ?es. writable e" and d: "distinct (map ename ?es)"
    using assms(1,2) mset_eq_setD [OF m] by (auto simp: mset_eq_imp_distinct_iff [of "map ename ?es" "map ename (entries f)"])
  have c: "sum_list (map entry_cost (kept ?es)) = sum_list (map entry_cost (kept (entries f)))"
    using mset_kept [of "entries f"] by (metis mset_map sum_mset_sum_list)
  have k: "mset (kept ?es) = {#e \<in># mset (entries f). \<not> ameta_entry_is_default e#}"
    "sorted (map ekey (kept ?es))"
    using sorted_filter [of ekey ?es] sort_entries_sorted [of "entries f"] m by (simp_all add: kept_def mset_filter)
  have "\<exists>ps. ameta_parse (map out' [0..<need]) a = AMETA_OK ps \<and> p_reports ps = [] \<and>
      entries (p_file ps) = map recorded (kept ?es)"
  proof (cases "kept ?es = []")
    case True
    then show ?thesis using t f by (simp add: ameta_parse_def)
  next
    case False
    then show ?thesis
      using parse_file_lines [OF w d False, of a] assms(5-7) t f c by (simp add: conj_commute)
  qed
  with k m sort_entries_sorted [of "entries f"] f(1) show ?thesis by auto
qed

text \<open>Two entries out of order, with every kind of line.\<close>

definition sample_file :: ameta_file where
  "sample_file = \<lparr>entries =
     [zero_entry\<lparr>ename := lit ''b c'', has_prot := True, prot := 0x10, comment := lit ''50%''\<rparr>,
      zero_entry\<lparr>ename := lit ''a'', has_uid := True, uid := 501, has_gid := True, gid := 20,
        unknown := [lit ''icon x y'']\<rparr>], fcap = 8\<rparr>"

lemma sample_facts:
  "\<forall>e\<in>set (entries sample_file). writable e" "distinct (map ename (entries sample_file))"
  "snd (snd (ameta_format sample_file (\<lambda>_. 0) 200)) = 80"
  "sort (map (\<lambda>e. esc (ename e)) (kept (entries sample_file))) = [lit ''a'', lit ''b%20c'']"
  "sum_list (map entry_cost (kept (entries sample_file))) = 744"
  by code_simp+

theorem ameta_format_parse_witness:
  "\<exists>ps. ameta_parse (map (fst (snd (ameta_format sample_file (\<lambda>_. 0) 200))) [0..<80])
      \<lparr>acap = 4096, used = 0\<rparr> = AMETA_OK ps \<and>
    map (\<lambda>e. esc (ename e)) (entries (p_file ps)) = [lit ''a'', lit ''b%20c''] \<and> p_reports ps = []"
proof -
  let ?r = "ameta_format sample_file (\<lambda>_. 0) 200"
  have "?r = (fst ?r, fst (snd ?r), 80)"
    using sample_facts(3) by (metis prod.collapse)
  from ameta_format_parse [OF sample_facts(1,2) this, of "\<lparr>acap = 4096, used = 0\<rparr>"]
  obtain ps es where ps: "ameta_parse (map (fst (snd ?r)) [0..<80]) \<lparr>acap = 4096, used = 0\<rparr> = AMETA_OK ps"
    "entries (p_file ps) = map recorded es" "p_reports ps = []"
    "mset es = {#e \<in># mset (entries sample_file). \<not> ameta_entry_is_default e#}"
    "sorted (map (\<lambda>e. esc (ename e)) es)"
    using sample_facts(5) by (auto simp: AMETA_MAX_FILE_def)
  from ps(4) have "mset es = mset (kept (entries sample_file))" by (simp add: kept_def mset_filter)
  then have "map (\<lambda>e. esc (ename e)) es = sort (map (\<lambda>e. esc (ename e)) (kept (entries sample_file)))"
    using ps(5) by (intro properties_for_sort [symmetric]) simp_all
  then show ?thesis using sample_facts(4) ps(1-3) by (simp add: comp_def)
qed

end
