(* ===== verification/AmetaEdit.thy ===== *)
theory AmetaEdit
  imports AmetaRound
begin

text \<open>
  The edits of \<open>.ameta\<close> as operations on a map from names to entries. A file keeps its names
  distinct and legal through parsing and every edit, and each edit has the effect of one map
  operation; the locale states what a client of the file needs of lookup and removal.
\<close>

section \<open>The map of a file\<close>

definition emap :: "ameta_entry list \<Rightarrow> bytes \<rightharpoonup> ameta_entry" where
  "emap es = map_of (map (\<lambda>e. (ename e, e)) es)"

abbreviation amap :: "ameta_file \<Rightarrow> bytes \<rightharpoonup> ameta_entry" where
  "amap f \<equiv> emap (entries f)"

definition names_ok :: "ameta_entry list \<Rightarrow> bool" where
  "names_ok es \<longleftrightarrow> distinct (map ename es) \<and> (\<forall>e\<in>set es. \<not> bad_name (ename e))"

text \<open>The invariant: legal distinct names, and the array is large enough.\<close>

definition file_ok :: "ameta_file \<Rightarrow> bool" where
  "file_ok f \<longleftrightarrow> names_ok (entries f) \<and> length (entries f) \<le> fcap f"

lemma emap_simps [simp]: "emap [] = Map.empty" "emap (e # es) = (emap es)(ename e \<mapsto> e)"
  by (simp_all add: emap_def)

lemma emap_append: "emap (es @ es') = emap es' ++ emap es"
  by (induction es) (simp_all add: map_add_def fun_eq_iff split: option.split)

lemma emap_None: "emap es nm = None \<longleftrightarrow> nm \<notin> ename ` set es"
  by (simp add: emap_def map_of_eq_None_iff image_image)

lemma emap_name: "emap es nm = Some e \<Longrightarrow> ename e = nm \<and> e \<in> set es"
  by (auto simp: emap_def dest!: map_of_SomeD)

lemma emap_in: "distinct (map ename es) \<Longrightarrow> e \<in> set es \<Longrightarrow> emap es (ename e) = Some e"
  by (simp add: emap_def comp_def)

lemma emap_perm: "distinct (map ename es) \<Longrightarrow> mset es = mset es' \<Longrightarrow> emap es = emap es'"
proof -
  assume d: "distinct (map ename es)" and m: "mset es = mset es'"
  have d': "distinct (map ename es')"
    using d m mset_eq_imp_distinct_iff [of "map ename es" "map ename es'"] by simp
  have s: "set es = set es'" using m by (rule mset_eq_setD)
  show "emap es = emap es'"
  proof
    fix nm show "emap es nm = emap es' nm"
    proof (cases "emap es nm")
      case None
      then show ?thesis using s by (metis emap_None)
    next
      case (Some e)
      then show ?thesis using emap_name [OF Some] emap_in [OF d', of e] s by simp
    qed
  qed
qed

section \<open>Lookup\<close>

lemma find_from_Some:
  "find_from es nm k = Some i \<Longrightarrow>
     k \<le> i \<and> i < k + length es \<and> ename (es ! (i - k)) = nm \<and> (\<forall>j<i - k. ename (es ! j) \<noteq> nm)"
proof (induction es arbitrary: k)
  case (Cons e es)
  show ?case
  proof (cases "ename e = nm")
    case False
    have "Suc k \<le> i" "i < Suc k + length es" "ename (es ! (i - Suc k)) = nm"
      "\<forall>j<i - Suc k. ename (es ! j) \<noteq> nm" using Cons.IH [of "Suc k"] Cons.prems False by auto
    moreover from this(1) have "i - k = Suc (i - Suc k)" by simp
    ultimately show ?thesis using False by (auto simp: less_Suc_eq_0_disj)
  qed (use Cons.prems in \<open>auto split: if_splits\<close>)
qed simp

lemma ameta_find_Some:
  assumes "ameta_find f nm = Some i"
  shows "i < length (entries f)" "ename (entries f ! i) = nm" "amap f nm = Some (entries f ! i)"
    and "entries f = take i (entries f) @ entries f ! i # drop (Suc i) (entries f)"
    and "nm \<notin> ename ` set (take i (entries f))"
proof -
  have i: "i < length (entries f)" "ename (entries f ! i) = nm" "\<forall>j<i. ename (entries f ! j) \<noteq> nm"
    using find_from_Some [of "entries f" nm 0 i] assms by (auto simp: ameta_find_def)
  then show "i < length (entries f)" "ename (entries f ! i) = nm" by auto
  show s: "entries f = take i (entries f) @ entries f ! i # drop (Suc i) (entries f)"
    using i(1) by (simp add: id_take_nth_drop)
  show n: "nm \<notin> ename ` set (take i (entries f))"
  proof
    assume "nm \<in> ename ` set (take i (entries f))"
    then obtain j where "j < i" "ename (entries f ! j) = nm" by (auto simp: in_set_conv_nth)
    with i(3) show False by blast
  qed
  then have "emap (take i (entries f)) nm = None" by (simp add: emap_None)
  then show "amap f nm = Some (entries f ! i)"
    using i(2) by (subst s) (simp add: emap_append map_add_def)
qed

lemma ameta_find_None: "ameta_find f nm = None \<longleftrightarrow> amap f nm = None"
  by (simp add: ameta_find_def find_from_None emap_None)

lemma ameta_find_map: "map_option (\<lambda>i. entries f ! i) (ameta_find f nm) = amap f nm"
  using ameta_find_Some(3) ameta_find_None by (cases "ameta_find f nm") auto

section \<open>Removal\<close>

lemma emap_delete:
  "nm \<notin> ename ` set a \<Longrightarrow> nm \<notin> ename ` set b \<Longrightarrow> ename e = nm \<Longrightarrow>
     emap (a @ b) = (emap (a @ e # b))(nm := None)"
proof
  fix k assume "nm \<notin> ename ` set a" "nm \<notin> ename ` set b" "ename e = nm"
  then show "emap (a @ b) k = ((emap (a @ e # b))(nm := None)) k"
    using emap_None [of a nm] emap_None [of b nm]
    by (auto simp: emap_append map_add_def split: option.split)
qed

lemma remove_at_map:
  assumes "ameta_find f nm = Some i" "distinct (map ename (entries f))"
  shows "amap (remove_at i f) = (amap f)(nm := None)"
proof -
  note fi = ameta_find_Some [OF assms(1)]
  have "distinct (map ename (take i (entries f) @ entries f ! i # drop (Suc i) (entries f)))"
    using assms(2) fi(4) by simp
  then have "nm \<notin> ename ` set (drop (Suc i) (entries f))"
    using fi(2) by auto
  from emap_delete [OF fi(5) this fi(2)] show ?thesis
    using fi(4) by (simp add: remove_at_def)
qed

lemma ameta_remove_map: "file_ok f \<Longrightarrow> amap (ameta_remove f nm) = (amap f)(nm := None)"
  using remove_at_map [of f nm] ameta_find_None [of f nm]
  by (auto simp: ameta_remove_def file_ok_def names_ok_def split: option.split)

lemma remove_at_ok: "file_ok f \<Longrightarrow> file_ok (remove_at i f)"
proof -
  assume f: "file_ok f"
  have s: "set (take i (entries f) @ drop (Suc i) (entries f)) \<subseteq> set (entries f)"
    using set_take_subset set_drop_subset by fastforce
  have "distinct (map ename (take i (entries f) @ drop (Suc i) (entries f)))"
  proof (cases "i < length (entries f)")
    case True
    then have "entries f = take i (entries f) @ entries f ! i # drop (Suc i) (entries f)"
      by (simp add: id_take_nth_drop)
    then have "distinct (map ename (take i (entries f) @ entries f ! i # drop (Suc i) (entries f)))"
      using f by (simp add: file_ok_def names_ok_def)
    then show ?thesis by simp
  qed (use f in \<open>simp add: file_ok_def names_ok_def\<close>)
  then show ?thesis
    using f s by (auto simp: file_ok_def names_ok_def remove_at_def)
qed

lemma ameta_remove_ok: "file_ok f \<Longrightarrow> file_ok (ameta_remove f nm)"
  by (simp add: ameta_remove_def remove_at_ok split: option.split)

lemma prune_from_filter:
  "prune_from ex i f = f\<lparr>entries := take i (entries f) @ filter (\<lambda>e. ex (ename e)) (drop i (entries f))\<rparr>"
proof (induction ex i f rule: prune_from.induct)
  case (1 ex i f)
  show ?case
  proof (cases "i < length (entries f)")
    case True
    have d: "drop i (entries f) = entries f ! i # drop (Suc i) (entries f)"
      using True by (simp add: Cons_nth_drop_Suc)
    show ?thesis
      using 1 True d by (subst prune_from.simps) (simp add: remove_at_def take_Suc_conv_app_nth)
  qed (subst prune_from.simps, simp)
qed

lemma ameta_prune_filter: "ameta_prune ex f = f\<lparr>entries := filter (\<lambda>e. ex (ename e)) (entries f)\<rparr>"
  by (simp add: ameta_prune_def prune_from_filter)

lemma emap_filter: "emap (filter (\<lambda>e. P (ename e)) es) = emap es |` {nm. P nm}"
  by (induction es) (auto simp: fun_eq_iff restrict_map_def)

lemma ameta_prune_map: "amap (ameta_prune ex f) = amap f |` {nm. ex nm}"
  by (simp add: ameta_prune_filter emap_filter)

lemma ameta_prune_ok: "file_ok f \<Longrightarrow> file_ok (ameta_prune ex f)"
  by (auto simp: ameta_prune_filter file_ok_def names_ok_def distinct_map_filter
      intro: le_trans [OF length_filter_le])


section \<open>Additions\<close>

lemma add_entry_ok:
  "add_entry f a = Some (f', a') \<Longrightarrow> length (entries f) \<le> fcap f \<Longrightarrow>
     entries f' = entries f @ [zero_entry] \<and> length (entries f') \<le> fcap f'"
  by (auto simp: add_entry_def Let_def split: if_splits option.splits)

text \<open>A new entry at the end of the file.\<close>

lemma append_ok:
  assumes "file_ok f" "amap f nm = None" "\<not> bad_name nm" "ename e = nm"
    and "entries f' = entries f @ [e]" "length (entries f') \<le> fcap f'"
  shows "file_ok f'" "amap f' = (amap f)(nm \<mapsto> e)"
proof -
  have n: "nm \<notin> ename ` set (entries f)" using assms(2) by (simp add: emap_None)
  with assms show "file_ok f'" by (auto simp: file_ok_def names_ok_def)
  have "emap (entries f @ [e]) k = ((amap f)(nm \<mapsto> e)) k" for k
    using assms(2,4) by (auto simp: emap_append map_add_def split: option.split)
  then show "amap f' = (amap f)(nm \<mapsto> e)" using assms(5) by (simp add: fun_eq_iff)
qed

lemma ameta_get_map:
  assumes "file_ok f" "\<not> bad_name nm" "ameta_get f a nm = (Some i, f', a')"
  shows "file_ok f'" "amap f' = (case amap f nm of None \<Rightarrow> (amap f)(nm \<mapsto> zero_entry\<lparr>ename := nm\<rparr>) | Some e \<Rightarrow> amap f)"
    and "i < length (entries f')" "ename (entries f' ! i) = nm"
proof -
  have "file_ok f' \<and> amap f' = (case amap f nm of None \<Rightarrow> (amap f)(nm \<mapsto> zero_entry\<lparr>ename := nm\<rparr>) | Some e \<Rightarrow> amap f)
    \<and> i < length (entries f') \<and> ename (entries f' ! i) = nm"
  proof (cases "ameta_find f nm")
    case (Some j)
    then show ?thesis
      using assms ameta_find_Some [OF Some] by (simp add: ameta_get_def)
  next
    case None
    then obtain a1 f1 where f1: "add_entry f a1 = Some (f1, a')" "i = length (entries f1) - 1"
      "f' = set_entry i ((entries f1 ! i)\<lparr>ename := nm\<rparr>) f1"
      using assms(3)
      by (auto simp: ameta_get_def arena_copy_def Let_def split: option.splits)
    have e: "entries f1 = entries f @ [zero_entry]" "length (entries f1) \<le> fcap f1"
      using add_entry_ok [OF f1(1)] assms(1) unfolding file_ok_def by blast+
    then have f': "entries f' = entries f @ [zero_entry\<lparr>ename := nm\<rparr>]" "length (entries f') \<le> fcap f'"
      using f1(2,3) by (simp_all add: set_entry_def)
    have none: "amap f nm = None" using None by (simp add: ameta_find_None)
    show ?thesis
      using append_ok [OF assms(1) none assms(2) _ f'] none f' f1(2) e by simp
  qed
  then show "file_ok f'" "amap f' = (case amap f nm of None \<Rightarrow> (amap f)(nm \<mapsto> zero_entry\<lparr>ename := nm\<rparr>) | Some e \<Rightarrow> amap f)"
    "i < length (entries f')" "ename (entries f' ! i) = nm" by auto
qed

lemma copy_lines_same: "copy_lines a ts = (Some us, a') \<Longrightarrow> us = ts"
  by (induction ts arbitrary: a us a')
    (auto simp: arena_copy_def split: option.splits prod.splits)

text \<open>A copy that succeeds binds the name; one that fails has changed nothing.\<close>

lemma ameta_copy_entry_map:
  assumes "file_ok f" "\<not> bad_name nm" "ameta_copy_entry f a src nm = (r, f', a')"
  shows "file_ok f'"
    and "amap f' = (case r of None \<Rightarrow> amap f | Some i \<Rightarrow> (amap f)(nm \<mapsto> src\<lparr>ename := nm\<rparr>))"
    and "r = None \<Longrightarrow> f' = f"
proof -
  let ?f1 = "ameta_remove f nm"
  have ok1: "file_ok ?f1" by (rule ameta_remove_ok [OF assms(1)])
  have none: "amap ?f1 nm = None" by (simp add: ameta_remove_map [OF assms(1)])
  have "file_ok f' \<and> amap f' = (case r of None \<Rightarrow> amap f | Some i \<Rightarrow> (amap f)(nm \<mapsto> src\<lparr>ename := nm\<rparr>)) \<and>
    (r = None \<longrightarrow> f' = f)"
  proof (cases "f' = f \<and> r = None")
    case False
    obtain o1 a1 where p1: "alloc_or_keep a (if nm \<noteq> [] then length nm else 1) = (o1, a1)"
      by (metis surj_pair)
    obtain o2 a2 where p2: "alloc_or_keep a1 (if comment src \<noteq> [] then length (comment src) else 1) = (o2, a2)"
      by (metis surj_pair)
    obtain o3 a3 where p3: "(if unknown src \<noteq> [] then alloc_or_keep a2 (length (unknown src) * sizeof_line)
        else (True, a2)) = (o3, a3)" by (metis surj_pair)
    obtain r4 a4 where p4: "copy_lines a3 (unknown src) = (r4, a4)" by (metis surj_pair)
    note eq = assms(3) [unfolded ameta_copy_entry_def p1 p2 p3 p4 prod.case]
    have all: "o1 \<and> o2 \<and> o3" using eq False by (auto split: if_splits)
    obtain us where r4: "r4 = Some us" using eq all False by (cases r4) auto
    have us: "us = unknown src" using p4 r4 copy_lines_same by blast
    have ce: "(case add_entry ?f1 a4 of
              None \<Rightarrow> (None, ?f1, a4)
            | Some (f2, a5) \<Rightarrow> (let i = length (entries f2) - 1 in
                (Some i, set_entry i (src\<lparr>ename := nm, unknown := us\<rparr>) f2, a5))) = (r, f', a')"
      using eq all r4 by (simp add: Let_def)
    show ?thesis
    proof (cases "add_entry ?f1 a4")
      case None
      text \<open>Removing an entry leaves a free slot, so a failing growth has removed nothing.\<close>
      then have full: "length (entries ?f1) = fcap ?f1"
        by (auto simp: add_entry_def split: if_splits)
      have "?f1 = f"
      proof (cases "ameta_find f nm")
        case (Some i)
        then have "length (entries ?f1) < fcap ?f1"
          using ameta_find_Some(1) [OF Some] assms(1)
          by (auto simp: ameta_remove_def remove_at_def file_ok_def)
        with full show ?thesis by simp
      qed (simp add: ameta_remove_def)
      with None ce assms(1) show ?thesis by simp
    next
      case (Some p)
      then obtain f2 a5 where f2: "add_entry ?f1 a4 = Some (f2, a5)" by (cases p) auto
      have e: "entries f2 = entries ?f1 @ [zero_entry]" "length (entries f2) \<le> fcap f2"
        using add_entry_ok [OF f2] ok1 unfolding file_ok_def by blast+
      have r: "r = Some (length (entries f2) - 1)"
        and f': "entries f' = entries ?f1 @ [src\<lparr>ename := nm\<rparr>]" "length (entries f') \<le> fcap f'"
        using ce f2 e us by (auto simp: Let_def set_entry_def)
      show ?thesis
        using append_ok [OF ok1 none assms(2) _ f'] r by (simp add: ameta_remove_map [OF assms(1)])
    qed
  qed (use assms(1) in auto)
  then show "file_ok f'" "amap f' = (case r of None \<Rightarrow> amap f | Some i \<Rightarrow> (amap f)(nm \<mapsto> src\<lparr>ename := nm\<rparr>))"
    "r = None \<Longrightarrow> f' = f" by auto
qed


section \<open>Renaming\<close>

lemma emap_replace:
  assumes "src \<notin> ename ` set (a @ b)" "dst \<notin> ename ` set (a @ b)" "ename e = src" "ename e' = dst"
  shows "emap (a @ e' # b) = (emap (a @ e # b))(src := None, dst \<mapsto> e')"
proof
  fix k show "emap (a @ e' # b) k = ((emap (a @ e # b))(src := None, dst \<mapsto> e')) k"
    using assms emap_None [of a src] emap_None [of b src] emap_None [of a dst] emap_None [of b dst]
    by (auto simp: emap_append map_add_def split: option.split)
qed

lemma ameta_rename_map:
  assumes "file_ok f" "\<not> bad_name dst" "src \<noteq> dst"
  shows "case ameta_rename f a src dst of
      RenOk f' a' \<Rightarrow> file_ok f' \<and> amap f' = (case amap f src of None \<Rightarrow> amap f
        | Some e \<Rightarrow> (amap f)(src := None, dst \<mapsto> e\<lparr>ename := dst\<rparr>))
    | RenFail f' a' \<Rightarrow> file_ok f' \<and> amap f' = (amap f)(dst := None)
    | RenUndef \<Rightarrow> False"
proof (cases "ameta_find f src")
  case None
  then show ?thesis
    using assms(1) ameta_find_None [of f src] by (simp add: ameta_rename_def)
next
  case (Some j)
  let ?f1 = "ameta_remove f dst"
  have m1: "amap ?f1 = (amap f)(dst := None)" and ok1: "file_ok ?f1"
    using assms(1) by (simp_all add: ameta_remove_map ameta_remove_ok)
  have "amap ?f1 src \<noteq> None" using Some assms(3) ameta_find_None [of f src] m1 by simp
  then obtain i where i: "ameta_find ?f1 src = Some i" using ameta_find_None [of ?f1 src] by auto
  note fi = ameta_find_Some [OF i]
  have e: "amap f src = Some (entries ?f1 ! i)" using fi(3) m1 assms(3) by simp
  show ?thesis
  proof (cases "arena_copy a dst")
    case fail: None
    then show ?thesis using Some i ok1 m1 by (simp add: ameta_rename_def Let_def)
  next
    case ok: (Some p)
    then obtain a' where p: "p = (dst, a')" by (auto simp: arena_copy_def)
    let ?a = "take i (entries ?f1)" and ?b = "drop (Suc i) (entries ?f1)" and ?e = "entries ?f1 ! i"
    let ?f2 = "set_entry i (?e\<lparr>ename := dst\<rparr>) ?f1"
    have es2: "entries ?f2 = ?a @ ?e\<lparr>ename := dst\<rparr> # ?b"
      using fi(1) by (simp add: set_entry_def upd_conv_take_nth_drop)
    have d: "distinct (map ename (?a @ ?e # ?b))" and bn: "\<forall>e\<in>set (?a @ ?e # ?b). \<not> bad_name (ename e)"
      using ok1 fi(4) by (simp_all add: file_ok_def names_ok_def)
    have s: "src \<notin> ename ` set (?a @ ?b)" using d fi(2) by auto
    have "amap ?f1 dst = None" using m1 by simp
    then have "dst \<notin> ename ` set (?a @ ?e # ?b)"
      using fi(4) emap_None [of "entries ?f1" dst] by metis
    then have t: "dst \<notin> ename ` set (?a @ ?b)" by simp
    have "names_ok (entries ?f2)"
      using d bn t assms(2) unfolding es2 by (auto simp: names_ok_def)
    then have "file_ok ?f2" using ok1 fi(1) by (simp add: file_ok_def set_entry_def)
    moreover have "amap ?f2 = (amap ?f1)(src := None, dst \<mapsto> ?e\<lparr>ename := dst\<rparr>)"
      using emap_replace [OF s t fi(2), of "?e\<lparr>ename := dst\<rparr>"] fi(4) unfolding es2 by simp
    then have "amap ?f2 = (amap f)(src := None, dst \<mapsto> ?e\<lparr>ename := dst\<rparr>)"
      using m1 by (auto simp: fun_eq_iff)
    ultimately show ?thesis
      using Some i ok e p by (simp add: ameta_rename_def Let_def)
  qed
qed

section \<open>Parsing\<close>

definition parse_ok :: "pstate \<Rightarrow> bool" where
  "parse_ok ps \<longleftrightarrow> file_ok (p_file ps) \<and> (\<forall>i. p_cur ps = Some i \<longrightarrow> i < length (entries (p_file ps)))"

fun pres_state :: "pres \<Rightarrow> pstate" where
  "pres_state (PGo ps) = ps"
| "pres_state (PNomem ps) = ps"

fun final_state :: "parse_res \<Rightarrow> pstate" where
  "final_state (AMETA_OK ps) = ps"
| "final_state (AMETA_UNUSABLE ps) = ps"
| "final_state (AMETA_NOMEM ps) = ps"

text \<open>Rewriting an entry under its own name.\<close>

lemma set_entry_ok:
  assumes "file_ok f" "i < length (entries f)" "ename e = ename (entries f ! i)"
  shows "file_ok (set_entry i e f)"
proof -
  have m: "map ename ((entries f)[i := e]) = map ename (entries f)"
    using assms(2,3) list_update_id [of "map ename (entries f)" i] by (simp add: map_update)
  have "set ((entries f)[i := e]) \<subseteq> insert e (set (entries f))" by (rule set_update_subset_insert)
  moreover have "\<not> bad_name (ename e)"
    using assms by (auto simp: file_ok_def names_ok_def)
  ultimately show ?thesis
    using assms(1) m by (auto simp: file_ok_def names_ok_def set_entry_def)
qed

lemma parse_ok_rep [simp]: "parse_ok (rep n why ps) = parse_ok ps"
  by (simp add: parse_ok_def rep_def)

lemma parse_ok_put:
  "parse_ok ps \<Longrightarrow> p_cur ps = Some i \<Longrightarrow> ename e = ename (entries (p_file ps) ! i) \<Longrightarrow>
     parse_ok (ps\<lparr>p_file := set_entry i e (p_file ps)\<rparr>)"
  by (auto simp: parse_ok_def set_entry_ok) (simp add: set_entry_def)

lemma parse_ok_arena [simp]: "parse_ok (ps\<lparr>p_arena := a\<rparr>) = parse_ok ps"
  by (simp add: parse_ok_def)

lemma parse_file_key_ok: "parse_ok ps \<Longrightarrow> parse_ok (pres_state (parse_file_key n val ps))"
proof (cases "arena_take (p_arena ps) (if length val \<noteq> 0 then length val else 1)")
  case (Some a)
  assume ok: "parse_ok ps"
  show ?thesis
  proof (cases "ameta_unescape val (length val)")
    case None
    with ok Some show ?thesis by (simp add: parse_file_key_def parse_ok_def rep_def)
  next
    case u: (Some p)
    obtain nm k where p: "p = (nm, k)" by force
    show ?thesis
    proof (cases "bad_name nm")
      case True
      with ok Some u p show ?thesis by (simp add: parse_file_key_def parse_ok_def rep_def)
    next
      case good: False
      show ?thesis
      proof (cases "ameta_find (p_file ps) nm")
        case dup: (Some i)
        note fi = ameta_find_Some [OF dup]
        have "file_ok (set_entry i (zero_entry\<lparr>ename := nm\<rparr>) (p_file ps))"
          using ok fi by (intro set_entry_ok) (simp_all add: parse_ok_def)
        then show ?thesis
          using Some u p good dup fi(1) by (simp add: parse_file_key_def parse_ok_def rep_def set_entry_def)
      next
        case new: None
        show ?thesis
        proof (cases "add_entry (p_file ps) a")
          case None
          with ok Some u p good new show ?thesis by (simp add: parse_file_key_def)
        next
          case add: (Some q)
          then obtain f' a' where q: "add_entry (p_file ps) a = Some (f', a')" by (cases q) auto
          have e: "entries f' = entries (p_file ps) @ [zero_entry]" "length (entries f') \<le> fcap f'"
            using add_entry_ok [OF q] ok unfolding parse_ok_def file_ok_def by blast+
          let ?f = "set_entry (length (entries f') - 1) (zero_entry\<lparr>ename := nm\<rparr>) f'"
          have f: "entries ?f = entries (p_file ps) @ [zero_entry\<lparr>ename := nm\<rparr>]" "length (entries ?f) \<le> fcap ?f"
            using e by (simp_all add: set_entry_def)
          have "file_ok ?f"
            using append_ok(1) [of "p_file ps" nm "zero_entry\<lparr>ename := nm\<rparr>" ?f] ok new good f
            by (simp add: parse_ok_def ameta_find_None)
          then show ?thesis
            using Some u p good new q e f by (simp add: parse_file_key_def parse_ok_def Let_def)
        qed
      qed
    qed
  qed
qed (simp add: parse_file_key_def)

lemma parse_key_ok:
  assumes "parse_ok ps" "p_cur ps = Some i"
  shows "parse_ok (pres_state (parse_key n key val line i ps))"
proof -
  have put: "ename e = ename (entries (p_file ps) ! i) \<Longrightarrow>
      parse_ok (ps\<lparr>p_arena := a, p_file := set_entry i e (p_file ps)\<rparr>)" for e a
    using parse_ok_put [of "ps\<lparr>p_arena := a\<rparr>" i e] assms by simp
  consider "key = lit ''prot''" | "key = lit ''comment''" | "key = lit ''uid''" | "key = lit ''gid''"
    | "key \<notin> {lit ''prot'', lit ''comment'', lit ''uid'', lit ''gid''}" by blast
  then show ?thesis
  proof cases
    case 1
    with assms show ?thesis
      by (simp add: parse_key_def Let_def parse_ok_put split: sum.split)
  next
    case 2
    with assms put show ?thesis
      by (simp add: parse_key_def Let_def split: option.split prod.split)
  next
    case 5
    with assms show ?thesis
      by (simp add: parse_key_def Let_def add_unknown_def parse_ok_put split: option.split prod.split)
  qed (use assms in \<open>simp_all add: parse_key_def Let_def parse_ok_put split: option.split\<close>)
qed

lemma parse_line_ok: "parse_ok ps \<Longrightarrow> parse_ok (pres_state (parse_line n l ps))"
  by (simp add: parse_line_def Let_def parse_file_key_ok parse_key_ok split: option.split)

lemma parse_lines_ok: "parse_ok ps \<Longrightarrow> parse_ok (final_state (parse_lines buf n ps))"
proof (induction buf n ps rule: parse_lines.induct)
  case (1 buf n ps)
  let ?raw = "takeWhile (\<lambda>c. c \<noteq> NL) buf"
  let ?line = "strip_cr ?raw"
  show ?case
  proof (cases "buf = [] \<or> n = 0 \<and> ?line \<noteq> lit ''ameta 1''")
    case True
    with "1.prems" show ?thesis by (subst parse_lines.simps) (auto simp: Let_def)
  next
    case False
    show ?thesis
    proof (cases "n = 0")
      case zero: True
      then show ?thesis
        using "1.IH"(1) [OF _ refl refl refl refl] False "1.prems"
        by (subst parse_lines.simps) (simp add: Let_def)
    next
      case pos: False
      show ?thesis
      proof (cases "parse_line (n + 1) ?line ps")
        case (PGo ps')
        then show ?thesis
          using "1.IH"(2) [OF _ refl refl refl refl, of ps'] False pos parse_line_ok [OF "1.prems", of "n + 1" ?line]
          by (subst parse_lines.simps) (simp add: Let_def)
      next
        case (PNomem ps')
        then show ?thesis
          using False pos parse_line_ok [OF "1.prems", of "n + 1" ?line]
          by (subst parse_lines.simps) (simp add: Let_def)
      qed
    qed
  qed
qed


section \<open>What a client may rely on\<close>

locale entry_store =
  fixes look :: "'f \<Rightarrow> bytes \<rightharpoonup> 'e"
    and ok :: "'f \<Rightarrow> bool"
    and del :: "'f \<Rightarrow> bytes \<Rightarrow> 'f"
    and keep :: "(bytes \<Rightarrow> bool) \<Rightarrow> 'f \<Rightarrow> 'f"
  assumes look_del: "ok f \<Longrightarrow> look (del f nm) = (look f)(nm := None)"
    and ok_del: "ok f \<Longrightarrow> ok (del f nm)"
    and look_keep: "look (keep ex f) = look f |` {nm. ex nm}"
    and ok_keep: "ok f \<Longrightarrow> ok (keep ex f)"
begin

lemma look_keep_del:
  "ok f \<Longrightarrow> look (keep ex (del f nm)) k = (if k = nm \<or> \<not> ex k then None else look f k)"
  by (simp add: look_keep look_del restrict_map_def)

lemma del_absent: "ok f \<Longrightarrow> look f nm = None \<Longrightarrow> look (del f nm) = look f"
  by (auto simp: look_del)

lemma keep_all: "(\<And>k. look f k \<noteq> None \<Longrightarrow> ex k) \<Longrightarrow> look (keep ex f) = look f"
  by (rule ext) (metis look_keep mem_Collect_eq restrict_in restrict_out)

end

interpretation ameta: entry_store amap file_ok ameta_remove ameta_prune
  by unfold_locales
    (simp_all add: ameta_remove_map ameta_remove_ok ameta_prune_map ameta_prune_ok)

lemma parse_file_ok: "file_ok (p_file (final_state (ameta_parse buf a)))"
proof -
  let ?ps = "\<lparr>p_file = \<lparr>entries = [], fcap = 0\<rparr>, p_arena = a, p_cur = None, p_reports = []\<rparr>"
  have "parse_ok ?ps" by (simp add: parse_ok_def file_ok_def names_ok_def)
  then have "parse_ok (final_state (ameta_parse buf a))"
    using parse_lines_ok by (simp add: ameta_parse_def Let_def)
  then show ?thesis by (simp add: parse_ok_def)
qed

section \<open>The properties\<close>

text \<open>C20: Whatever the bytes and the arena, and also when it stops for want of memory,
  \<open>ameta_parse\<close> leaves a file whose names are distinct and legal: not empty, not a dot
  name, without a slash.\<close>

theorem parsed_file_ok: "file_ok (p_file (final_state (ameta_parse buf a)))"
  by (rule parse_file_ok)

lemma ameta_rename_cases:
  assumes "file_ok f" "\<not> bad_name nm"
  shows "case ameta_rename f a src nm of
      RenOk f' a' \<Rightarrow> file_ok f' \<and> (src \<noteq> nm \<or> amap f src = None) \<and> amap f' = (case amap f src of
          None \<Rightarrow> amap f | Some e \<Rightarrow> (amap f)(src := None, nm \<mapsto> e\<lparr>ename := nm\<rparr>))
    | RenFail f' a' \<Rightarrow> file_ok f' \<and> amap f src \<noteq> None \<and> arena_copy a nm = None \<and> amap f' = (amap f)(nm := None)
    | RenUndef \<Rightarrow> src = nm \<and> amap f nm \<noteq> None \<and> arena_copy a nm \<noteq> None"
proof (cases "src = nm")
  case False
  have "RenFail f' a' = ameta_rename f a src nm \<Longrightarrow> amap f src \<noteq> None \<and> arena_copy a nm = None" for f' a'
    using ameta_find_None [of f src] by (auto simp: ameta_rename_def Let_def split: option.splits)
  with ameta_rename_map [OF assms False, of a] False show ?thesis
    by (auto split: rename_res.splits)
next
  case True
  show ?thesis
  proof (cases "ameta_find f nm")
    case None
    then have "amap f nm = None" using ameta_find_None [of f nm] by simp
    with None True assms(1) show ?thesis by (simp add: ameta_rename_def)
  next
    case (Some i)
    then have s: "amap f nm \<noteq> None" using ameta_find_None [of f nm] by auto
    have n: "ameta_find (ameta_remove f nm) nm = None"
      by (simp add: ameta_find_None ameta_remove_map [OF assms(1)])
    show ?thesis
    proof (cases "arena_copy a nm")
      case None
      then have "ameta_rename f a src nm = RenFail (ameta_remove f nm) a"
        using Some True by (simp add: ameta_rename_def Let_def)
      then show ?thesis using None True s assms(1) by (auto simp: ameta.look_del ameta.ok_del)
    next
      case (Some p)
      then have "ameta_rename f a src nm = RenUndef"
        using \<open>ameta_find f nm = _\<close> True n by (auto simp: ameta_rename_def Let_def split: prod.split)
      then show ?thesis using Some True s by simp
    qed
  qed
qed

text \<open>C19: On a well-formed file the edits are the operations of a finite map and keep the file
  well-formed: \<open>ameta_remove\<close> deletes, \<open>ameta_prune\<close> restricts, \<open>ameta_get\<close> adds an empty
  entry when there is none, \<open>ameta_copy_entry\<close> binds the name to the copy or, when the arena
  is exhausted, changes nothing at all, and \<open>ameta_rename\<close> moves the binding, over an
  earlier one of the new name, or, when the arena is exhausted, leaves the binding of the old
  name and has removed that of the new one. Renaming a recorded file to the very same name
  is the one call without a defined result: the code then stores through a null pointer.\<close>

theorem edits_are_map_updates:
  assumes "file_ok f" "\<not> bad_name nm"
  shows "file_ok (ameta_remove f nm) \<and> amap (ameta_remove f nm) = (amap f)(nm := None) \<and>
    file_ok (ameta_prune ex f) \<and> amap (ameta_prune ex f) = amap f |` {k. ex k} \<and>
    (case ameta_get f a nm of (r, f', a') \<Rightarrow> (if r = None then f' = f else file_ok f' \<and>
       amap f' = (if amap f nm = None then (amap f)(nm \<mapsto> zero_entry\<lparr>ename := nm\<rparr>) else amap f))) \<and>
    (case ameta_copy_entry f a e nm of (r, f', a') \<Rightarrow> (if r = None then f' = f else file_ok f' \<and>
       amap f' = (amap f)(nm \<mapsto> e\<lparr>ename := nm\<rparr>))) \<and>
    (case ameta_rename f a src nm of
      RenOk f' a' \<Rightarrow> file_ok f' \<and> (src \<noteq> nm \<or> amap f src = None) \<and> amap f' = (case amap f src of
          None \<Rightarrow> amap f | Some e \<Rightarrow> (amap f)(src := None, nm \<mapsto> e\<lparr>ename := nm\<rparr>))
    | RenFail f' a' \<Rightarrow> file_ok f' \<and> amap f src \<noteq> None \<and> arena_copy a nm = None \<and> amap f' = (amap f)(nm := None)
    | RenUndef \<Rightarrow> src = nm \<and> amap f nm \<noteq> None \<and> arena_copy a nm \<noteq> None)"
proof -
  obtain r f' a' where g: "ameta_get f a nm = (r, f', a')" by (metis prod_cases3)
  obtain r2 f2 a2 where c: "ameta_copy_entry f a e nm = (r2, f2, a2)" by (metis prod_cases3)
  have "r = None \<Longrightarrow> f' = f" using g by (auto simp: ameta_get_def Let_def split: option.splits)
  moreover have "r = Some i \<Longrightarrow> file_ok f' \<and>
       amap f' = (if amap f nm = None then (amap f)(nm \<mapsto> zero_entry\<lparr>ename := nm\<rparr>) else amap f)" for i
    using ameta_get_map [OF assms, of a i f' a'] g by (auto split: option.split)
  moreover have "r2 = Some i \<Longrightarrow> file_ok f2 \<and> amap f2 = (amap f)(nm \<mapsto> e\<lparr>ename := nm\<rparr>)" for i
    using ameta_copy_entry_map [OF assms c] by simp
  ultimately show ?thesis
    using assms g c ameta_copy_entry_map(3) [OF assms c] ameta_rename_cases [OF assms, of src a]
    by (auto simp: ameta.look_del ameta.ok_del ameta.look_keep ameta.ok_keep)
qed

theorem edits_are_map_updates_witness:
  "amap (ameta_remove sample_file (lit ''a'')) = (amap sample_file)(lit ''a'' := None) \<and>
   (case ameta_rename sample_file \<lparr>acap = 64, used = 0\<rparr> (lit ''b c'') (lit ''a'') of
      RenOk f' a' \<Rightarrow> amap f' (lit ''b c'') = None \<and> amap f' (lit ''a'') \<noteq> None | _ \<Rightarrow> False)"
proof -
  have f: "file_ok sample_file" "\<not> bad_name (lit ''a'')" "lit ''b c'' \<noteq> lit ''a''"
    "amap sample_file (lit ''b c'') \<noteq> None"
    "(case ameta_rename sample_file \<lparr>acap = 64, used = 0\<rparr> (lit ''b c'') (lit ''a'') of RenOk f' a' \<Rightarrow> True | _ \<Rightarrow> False)"
    by code_simp+
  from edits_are_map_updates [OF f(1,2), of "\<lambda>_. True" "\<lparr>acap = 64, used = 0\<rparr>" zero_entry "lit ''b c''"] f(3-5)
  show ?thesis by (auto split: rename_res.splits)
qed

text \<open>Renaming a recorded file to its own name stores through a null pointer: the entry is
  removed as the target before it is looked up again as the source.\<close>

theorem rename_to_itself:
  assumes "file_ok f" "amap f nm \<noteq> None" "arena_copy a nm \<noteq> None"
  shows "ameta_rename f a nm nm = RenUndef"
proof -
  obtain i where i: "ameta_find f nm = Some i" using assms(2) ameta_find_None [of f nm] by auto
  have "ameta_find (ameta_remove f nm) nm = None"
    by (simp add: ameta_find_None ameta_remove_map [OF assms(1)])
  with i assms(3) show ?thesis
    by (auto simp: ameta_rename_def Let_def split: option.split)
qed

theorem rename_to_itself_witness:
  "ameta_rename sample_file \<lparr>acap = 64, used = 0\<rparr> (lit ''a'') (lit ''a'') = RenUndef"
  by (rule rename_to_itself) code_simp+

end
