(* ===== verification/AmetaComment.thy ===== *)
theory AmetaComment
  imports AmetaText
begin

text \<open>
  The comment between AROS Latin-1 and the UTF-8 of \<open>.ameta\<close> (the last part of \<open>ameta.c\<close>).
  Both directions go through a list of code points; a character beyond Latin-1 travels as
  \<open>%uXXXX\<close>.
\<close>

section \<open>The code\<close>

text \<open>A C string is the list of its bytes before the NUL, which is what is read at its end.\<close>

definition char_at :: "bytes \<Rightarrow> nat \<Rightarrow> u8" where
  "char_at p k = (if k < length p then p ! k else 0)"

text \<open>The loop over the four digits; \<open>h\<close> is the last digit read or negative.\<close>

fun read_u :: "bytes \<Rightarrow> nat \<Rightarrow> nat \<Rightarrow> u64 \<Rightarrow> int \<Rightarrow> int \<times> u64" where
  "read_u p 0 k v h = (h, v)"
| "read_u p (Suc m) k v h =
     (let h = hexval (char_at p k) in
      if h < 0 then (h, v) else read_u p m (k + 1) (push_bit 4 v OR of_int h) h)"

text \<open>The code point at a byte \<open>c\<close> followed by \<open>p\<close>, and what is left.\<close>

definition next_cp :: "u8 \<Rightarrow> bytes \<Rightarrow> u64 \<times> bytes" where
  "next_cp c p =
     (if c = PCT \<and> char_at p 0 = 0x75 then
        (case read_u p 4 1 0 0 of (h, v) \<Rightarrow> if h \<ge> 0 \<and> v > 0xFF then (v, drop 5 p) else (ucast c, p))
      else (ucast c, p))"

lemma next_cp_shorter: "(cp, q) = next_cp c p \<Longrightarrow> length q \<le> length p"
  by (auto simp: next_cp_def split: if_splits prod.splits)

text \<open>The \<open>PUT\<close> macro of \<open>ameta_comment_to_utf8\<close>: one byte stays free for the NUL.\<close>

definition put_nul :: "nat \<Rightarrow> u8 \<Rightarrow> obuf \<times> nat \<Rightarrow> obuf \<times> nat" where
  "put_nul cap c w = (case w of (out, n) \<Rightarrow> (if n + 1 < cap then out(n := c) else out, n + 1))"

definition put_cp :: "nat \<Rightarrow> u64 \<Rightarrow> obuf \<times> nat \<Rightarrow> obuf \<times> nat" where
  "put_cp cap cp w =
     (if cp < 0x80 then put_nul cap (ucast cp) w
      else if cp < 0x800 then
        put_nul cap (ucast (0x80 OR (cp AND 0x3F))) (put_nul cap (ucast (0xC0 OR drop_bit 6 cp)) w)
      else put_nul cap (ucast (0x80 OR (cp AND 0x3F)))
        (put_nul cap (ucast (0x80 OR (drop_bit 6 cp AND 0x3F)))
          (put_nul cap (ucast (0xE0 OR drop_bit 12 cp)) w)))"

function to_utf8_loop :: "nat \<Rightarrow> bytes \<Rightarrow> obuf \<times> nat \<Rightarrow> obuf \<times> nat" where
  "to_utf8_loop cap [] w = w"
| "to_utf8_loop cap (c # p) w = (case next_cp c p of (cp, p') \<Rightarrow> to_utf8_loop cap p' (put_cp cap cp w))"
  by pat_completeness auto
termination
  by (relation "measure (\<lambda>(cap, p, w). length p)") (auto dest!: next_cp_shorter)

definition ameta_comment_to_utf8 :: "bytes \<Rightarrow> obuf \<Rightarrow> nat \<Rightarrow> obuf \<times> nat" where
  "ameta_comment_to_utf8 latin1 out cap =
     (case to_utf8_loop cap latin1 (out, 0) of (out, n) \<Rightarrow>
        (if cap \<noteq> 0 then out((if n < cap then n else cap - 1) := 0) else out, n))"

text \<open>The other \<open>PUT\<close> counts only the bytes it stores.\<close>

definition put_fit :: "nat \<Rightarrow> u8 \<Rightarrow> obuf \<times> nat \<Rightarrow> obuf \<times> nat" where
  "put_fit cap c w = (case w of (out, n) \<Rightarrow> if n + 1 < cap then (out(n := c), n + 1) else (out, n))"

definition put_latin1 :: "nat \<Rightarrow> u64 \<Rightarrow> obuf \<times> nat \<Rightarrow> obuf \<times> nat" where
  "put_latin1 cap cp w =
     (if cp \<le> 0xFF then put_fit cap (ucast cp) w
      else if cp \<le> 0xFFFF then
        put_fit cap (hexdigit (cp AND 0xF)) (put_fit cap (hexdigit (drop_bit 4 cp AND 0xF))
          (put_fit cap (hexdigit (drop_bit 8 cp AND 0xF)) (put_fit cap (hexdigit (drop_bit 12 cp AND 0xF))
            (put_fit cap 0x75 (put_fit cap PCT w)))))
      else put_fit cap 0x3F w)"

fun more_bits :: "nat \<Rightarrow> bytes \<Rightarrow> u64 \<Rightarrow> u64" where
  "more_bits (Suc k) (b # bs) cp = more_bits k bs (push_bit 6 cp OR (ucast b AND 0x3F))"
| "more_bits _ _ cp = cp"

definition lead_len :: "u8 \<Rightarrow> nat" where
  "lead_len c = (if c < 0x80 then 0 else if c < 0xE0 then 1 else if c < 0xF0 then 2 else 3)"

function to_latin1_loop :: "nat \<Rightarrow> bytes \<Rightarrow> obuf \<times> nat \<Rightarrow> obuf \<times> nat" where
  "to_latin1_loop cap [] w = w"
| "to_latin1_loop cap (c # s) w =
     (let n = lead_len c;
          cp = (if n \<noteq> 0 then more_bits n s (ucast c AND drop_bit n 0x3F) else ucast c) in
      to_latin1_loop cap (drop n s) (put_latin1 cap cp w))"
  by pat_completeness auto
termination
  by (relation "measure (\<lambda>(cap, s, w). length s)") auto

definition ameta_comment_to_latin1 :: "bytes \<Rightarrow> obuf \<Rightarrow> nat \<Rightarrow> obuf" where
  "ameta_comment_to_latin1 utf8 out cap =
     (case to_latin1_loop cap utf8 (out, 0) of (out, n) \<Rightarrow> if cap \<noteq> 0 then out(n := 0) else out)"

end
