(* ===== verification/AmetaRewrite.thy ===== *)
theory AmetaRewrite
  imports AmetaComment
begin

text \<open>
  The two comment conversions against their code points: each writes the prefix of one text,
  and a comment that AROS reads and writes back unchanged is the same UTF-8 again.
\<close>

section \<open>The texts\<close>

function cps :: "bytes \<Rightarrow> u64 list" where
  "cps [] = []"
| "cps (c # p) = (case next_cp c p of (cp, p') \<Rightarrow> cp # cps p')"
  by pat_completeness auto
termination
  by (relation "measure length") (auto dest!: next_cp_shorter)

definition enc :: "u64 \<Rightarrow> bytes" where
  "enc cp =
     (if cp < 0x80 then [ucast cp]
      else if cp < 0x800 then [ucast (0xC0 OR drop_bit 6 cp), ucast (0x80 OR (cp AND 0x3F))]
      else [ucast (0xE0 OR drop_bit 12 cp), ucast (0x80 OR (drop_bit 6 cp AND 0x3F)),
            ucast (0x80 OR (cp AND 0x3F))])"

definition enc_all :: "u64 list \<Rightarrow> bytes" where "enc_all cs = concat (map enc cs)"

function dec :: "bytes \<Rightarrow> u64 list" where
  "dec [] = []"
| "dec (c # s) =
     (let n = lead_len c in
      (if n \<noteq> 0 then more_bits n s (ucast c AND drop_bit n 0x3F) else ucast c) # dec (drop n s))"
  by pat_completeness auto
termination
  by (relation "measure length") auto

definition lat :: "u64 \<Rightarrow> bytes" where
  "lat cp =
     (if cp \<le> 0xFF then [ucast cp]
      else if cp \<le> 0xFFFF then
        [PCT, 0x75, hexdigit (drop_bit 12 cp AND 0xF), hexdigit (drop_bit 8 cp AND 0xF),
         hexdigit (drop_bit 4 cp AND 0xF), hexdigit (cp AND 0xF)]
      else [0x3F])"

definition lat_all :: "u64 list \<Rightarrow> bytes" where "lat_all cs = concat (map lat cs)"

lemma all_simps [simp]:
  "enc_all [] = []" "enc_all (c # cs) = enc c @ enc_all cs"
  "lat_all [] = []" "lat_all (c # cs) = lat c @ lat_all cs"
  by (simp_all add: enc_all_def lat_all_def)

lemma put_nul_at: "put_nul cap = put_at 0 (cap - 1)"
  by (auto simp: put_nul_def put_at_def fun_eq_iff)

lemma to_utf8_loop_text: "to_utf8_loop cap p w = fold (put_nul cap) (enc_all (cps p)) w"
  by (induction cap p w rule: to_utf8_loop.induct) (auto simp: put_cp_def enc_def split: prod.split)

lemma to_utf8_text:
  "ameta_comment_to_utf8 s out cap =
     (let u = enc_all (cps s); o1 = overlay out 0 (cap - 1) u in
      (if cap \<noteq> 0 then o1(min (length u) (cap - 1) := 0) else o1, length u))"
  by (auto simp: ameta_comment_to_utf8_def to_utf8_loop_text put_nul_at fold_put_at Let_def
      intro!: arg_cong2 [where f = "\<lambda>i f. f(i := 0)"])

lemma fold_put_fit_full: "fold (put_fit cap) s (out, cap - 1) = (out, cap - 1)"
  by (induction s) (auto simp: put_fit_def)

lemma fold_put_fit:
  "n \<le> cap - 1 \<Longrightarrow> fold (put_fit cap) s (out, n) =
     (overlay out n (cap - 1) s, min (n + length s) (cap - 1))"
proof (induction s arbitrary: out n)
  case (Cons c s)
  show ?case
  proof (cases "n + 1 < cap")
    case True
    then have "put_fit cap c (out, n) = (out(n := c), n + 1)" by (simp add: put_fit_def)
    then have "fold (put_fit cap) (c # s) (out, n) = fold (put_fit cap) s (out(n := c), n + 1)" by simp
    also have "\<dots> = (overlay (out(n := c)) (n + 1) (cap - 1) s, min (n + 1 + length s) (cap - 1))"
      by (rule Cons.IH) (use True in simp)
    also have "overlay (out(n := c)) (n + 1) (cap - 1) s = overlay out n (cap - 1) (c # s)"
    proof -
      have "n < cap - 1" using True by linarith
      then show ?thesis by (simp only: overlay_Cons if_True)
    qed
    finally show ?thesis by simp
  next
    case False
    then have "n = cap - 1" using Cons.prems by simp
    then show ?thesis
      using fold_put_fit_full [of cap "c # s" out] by (simp add: overlay_none)
  qed
qed simp

lemma to_latin1_loop_text: "to_latin1_loop cap s w = fold (put_fit cap) (lat_all (dec s)) w"
  by (induction cap s w rule: to_latin1_loop.induct) (simp_all add: put_latin1_def lat_def Let_def)

lemma to_latin1_text:
  "ameta_comment_to_latin1 s out cap =
     (let l = lat_all (dec s); o1 = overlay out 0 (cap - 1) l in
      if cap \<noteq> 0 then o1(min (length l) (cap - 1) := 0) else o1)"
  by (simp add: ameta_comment_to_latin1_def to_latin1_loop_text fold_put_fit Let_def)

section \<open>Decoding undoes encoding\<close>

lemma dec_ascii: "unat c < 0x80 \<Longrightarrow> dec (ucast c # r) = c # dec r"
proof -
  assume c: "unat (c :: u64) < 0x80"
  have u: "unat (ucast c :: u8) = unat c"
    using c by (simp add: unsigned_ucast_eq take_bit_nat_eq_self_iff)
  then have "ucast (ucast c :: u8) = c"
    using unat_ucast_8_64 [of "ucast c"] by (simp only: word_unat_eq_iff)
  moreover have "lead_len (ucast c) = 0"
    using u c by (simp add: lead_len_def word_less_nat_alt)
  ultimately show ?thesis by simp
qed

lemma tag_C0:
  fixes d :: "'a::len word"
  shows "unat d < 32 \<Longrightarrow> 8 < LENGTH('a) \<Longrightarrow> unat (ucast (0xC0 OR d) :: u8) = 0xC0 + unat d"
    and "unat d < 32 \<Longrightarrow> 8 < LENGTH('a) \<Longrightarrow> ucast (ucast (0xC0 OR d) :: u8) AND 0x1F = d"
  using tag_byte [of d 5 "0xC0"] by (simp_all add: mask_eq_exp_minus_1)

lemma tag_E0:
  fixes d :: "'a::len word"
  shows "unat d < 16 \<Longrightarrow> 8 < LENGTH('a) \<Longrightarrow> unat (ucast (0xE0 OR d) :: u8) = 0xE0 + unat d"
    and "unat d < 16 \<Longrightarrow> 8 < LENGTH('a) \<Longrightarrow> ucast (ucast (0xE0 OR d) :: u8) AND 0x0F = d"
  using tag_byte [of d 4 "0xE0"] by (simp_all add: mask_eq_exp_minus_1)

lemma and_63: "unat (x AND 0x3F :: 'a::len word) < 64"
  using unat_and_mask [of x 6] by (simp add: mask_eq_exp_minus_1)

lemma tag_80: "8 < LENGTH('a) \<Longrightarrow>
    ucast (ucast (0x80 OR (x AND 0x3F)) :: u8) AND 0x3F = (x AND 0x3F :: 'a::len word)"
  using tag_byte(2) [of "x AND 0x3F" 6 "0x80"] and_63 [of x] by (simp add: mask_eq_exp_minus_1)

lemma join_6: "push_bit 6 (drop_bit 6 c) OR (c AND 0x3F) = (c :: 'a::len word)"
  using join_bits [of 6 c] by (simp add: mask_eq_exp_minus_1)

lemma dec_two:
  assumes "unat c < 0x800"
  shows "dec (ucast (0xC0 OR drop_bit 6 c) # ucast (0x80 OR (c AND 0x3F)) # r) = c # dec r"
proof -
  let ?L = "ucast (0xC0 OR drop_bit 6 c) :: u8"
  have d: "unat (drop_bit 6 c) < 32"
    using assms by (simp add: unat_drop_bit)
  have "lead_len ?L = Suc 0"
    using tag_C0(1) [OF d] d by (simp add: lead_len_def word_less_nat_alt)
  then show ?thesis
    using tag_C0(2) [OF d] tag_80 [of c] join_6 [of c] by simp
qed

lemma dec_three:
  assumes "unat c < 0x10000"
  shows "dec (ucast (0xE0 OR drop_bit 12 c) # ucast (0x80 OR (drop_bit 6 c AND 0x3F)) #
    ucast (0x80 OR (c AND 0x3F)) # r) = c # dec r"
proof -
  let ?L = "ucast (0xE0 OR drop_bit 12 c) :: u8"
  have d: "unat (drop_bit 12 c) < 16"
    using assms by (simp add: unat_drop_bit)
  have "lead_len ?L = Suc (Suc 0)"
    using tag_E0(1) [OF d] d by (simp add: lead_len_def word_less_nat_alt)
  moreover have "push_bit 6 (drop_bit 12 c) OR (drop_bit 6 c AND 0x3F) = drop_bit 6 c"
    using join_6 [of "drop_bit 6 c"] by simp
  ultimately show ?thesis
    using tag_E0(2) [OF d] tag_80 [of c] tag_80 [of "drop_bit 6 c"] join_6 [of c] by simp
qed

lemma enc_dec: "\<forall>c\<in>set cs. unat c < 0x10000 \<Longrightarrow> dec (enc_all cs @ r) = cs @ dec r"
  by (induction cs) (auto simp: enc_def dec_ascii dec_two dec_three word_less_nat_alt simp del: dec.simps)


section \<open>Reading a Latin-1 comment back\<close>

lemma join_4: "push_bit 4 (drop_bit 4 c) OR (c AND 0xF) = (c :: 'a::len word)"
  using join_bits [of 4 c] by (simp add: mask_eq_exp_minus_1)

lemma read_u_digit:
  assumes "char_at p k = hexdigit (y AND 0xF)"
  shows "read_u p (Suc m) k (drop_bit 4 y) h = read_u p m (k + 1) y (int (unat (y AND 0xF)))"
proof -
  have hv: "hexval (hexdigit (y AND 0xF)) = int (unat (y AND 0xF))"
    by (simp add: hexval_hexdigit nibble_lo)
  have "push_bit 4 (drop_bit 4 y) OR of_int (int (unat (y AND 0xF))) = y"
    using join_4 [of y] by simp
  then show ?thesis
    using assms by (simp only: read_u.simps Let_def hv of_nat_less_0_iff if_False)
qed

definition hex4 :: "u64 \<Rightarrow> bytes" where
  "hex4 c = [hexdigit (drop_bit 12 c AND 0xF), hexdigit (drop_bit 8 c AND 0xF),
     hexdigit (drop_bit 4 c AND 0xF), hexdigit (c AND 0xF)]"

lemma read_hex4:
  assumes "unat c < 0x10000"
  shows "\<exists>h\<ge>0. read_u (x # hex4 c @ r) 4 1 0 0 = (h, c)"
proof -
  let ?p = "x # hex4 c @ r"
  have "unat (drop_bit 16 c) = 0" using assms by (simp add: unat_drop_bit)
  then have z: "drop_bit 4 (drop_bit 12 c) = 0" by (simp add: word_unat_eq_iff)
  have d: "drop_bit 4 (drop_bit 8 c) = drop_bit 12 c" "drop_bit 4 (drop_bit 4 c) = drop_bit 8 c"
    by simp_all
  have four: "(4 :: nat) = Suc (Suc (Suc (Suc 0)))" by simp
  have p: "char_at ?p 1 = hexdigit (drop_bit 12 c AND 0xF)"
    "char_at ?p (1 + 1) = hexdigit (drop_bit 8 c AND 0xF)"
    "char_at ?p (1 + 1 + 1) = hexdigit (drop_bit 4 c AND 0xF)"
    "char_at ?p (1 + 1 + 1 + 1) = hexdigit (c AND 0xF)"
    by (simp_all add: char_at_def hex4_def)
  have "read_u ?p 4 1 0 0 = read_u ?p (Suc (Suc (Suc (Suc 0)))) 1 (drop_bit 4 (drop_bit 12 c)) 0"
    unfolding z by (simp only: four)
  also have "\<dots> = read_u ?p (Suc (Suc (Suc 0))) (1 + 1) (drop_bit 4 (drop_bit 8 c)) (int (unat (drop_bit 12 c AND 0xF)))"
    unfolding d(1) by (rule read_u_digit [OF p(1)])
  also have "\<dots> = read_u ?p (Suc (Suc 0)) (1 + 1 + 1) (drop_bit 4 (drop_bit 4 c)) (int (unat (drop_bit 8 c AND 0xF)))"
    unfolding d(2) by (rule read_u_digit [OF p(2)])
  also have "\<dots> = read_u ?p (Suc 0) (1 + 1 + 1 + 1) (drop_bit 4 c) (int (unat (drop_bit 4 c AND 0xF)))"
    by (rule read_u_digit [OF p(3)])
  also have "\<dots> = read_u ?p 0 (1 + 1 + 1 + 1 + 1) c (int (unat (c AND 0xF)))"
    by (rule read_u_digit [OF p(4)])
  finally have "read_u ?p 4 1 0 0 = (int (unat (c AND 0xF)), c)" by (simp only: read_u.simps)
  then show ?thesis by (intro exI [of _ "int (unat (c AND 0xF))"]) simp
qed

lemma next_cp_escape:
  assumes "0xFF < unat c" "unat c < 0x10000"
  shows "next_cp PCT (0x75 # hex4 c @ r) = (c, r)"
proof -
  obtain h where h: "h \<ge> 0" "read_u (0x75 # hex4 c @ r) 4 1 0 0 = (h, c)"
    using read_hex4 [OF assms(2)] by blast
  have "drop 5 (0x75 # hex4 c @ r) = r" by (simp add: hex4_def)
  moreover have "char_at (0x75 # hex4 c @ r) 0 = 0x75" by (simp add: char_at_def)
  moreover have "0xFF < c" using assms(1) by (simp add: word_less_nat_alt)
  ultimately show ?thesis
    using h unfolding next_cp_def by (simp only: h prod.case simp_thms if_True)
qed

text \<open>Two byte strings that agree up to their first marker.\<close>

fun agree :: "bytes \<Rightarrow> bytes \<Rightarrow> bool" where
  "agree [] [] = True"
| "agree (a # p) (b # q) = (a = b \<and> (a = PCT \<or> agree p q))"
| "agree _ _ = False"

lemma char_at_Cons [simp]: "char_at (a # p) 0 = a" "char_at (a # p) (Suc k) = char_at p k"
  by (simp_all add: char_at_def)

lemma agree_char_at: "agree p q \<Longrightarrow> \<forall>i<k. char_at p i \<noteq> PCT \<Longrightarrow> char_at p k = char_at q k"
proof (induction p q arbitrary: k rule: agree.induct)
  case (2 a p b q)
  show ?case
  proof (cases k)
    case (Suc j)
    have a: "\<forall>i<Suc j. char_at (a # p) i \<noteq> PCT" using 2(3) Suc by simp
    have "a \<noteq> PCT" using a [THEN spec, of 0] by simp
    moreover have "\<forall>i<j. char_at p i \<noteq> PCT"
      using a by (metis Suc_mono char_at_Cons(2))
    ultimately show ?thesis using 2(1) [of j] 2(2) Suc by auto
  qed (use 2 in auto)
qed (auto simp: char_at_def)

lemma read_u_agree:
  "agree p q \<Longrightarrow> \<forall>i<k. char_at p i \<noteq> PCT \<Longrightarrow> read_u p m k v h = read_u q m k v h"
proof (induction m arbitrary: k v h)
  case (Suc m)
  have e: "char_at p k = char_at q k" by (rule agree_char_at) (use Suc.prems in auto)
  show ?case
  proof (cases "hexval (char_at p k) < 0")
    case False
    then have "char_at p k \<noteq> PCT" by (auto simp: hexval_def)
    then have "\<forall>i<k + 1. char_at p i \<noteq> PCT" using Suc.prems(2) by (auto simp: less_Suc_eq)
    with Suc.IH [of "k + 1"] Suc.prems(1) e show ?thesis by (simp add: Let_def)
  qed (use e in \<open>simp add: Let_def\<close>)
qed simp

definition escapes :: "bytes \<Rightarrow> bool" where
  "escapes p \<longleftrightarrow> char_at p 0 = 0x75 \<and> (case read_u p 4 1 0 0 of (h, v) \<Rightarrow> h \<ge> 0 \<and> v > 0xFF)"

lemma next_cp_escapes: "\<not> escapes p \<Longrightarrow> next_cp c p = (ucast c, p)"
  by (auto simp: next_cp_def escapes_def split: prod.splits)

lemma escapes_agree: "agree p q \<Longrightarrow> escapes p = escapes q"
proof -
  assume a: "agree p q"
  have c: "char_at p 0 = char_at q 0" by (rule agree_char_at [OF a]) simp
  show ?thesis
  proof (cases "char_at p 0 = PCT")
    case False
    then show ?thesis using c read_u_agree [OF a, of 1] by (simp add: escapes_def)
  qed (use c in \<open>simp add: escapes_def\<close>)
qed

text \<open>A code point as one byte, with the marker for those beyond Latin-1.\<close>

definition low :: "u64 \<Rightarrow> u8" where
  "low c = (if c \<le> 0xFF then ucast c else PCT)"

fun plain_cps :: "u64 list \<Rightarrow> bool" where
  "plain_cps [] = True"
| "plain_cps (c # cs) = ((c = 0x25 \<longrightarrow> \<not> escapes (map low cs)) \<and> plain_cps cs)"

lemma agree_lat: "\<forall>c\<in>set cs. unat c < 0x10000 \<Longrightarrow> agree (map low cs) (lat_all cs)"
  by (induction cs) (auto simp: low_def lat_def word_le_nat_alt)

lemma ucast_byte: "unat (c :: u64) \<le> 0xFF \<Longrightarrow> ucast (ucast c :: u8) = c"
proof -
  assume c: "unat c \<le> 0xFF"
  then have "unat (ucast c :: u8) = unat c"
    by (simp add: unsigned_ucast_eq take_bit_nat_eq_self_iff)
  then show "ucast (ucast c :: u8) = c"
    using unat_ucast_8_64 [of "ucast c"] by (simp only: word_unat_eq_iff)
qed

lemma cps_lat:
  "\<forall>c\<in>set cs. unat c < 0x10000 \<Longrightarrow> plain_cps cs \<Longrightarrow> cps (lat_all cs) = cs"
proof (induction cs)
  case (Cons c cs)
  then have IH: "cps (lat_all cs) = cs" by simp
  show ?case
  proof (cases "unat c \<le> 0xFF")
    case True
    then have l: "lat c = [ucast c]" and u: "ucast (ucast c :: u8) = c"
      by (simp_all add: lat_def word_le_nat_alt ucast_byte)
    have "next_cp (ucast c) (lat_all cs) = (c, lat_all cs)"
    proof (cases "ucast c = PCT")
      case pct: True
      then have "c = ucast PCT" using u by metis
      then have "\<not> escapes (map low cs)" using Cons.prems(2) by simp
      then have "\<not> escapes (lat_all cs)"
        using escapes_agree [OF agree_lat, of cs] Cons.prems(1) by simp
      with u show ?thesis by (simp add: next_cp_escapes)
    qed (use u in \<open>simp add: next_cp_def\<close>)
    with l IH show ?thesis by simp
  next
    case False
    with Cons.prems(1) have "lat c = [PCT, 0x75, hexdigit (drop_bit 12 c AND 0xF), hexdigit (drop_bit 8 c AND 0xF),
         hexdigit (drop_bit 4 c AND 0xF), hexdigit (c AND 0xF)]"
      by (simp add: lat_def word_le_nat_alt)
    then have "lat c = PCT # 0x75 # hex4 c" by (simp add: hex4_def)
    with False Cons.prems(1) IH show ?thesis by (simp add: next_cp_escape)
  qed
qed simp


section \<open>The code points of a Latin-1 comment\<close>

lemma hexval_less: "hexval c < 16"
  by (auto simp: hexval_def word_le_def)

lemma read_u_bits:
  "\<forall>n. bit v n \<longrightarrow> n < 4 * j \<Longrightarrow> bit (snd (read_u p m k v h)) n \<Longrightarrow> n < 4 * (j + m)"
proof (induction m arbitrary: k v h j)
  case (Suc m)
  let ?h = "hexval (char_at p k)"
  show ?case
  proof (cases "?h < 0")
    case True
    with Suc.prems have "bit v n" by (simp add: Let_def)
    with Suc.prems(1) show ?thesis by fastforce
  next
    case False
    have "unat (of_int ?h :: u64) < 2 ^ 4"
      using False hexval_less [of "char_at p k"] by (simp add: nat_less_iff unat_eq_nat_uint word_of_int_inverse)
    then have h: "bit (of_int ?h :: u64) n \<Longrightarrow> n < 4" for n by (rule bits_small)
    have "\<forall>n. bit (push_bit 4 v OR of_int ?h) n \<longrightarrow> n < 4 * (j + 1)"
    proof (intro allI impI)
      fix n assume "bit (push_bit 4 v OR of_int ?h) n"
      then consider "4 \<le> n" "bit v (n - 4)" | "bit (of_int ?h :: u64) n"
        by (auto simp only: bit_or_iff bit_push_bit_iff)
      then show "n < 4 * (j + 1)"
      proof cases
        case 1
        then have "n - 4 < 4 * j" using Suc.prems(1) by blast
        with 1(1) show ?thesis by (simp add: less_diff_conv2)
      qed (use h [of n] in simp)
    qed
    then show ?thesis
      using Suc.IH [of "push_bit 4 v OR of_int ?h" "j + 1" "k + 1" ?h] Suc.prems(2) False
      by (simp add: Let_def)
  qed
qed simp

lemma read_u_less: "read_u p 4 1 0 0 = (h, v) \<Longrightarrow> unat v < 0x10000"
proof -
  assume r: "read_u p 4 1 0 0 = (h, v)"
  have "\<forall>n. bit v n \<longrightarrow> n < 16"
    using read_u_bits [of 0 0 p 4 1 0] r by auto
  then have "take_bit 16 v = v" by (intro bit_word_eqI) (auto simp: bit_simps)
  then have "unat v = unat (take_bit 16 v)" by simp
  also have "\<dots> = take_bit 16 (unat v)" by (simp only: unsigned_take_bit_eq)
  also have "\<dots> < 2 ^ 16" by (rule take_bit_nat_less_exp)
  finally show "unat v < 0x10000" by simp
qed

lemma read_u_length: "read_u p m k v h = (h', v') \<Longrightarrow> h' \<ge> 0 \<Longrightarrow> 0 < m \<Longrightarrow> k + m \<le> length p"
proof (induction m arbitrary: k v h)
  case (Suc m)
  have n: "\<not> hexval (char_at p k) < 0" using Suc.prems by (auto simp: Let_def split: if_splits)
  moreover have "hexval 0 < 0" by (simp add: hexval_def)
  ultimately have k: "k < length p" by (auto simp: char_at_def split: if_splits)
  show ?case
  proof (cases "m = 0")
    case False
    then show ?thesis using Suc.IH [of "k + 1"] Suc.prems n by (simp add: Let_def)
  qed (use k in simp)
qed simp

text \<open>The two ways to read a code point.\<close>

lemma next_cp_cases:
  obtains (plain) "next_cp c p = (ucast c, p)" "c = PCT \<Longrightarrow> \<not> escapes p"
  | (escape) v where "c = PCT" "next_cp c p = (v, drop 5 p)" "0xFF < unat v" "unat v < 0x10000" "5 \<le> length p"
proof (cases "c = PCT \<and> escapes p")
  case False
  then show ?thesis using plain by (auto simp: next_cp_def escapes_def split: prod.splits)
next
  case True
  then obtain h v where r: "read_u p 4 1 0 0 = (h, v)" "h \<ge> 0" "v > 0xFF" "char_at p 0 = 0x75"
    by (auto simp: escapes_def split: prod.splits)
  show ?thesis
    using True r read_u_less [OF r(1)] read_u_length [OF r(1,2)]
    by (intro escape [of v]) (simp_all add: next_cp_def word_less_nat_alt)
qed

lemma cps_facts:
  "\<forall>c\<in>set (cps s). unat c < 0x10000"
  "agree (map low (cps s)) s"
  "plain_cps (cps s)"
  "length (lat_all (cps s)) = length s"
  "0 \<notin> set s \<Longrightarrow> 0 \<notin> set (cps s)"
  "PCT \<notin> set s \<Longrightarrow> lat_all (cps s) = s"
proof -
  have b: "unat (ucast (c :: u8) :: u64) \<le> 0xFF" for c
    using unsigned_less [of c, where ?'a = nat] unat_ucast_8_64 [of c] by simp
  moreover have "ucast (ucast c :: u64) = (c :: u8)" for c
    by (rule bit_word_eqI) (simp add: bit_simps)
  ultimately have l: "low (ucast c) = c" "lat (ucast c) = [c]" for c :: u8
    by (simp_all add: low_def lat_def word_le_nat_alt)
  have "(\<forall>c\<in>set (cps s). unat c < 0x10000) \<and> agree (map low (cps s)) s \<and> plain_cps (cps s) \<and>
    length (lat_all (cps s)) = length s \<and> (0 \<notin> set s \<longrightarrow> 0 \<notin> set (cps s)) \<and>
    (PCT \<notin> set s \<longrightarrow> lat_all (cps s) = s)"
  proof (induction s rule: cps.induct)
    case (2 c p)
    show ?case
    proof (cases c p rule: next_cp_cases)
      case plain
      have "ucast c = (0x25 :: u64) \<Longrightarrow> c = PCT"
        using unat_ucast_8_64 [of c] by (simp add: word_unat_eq_iff)
      moreover have "ucast c = (0 :: u64) \<Longrightarrow> c = 0"
        using unat_ucast_8_64 [of c] by (simp add: word_unat_eq_iff)
      ultimately show ?thesis
        using 2 [OF plain(1) [symmetric]] plain l b [of c] escapes_agree by (auto intro: le_less_trans)
    next
      case (escape v)
      have "set (drop 5 p) \<subseteq> set p" by (rule set_drop_subset)
      then show ?thesis
        using 2 [OF escape(2) [symmetric]] escape
        by (auto simp: low_def lat_def word_le_nat_alt)
    qed
  qed simp
  then show "\<forall>c\<in>set (cps s). unat c < 0x10000" "agree (map low (cps s)) s" "plain_cps (cps s)"
    "length (lat_all (cps s)) = length s" "0 \<notin> set s \<Longrightarrow> 0 \<notin> set (cps s)"
    "PCT \<notin> set s \<Longrightarrow> lat_all (cps s) = s" by auto
qed


section \<open>Rewriting what was read\<close>

text \<open>The C string in a buffer.\<close>

definition c_string :: "obuf \<Rightarrow> nat \<Rightarrow> bytes" where
  "c_string out cap = takeWhile (\<lambda>c. c \<noteq> 0) (map out [0..<cap])"

lemma hexdigit_not_nul: "unat d < 16 \<Longrightarrow> hexdigit d \<noteq> 0"
proof -
  have "\<forall>n\<in>set [0..<16]. lit ''0123456789ABCDEF'' ! n \<noteq> 0" by code_simp
  then show "unat d < 16 \<Longrightarrow> hexdigit d \<noteq> 0" by (simp add: hexdigit_def)
qed

lemma hexdigit_nonzero: "hexdigit (y AND 0xF :: u64) \<noteq> 0"
  by (rule hexdigit_not_nul) (simp add: nibble_lo)

lemma lat_nonzero: "0 \<notin> set cs \<Longrightarrow> 0 \<notin> set (lat_all cs)"
proof (induction cs)
  case (Cons c cs)
  have "c \<le> 0xFF \<Longrightarrow> ucast c = (0 :: u8) \<Longrightarrow> c = 0"
    using ucast_byte [of c] by (simp add: word_le_nat_alt)
  with Cons show ?case using hexdigit_nonzero by (auto simp: lat_def)
qed simp


lemma enc_nonzero: "0 \<notin> set cs \<Longrightarrow> \<forall>c\<in>set cs. unat c < 0x10000 \<Longrightarrow> 0 \<notin> set (enc_all cs)"
proof (induction cs)
  case (Cons c cs)
  have a: "c < 0x80 \<Longrightarrow> ucast c = (0 :: u8) \<Longrightarrow> c = 0"
    using ucast_byte [of c] by (simp add: word_less_nat_alt)
  have b: "c < 0x800 \<Longrightarrow> ucast (0xC0 OR drop_bit 6 c) \<noteq> (0 :: u8)"
    using tag_C0(1) [of "drop_bit 6 c"] less_mult_imp_div_less [of "unat c" 32 64]
    by (auto simp: word_less_nat_alt unat_drop_bit)
  have d: "ucast (0xE0 OR drop_bit 12 c) \<noteq> (0 :: u8)"
    using tag_E0(1) [of "drop_bit 12 c"] less_mult_imp_div_less [of "unat c" 16 4096] Cons.prems(2)
    by (auto simp: unat_drop_bit)
  have t: "ucast (0x80 OR (x AND 0x3F) :: u64) \<noteq> (0 :: u8)" for x
    using tag_byte(1) [of "x AND 0x3F" 6 "0x80"] and_63 [of x] by auto
  show ?case
    using Cons a b d t by (auto simp: enc_def)
qed simp

lemma map_overlay_nul:
  "length s \<le> cap - 1 \<Longrightarrow> map ((overlay out 0 (cap - 1) s)(length s := 0)) [0..<length s] = s"
  by (rule nth_equalityI) (simp_all add: overlay_def)

lemma c_string_overlay:
  assumes "0 \<notin> set s" "length s < cap"
  shows "c_string ((overlay out 0 (cap - 1) s)(length s := 0)) cap = s"
proof -
  have "[0..<cap] = [0..<length s] @ length s # [Suc (length s)..<cap]"
    using assms(2) by (metis add_0 le_add_diff_inverse less_imp_le_nat upt_add_eq_append upt_conv_Cons zero_le)
  then have "map ((overlay out 0 (cap - 1) s)(length s := 0)) [0..<cap] =
      s @ 0 # map ((overlay out 0 (cap - 1) s)(length s := 0)) [Suc (length s)..<cap]"
    using map_overlay_nul [of s cap out] assms(2) by simp
  then show ?thesis
    unfolding c_string_def using assms(1) by (simp only:) (subst takeWhile_append2, auto)
qed

text \<open>A Latin-1 comment converted to UTF-8 and back is a string of the same length, the same
  string when it has no escape marker, and converting it once more gives the same UTF-8: a
  program that writes back the comment it read changes nothing in the file.\<close>

theorem comment_rewrite_same:
  assumes "0 \<notin> set s" "ameta_comment_to_utf8 s out cap = (o1, n)" "n < cap" "length s < cap2"
    and "l = c_string (ameta_comment_to_latin1 (map o1 [0..<n]) out2 cap2) cap2"
  shows "length l = length s \<and> (PCT \<notin> set s \<longrightarrow> l = s) \<and>
    (\<exists>o3. ameta_comment_to_utf8 l out3 cap = (o3, n) \<and> map o3 [0..<n] = map o1 [0..<n])"
proof -
  let ?cs = "cps s"
  have u: "n = length (enc_all ?cs)" "o1 = (overlay out 0 (cap - 1) (enc_all ?cs))(length (enc_all ?cs) := 0)"
    using assms(2,3) by (auto simp: to_utf8_text Let_def)
  then have m: "map o1 [0..<n] = enc_all ?cs"
    using assms(3) map_overlay_nul [of "enc_all ?cs" cap out] by simp
  have d: "dec (enc_all ?cs) = ?cs"
    using enc_dec [OF cps_facts(1), of s "[]"] by simp
  have "l = lat_all ?cs"
    using c_string_overlay [OF lat_nonzero [OF cps_facts(5) [OF assms(1)]], of cap2 out2] assms(4,5)
    by (simp add: m to_latin1_text d Let_def cps_facts(4))
  moreover have "cps (lat_all ?cs) = ?cs" by (rule cps_lat [OF cps_facts(1,3)])
  ultimately show ?thesis
    using assms(3) u m map_overlay_nul [of "enc_all ?cs" cap out3]
    by (simp add: cps_facts(4,6) to_utf8_text Let_def)
qed

theorem comment_rewrite_same_witness:
  "\<exists>l. l = c_string (ameta_comment_to_latin1 (map (fst (ameta_comment_to_utf8 (lit ''50% %u20ac'') (\<lambda>_. 1) 40)) [0..<7])
      (\<lambda>_. 1) 81) 81 \<and> length l = 10 \<and> fst (ameta_comment_to_utf8 l (\<lambda>_. 2) 40) 4 = 0xE2"
proof -
  let ?s = "lit ''50% %u20ac''" and ?o = "fst (ameta_comment_to_utf8 (lit ''50% %u20ac'') (\<lambda>_. 1) 40)"
  have n: "ameta_comment_to_utf8 ?s (\<lambda>_. 1) 40 = (?o, 7)"
    by (rule prod_eqI) (simp, code_simp)
  have s: "0 \<notin> set ?s" "length ?s = 10" "?o 4 = 0xE2" by code_simp+
  define l where "l = c_string (ameta_comment_to_latin1 (map ?o [0..<7]) (\<lambda>_. 1) 81) 81"
  from comment_rewrite_same [OF s(1) n _ _ l_def, of "\<lambda>_. 2"] s(2)
  obtain o3 where l: "length l = 10" "ameta_comment_to_utf8 l (\<lambda>_. 2) 40 = (o3, 7)"
    "map o3 [0..<7] = map ?o [0..<7]" by auto
  from l(3) have "o3 4 = ?o 4" by simp
  then show ?thesis using l s(3) by (intro exI [of _ l]) (simp add: l_def)
qed

section \<open>What the two conversions make of a comment\<close>

text \<open>An escape that \<open>ameta_comment_to_utf8\<close> decodes: \<open>u\<close> and four hexadecimal digits, the first two
  not both zero. The way back writes its letters in upper case and changes nothing else.\<close>

fun u_escape :: "bytes \<Rightarrow> bool" where
  "u_escape (u # a # b # c # d # r) =
     (u = 0x75 \<and> (\<forall>x\<in>set [a, b, c, d]. 0 \<le> hexval x) \<and> (hexval a \<noteq> 0 \<or> hexval b \<noteq> 0))"
| "u_escape p = False"

definition hex_upper :: "u8 \<Rightarrow> u8" where
  "hex_upper c = (if 0x61 \<le> c \<and> c \<le> 0x66 then c - 0x20 else c)"

fun upper_escapes :: "bytes \<Rightarrow> bytes" where
  "upper_escapes (m # u # a # b # c # d # r) =
     (if m = PCT \<and> u_escape (u # a # b # c # d # r)
      then m # u # map hex_upper [a, b, c, d] @ upper_escapes r
      else m # upper_escapes (u # a # b # c # d # r))"
| "upper_escapes s = s"

lemma hexdigit_hexval:
  assumes "0 \<le> hexval c" "int (unat d) = hexval c"
  shows "hexdigit d = hex_upper c"
proof -
  have "\<forall>n\<in>set [0..<256]. 0 \<le> hexval (of_nat n) \<longrightarrow>
      lit ''0123456789ABCDEF'' ! nat (hexval (of_nat n)) = hex_upper (of_nat n)" by code_simp
  then have "lit ''0123456789ABCDEF'' ! nat (hexval c) = hex_upper c"
    using assms(1) unsigned_less [of c, where ?'a = nat] by (auto dest: bspec [of _ _ "unat c"])
  then show ?thesis using assms(2) by (simp add: hexdigit_def flip: assms(2))
qed

lemma push_digit:
  assumes "unat (v :: u64) < 0x1000" "0 \<le> hexval c"
  shows "unat (push_bit 4 v OR of_int (hexval c)) = 16 * unat v + nat (hexval c)"
proof -
  have h: "unat (of_int (hexval c) :: u64) = nat (hexval c)" "nat (hexval c) < 16"
    using assms(2) hexval_less [of c] by (simp_all add: nat_less_iff unat_eq_nat_uint word_of_int_inverse)
  then have low: "bit (of_int (hexval c) :: u64) n \<Longrightarrow> n < 4" for n using bits_small [of "of_int (hexval c) :: u64" 4 n] by simp
  have "push_bit 4 v AND of_int (hexval c) = 0"
    by (rule bit_word_eqI) (use low in \<open>auto simp only: bit_and_iff bit_push_bit_iff bit_0_eq bot_apply bot_bool_def dest: low\<close>)
  then have "push_bit 4 v OR of_int (hexval c) = push_bit 4 v + of_int (hexval c)"
    by (simp add: disjunctive_add_eq_or)
  moreover have "unat (push_bit 4 v) = 16 * unat v"
    using assms(1) by (simp add: push_bit_eq_mult unat_word_ariths)
  ultimately show ?thesis using h assms(1) by (simp add: unat_word_ariths)
qed

lemma read_u_digits:
  assumes "\<forall>x\<in>set [a, b, c, d]. 0 \<le> hexval x"
  shows "\<exists>v. read_u (u # a # b # c # d # r) 4 1 0 0 = (hexval d, v) \<and>
    int (unat v) = 4096 * hexval a + 256 * hexval b + 16 * hexval c + hexval d"
proof -
  let ?p = "u # a # b # c # d # r"
  define v1 :: u64 where "v1 = push_bit 4 0 OR of_int (hexval a)"
  define v2 where "v2 = push_bit 4 v1 OR of_int (hexval b)"
  define v3 where "v3 = push_bit 4 v2 OR of_int (hexval c)"
  define v4 where "v4 = push_bit 4 v3 OR of_int (hexval d)"
  have n: "0 \<le> hexval a" "0 \<le> hexval b" "0 \<le> hexval c" "0 \<le> hexval d" using assms by auto
  have l: "nat (hexval x) < 16" for x using hexval_less [of x] by simp
  have u: "unat v1 = nat (hexval a)" "unat v2 = 16 * unat v1 + nat (hexval b)"
    using push_digit [of 0 a] push_digit [of v1 b] n l [of a] by (simp_all add: v1_def v2_def)
  moreover have "unat v3 = 16 * unat v2 + nat (hexval c)"
    using push_digit [of v2 c] n u l [of a] l [of b] by (simp add: v3_def)
  moreover from this have "unat v4 = 16 * unat v3 + nat (hexval d)"
    using push_digit [of v3 d] n u l [of a] l [of b] l [of c] by (simp add: v4_def)
  moreover have "read_u ?p 4 1 0 0 = (hexval d, v4)"
  proof -
    have four: "(4 :: nat) = Suc (Suc (Suc (Suc 0)))" by simp
    have p: "char_at ?p 1 = a" "char_at ?p (1 + 1) = b" "char_at ?p (1 + 1 + 1) = c" "char_at ?p (1 + 1 + 1 + 1) = d"
      by (simp_all add: char_at_def)
    show ?thesis
      unfolding v4_def v3_def v2_def v1_def four read_u.simps Let_def p using n
      by (simp only: not_less [symmetric] if_False)
  qed
  ultimately show ?thesis using n by (intro exI [of _ v4]) simp
qed

lemma read_u_bad:
  assumes "\<exists>x\<in>set [a, b, c, d]. hexval x < 0"
  shows "fst (read_u (u # a # b # c # d # r) 4 1 0 0) < 0"
proof (rule ccontr)
  let ?p = "u # a # b # c # d # r"
  have four: "(4 :: nat) = Suc (Suc (Suc (Suc 0)))" by simp
  have p: "char_at ?p 1 = a" "char_at ?p (1 + 1) = b" "char_at ?p (1 + 1 + 1) = c" "char_at ?p (1 + 1 + 1 + 1) = d"
    by (simp_all add: char_at_def)
  assume "\<not> ?thesis"
  then show False using assms unfolding four read_u.simps Let_def p by (auto split: if_splits)
qed

lemma hex_digits:
  fixes a b c d :: int
  assumes "0 \<le> a" "0 \<le> b" "0 \<le> c" "0 \<le> d" "a < 16" "b < 16" "c < 16" "d < 16"
  shows "(4096 * a + 256 * b + 16 * c + d) div 4096 mod 16 = a"
    "(4096 * a + 256 * b + 16 * c + d) div 256 mod 16 = b"
    "(4096 * a + 256 * b + 16 * c + d) div 16 mod 16 = c"
    "(4096 * a + 256 * b + 16 * c + d) mod 16 = d"
proof -
  have r: "(16 * x + y) mod 16 = y" "(16 * x + y) div 16 = x" if "0 \<le> y" "y < 16" for x y :: int
    using that by simp_all
  define v where "v = 4096 * a + 256 * b + 16 * c + d"
  have e: "v = 16 * (16 * (16 * a + b) + c) + d" by (simp add: v_def)
  have q: "v div 16 = 16 * (16 * a + b) + c" "v mod 16 = d" unfolding e by (rule r [OF assms(4,8)])+
  have "v div 256 = v div 16 div 16" using zdiv_zmult2_eq [of 16 v 16] by simp
  then have q2: "v div 256 = 16 * a + b" unfolding q by (simp only: r assms)
  have "v div 4096 = v div 256 div 16" using zdiv_zmult2_eq [of 16 v 256] by simp
  then have q3: "v div 4096 = a" unfolding q2 by (simp only: r assms)
  show "(4096 * a + 256 * b + 16 * c + d) div 4096 mod 16 = a"
    unfolding v_def [symmetric] q3 using assms(1,5) by simp
  show "(4096 * a + 256 * b + 16 * c + d) div 256 mod 16 = b"
    unfolding v_def [symmetric] q2 by (simp only: r assms)
  show "(4096 * a + 256 * b + 16 * c + d) div 16 mod 16 = c"
    unfolding v_def [symmetric] q by (simp only: r assms)
  show "(4096 * a + 256 * b + 16 * c + d) mod 16 = d"
    unfolding v_def [symmetric] by (rule q(2))
qed

lemma next_cp_u_escape:
  assumes "u_escape (u # a # b # c # d # r)"
  shows "\<exists>v. next_cp PCT (u # a # b # c # d # r) = (v, r) \<and> lat v = PCT # u # map hex_upper [a, b, c, d]"
proof -
  let ?p = "u # a # b # c # d # r"
  have h: "\<forall>x\<in>set [a, b, c, d]. 0 \<le> hexval x" "hexval a \<noteq> 0 \<or> hexval b \<noteq> 0" "u = 0x75"
    using assms by simp_all
  obtain v where v: "read_u ?p 4 1 0 0 = (hexval d, v)"
    "int (unat v) = 4096 * hexval a + 256 * hexval b + 16 * hexval c + hexval d"
    using read_u_digits [OF h(1)] by blast
  have n: "0 \<le> hexval a" "0 \<le> hexval b" "0 \<le> hexval c" "0 \<le> hexval d" using h(1) by auto
  have l: "hexval a < 16" "hexval b < 16" "hexval c < 16" "hexval d < 16" by (simp_all add: hexval_less)
  have "255 < unat v" "unat v \<le> 65535" using v(2) n l h(2) by linarith+
  then have big: "0xFF < v" "\<not> v \<le> 0xFF" "v \<le> 0xFFFF"
    unfolding word_less_nat_alt word_le_nat_alt by simp_all
  have nx: "next_cp PCT ?p = (v, r)"
    using v(1) n(4) big(1) h(3) by (simp add: next_cp_def char_at_def)
  have nib: "int (unat (x AND 0xF :: u64)) = int (unat x) mod 16" for x
    using unat_and_mask [of x 4] by (simp add: mask_eq_exp_minus_1 zmod_int)
  have sh: "int (unat (drop_bit n v)) = int (unat v) div 2 ^ n" for n
    by (simp add: unat_drop_bit zdiv_int)
  have "int (unat (drop_bit 12 v AND 0xF)) = hexval a"
    unfolding nib sh using hex_digits(1) [OF n l] by (simp only: v(2)) simp
  moreover have "int (unat (drop_bit 8 v AND 0xF)) = hexval b"
    unfolding nib sh using hex_digits(2) [OF n l] by (simp only: v(2)) simp
  moreover have "int (unat (drop_bit 4 v AND 0xF)) = hexval c"
    unfolding nib sh using hex_digits(3) [OF n l] by (simp only: v(2)) simp
  moreover have "int (unat (v AND 0xF)) = hexval d"
    unfolding nib v(2) by (rule hex_digits(4) [OF n l])
  ultimately have "lat v = PCT # u # map hex_upper [a, b, c, d]"
    using big h(3) n by (simp add: lat_def hexdigit_hexval del: of_nat_unat)
  with nx show ?thesis by blast
qed

lemma escapes_u_escape: "escapes p \<Longrightarrow> u_escape p"
proof -
  assume e: "escapes p"
  obtain h v where r: "read_u p 4 1 0 0 = (h, v)" "h \<ge> 0" "v > 0xFF" "char_at p 0 = 0x75"
    using e by (auto simp: escapes_def split: prod.splits)
  have "5 \<le> length p" using read_u_length [OF r(1,2)] by simp
  then obtain u a b c d r' where p: "p = u # a # b # c # d # r'"
    by (auto simp: numeral_eq_Suc Suc_le_length_iff)
  have h: "\<forall>x\<in>set [a, b, c, d]. 0 \<le> hexval x"
  proof (rule ccontr)
    assume "\<not> ?thesis"
    then have "\<exists>x\<in>set [a, b, c, d]. hexval x < 0" by (auto simp: not_le)
    from read_u_bad [OF this, of u r'] r(1,2) show False by (simp add: p)
  qed
  obtain w where "read_u (u # a # b # c # d # r') 4 1 0 0 = (hexval d, w)"
    "int (unat w) = 4096 * hexval a + 256 * hexval b + 16 * hexval c + hexval d"
    using read_u_digits [OF h] by blast
  then have w: "int (unat v) = 4096 * hexval a + 256 * hexval b + 16 * hexval c + hexval d"
    using r(1) p by simp
  have "hexval a \<noteq> 0 \<or> hexval b \<noteq> 0"
  proof (rule ccontr)
    assume "\<not> ?thesis"
    then have "unat v < 0x100" using w hexval_less [of c] hexval_less [of d] by linarith
    with r(3) show False by (simp add: word_less_nat_alt)
  qed
  then show "u_escape p" using h r(4) by (simp add: p char_at_def)
qed

lemma lat_byte: "lat (ucast c) = [c :: u8]"
proof -
  have "unat (ucast c :: u64) \<le> 0xFF"
    using unsigned_less [of c, where ?'a = nat] unat_ucast_8_64 [of c] by simp
  moreover have "ucast (ucast c :: u64) = c" by (rule bit_word_eqI) (simp add: bit_simps)
  ultimately show ?thesis by (simp add: lat_def word_le_nat_alt)
qed

lemma lat_cps_plain:
  assumes "m = PCT \<Longrightarrow> \<not> u_escape p" "lat_all (cps p) = q"
  shows "lat_all (cps (m # p)) = m # q"
proof (cases m p rule: next_cp_cases)
  case plain
  then show ?thesis using assms(2) by (simp add: lat_byte)
next
  case (escape v)
  then have "u_escape p" by (intro escapes_u_escape) (auto simp: next_cp_def escapes_def word_less_nat_alt split: if_splits prod.splits)
  with assms(1) escape(1) show ?thesis by simp
qed

lemma lat_cps: "lat_all (cps s) = upper_escapes s"
proof (induction s rule: upper_escapes.induct)
  case (1 m u a b c d r)
  show ?case
  proof (cases "m = PCT \<and> u_escape (u # a # b # c # d # r)")
    case True
    with next_cp_u_escape [of u a b c d r] 1(1) show ?thesis
      by (auto simp del: u_escape.simps)
  next
    case False
    with 1(2) have "lat_all (cps (u # a # b # c # d # r)) = upper_escapes (u # a # b # c # d # r)" by blast
    from lat_cps_plain [OF _ this, of m] False show ?thesis
      unfolding upper_escapes.simps(1) [of m] by (simp only: if_False) blast
  qed
qed (simp_all del: cps.simps(2) add: lat_cps_plain)

end
