(* ===== verification/HvMeta.thy ===== *)
theory HvMeta
  imports AmetaEdit AmetaRewrite
begin

text \<open>
  The host side of \<open>.ameta\<close> (\<open>hosted/hostvolume/hv_meta.c\<close>): reading a file's metadata out of
  its directory's \<open>.ameta\<close>, and the rewrite loop that changes it under concurrent writers.

  The operating system is the environment: what \<open>open\<close>, \<open>read\<close>, \<open>stat\<close>, \<open>rename\<close>, \<open>unlink\<close>
  and the temporary file did in one attempt is a record, and the loop is a function of the
  list of attempts. Its effect on \<open>.ameta\<close> is the one \<open>rename\<close> or \<open>unlink\<close> it makes.
\<close>

definition HV_COMMENT_MAX :: nat where "HV_COMMENT_MAX = 80"
definition WRITE_ATTEMPTS :: nat where "WRITE_ATTEMPTS = 8"
definition PATH_CAP :: nat where "PATH_CAP = 4096"

record hv_meta =
  m_prot :: u32
  m_comment :: bytes

section \<open>Paths\<close>

text \<open>\<open>strrchr (path, '/')\<close> as the length of what precedes the slash.\<close>

fun last_slash :: "bytes \<Rightarrow> nat option" where
  "last_slash [] = None"
| "last_slash (c # s) = (case last_slash s of
     Some k \<Rightarrow> Some (k + 1) | None \<Rightarrow> if c = SLASH then Some 0 else None)"

definition split_path :: "bytes \<Rightarrow> nat \<Rightarrow> (bytes \<times> bytes) option" where
  "split_path path dircap =
     (let slash = last_slash path;
          dlen = (case slash of Some k \<Rightarrow> k | None \<Rightarrow> 1) in
      if dlen + 1 > dircap then None
      else Some (case slash of Some k \<Rightarrow> (take k path, drop (k + 1) path) | None \<Rightarrow> ([DOT], path)))"

definition hv_is_sidecar_name :: "bytes \<Rightarrow> bool" where
  "hv_is_sidecar_name nm \<longleftrightarrow> nm = lit ''.ameta'' \<or> take 7 nm = lit ''.ameta.''"

definition hv_meta_is_default :: "hv_meta \<Rightarrow> bool" where
  "hv_meta_is_default m \<longleftrightarrow> m_prot m AND NOT (ucast AMETA_RECORD_MASK) = 0 \<and> m_comment m = []"

section \<open>Reading\<close>

text \<open>The outcome of opening and reading \<open>.ameta\<close>; \<open>'i\<close> is what \<open>fstat\<close> identifies a file by.
  \<open>OpenErr\<close> stands for every failure on which \<open>load\<close> returns -1.\<close>

datatype 'i opened = OpenErr | NoFile | Opened 'i bytes

record 'i loaded =
  l_id :: "'i option"
  l_file :: ameta_file
  l_arena :: ameta_arena
  l_usable :: bool

text \<open>The read loop stops at the first full buffer of more than \<open>AMETA_MAX_FILE\<close> bytes.\<close>

definition read_buf :: "bytes \<Rightarrow> bytes" where
  "read_buf content = take (2 * AMETA_MAX_FILE) content"

definition meta_arena :: "bytes \<Rightarrow> ameta_arena" where
  "meta_arena buf = \<lparr>acap = of_nat (length buf * 4 + 65536), used = 0\<rparr>"

definition parsed_file :: "parse_res \<Rightarrow> pstate" where
  "parsed_file r = (case r of AMETA_OK ps \<Rightarrow> ps | AMETA_UNUSABLE ps \<Rightarrow> ps | AMETA_NOMEM ps \<Rightarrow> ps)"

definition load_meta :: "'i opened \<Rightarrow> 'i loaded option" where
  "load_meta op = (case op of
     OpenErr \<Rightarrow> None
   | _ \<Rightarrow> (let buf = (case op of Opened i b \<Rightarrow> read_buf b | _ \<Rightarrow> []);
               r = ameta_parse buf (meta_arena buf) in
       Some \<lparr>l_id = (case op of Opened i b \<Rightarrow> Some i | _ \<Rightarrow> None),
             l_file = p_file (parsed_file r), l_arena = p_arena (parsed_file r),
             l_usable = (case r of AMETA_OK ps \<Rightarrow> True | _ \<Rightarrow> False)\<rparr>))"

text \<open>-1, or found (1) or not (0) with the metadata. \<open>out->comment\<close> has \<open>HV_COMMENT_MAX + 1\<close> bytes,
  the first of them already NUL.\<close>

definition hv_meta_read :: "'i opened \<Rightarrow> bytes \<Rightarrow> int \<times> hv_meta" where
  "hv_meta_read op path =
     (let dflt = \<lparr>m_prot = 0, m_comment = []\<rparr> in
      case split_path path PATH_CAP of None \<Rightarrow> (- 1, dflt)
      | Some (dir, nm) \<Rightarrow> (case load_meta op of None \<Rightarrow> (- 1, dflt)
        | Some l \<Rightarrow> (case (if l_usable l then ameta_find (l_file l) nm else None) of
            None \<Rightarrow> (0, dflt)
          | Some i \<Rightarrow> (let e = entries (l_file l) ! i in
              (1, \<lparr>m_prot = (if has_prot e then ucast (prot e) else 0),
                   m_comment = c_string (ameta_comment_to_latin1 (comment e) (\<lambda>_. 0) (HV_COMMENT_MAX + 1))
                     (HV_COMMENT_MAX + 1)\<rparr>)))))"

section \<open>The changes\<close>

datatype change_res = ChOk ameta_file ameta_arena | ChFail | ChUndef

type_synonym change = "ameta_file \<Rightarrow> ameta_arena \<Rightarrow> change_res"

text \<open>The UTF-8 buffer of \<open>set_entry\<close> is written and terminated before it is read.\<close>

definition set_entry_change :: "bytes \<Rightarrow> hv_meta \<Rightarrow> change" where
  "set_entry_change nm m f a = (case ameta_get f a nm of
     (None, f1, a1) \<Rightarrow> ChFail
   | (Some i, f1, a1) \<Rightarrow>
       (let e = entries f1 ! i;
            e = e\<lparr>prot := (if has_prot e then prot e AND NOT 0xFFFFFFFF else 0) OR ucast (m_prot m),
                  has_prot := True\<rparr>;
            cap = HV_COMMENT_MAX * 4 + 1;
            utf8 = fst (ameta_comment_to_utf8 (m_comment m) (\<lambda>_. 0) cap) in
        case ameta_set_comment e a1 (c_string utf8 cap) of
          None \<Rightarrow> ChFail
        | Some (e', a2) \<Rightarrow> ChOk (set_entry i e' f1) a2))"

definition take_entry_change :: "bytes \<Rightarrow> change" where
  "take_entry_change nm f a =
     ChOk (case ameta_find f nm of None \<Rightarrow> f | Some i \<Rightarrow> ameta_remove f nm) a"

definition put_entry_change :: "ameta_entry \<Rightarrow> bytes \<Rightarrow> change" where
  "put_entry_change moved nm f a = (case ameta_copy_entry f a moved nm of
     (None, _, _) \<Rightarrow> ChFail | (Some i, f', a') \<Rightarrow> ChOk f' a')"

definition rename_entry_change :: "bytes \<Rightarrow> bytes \<Rightarrow> change" where
  "rename_entry_change src dst f a = (case ameta_rename f a src dst of
     RenOk f' a' \<Rightarrow> ChOk f' a' | RenFail f' a' \<Rightarrow> ChFail | RenUndef \<Rightarrow> ChUndef)"

definition delete_entry_change :: "bytes \<Rightarrow> change" where
  "delete_entry_change nm f a = ChOk (ameta_remove f nm) a"

section \<open>The rewrite loop\<close>

datatype 'i stat_res = StatErr | StatNoEnt | Stat 'i

text \<open>What the system did in one attempt.\<close>

record 'i attempt =
  at_open :: "'i opened"
  at_present :: "bytes \<Rightarrow> bool"
  at_written :: bool
  at_stat :: "'i stat_res"
  at_rename :: bool
  at_unlink :: bool

datatype effect = Untouched | Replaced bytes | Removed

datatype rewrite_res = RwDone int effect | RwUndef

definition same_identity :: "'i option \<Rightarrow> 'i stat_res \<Rightarrow> bool" where
  "same_identity known st = (case st of
     StatErr \<Rightarrow> False | StatNoEnt \<Rightarrow> known = None | Stat i \<Rightarrow> known = Some i)"

text \<open>\<open>ameta_format\<close> is called twice: for the size, and into a buffer of that size.\<close>

definition rewritten_body :: "ameta_file \<Rightarrow> bytes" where
  "rewritten_body f = (case ameta_format f (\<lambda>_. 0) 0 of (f1, _, need) \<Rightarrow>
     case ameta_format f1 (\<lambda>_. 0) need of (f2, body, _) \<Rightarrow> map body [0..<need])"

fun rewrite_locked :: "change \<Rightarrow> 'i attempt list \<Rightarrow> rewrite_res" where
  "rewrite_locked ch [] = RwDone (- 1) Untouched"
| "rewrite_locked ch (x # xs) = (case load_meta (at_open x) of
     None \<Rightarrow> RwDone (- 1) Untouched
   | Some l \<Rightarrow>
       if \<not> l_usable l then RwDone (- 1) Untouched
       else (case ch (l_file l) (l_arena l) of
           ChFail \<Rightarrow> RwDone (- 1) Untouched
         | ChUndef \<Rightarrow> RwUndef
         | ChOk f a \<Rightarrow>
             (let body = rewritten_body (ameta_prune (at_present x) f) in
              if body \<noteq> [] \<and> \<not> at_written x then RwDone (- 1) Untouched
              else if \<not> same_identity (l_id l) (at_stat x) then rewrite_locked ch xs
              else if body \<noteq> [] then
                (if at_rename x then RwDone 0 (Replaced body) else RwDone (- 1) Untouched)
              else (if at_unlink x then RwDone 0 Removed else RwDone (- 1) Untouched))))"

definition rewrite_meta :: "change \<Rightarrow> 'i attempt list \<Rightarrow> rewrite_res" where
  "rewrite_meta ch xs = rewrite_locked ch (take WRITE_ATTEMPTS xs)"

section \<open>The entry points\<close>

definition hv_meta_write :: "'i attempt list \<Rightarrow> bytes \<Rightarrow> hv_meta \<Rightarrow> rewrite_res" where
  "hv_meta_write env path m = (case split_path path PATH_CAP of
     None \<Rightarrow> RwDone (- 1) Untouched
   | Some (dir, nm) \<Rightarrow> rewrite_meta (set_entry_change nm m) env)"

definition hv_meta_delete :: "'i attempt list \<Rightarrow> bytes \<Rightarrow> rewrite_res" where
  "hv_meta_delete env path = (case split_path path PATH_CAP of
     None \<Rightarrow> RwDone (- 1) Untouched
   | Some (dir, nm) \<Rightarrow> rewrite_meta (delete_entry_change nm) env)"

text \<open>A rename inside one directory is one rewrite. Between directories the entry is read from the
  old file, put into the new one and only then taken out of the old one; the results are the
  return value, and the effects on the new and on the old directory.\<close>

datatype rename_outcome = RnDone int effect effect | RnUndef

definition hv_meta_rename ::
  "'i opened \<Rightarrow> 'i attempt list \<Rightarrow> 'i attempt list \<Rightarrow> bytes \<Rightarrow> bytes \<Rightarrow> rename_outcome" where
  "hv_meta_rename old env_new env_old oldpath newpath =
     (case (split_path oldpath PATH_CAP, split_path newpath PATH_CAP) of
        (Some (olddir, oldname), Some (newdir, newname)) \<Rightarrow>
          if olddir = newdir then
            (case rewrite_meta (rename_entry_change oldname newname) env_new of
               RwDone rc ef \<Rightarrow> RnDone rc ef Untouched | RwUndef \<Rightarrow> RnUndef)
          else (case load_meta old of
              None \<Rightarrow> RnDone (- 1) Untouched Untouched
            | Some l \<Rightarrow> (case (if l_usable l then ameta_find (l_file l) oldname else None) of
                None \<Rightarrow> RnDone 0 Untouched Untouched
              | Some i \<Rightarrow>
                  (case rewrite_meta (put_entry_change (entries (l_file l) ! i) newname) env_new of
                     RwUndef \<Rightarrow> RnUndef
                   | RwDone rc ef \<Rightarrow>
                       if rc \<noteq> 0 then RnDone (- 1) ef Untouched
                       else (case rewrite_meta (take_entry_change oldname) env_old of
                           RwUndef \<Rightarrow> RnUndef
                         | RwDone rc2 ef2 \<Rightarrow> RnDone rc2 ef ef2))))
      | _ \<Rightarrow> RnDone (- 1) Untouched Untouched)"

end
