(* ===== verification/HvMetaProps.thy ===== *)
theory HvMetaProps
  imports HvMeta
begin

text \<open>
  What the metadata functions promise: a rewrite replaces \<open>.ameta\<close> only by the changed form of
  the very file that is still there, what is written is read back, and the arena that
  \<open>load\<close> gives the parser is too small for a directory with many short entries.
\<close>

section \<open>What is written\<close>

lemma length_entries:
  "length (unlines (concat (map entry_lines es))) = sum_list (map (\<lambda>e. length (unlines (entry_lines e))) es)"
  by (induction es) simp_all

lemma length_file_lines:
  assumes "mset es = mset es'"
  shows "length (unlines (file_lines es)) = length (unlines (file_lines es'))"
proof -
  have "mset (kept es) = mset (kept es')" using assms by (simp add: kept_def mset_filter)
  then have "mset (map (\<lambda>e. length (unlines (entry_lines e))) (kept es)) =
      mset (map (\<lambda>e. length (unlines (entry_lines e))) (kept es'))" by simp
  then have "length (unlines (concat (map entry_lines (kept es)))) = length (unlines (concat (map entry_lines (kept es'))))"
    unfolding length_entries by (metis sum_mset_sum_list)
  then show ?thesis by (simp add: file_lines_def)
qed

text \<open>The two calls of \<open>ameta_format\<close> agree on the length, so the buffer holds the whole text.\<close>

lemma rewritten_body_text:
  "\<exists>es. mset es = mset (entries f) \<and>
    rewritten_body f = (if kept (entries f) = [] then [] else unlines (file_lines es))"
proof -
  let ?e1 = "sort_entries (entries f)" and ?e2 = "sort_entries (sort_entries (entries f))"
  let ?t = "\<lambda>es. if kept es = [] then [] else unlines (file_lines es)"
  have m: "mset ?e1 = mset (entries f)" "mset ?e2 = mset (entries f)" by (simp_all add: sort_entries_sorted)
  have k: "kept ?e1 = [] \<longleftrightarrow> kept (entries f) = []" "kept ?e2 = [] \<longleftrightarrow> kept (entries f) = []"
    using mset_kept [of "entries f"] mset_kept [of ?e1] by (metis mset_zero_iff)+
  have "length (?t ?e1) = length (?t ?e2)"
    using length_file_lines [of ?e1 ?e2] m k by simp
  moreover have e: "entries (f\<lparr>entries := xs\<rparr>) = xs" for xs by simp
  moreover have "rewritten_body f = map (overlay (\<lambda>_. 0) 0 (length (?t ?e1)) (?t ?e2)) [0..<length (?t ?e1)]"
    by (simp only: rewritten_body_def ameta_format_text Let_def prod.case e)
  ultimately have "rewritten_body f = ?t ?e2"
    using map_overlay [of "?t ?e2" "length (?t ?e2)" "\<lambda>_. 0"] by (simp only: order_refl)
  with m k show ?thesis by (intro exI [of _ ?e2]) simp
qed

section \<open>The loop commits only what it loaded\<close>

lemma rewrite_commits:
  assumes "rewrite_meta ch env = RwDone rc ef" "ef \<noteq> Untouched"
  obtains x l f a where "rc = 0" "x \<in> set (take 8 env)" "load_meta (at_open x) = Some l" "l_usable l"
    "ch (l_file l) (l_arena l) = ChOk f a" "same_identity (l_id l) (at_stat x)"
    "let body = rewritten_body (ameta_prune (at_present x) f) in
     if body = [] then ef = Removed else at_written x \<and> ef = Replaced body"
proof -
  have main: "rewrite_locked ch xs = RwDone rc ef \<Longrightarrow> rc = 0 \<and> (\<exists>x\<in>set xs. \<exists>l f a.
      load_meta (at_open x) = Some l \<and> l_usable l \<and>
      ch (l_file l) (l_arena l) = ChOk f a \<and> same_identity (l_id l) (at_stat x) \<and>
      (let body = rewritten_body (ameta_prune (at_present x) f) in
       if body = [] then ef = Removed else at_written x \<and> ef = Replaced body))" for xs
  proof (induction xs)
    case (Cons x xs)
    from Cons.prems assms(2) obtain l f a where l: "load_meta (at_open x) = Some l" "l_usable l"
      "ch (l_file l) (l_arena l) = ChOk f a"
      by (auto split: option.splits if_splits change_res.splits)
    let ?body = "rewritten_body (ameta_prune (at_present x) f)"
    show ?case
    proof (cases "same_identity (l_id l) (at_stat x)")
      case False
      then have "rewrite_locked ch xs = RwDone rc ef"
        using Cons.prems l assms(2) by (auto simp: Let_def split: if_splits)
      with Cons.IH show ?thesis by auto
    next
      case True
      then have "rc = 0 \<and> (if ?body = [] then ef = Removed else at_written x \<and> ef = Replaced ?body)"
        using Cons.prems l assms(2) by (auto simp: Let_def split: if_splits)
      with l True show ?thesis by (auto simp: Let_def)
    qed
  qed (use assms(2) in simp)
  have "rewrite_locked ch (take 8 env) = RwDone rc ef"
    using assms(1) by (simp add: rewrite_meta_def WRITE_ATTEMPTS_def)
  from main [OF this] show ?thesis using that by blast
qed

text \<open>An attempt that got as far as the identity check: it loaded \<open>l\<close> without an error, the
  change succeeded, and the new content is \<open>body\<close>, which is in the temporary file unless it
  is empty.\<close>

definition prepared :: "change \<Rightarrow> 'i attempt \<Rightarrow> 'i loaded \<Rightarrow> bytes \<Rightarrow> bool" where
  "prepared ch x l body \<longleftrightarrow> load_meta (at_open x) = Some l \<and> l_usable l \<and>
     (\<exists>f a. ch (l_file l) (l_arena l) = ChOk f a \<and> body = rewritten_body (ameta_prune (at_present x) f)) \<and>
     (body \<noteq> [] \<longrightarrow> at_written x)"

definition outrun :: "change \<Rightarrow> 'i attempt \<Rightarrow> bool" where
  "outrun ch x \<longleftrightarrow> (\<exists>l body. prepared ch x l body \<and> \<not> same_identity (l_id l) (at_stat x))"

definition commits :: "change \<Rightarrow> 'i attempt \<Rightarrow> effect \<Rightarrow> bool" where
  "commits ch x ef \<longleftrightarrow> (\<exists>l body. prepared ch x l body \<and> same_identity (l_id l) (at_stat x) \<and>
     (if body = [] then at_unlink x \<and> ef = Removed else at_rename x \<and> ef = Replaced body))"

lemma rewrite_locked_step:
  assumes "rewrite_locked ch (x # xs) = RwDone rc ef"
  shows "(rc = - 1 \<and> ef = Untouched) \<or> (rc = 0 \<and> commits ch x ef) \<or>
    (outrun ch x \<and> rewrite_locked ch xs = RwDone rc ef)"
proof (cases "rc = - 1 \<and> ef = Untouched")
  case False
  from assms False obtain l f a where l: "load_meta (at_open x) = Some l" "l_usable l"
    "ch (l_file l) (l_arena l) = ChOk f a"
    by (auto split: option.splits if_splits change_res.splits)
  define body where "body = rewritten_body (ameta_prune (at_present x) f)"
  have w: "body \<noteq> [] \<longrightarrow> at_written x"
    using assms False l by (auto simp: Let_def body_def [symmetric] split: if_splits)
  then have p: "prepared ch x l body" using l by (auto simp: prepared_def body_def)
  have step: "rewrite_locked ch (x # xs) =
      (if \<not> same_identity (l_id l) (at_stat x) then rewrite_locked ch xs
       else if body \<noteq> [] then (if at_rename x then RwDone 0 (Replaced body) else RwDone (- 1) Untouched)
       else (if at_unlink x then RwDone 0 Removed else RwDone (- 1) Untouched))"
    using l w by (simp add: Let_def body_def [symmetric])
  show ?thesis
  proof (cases "same_identity (l_id l) (at_stat x)")
    case True
    then have "rc = 0 \<and> (if body = [] then at_unlink x \<and> ef = Removed else at_rename x \<and> ef = Replaced body)"
      using assms False unfolding step by (auto split: if_splits)
    with p True show ?thesis unfolding commits_def by blast
  next
    case no: False
    then have "rewrite_locked ch xs = RwDone rc ef" using assms unfolding step by simp
    with p no show ?thesis unfolding outrun_def by blast
  qed
qed simp

lemma rewrite_locked_outcome:
  "rewrite_locked ch xs = RwDone rc ef \<Longrightarrow> (rc = - 1 \<and> ef = Untouched) \<or>
     (rc = 0 \<and> (\<exists>n < length xs. commits ch (xs ! n) ef \<and> (\<forall>i < n. outrun ch (xs ! i))))"
proof (induction xs)
  case (Cons x xs)
  from rewrite_locked_step [OF Cons.prems] show ?case
  proof (elim disjE)
    assume "rc = 0 \<and> commits ch x ef"
    then show ?thesis by (intro disjI2) (auto intro: exI [of _ 0])
  next
    assume o: "outrun ch x \<and> rewrite_locked ch xs = RwDone rc ef"
    from Cons.IH [OF conjunct2 [OF o]] show ?thesis
    proof (elim disjE conjE exE)
      fix n assume "rc = 0" "n < length xs" "commits ch (xs ! n) ef" "\<forall>i<n. outrun ch (xs ! i)"
      then show ?thesis using o
        by (intro disjI2 conjI exI [of _ "Suc n"]) (auto simp: less_Suc_eq_0_disj)
    qed simp
  qed simp
qed simp

text \<open>C18: Whatever the system does, a rewrite that reports failure has left \<open>.ameta\<close> untouched, and
  one that reports success was decided by one of its first eight attempts. Every earlier
  attempt had got as far as a complete temporary file and then found that another writer had
  replaced \<open>.ameta\<close>; the deciding one loaded and parsed the file without an error, found its
  identity still the same after the temporary file was complete, and its rename put in
  place the canonical form of the loaded entries, changed and then pruned, or its unlink
  removed \<open>.ameta\<close> when that form is empty.\<close>

theorem rewrite_commits_loaded:
  assumes "rewrite_meta ch env = RwDone rc ef"
  shows "(rc = - 1 \<and> ef = Untouched) \<or>
    (rc = 0 \<and> (\<exists>n < min 8 (length env). (\<forall>i < n. outrun ch (env ! i)) \<and>
      (\<exists>l f a. load_meta (at_open (env ! n)) = Some l \<and> l_usable l \<and>
        ch (l_file l) (l_arena l) = ChOk f a \<and> same_identity (l_id l) (at_stat (env ! n)) \<and>
        (let body = rewritten_body (ameta_prune (at_present (env ! n)) f) in
         if body = [] then at_unlink (env ! n) \<and> ef = Removed
         else at_written (env ! n) \<and> at_rename (env ! n) \<and> ef = Replaced body))))"
proof -
  have "rewrite_locked ch (take 8 env) = RwDone rc ef"
    using assms by (simp add: rewrite_meta_def WRITE_ATTEMPTS_def)
  from rewrite_locked_outcome [OF this] show ?thesis
  proof (elim disjE conjE exE)
    fix n assume n: "rc = 0" "n < length (take 8 env)" "commits ch (take 8 env ! n) ef"
      "\<forall>i<n. outrun ch (take 8 env ! i)"
    then have c: "n < min 8 (length env)" "commits ch (env ! n) ef" "\<forall>i<n. outrun ch (env ! i)" by auto
    from c(2) obtain l f a where "load_meta (at_open (env ! n)) = Some l" "l_usable l"
      "ch (l_file l) (l_arena l) = ChOk f a" "same_identity (l_id l) (at_stat (env ! n))"
      "let body = rewritten_body (ameta_prune (at_present (env ! n)) f) in
         if body = [] then at_unlink (env ! n) \<and> ef = Removed
         else at_written (env ! n) \<and> at_rename (env ! n) \<and> ef = Replaced body"
      unfolding commits_def prepared_def Let_def by (auto split: if_splits)
    with c n(1) show ?thesis by blast
  qed simp
qed

text \<open>The host has removed the file of the only entry; and another writer is faster the first time.\<close>

definition lone_entry :: ameta_entry where
  "lone_entry = zero_entry\<lparr>ename := lit ''a'', has_uid := True, uid := 5\<rparr>"

definition lone_file :: "nat opened" where
  "lone_file = Opened 7 (unlines (file_lines [lone_entry]))"

definition lone_attempt :: "nat \<Rightarrow> nat attempt" where
  "lone_attempt i = \<lparr>at_open = lone_file, at_present = (\<lambda>nm. False), at_written = True, at_stat = Stat i,
     at_rename = True, at_unlink = True\<rparr>"

lemma lone_load: "\<exists>l. load_meta lone_file = Some l \<and> l_usable l \<and> l_id l = Some 7"
proof -
  have e: "\<forall>e\<in>set [lone_entry]. writable e" "kept [lone_entry] = [lone_entry]"
    "length (unlines (file_lines [lone_entry])) = 21" "sum_list (map entry_cost [lone_entry]) = 348"
    by code_simp+
  show ?thesis
    using parse_file_lines [OF e(1), of "meta_arena (unlines (file_lines [lone_entry]))"] e(2-4)
    by (auto simp: lone_file_def load_meta_def Let_def read_buf_def AMETA_MAX_FILE_def meta_arena_def)
qed

theorem rewrite_commits_loaded_witness:
  "rewrite_meta (take_entry_change (lit ''b'')) [lone_attempt 8, lone_attempt 7] = RwDone 0 Removed \<and>
   (\<exists>n<2. (\<forall>i<n. outrun (take_entry_change (lit ''b'')) ([lone_attempt 8, lone_attempt 7] ! i)) \<and>
     (\<exists>l. load_meta lone_file = Some l \<and> same_identity (l_id l) (Stat ([8, 7] ! n))))"
proof -
  obtain l where l: "load_meta lone_file = Some l" "l_usable l" "l_id l = Some 7" using lone_load by blast
  obtain f where f: "take_entry_change (lit ''b'') (l_file l) (l_arena l) = ChOk f (l_arena l)"
    by (simp add: take_entry_change_def)
  have "ameta_prune (\<lambda>nm. False) f = f\<lparr>entries := []\<rparr>" by (simp add: ameta_prune_filter)
  then have "rewritten_body (ameta_prune (\<lambda>nm. False) f) = []"
    using rewritten_body_text [of "ameta_prune (\<lambda>nm. False) f"] by (auto simp: kept_def)
  then have r: "rewrite_meta (take_entry_change (lit ''b'')) [lone_attempt 8, lone_attempt 7] = RwDone 0 Removed"
    using l f by (simp add: rewrite_meta_def WRITE_ATTEMPTS_def lone_attempt_def Let_def same_identity_def)
  have at: "at_open ([lone_attempt 8, lone_attempt 7] ! n) = lone_file"
    "at_stat ([lone_attempt 8, lone_attempt 7] ! n) = Stat ([8, 7] ! n)" if "n < 2" for n :: nat
    using that by (auto simp: less_2_cases_iff lone_attempt_def)
  define env where "env = [lone_attempt 8, lone_attempt 7]"
  have len: "length env = 2" by (simp add: env_def)
  from rewrite_commits_loaded [OF r [folded env_def]] obtain n l' where n: "n < 2"
    "\<forall>i<n. outrun (take_entry_change (lit ''b'')) (env ! i)"
    "load_meta (at_open (env ! n)) = Some l'" "same_identity (l_id l') (at_stat (env ! n))"
    unfolding len by auto
  with at [OF n(1), folded env_def] r show ?thesis unfolding env_def by auto
qed

section \<open>The arena only decides whether parsing succeeds\<close>

definition same_parse :: "pstate \<Rightarrow> pstate \<Rightarrow> bool" where
  "same_parse ps ps' \<longleftrightarrow> ps' = ps\<lparr>p_arena := p_arena ps'\<rparr>"

lemma same_parse_iff:
  "same_parse ps ps' \<longleftrightarrow> p_file ps' = p_file ps \<and> p_cur ps' = p_cur ps \<and> p_reports ps' = p_reports ps"
  by (cases ps, cases ps') (auto simp: same_parse_def)

lemma add_entry_file:
  "add_entry f a = Some (f1, a1) \<Longrightarrow> add_entry f b = Some (f2, b1) \<Longrightarrow> f2 = f1"
  by (auto simp: add_entry_def Let_def split: if_splits option.splits)

lemma same_parse_file_key:
  "same_parse ps ps' \<Longrightarrow> parse_file_key n val ps = PGo r \<Longrightarrow> parse_file_key n val ps' = PGo r' \<Longrightarrow> same_parse r r'"
  by (auto simp: parse_file_key_def same_parse_iff rep_def Let_def dest: add_entry_file
      split: option.splits if_splits prod.splits)

lemma same_parse_key:
  assumes "same_parse ps ps'" "parse_key n key val l i ps = PGo r" "parse_key n key val l i ps' = PGo r'"
  shows "same_parse r r'"
proof -
  consider "key = lit ''prot''" | "key = lit ''comment''" | "key = lit ''uid''" | "key = lit ''gid''"
    | "key \<notin> {lit ''prot'', lit ''comment'', lit ''uid'', lit ''gid''}" by blast
  then show ?thesis
  proof cases
    case 1
    with assms show ?thesis
      by (auto simp: parse_key_def Let_def same_parse_iff rep_def split: sum.splits)
  next
    case 2
    with assms show ?thesis
      by (auto simp: parse_key_def Let_def same_parse_iff rep_def split: option.splits prod.splits)
  next
    case 5
    with assms show ?thesis
      by (auto simp: parse_key_def Let_def same_parse_iff add_unknown_def arena_copy_def
          split: option.splits)
  qed (use assms in \<open>auto simp: parse_key_def Let_def same_parse_iff rep_def split: option.splits\<close>)
qed

lemma same_parse_line:
  assumes "same_parse ps ps'" "parse_line n l ps = PGo r" "parse_line n l ps' = PGo r'"
  shows "same_parse r r'"
proof (cases "length l > AMETA_MAX_LINE \<or> \<not> valid_utf8 l")
  case True
  with assms show ?thesis
    by (auto simp: parse_line_def same_parse_iff rep_def split: if_splits)
next
  case False
  let ?key = "takeWhile (\<lambda>c. c \<noteq> BLANK) l"
  show ?thesis
  proof (cases "?key = lit ''file''")
    case True
    with assms False show ?thesis
      by (intro same_parse_file_key [OF assms(1)]) (auto simp: parse_line_def Let_def)
  next
    case nf: False
    have c: "p_cur ps' = p_cur ps" using assms(1) by (simp add: same_parse_iff)
    show ?thesis
    proof (cases "p_cur ps")
      case None
      with assms False nf c show ?thesis
        by (auto simp: parse_line_def Let_def same_parse_iff rep_def)
    next
      case (Some i)
      with assms False nf c show ?thesis
        by (intro same_parse_key [OF assms(1)]) (auto simp: parse_line_def Let_def)
    qed
  qed
qed

lemma parse_lines_step:
  "buf \<noteq> [] \<Longrightarrow> n \<noteq> 0 \<Longrightarrow> parse_lines buf n ps =
     (case parse_line (n + 1) (strip_cr (takeWhile (\<lambda>c. c \<noteq> NL) buf)) ps of
        PGo ps' \<Rightarrow> parse_lines (drop (length (takeWhile (\<lambda>c. c \<noteq> NL) buf) + 1) buf) (n + 1) ps'
      | PNomem ps' \<Rightarrow> AMETA_NOMEM ps')"
  by (subst parse_lines.simps) (simp add: Let_def cong: pres.case_cong)

lemma same_parse_lines:
  "same_parse ps ps' \<Longrightarrow> parse_lines buf n ps = AMETA_OK r \<Longrightarrow>
     (\<exists>r'. parse_lines buf n ps' = AMETA_OK r' \<and> same_parse r r') \<or> (\<exists>r'. parse_lines buf n ps' = AMETA_NOMEM r')"
proof (induction "length buf" arbitrary: buf n ps ps' rule: less_induct)
  case less
  let ?line = "strip_cr (takeWhile (\<lambda>c. c \<noteq> NL) buf)"
  let ?rest = "drop (length (takeWhile (\<lambda>c. c \<noteq> NL) buf) + 1) buf"
  show ?case
  proof (cases "buf = []")
    case True
    with less.prems show ?thesis by (auto simp: parse_lines.simps [of "[]"] split: if_splits)
  next
    case nb: False
    then have shorter: "length ?rest < length buf" by (cases buf) auto
    show ?thesis
    proof (cases "n = 0")
      case True
      then have h: "?line = lit ''ameta 1''" "parse_lines ?rest (n + 1) ps = AMETA_OK r"
        using less.prems(2) nb by (subst (asm) parse_lines.simps, simp add: Let_def split: if_splits)+
      have "parse_lines buf n ps' = parse_lines ?rest (n + 1) ps'"
        using nb True h(1) by (subst parse_lines.simps) (simp add: Let_def)
      then show ?thesis
        using less.hyps [OF shorter less.prems(1) h(2)] by simp
    next
      case pos: False
      from less.prems(2) nb pos obtain q where q: "parse_line (n + 1) ?line ps = PGo q"
        "parse_lines ?rest (n + 1) q = AMETA_OK r"
        by (auto simp: parse_lines_step [OF nb pos] split: pres.splits)
      show ?thesis
      proof (cases "parse_line (n + 1) ?line ps'")
        case (PGo q')
        have "same_parse q q'" by (rule same_parse_line [OF less.prems(1) q(1) PGo])
        then show ?thesis
          using less.hyps [OF shorter _ q(2)] PGo nb pos
          by (simp add: parse_lines_step [OF nb pos])
      next
        case (PNomem q')
        then show ?thesis
          by (simp add: parse_lines_step [OF nb pos])
      qed
    qed
  qed
qed

text \<open>With another arena the parser gives the same entries and reports or runs out of memory.\<close>

lemma ameta_parse_arena:
  assumes "ameta_parse buf a = AMETA_OK ps"
  shows "(\<exists>ps'. ameta_parse buf b = AMETA_OK ps' \<and> p_file ps' = p_file ps \<and> p_reports ps' = p_reports ps) \<or>
    (\<exists>ps'. ameta_parse buf b = AMETA_NOMEM ps')"
proof (cases "buf = []")
  case False
  let ?ps = "\<lambda>a. \<lparr>p_file = \<lparr>entries = [], fcap = 0\<rparr>, p_arena = a, p_cur = None, p_reports = []\<rparr>"
  have "same_parse (?ps a) (?ps b)" by (simp add: same_parse_iff)
  from same_parse_lines [OF this, of buf 0 ps] assms False show ?thesis
    by (auto simp: ameta_parse_def Let_def same_parse_iff split: if_splits)
qed (use assms in \<open>auto simp: ameta_parse_def\<close>)


section \<open>The arena of a crowded directory\<close>

text \<open>The entry arrays of all sizes stay in the arena: 8, 16, up to the present one.\<close>

definition grown :: "u64 \<Rightarrow> pstate \<Rightarrow> bool" where
  "grown C ps \<longleftrightarrow> acap (p_arena ps) = C \<and> unat C < 2 ^ 63 \<and> used (p_arena ps) \<le> C \<and>
     length (entries (p_file ps)) \<le> fcap (p_file ps) \<and>
     (fcap (p_file ps) = 0 \<or> (\<exists>k. fcap (p_file ps) = 8 * 2 ^ k)) \<and>
     160 * fcap (p_file ps) \<le> unat (used (p_arena ps)) + 640"

lemma arena_take_grows:
  assumes "arena_take a n = Some a'" "unat (acap a) < 2 ^ 63" "used a \<le> acap a"
  shows "acap a' = acap a" "used a' \<le> acap a" "unat (used a) \<le> unat (used a')"
    and "n < 2 ^ 64 \<Longrightarrow> unat (used a) + n \<le> unat (used a')"
proof -
  let ?s = "(used a + 7) AND NOT 7"
  let ?n = "of_nat n :: u64"
  have le: "unat (used a) \<le> unat (acap a)" using assms(3) by (simp add: word_le_nat_alt)
  have u: "unat (used a + 7) = unat (used a) + 7"
    using assms(2) le by (simp add: unat_word_ariths)
  have "unat ?s = (unat (used a) + 7) div 8 * 8"
    using unat_and_not_mask [of "used a + 7" 3] u by (simp add: mask_eq_exp_minus_1)
  then have s: "unat (used a) \<le> unat ?s" by linarith
  have a': "a' = a\<lparr>used := ?s + ?n\<rparr>" "\<not> ?s > acap a" "\<not> ?n > acap a - ?s"
    using assms(1) by (auto simp: arena_take_def arena_alloc_def Let_def split: if_splits)
  have c: "unat ?s \<le> unat (acap a)" using a'(2) by (simp add: word_less_nat_alt)
  have "unat (acap a - ?s) = unat (acap a) - unat ?s"
    using a'(2) by (intro unat_sub) simp
  then have n: "unat ?s + unat ?n \<le> unat (acap a)" using a'(3) c by (simp add: word_less_nat_alt)
  then have sum: "unat (?s + ?n) = unat ?s + unat ?n"
    using assms(2) by (simp add: unat_word_ariths)
  show "acap a' = acap a" using a'(1) by simp
  show "used a' \<le> acap a" using a'(1) sum n by (simp add: word_le_nat_alt)
  show "unat (used a) \<le> unat (used a')" using a'(1) sum s by simp
  show "n < 2 ^ 64 \<Longrightarrow> unat (used a) + n \<le> unat (used a')"
    using a'(1) sum s by (simp add: unat_of_nat)
qed

lemma grown_take:
  "grown C ps \<Longrightarrow> arena_take (p_arena ps) n = Some a \<Longrightarrow> grown C (ps\<lparr>p_arena := a\<rparr>)"
  using arena_take_grows [of "p_arena ps" n a] by (auto simp: grown_def)

lemma grown_add:
  assumes "grown C ps" "add_entry (p_file ps) (p_arena ps) = Some (f, a)"
  shows "grown C (ps\<lparr>p_file := f, p_arena := a\<rparr>)" "entries f = entries (p_file ps) @ [zero_entry]"
proof -
  let ?f = "p_file ps" and ?a = "p_arena ps"
  have l: "length (entries ?f) \<le> fcap ?f" using assms(1) by (simp add: grown_def)
  show e: "entries f = entries ?f @ [zero_entry]"
    using add_entry_ok [OF assms(2) l] by simp
  show "grown C (ps\<lparr>p_file := f, p_arena := a\<rparr>)"
  proof (cases "length (entries ?f) = fcap ?f")
    case False
    with assms show ?thesis by (auto simp: add_entry_def grown_def)
  next
    case full: True
    let ?c = "if fcap ?f \<noteq> 0 then fcap ?f * 2 else 8"
    from assms(2) full have t: "arena_take ?a (?c * sizeof_entry) = Some a" "fcap f = ?c"
      by (auto simp: add_entry_def Let_def split: option.splits if_splits)
    have g: "unat (acap ?a) < 2 ^ 63" "used ?a \<le> acap ?a" "160 * fcap ?f \<le> unat (used ?a) + 640"
      using assms(1) by (auto simp: grown_def)
    have "unat (used ?a) \<le> unat (acap ?a)" using g(2) by (simp add: word_le_nat_alt)
    then have "?c * sizeof_entry < 2 ^ 64" using g(1,3) by (auto simp: sizeof_entry_def)
    note u = arena_take_grows [OF t(1) g(1,2)] arena_take_grows(4) [OF t(1) g(1,2) this]
    have p: "\<exists>k. ?c = 8 * 2 ^ k"
    proof (cases "fcap ?f = 0")
      case False
      then obtain k where "fcap ?f = 8 * 2 ^ k" using assms(1) by (auto simp: grown_def)
      then show ?thesis by (intro exI [of _ "Suc k"]) simp
    qed (intro exI [of _ 0], simp)
    show ?thesis
      using assms(1) u p t(2) e full by (auto simp: grown_def sizeof_entry_def)
  qed
qed

lemma grown_put: "grown C ps \<Longrightarrow> grown C (ps\<lparr>p_file := set_entry i e (p_file ps)\<rparr>)"
  by (simp add: grown_def set_entry_def)

lemma grown_rep: "grown C ps \<Longrightarrow> grown C (rep n why ps)"
  by (simp add: grown_def rep_def)

lemma grown_cur: "grown C ps \<Longrightarrow> grown C (ps\<lparr>p_cur := c\<rparr>)"
  by (simp add: grown_def)

lemma grown_file_key:
  assumes "grown C ps" "parse_file_key n val ps = PGo ps'"
  shows "grown C ps'"
proof -
  from assms(2) obtain a where a: "arena_take (p_arena ps) (if length val \<noteq> 0 then length val else 1) = Some a"
    by (auto simp: parse_file_key_def split: option.splits)
  note g = grown_take [OF assms(1) a]
  show ?thesis
  proof (cases "ameta_unescape val (length val)")
    case None
    with assms(2) a g show ?thesis by (auto simp: parse_file_key_def grown_def rep_def)
  next
    case u: (Some p)
    obtain nm k where p: "p = (nm, k)" by force
    show ?thesis
    proof (cases "bad_name nm \<or> ameta_find (p_file ps) nm \<noteq> None")
      case True
      with assms(2) a g u p show ?thesis
        by (auto simp: parse_file_key_def grown_def rep_def set_entry_def Let_def split: if_splits option.splits)
    next
      case False
      with assms(2) a u p obtain f' a' where f: "add_entry (p_file ps) a = Some (f', a')"
        "ps' = ps\<lparr>p_arena := a', p_cur := Some (length (entries f') - 1),
           p_file := set_entry (length (entries f') - 1) (zero_entry\<lparr>ename := nm\<rparr>) f'\<rparr>"
        by (auto simp: parse_file_key_def Let_def split: option.splits)
      have "grown C (ps\<lparr>p_arena := a\<rparr>\<lparr>p_file := f', p_arena := a'\<rparr>)"
        by (rule grown_add(1) [OF g]) (use f(1) in simp)
      then show ?thesis using f(2) by (auto simp: grown_def set_entry_def)
    qed
  qed
qed

lemma grown_key:
  assumes "grown C ps" "parse_key n key val l i ps = PGo ps'"
  shows "grown C ps'"
proof -
  note intros = assms(1) grown_put grown_rep
  consider "key = lit ''prot''" | "key = lit ''comment''" | "key = lit ''uid''" | "key = lit ''gid''"
    | "key \<notin> {lit ''prot'', lit ''comment'', lit ''uid'', lit ''gid''}" by blast
  then show ?thesis
  proof cases
    case 1
    with assms(2) intros show ?thesis by (auto simp: parse_key_def Let_def split: sum.splits)
  next
    case 2
    with assms(2) obtain a where a: "arena_take (p_arena ps) (if length val \<noteq> 0 then length val else 1) = Some a"
      by (auto simp: parse_key_def Let_def split: option.splits)
    note g = grown_take [OF assms(1) a]
    from 2 a assms(2) g grown_put [OF g] show ?thesis
      by (auto simp: parse_key_def Let_def grown_rep split: option.splits prod.splits)
  next
    case 5
    with assms(2) obtain e a where e: "add_unknown (entries (p_file ps) ! i) (p_arena ps) l = Some (e, a)"
      "ps' = ps\<lparr>p_file := set_entry i e (p_file ps), p_arena := a\<rparr>"
      by (auto simp: parse_key_def Let_def split: option.splits)
    from e(1) obtain a1 n1 n2 where t: "arena_take (p_arena ps) n1 = Some a1" "arena_take a1 n2 = Some a"
      by (auto simp: add_unknown_def arena_copy_def split: option.splits)
    have "grown C (ps\<lparr>p_arena := a1\<rparr>\<lparr>p_arena := a\<rparr>)"
      by (rule grown_take [OF grown_take [OF assms(1) t(1)]]) (use t(2) in simp)
    then show ?thesis using e(2) by (simp add: grown_def set_entry_def)
  qed (use assms(2) intros in \<open>auto simp: parse_key_def Let_def split: option.splits\<close>)
qed

lemma grown_line:
  assumes "grown C ps" "parse_line n l ps = PGo ps'"
  shows "grown C ps'"
proof (cases "length l > AMETA_MAX_LINE \<or> \<not> valid_utf8 l")
  case True
  with assms grown_rep show ?thesis by (auto simp: parse_line_def split: if_splits)
next
  case False
  show ?thesis
  proof (cases "takeWhile (\<lambda>c. c \<noteq> BLANK) l = lit ''file''")
    case True
    with assms(2) False show ?thesis
      by (intro grown_file_key [OF assms(1)]) (simp add: parse_line_def Let_def)
  next
    case nf: False
    show ?thesis
    proof (cases "p_cur ps")
      case None
      with assms False nf grown_rep show ?thesis by (auto simp: parse_line_def Let_def)
    next
      case (Some i)
      with assms(2) False nf show ?thesis
        by (intro grown_key [OF assms(1)]) (simp add: parse_line_def Let_def)
    qed
  qed
qed

lemma grown_lines: "grown C ps \<Longrightarrow> parse_lines buf n ps = AMETA_OK r \<Longrightarrow> grown C r"
proof (induction "length buf" arbitrary: buf n ps rule: less_induct)
  case less
  let ?line = "strip_cr (takeWhile (\<lambda>c. c \<noteq> NL) buf)"
  let ?rest = "drop (length (takeWhile (\<lambda>c. c \<noteq> NL) buf) + 1) buf"
  show ?case
  proof (cases "buf = []")
    case True
    with less.prems show ?thesis by (auto simp: parse_lines.simps [of "[]"] split: if_splits)
  next
    case nb: False
    then have shorter: "length ?rest < length buf" by (cases buf) auto
    show ?thesis
    proof (cases "n = 0")
      case True
      then have "parse_lines ?rest (n + 1) ps = AMETA_OK r"
        using less.prems(2) nb by (subst (asm) parse_lines.simps) (simp add: Let_def split: if_splits)
      then show ?thesis using less.hyps [OF shorter less.prems(1)] by simp
    next
      case pos: False
      with less.prems(2) nb obtain q where "parse_line (n + 1) ?line ps = PGo q"
        "parse_lines ?rest (n + 1) q = AMETA_OK r"
        by (auto simp: parse_lines_step split: pres.splits)
      then show ?thesis using less.hyps [OF shorter] grown_line [OF less.prems(1)] by blast
    qed
  qed
qed

lemma parse_uses:
  assumes "ameta_parse buf a = AMETA_OK ps" "unat (acap a) < 2 ^ 63" "used a = 0" "512 < length (entries (p_file ps))"
  shows "163200 \<le> unat (acap a)"
proof -
  let ?ps = "\<lparr>p_file = \<lparr>entries = [], fcap = 0\<rparr>, p_arena = a, p_cur = None, p_reports = []\<rparr>"
  have "grown (acap a) ?ps" using assms(2,3) by (simp add: grown_def)
  moreover have "parse_lines buf 0 ?ps = AMETA_OK ps"
    using assms(1,4) by (auto simp: ameta_parse_def Let_def split: if_splits)
  ultimately have g: "grown (acap a) ps" by (rule grown_lines)
  then obtain k where k: "fcap (p_file ps) = 8 * 2 ^ k" "512 < 8 * (2 :: nat) ^ k"
    using assms(4) by (auto simp: grown_def)
  have "6 < k"
  proof (rule ccontr)
    assume "\<not> 6 < k"
    then have "(2 :: nat) ^ k \<le> 2 ^ 6" by (intro power_increasing) auto
    with k(2) show False by simp
  qed
  then have "(2 :: nat) ^ 7 \<le> 2 ^ k" by (intro power_increasing) auto
  with k(1) g show ?thesis by (auto simp: grown_def word_le_nat_alt)
qed


text \<open>The arena of \<open>load\<close>, four times the file and 64 KiB, is too small for a directory with
  more than 512 recorded entries in a file of less than 24416 bytes, however well-formed: the
  file counts as unusable, so nothing in it is ever found again and no change to it is ever
  written.\<close>

theorem crowded_directory_unusable:
  assumes "ameta_parse buf a = AMETA_OK ps" "512 < length (entries (p_file ps))" "length buf < 24416"
    and "at_open x = Opened i buf"
  shows "fst (hv_meta_read (at_open x) path) \<le> 0 \<and> rewrite_meta ch (x # xs) = RwDone (- 1) Untouched"
proof -
  have b: "read_buf buf = buf" using assms(3) by (simp add: read_buf_def AMETA_MAX_FILE_def)
  have c: "unat (acap (meta_arena buf)) = length buf * 4 + 65536"
    using assms(3) unat_of_nat [where ?'a = 64, of "length buf * 4 + 65536"]
    by (simp add: meta_arena_def del: of_nat_add of_nat_mult)
  have "\<nexists>ps'. ameta_parse buf (meta_arena buf) = AMETA_OK ps' \<and> p_file ps' = p_file ps"
    using parse_uses [of buf "meta_arena buf"] assms(2,3) c by (fastforce simp: meta_arena_def)
  then obtain ps' where "ameta_parse buf (meta_arena buf) = AMETA_NOMEM ps'"
    using ameta_parse_arena [OF assms(1), of "meta_arena buf"] by blast
  then have "\<exists>l. load_meta (at_open x) = Some l \<and> \<not> l_usable l"
    using assms(4) b by (simp add: load_meta_def Let_def)
  then show ?thesis
    by (auto simp: hv_meta_read_def rewrite_meta_def WRITE_ATTEMPTS_def Let_def split: option.split prod.split)
qed

text \<open>A directory of 513 files with two-letter names and the owner 0.\<close>

definition crowd_entry :: "nat \<Rightarrow> ameta_entry" where
  "crowd_entry i = zero_entry\<lparr>ename := [0x61 + of_nat (i div 26), 0x61 + of_nat (i mod 26)], has_uid := True\<rparr>"

definition crowd :: "ameta_entry list" where
  "crowd = map crowd_entry [0..<513]"

lemma crowd_entry_sel:
  "ename (crowd_entry i) = [0x61 + of_nat (i div 26), 0x61 + of_nat (i mod 26)]" "has_uid (crowd_entry i)"
  by (simp_all add: crowd_entry_def)

lemma in_crowd: "x \<in> set crowd \<Longrightarrow> \<exists>i<513. x = crowd_entry i"
  by (simp only: crowd_def set_map atLeast_upt [symmetric]) blast

lemma length_crowd: "length crowd = 513" by (simp only: crowd_def length_map length_upt)

lemma letter: "k < 26 \<Longrightarrow> unat (0x61 + of_nat k :: u8) = 97 + k"
  by (simp add: unat_word_ariths unat_of_nat)

lemma letter_plain: "k < 26 \<Longrightarrow> \<not> escaped_byte (0x61 + of_nat k)"
  "k < 26 \<Longrightarrow> (0x61 + of_nat k :: u8) \<noteq> SLASH \<and> (0x61 + of_nat k :: u8) \<noteq> DOT"
  using letter [of k] by (auto simp: escaped_byte_def word_le_nat_alt word_unat_eq_iff simp del: unat_add_lem)

lemma crowd_facts:
  "\<forall>e\<in>set crowd. writable e" "distinct (map ename crowd)" "kept crowd = crowd"
  "length (unlines (file_lines crowd)) = 7190" "sum_list (map entry_cost crowd) = 179037"
proof -
  have l: "i < 513 \<Longrightarrow> i div 26 < 26 \<and> i mod 26 < 26" for i :: nat by auto
  have e: "i < 513 \<Longrightarrow> esc [0x61 + of_nat (i div 26), 0x61 + of_nat (i mod 26)] =
      [0x61 + of_nat (i div 26), 0x61 + of_nat (i mod 26)]" for i :: nat
    using letter_plain(1) l [of i] by (simp add: esc1_def)
  show "\<forall>e\<in>set crowd. writable e"
    using letter_plain(2) l e
    by (auto dest!: in_crowd simp: crowd_entry_def writable_def bad_name_def AMETA_MAX_LINE_def zero_entry_def)
  have "inj_on (\<lambda>i::nat. [0x61 + of_nat (i div 26) :: u8, 0x61 + of_nat (i mod 26)]) {..<513}"
  proof (rule inj_onI)
    fix i j :: nat
    assume ij: "i \<in> {..<513}" "j \<in> {..<513}"
      "[0x61 + of_nat (i div 26) :: u8, 0x61 + of_nat (i mod 26)] = [0x61 + of_nat (j div 26), 0x61 + of_nat (j mod 26)]"
    then have "unat (0x61 + of_nat (i div 26) :: u8) = unat (0x61 + of_nat (j div 26) :: u8)"
      "unat (0x61 + of_nat (i mod 26) :: u8) = unat (0x61 + of_nat (j mod 26) :: u8)"
      by auto
    moreover have "i < 513" "j < 513" using ij(1,2) by auto
    ultimately have "97 + i div 26 = 97 + j div 26" "97 + i mod 26 = 97 + j mod 26"
      by (simp_all only: letter l)
    then have "i div 26 = j div 26 \<and> i mod 26 = j mod 26" by (simp only: add_left_cancel)
    then show "i = j" by (metis div_mult_mod_eq)
  qed
  then show "distinct (map ename crowd)"
    by (simp only: crowd_def distinct_map map_map comp_def atLeast_upt distinct_upt crowd_entry_sel simp_thms)
  show k: "kept crowd = crowd"
    by (auto simp: kept_def filter_id_conv ameta_entry_is_default_def crowd_entry_sel dest!: in_crowd)
  have "length (unlines (entry_lines x)) = 14" if "x \<in> set crowd" for x
    using that e by (auto dest!: in_crowd simp: crowd_entry_def entry_lines_def zero_entry_def recorded_prot_def dec_digits.simps [of 0])
  then have "length (unlines (concat (map entry_lines xs))) = 14 * length xs" if "set xs \<subseteq> set crowd" for xs
    using that by (induction xs) auto
  from this [of crowd] show "length (unlines (file_lines crowd)) = 7190"
    by (simp add: file_lines_def k lit_def length_crowd)
  have "entry_cost x = 349" if "x \<in> set crowd" for x
    using that e by (auto dest!: in_crowd simp: crowd_entry_def entry_cost_def zero_entry_def)
  then have "sum_list (map entry_cost xs) = 349 * length xs" if "set xs \<subseteq> set crowd" for xs
    using that by (induction xs) auto
  from this [of crowd] show "sum_list (map entry_cost crowd) = 179037" by (simp add: length_crowd)
qed

theorem crowded_directory_unusable_witness:
  "\<exists>buf. length buf = 7190 \<and>
    rewrite_meta (delete_entry_change (lit ''aa''))
      [\<lparr>at_open = Opened (0::nat) buf, at_present = (\<lambda>_. True), at_written = True, at_stat = Stat 0,
        at_rename = True, at_unlink = True\<rparr>] = RwDone (- 1) Untouched"
proof -
  let ?t = "unlines (file_lines crowd)"
  have "crowd \<noteq> []" using length_crowd by auto
  obtain ps where ps: "ameta_parse ?t \<lparr>acap = 0x100000, used = 0\<rparr> = AMETA_OK ps"
    "entries (p_file ps) = map recorded (kept crowd)"
    using parse_file_lines [of crowd "\<lparr>acap = 0x100000, used = 0\<rparr>"] crowd_facts
    length_crowd \<open>crowd \<noteq> []\<close> by (auto simp: AMETA_MAX_FILE_def)
  have "512 < length (entries (p_file ps))" by (simp add: ps(2) crowd_facts(3) length_crowd)
  from crowded_directory_unusable [OF ps(1) this _ attempt.select_convs(1),
      where ch = "delete_entry_change (lit ''aa'')" and xs = "[]", of "0 :: nat"] crowd_facts(4)
  show ?thesis by (intro exI [of _ ?t]) simp
qed

end
