(* ===== verification/HvMetaRound.thy ===== *)
theory HvMetaRound
  imports HvMetaProps
begin

text \<open>
  What \<open>hv_meta_write\<close> has written, \<open>hv_meta_read\<close> finds: the change, the pruning, the canonical
  file and the parser together.
\<close>

section \<open>A canonical file that counts as usable\<close>

text \<open>The room the parser needs is bounded by the square of the length of the lines.\<close>

lemma unknown_cost_bound:
  "unknown_cost k ts \<le> (16 * (k + length ts) + 15) * length ts + length (unlines ts)"
proof (induction ts arbitrary: k)
  case (Cons t ts)
  have "16 * (k + 1) + 15 \<le> 16 * (k + (1 + length ts)) + 15" by simp
  with Cons [of "k + 1"] show ?case
    by (simp add: line_cost_def algebra_simps)
qed simp

lemma entry_cost_bound:
  "entry_cost e \<le> 400 * (length (unlines (entry_lines e)))\<^sup>2"
proof -
  let ?L = "length (unlines (entry_lines e))" and ?u = "length (unlines (unknown e))"
  have l: "6 + length (esc (ename e)) + length (esc (comment e)) + ?u \<le> ?L"
    by (simp add: entry_lines_def opt_line_def)
  have "length ts \<le> length (unlines ts)" for ts :: "bytes list" by (induction ts) auto
  then have "length (unknown e) \<le> ?u" .
  then have "unknown_cost 0 (unknown e) \<le> (16 * ?u + 15) * ?u + ?u"
    using unknown_cost_bound [of 0 "unknown e"] mult_le_mono [of "16 * length (unknown e) + 15" "16 * ?u + 15" "length (unknown e)" ?u]
    by simp
  also have "\<dots> \<le> (16 * ?L + 16) * ?L"
    using l mult_le_mono [of "16 * ?u + 16" "16 * ?L + 16" ?u ?L] by (simp add: algebra_simps)
  finally have "entry_cost e \<le> 347 + ?L + (16 * ?L + 16) * ?L" using l by (simp add: entry_cost_def)
  also have "\<dots> \<le> 400 * ?L * ?L"
  proof -
    have "6 \<le> ?L" using l by simp
    then have "6 * ?L \<le> ?L * ?L" "347 \<le> 60 * ?L" by (auto intro: mult_le_mono1)
    then have "347 + ?L + (16 * (?L * ?L) + 16 * ?L) \<le> 400 * (?L * ?L)" by linarith
    then show ?thesis by (simp only: add_mult_distrib mult.assoc)
  qed
  finally show ?thesis by (simp add: power2_eq_square)
qed

lemma costs_bound: "sum_list (map entry_cost es) \<le> 400 * (length (unlines (concat (map entry_lines es))))\<^sup>2"
proof (induction es)
  case (Cons e es)
  let ?a = "length (unlines (entry_lines e))" and ?b = "length (unlines (concat (map entry_lines es)))"
  have "sum_list (map entry_cost (e # es)) \<le> 400 * ?a\<^sup>2 + 400 * ?b\<^sup>2"
    using Cons entry_cost_bound [of e] by simp
  also have "\<dots> \<le> 400 * (?a + ?b)\<^sup>2" by (simp add: power2_sum)
  finally show ?case by simp
qed simp

text \<open>If it loads at all, it loads as what it records.\<close>

lemma load_canonical:
  assumes "\<forall>e\<in>set es. writable e" "distinct (map ename es)" "kept es \<noteq> []"
    and "load_meta (Opened i (unlines (file_lines es))) = Some l" "l_usable l"
  shows "entries (l_file l) = map recorded (kept es)"
proof -
  let ?t = "unlines (file_lines es)" and ?big = "\<lparr>acap = 2 ^ 60, used = 0\<rparr> :: ameta_arena"
  obtain ps where ps: "ameta_parse (read_buf ?t) (meta_arena (read_buf ?t)) = AMETA_OK ps" "l_file l = p_file ps"
    using assms(4,5) by (auto simp: load_meta_def Let_def parsed_file_def split: parse_res.splits)
  have len: "length ?t \<le> AMETA_MAX_FILE"
  proof (rule ccontr)
    assume "\<not> ?thesis"
    then have "length (read_buf ?t) > AMETA_MAX_FILE" "read_buf ?t \<noteq> []"
      by (auto simp: read_buf_def AMETA_MAX_FILE_def)
    with ps(1) show False by (simp add: ameta_parse_def Let_def)
  qed
  then have rb: "read_buf ?t = ?t" by (simp add: read_buf_def AMETA_MAX_FILE_def)
  have "length (unlines (concat (map entry_lines (kept es)))) \<le> 2 ^ 20"
    using len by (simp add: file_lines_def AMETA_MAX_FILE_def)
  then have "400 * (length (unlines (concat (map entry_lines (kept es)))))\<^sup>2 \<le> 400 * (2 ^ 20)\<^sup>2"
    by (intro mult_le_mono2 power_mono) auto
  with costs_bound [of "kept es"] have "sum_list (map entry_cost (kept es)) \<le> 400 * 2 ^ 40"
    by (simp add: power2_eq_square)
  then obtain ps' where ps': "ameta_parse ?t ?big = AMETA_OK ps'" "entries (p_file ps') = map recorded (kept es)"
    using parse_file_lines [OF assms(1-3) len, of ?big] by auto
  then show ?thesis
    using ameta_parse_arena [OF ps'(1), of "meta_arena ?t"] ps rb by auto
qed


section \<open>The changed entry\<close>

lemma length_esc_le: "length (esc s) \<le> 3 * length s"
  by (induction s) (auto simp: esc1_def)

lemma length_enc_le: "length (enc_all (cps s)) \<le> 2 * length s"
proof (induction s rule: cps.induct)
  case (2 c p)
  have b: "(ucast (c :: u8) :: u64) < 0x800"
    using unsigned_less [of c, where ?'a = nat] unat_ucast_8_64 [of c] by (simp add: word_less_nat_alt)
  show ?case
  proof (cases c p rule: next_cp_cases)
    case plain
    then show ?thesis using 2 [OF plain(1) [symmetric]] b by (simp add: enc_def)
  next
    case (escape v)
    have "length (enc v) \<le> 3" by (simp add: enc_def)
    then show ?thesis using 2 [OF escape(2) [symmetric]] escape by simp
  qed
qed simp

lemma enc_empty: "enc_all (cps s) = [] \<longleftrightarrow> s = []"
proof (cases s)
  case (Cons c p)
  obtain v q where "next_cp c p = (v, q)" by force
  then show ?thesis using Cons by (simp add: enc_def)
qed simp

lemma low_bits: "(\<And>n. n < 32 \<Longrightarrow> bit k n) \<Longrightarrow> ucast ((x AND NOT k) OR ucast y :: u64) = (y :: u32)"
  by (intro bit_word_eqI) (simp add: bit_simps)

lemma low_half: "ucast ((x AND NOT 0xFFFFFFFF) OR ucast y :: u64) = (y :: u32)"
proof (rule low_bits)
  fix n :: nat assume "n < 32"
  moreover have "(0xFFFFFFFF :: u64) = mask 32" by (simp add: mask_eq_exp_minus_1)
  ultimately show "bit (0xFFFFFFFF :: u64) n" by (simp only: bit_mask_iff) auto
qed

lemma low_mask: "(x OR ucast y) AND NOT k = (0 :: u64) \<Longrightarrow> (y :: u32) AND NOT (ucast k) = 0"
proof -
  assume "(x OR ucast y) AND NOT k = 0"
  then have n: "\<not> bit ((x OR ucast y) AND NOT k) n" for n by simp
  have h: "bit k n" if "bit y n" "n < 32" for n
    using n [of n] that by (simp add: bit_simps)
  show "y AND NOT (ucast k) = 0" by (rule bit_word_eqI) (use h in \<open>auto simp: bit_simps\<close>)
qed

lemma loaded_ok: "load_meta op = Some l \<Longrightarrow> file_ok (l_file l)"
proof -
  have "parsed_file r = final_state r" for r by (cases r) (simp_all add: parsed_file_def)
  then show "load_meta op = Some l \<Longrightarrow> file_ok (l_file l)"
    using parse_file_ok by (auto simp: load_meta_def Let_def split: opened.splits)
qed

lemma stored_comment:
  assumes "0 \<notin> set s" "length s \<le> HV_COMMENT_MAX"
  shows "c_string (fst (ameta_comment_to_utf8 s out (HV_COMMENT_MAX * 4 + 1))) (HV_COMMENT_MAX * 4 + 1) = enc_all (cps s)"
proof -
  have l: "length (enc_all (cps s)) < HV_COMMENT_MAX * 4 + 1"
    using length_enc_le [of s] assms(2) by (simp add: HV_COMMENT_MAX_def)
  then show ?thesis
    using c_string_overlay [OF enc_nonzero [OF cps_facts(5) [OF assms(1)] cps_facts(1)] l]
    by (simp add: to_utf8_text Let_def)
qed

lemma set_entry_changes:
  assumes "file_ok f0" "\<not> bad_name nm" "set_entry_change nm m f0 a0 = ChOk f a"
    and "0 \<notin> set (m_comment m)" "length (m_comment m) \<le> HV_COMMENT_MAX"
  obtains e0 e where "e0 \<in> insert (zero_entry\<lparr>ename := nm\<rparr>) (set (entries f0))" "ename e0 = nm"
    "e = e0\<lparr>prot := (if has_prot e0 then prot e0 AND NOT 0xFFFFFFFF else 0) OR ucast (m_prot m),
       has_prot := True, comment := enc_all (cps (m_comment m))\<rparr>"
    "file_ok f" "e \<in> set (entries f)"
    "set (entries f) \<subseteq> insert e (insert (zero_entry\<lparr>ename := nm\<rparr>) (set (entries f0)))"
proof -
  obtain i f1 a1 where g: "ameta_get f0 a0 nm = (Some i, f1, a1)"
    using assms(3) by (auto simp: set_entry_change_def split: prod.splits option.splits)
  note gm = ameta_get_map [OF assms(1,2) g]
  let ?e0 = "entries f1 ! i"
  define e where "e = ?e0\<lparr>prot := (if has_prot ?e0 then prot ?e0 AND NOT 0xFFFFFFFF else 0) OR ucast (m_prot m),
       has_prot := True, comment := enc_all (cps (m_comment m))\<rparr>"
  have f: "f = set_entry i e f1"
    using assms(3) g stored_comment [OF assms(4,5)]
    by (auto simp: set_entry_change_def ameta_set_comment_def arena_copy_def Let_def e_def split: option.splits)
  have sub: "set (entries f1) \<subseteq> insert (zero_entry\<lparr>ename := nm\<rparr>) (set (entries f0))"
  proof
    fix x assume "x \<in> set (entries f1)"
    then have "amap f1 (ename x) = Some x" using gm(1) by (intro emap_in) (simp_all add: file_ok_def names_ok_def)
    then show "x \<in> insert (zero_entry\<lparr>ename := nm\<rparr>) (set (entries f0))"
      unfolding gm(2) by (auto dest: emap_name split: option.splits if_splits)
  qed
  show thesis
  proof (rule that)
    show "?e0 \<in> insert (zero_entry\<lparr>ename := nm\<rparr>) (set (entries f0))" using sub gm(3) nth_mem by blast
    show "file_ok f" unfolding f by (rule set_entry_ok) (use gm in \<open>simp_all add: e_def\<close>)
    show "e \<in> set (entries f)" using gm(3) by (simp add: f set_entry_def set_update_memI)
    show "set (entries f) \<subseteq> insert e (insert (zero_entry\<lparr>ename := nm\<rparr>) (set (entries f0)))"
      using sub set_update_subset_insert [of "entries f1" i e] by (auto simp: f set_entry_def)
  qed (use gm e_def in auto)
qed


section \<open>Written and read back\<close>

lemma written_comes_back:
  assumes "hv_meta_write env path m = RwDone rc (Replaced body)"
    and "split_path path PATH_CAP = Some (dir, nm)" "\<not> bad_name nm" "length (esc nm) + 5 \<le> AMETA_MAX_LINE"
    and "0 \<notin> set (m_comment m)" "length (m_comment m) \<le> HV_COMMENT_MAX" "\<not> hv_meta_is_default m"
    and "\<forall>x\<in>set env. at_present x nm \<and> (\<forall>l. load_meta (at_open x) = Some l \<longrightarrow> (\<forall>e\<in>set (entries (l_file l)). writable e))"
    and "load_meta (Opened i body) = Some l'" "l_usable l'"
  shows "\<exists>r. hv_meta_read (Opened i body) path = (1, r) \<and> m_comment r = upper_escapes (m_comment m) \<and>
    length (m_comment r) = length (m_comment m) \<and> (PCT \<notin> set (m_comment m) \<longrightarrow> m_comment r = m_comment m) \<and>
    (m_prot r = m_prot m \<or> m_prot r = 0 \<and> m_prot m AND NOT (ucast AMETA_RECORD_MASK) = 0)"
proof -
  let ?s = "m_comment m"
  have "rewrite_meta (set_entry_change nm m) env = RwDone rc (Replaced body)"
    using assms(1,2) by (simp add: hv_meta_write_def)
  then obtain x l f a where x: "x \<in> set (take 8 env)" "load_meta (at_open x) = Some l"
    "set_entry_change nm m (l_file l) (l_arena l) = ChOk f a"
    "body = rewritten_body (ameta_prune (at_present x) f)" "body \<noteq> []"
    by (rule rewrite_commits) (auto simp: Let_def split: if_splits)
  have xs: "x \<in> set env" using x(1) by (rule in_set_takeD)
  have ok0: "file_ok (l_file l)"
    using x(2) by (rule loaded_ok)
  obtain e0 e where e: "e0 \<in> insert (zero_entry\<lparr>ename := nm\<rparr>) (set (entries (l_file l)))" "ename e0 = nm"
    "e = e0\<lparr>prot := (if has_prot e0 then prot e0 AND NOT 0xFFFFFFFF else 0) OR ucast (m_prot m),
       has_prot := True, comment := enc_all (cps ?s)\<rparr>"
    "file_ok f" "e \<in> set (entries f)"
    "set (entries f) \<subseteq> insert e (insert (zero_entry\<lparr>ename := nm\<rparr>) (set (entries (l_file l))))"
    by (rule set_entry_changes [OF ok0 assms(3) x(3) assms(5,6)])
  have w0: "\<forall>e\<in>insert (zero_entry\<lparr>ename := nm\<rparr>) (set (entries (l_file l))). writable e"
    using assms(3,4,8) xs x(2) by (auto simp: writable_def zero_entry_def AMETA_MAX_LINE_def)
  have "length (esc (enc_all (cps ?s))) + 8 \<le> AMETA_MAX_LINE"
    using length_esc_le [of "enc_all (cps ?s)"] length_enc_le [of ?s] assms(6)
    by (simp add: AMETA_MAX_LINE_def HV_COMMENT_MAX_def)
  then have "writable e" using w0 e(1,3) by (auto simp: writable_def)
  let ?g = "ameta_prune (at_present x) f"
  have g: "entries ?g = filter (\<lambda>e. at_present x (ename e)) (entries f)" by (simp add: ameta_prune_filter)
  then have wg: "\<forall>e\<in>set (entries ?g). writable e" and eg: "e \<in> set (entries ?g)"
    using e w0 \<open>writable e\<close> assms(8) xs by auto
  have dg: "distinct (map ename (entries ?g))"
    using e(4) g by (simp add: file_ok_def names_ok_def distinct_map_filter)
  obtain es where es: "mset es = mset (entries ?g)" "body = unlines (file_lines es)" "kept (entries ?g) \<noteq> []"
    using rewritten_body_text [of ?g] x(4,5) by (auto split: if_splits)
  have d: "distinct (map ename es)" "set es = set (entries ?g)"
    using dg es(1) mset_eq_imp_distinct_iff [of "map ename es" "map ename (entries ?g)"] mset_eq_setD [OF es(1)] by simp_all
  have "kept es \<noteq> []" using d(2) es(3) by (auto simp: kept_def filter_empty_conv)
  then have L: "entries (l_file l') = map recorded (kept es)"
    using load_canonical [of es i l'] wg d assms(9,10) es(2) by simp
  have nd: "\<not> ameta_entry_is_default e"
    using assms(7) e(3) low_mask [of _ "m_prot m" AMETA_RECORD_MASK] low_mask [of 0 "m_prot m" AMETA_RECORD_MASK]
    by (auto simp: ameta_entry_is_default_def hv_meta_is_default_def enc_empty)
  then have "recorded e \<in> set (entries (l_file l'))" using L eg d(2) by (simp add: kept_def)
  moreover have "distinct (map ename (entries (l_file l')))"
    using d(1) by (simp add: L comp_def kept_def distinct_map_filter)
  ultimately have "amap (l_file l') nm = Some (recorded e)"
    using emap_in [of "entries (l_file l')" "recorded e"] e(2,3) by simp
  then obtain j where j: "ameta_find (l_file l') nm = Some j" "entries (l_file l') ! j = recorded e"
    using ameta_find_map [of "l_file l'" nm] by (auto simp: map_option_case split: option.splits)
  have c: "comment (recorded e) = enc_all (cps ?s)" using e(3) by (simp add: recorded_def)
  have lt: "length (lat_all (cps ?s)) < HV_COMMENT_MAX + 1" using assms(6) cps_facts(4) [of ?s] by simp
  have dc: "dec (enc_all (cps ?s)) = cps ?s" using enc_dec [OF cps_facts(1), of ?s "[]"] by simp
  have com: "c_string (ameta_comment_to_latin1 (enc_all (cps ?s)) (\<lambda>_. 0) (HV_COMMENT_MAX + 1)) (HV_COMMENT_MAX + 1)
      = lat_all (cps ?s)"
    using c_string_overlay [OF lat_nonzero [OF cps_facts(5) [OF assms(5)]] lt] lt
    by (simp add: to_latin1_text dc Let_def)
  have r: "hv_meta_read (Opened i body) path =
      (1, \<lparr>m_prot = (if recorded_prot e then ucast (prot e) else 0), m_comment = lat_all (cps ?s)\<rparr>)"
    using assms(2,9,10) j c com by (simp add: hv_meta_read_def Let_def recorded_def)
  have "recorded_prot e \<or> m_prot m AND NOT (ucast AMETA_RECORD_MASK) = 0"
    using e(3) low_mask [of _ "m_prot m" AMETA_RECORD_MASK] low_mask [of 0 "m_prot m" AMETA_RECORD_MASK]
    by (auto simp: recorded_prot_def)
  moreover have "ucast (prot e) = m_prot m"
    using e(3) low_half low_half [of 0 "m_prot m"] by simp
  ultimately show ?thesis
    using r cps_facts(4,6) [of ?s] lat_cps [of ?s] by auto
qed

text \<open>C16: After a write that replaced \<open>.ameta\<close>, a read of the same path finds the metadata. The
  comment is the one written, but that an escape \<open>%uXXXX\<close> of a character beyond Latin-1 has
  its digits in upper case; so it has the same length, and it is the same when it contains
  no \<open>%\<close>. The protection is the one written, or 0 when only bits were given that are not
  recorded. The one exception is stated too: when the written file is not usable, because
  its many entries no longer fit the arena that \<open>load\<close> sets up, the read finds nothing and
  reports defaults. Presupposed are metadata that is not default, a legal name short enough
  for one line, a comment that fits, a host file that \<open>prune\<close> found present in every attempt,
  and that the entries \<open>.ameta\<close> already had fit their lines when they are escaped again.\<close>

theorem write_then_read:
  assumes "hv_meta_write env path m = RwDone rc (Replaced body)"
    and "split_path path PATH_CAP = Some (dir, nm)" "\<not> bad_name nm" "length (esc nm) + 5 \<le> AMETA_MAX_LINE"
    and "0 \<notin> set (m_comment m)" "length (m_comment m) \<le> HV_COMMENT_MAX" "\<not> hv_meta_is_default m"
    and "\<forall>x\<in>set env. at_present x nm \<and> (\<forall>l. load_meta (at_open x) = Some l \<longrightarrow> (\<forall>e\<in>set (entries (l_file l)). writable e))"
  shows "if l_usable (the (load_meta (Opened i body)))
    then \<exists>r. hv_meta_read (Opened i body) path = (1, r) \<and> m_comment r = upper_escapes (m_comment m) \<and>
      length (m_comment r) = length (m_comment m) \<and> (PCT \<notin> set (m_comment m) \<longrightarrow> m_comment r = m_comment m) \<and>
      (m_prot r = m_prot m \<or> m_prot r = 0 \<and> m_prot m AND NOT (ucast AMETA_RECORD_MASK) = 0)
    else hv_meta_read (Opened i body) path = (0, \<lparr>m_prot = 0, m_comment = []\<rparr>)"
proof -
  obtain l' where l': "load_meta (Opened i body) = Some l'" by (simp add: load_meta_def Let_def)
  show ?thesis
  proof (cases "l_usable l'")
    case True
    then show ?thesis using written_comes_back [OF assms l' True] l' by simp
  next
    case False
    then show ?thesis using assms(2) l' by (simp add: hv_meta_read_def Let_def)
  qed
qed

text \<open>The first comment in a directory without \<open>.ameta\<close>.\<close>

definition hi_meta :: hv_meta where "hi_meta = \<lparr>m_prot = 8, m_comment = lit ''hi''\<rparr>"

definition hi_entry :: ameta_entry where
  "hi_entry = zero_entry\<lparr>ename := lit ''a'', has_prot := True, prot := 8, comment := lit ''hi''\<rparr>"

definition first_attempt :: "nat attempt" where
  "first_attempt = \<lparr>at_open = NoFile, at_present = (\<lambda>_. True), at_written = True, at_stat = StatNoEnt,
     at_rename = True, at_unlink = True\<rparr>"

lemma hi_facts:
  "ameta_get \<lparr>entries = [], fcap = 0\<rparr> \<lparr>acap = 65536, used = 0\<rparr> (lit ''a'') =
     (Some 0, \<lparr>entries = [zero_entry\<lparr>ename := lit ''a''\<rparr>], fcap = 8\<rparr>, \<lparr>acap = 65536, used = 648\<rparr>)"
  "arena_copy \<lparr>acap = 65536, used = 648\<rparr> (lit ''hi'') = Some (lit ''hi'', \<lparr>acap = 65536, used = 650\<rparr>)"
  "0 \<notin> set (lit ''hi'')" "length (lit ''hi'') \<le> HV_COMMENT_MAX" "enc_all (cps (lit ''hi'')) = lit ''hi''"
  "\<forall>e\<in>set [hi_entry]. writable e" "kept [hi_entry] = [hi_entry]"
  "length (unlines (file_lines [hi_entry])) = 42" "sum_list (map entry_cost [hi_entry]) = 350"
  "split_path (lit ''d/a'') PATH_CAP = Some (lit ''d'', lit ''a'')" "\<not> bad_name (lit ''a'')"
  "length (esc (lit ''a'')) + 5 \<le> AMETA_MAX_LINE" "\<not> hv_meta_is_default hi_meta"
  by code_simp+

theorem write_then_read_witness:
  "\<exists>body r. hv_meta_write [first_attempt] (lit ''d/a'') hi_meta = RwDone 0 (Replaced body) \<and>
    hv_meta_read (Opened (3 :: nat) body) (lit ''d/a'') = (1, r) \<and> m_comment r = lit ''hi'' \<and> m_prot r = 8"
proof -
  let ?body = "unlines (file_lines [hi_entry])"
  have hi: "m_comment hi_meta = lit ''hi''" "m_prot hi_meta = 8" by (simp_all add: hi_meta_def)
  have f: "set_entry_change (lit ''a'') hi_meta \<lparr>entries = [], fcap = 0\<rparr> (meta_arena []) =
      ChOk \<lparr>entries = [hi_entry], fcap = 8\<rparr> \<lparr>acap = 65536, used = 650\<rparr>"
    using stored_comment [OF hi_facts(3,4)] hi_facts(1,2,5)
    by (simp add: meta_arena_def set_entry_change_def hi ameta_set_comment_def Let_def set_entry_def hi_entry_def zero_entry_def)
  have b: "rewritten_body (ameta_prune (\<lambda>_. True) \<lparr>entries = [hi_entry], fcap = 8\<rparr>) = ?body"
    using rewritten_body_text [of "ameta_prune (\<lambda>_. True) \<lparr>entries = [hi_entry], fcap = 8\<rparr>"] hi_facts(7)
    by (auto simp: ameta_prune_filter)
  have l: "load_meta (at_open first_attempt) = Some \<lparr>l_id = None, l_file = \<lparr>entries = [], fcap = 0\<rparr>,
      l_arena = meta_arena [], l_usable = True\<rparr>"
    by (simp add: first_attempt_def load_meta_def ameta_parse_def parsed_file_def)
  have w: "hv_meta_write [first_attempt] (lit ''d/a'') hi_meta = RwDone 0 (Replaced ?body)"
    using l f b hi_facts(8,10)
    by (auto simp: hv_meta_write_def rewrite_meta_def WRITE_ATTEMPTS_def first_attempt_def Let_def same_identity_def)
  have r: "\<exists>l. load_meta (Opened (3::nat) ?body) = Some l \<and> l_usable l"
    using parse_file_lines [OF hi_facts(6), of "meta_arena ?body"] hi_facts(7-9)
    by (auto simp: load_meta_def Let_def read_buf_def AMETA_MAX_FILE_def meta_arena_def)
  then obtain l' where l': "load_meta (Opened (3::nat) ?body) = Some l'" "l_usable l'" by blast
  have "\<forall>x\<in>set [first_attempt]. at_present x (lit ''a'') \<and>
      (\<forall>l. load_meta (at_open x) = Some l \<longrightarrow> (\<forall>e\<in>set (entries (l_file l)). writable e))"
    using l by (simp add: first_attempt_def)
  from write_then_read [OF w hi_facts(10-12) _ _ hi_facts(13) this, of "3 :: nat"] hi_facts(3,4) l'
  obtain r where "hv_meta_read (Opened (3::nat) ?body) (lit ''d/a'') = (1, r)" "m_comment r = lit ''hi''" "m_prot r = 8"
    by (auto simp: hi lit_def AMETA_RECORD_MASK_def)
  with w show ?thesis by blast
qed

end
