(* ===== verification/HvCharset.thy ===== *)
theory HvCharset
  imports AmetaRewrite
begin

text \<open>
  File names between AROS Latin-1 and host UTF-8 (\<open>hosted/hostvolume/hv_charset.c\<close>): the
  decoder, the two conversions and the fixed-width escape \<open>%uXXXX\<close>, \<open>%UXXXXXX\<close>.

  A C string is the list of its bytes before the NUL, \<open>char_at\<close> reads the NUL at its end; an
  output buffer is a function of the index, with the length that was needed.
\<close>

definition HV_MARK :: u8 where "HV_MARK = 0x25"

section \<open>The decoder\<close>

text \<open>The continuation bytes; \<open>None\<close> is a byte that is none.\<close>

fun u8_more :: "nat \<Rightarrow> bytes \<Rightarrow> nat \<Rightarrow> u32 \<Rightarrow> u32 option" where
  "u8_more 0 s i c = Some c"
| "u8_more (Suc n) s i c =
     (if char_at s i AND 0xC0 \<noteq> 0x80 then None
      else u8_more n s (i + 1) (push_bit 6 c OR ucast (char_at s i AND 0x3F)))"

text \<open>The code point at a byte \<open>c0\<close> followed by \<open>s\<close>, and what is left.\<close>

definition u8_next :: "u8 \<Rightarrow> bytes \<Rightarrow> u32 \<times> bytes" where
  "u8_next c0 s =
     (if c0 < 0x80 then (ucast c0, s)
      else (case (if c0 AND 0xE0 = 0xC0 then Some (1, c0 AND 0x1F, 0x80)
                  else if c0 AND 0xF0 = 0xE0 then Some (2, c0 AND 0x0F, 0x800)
                  else if c0 AND 0xF8 = 0xF0 then Some (3, c0 AND 0x07, 0x10000)
                  else None) of
          None \<Rightarrow> (ucast c0, s)
        | Some (n, c, least) \<Rightarrow> (case u8_more n s 0 (ucast c) of
            None \<Rightarrow> (ucast c0, s)
          | Some c \<Rightarrow> if c < least \<or> c > 0x10FFFF \<or> c \<ge> 0xD800 \<and> c \<le> 0xDFFF then (ucast c0, s)
                      else (c, drop n s))))"

lemma u8_next_shorter: "(c, q) = u8_next c0 s \<Longrightarrow> length q \<le> length s"
  by (auto simp: u8_next_def split: if_splits option.splits)

section \<open>The output\<close>

definition put1 :: "nat \<Rightarrow> u8 \<Rightarrow> obuf \<times> nat \<Rightarrow> obuf \<times> nat" where
  "put1 cap b w = (case w of (dst, need) \<Rightarrow> (if need + 1 < cap then dst(need := b) else dst, need + 1))"

definition put_cp_utf8 :: "nat \<Rightarrow> u32 \<Rightarrow> obuf \<times> nat \<Rightarrow> obuf \<times> nat" where
  "put_cp_utf8 cap c w =
     (if c < 0x80 then put1 cap (ucast c) w
      else if c < 0x800 then
        put1 cap (ucast (0x80 OR (c AND 0x3F))) (put1 cap (ucast (0xC0 OR drop_bit 6 c)) w)
      else if c < 0x10000 then
        put1 cap (ucast (0x80 OR (c AND 0x3F))) (put1 cap (ucast (0x80 OR (drop_bit 6 c AND 0x3F)))
          (put1 cap (ucast (0xE0 OR drop_bit 12 c)) w))
      else
        put1 cap (ucast (0x80 OR (c AND 0x3F))) (put1 cap (ucast (0x80 OR (drop_bit 6 c AND 0x3F)))
          (put1 cap (ucast (0x80 OR (drop_bit 12 c AND 0x3F))) (put1 cap (ucast (0xF0 OR drop_bit 18 c)) w))))"

section \<open>The escape\<close>

definition hv_hexval :: "u8 \<Rightarrow> int" where
  "hv_hexval ch =
     (if ch \<ge> 0x30 \<and> ch \<le> 0x39 then uint ch - 0x30
      else if ch \<ge> 0x41 \<and> ch \<le> 0x46 then uint ch - 0x41 + 10
      else if ch \<ge> 0x61 \<and> ch \<le> 0x66 then uint ch - 0x61 + 10
      else - 1)"

fun read_hex_loop :: "bytes \<Rightarrow> nat \<Rightarrow> nat \<Rightarrow> u32 \<Rightarrow> u32 option" where
  "read_hex_loop s i 0 acc = Some acc"
| "read_hex_loop s i (Suc n) acc =
     (let h = hv_hexval (char_at s i) in
      if h < 0 then None else read_hex_loop s (i + 1) n (push_bit 4 acc OR of_int h))"

definition read_fixed_hex :: "bytes \<Rightarrow> nat \<Rightarrow> nat \<Rightarrow> u32 option" where
  "read_fixed_hex s i ndig = read_hex_loop s i ndig 0"

text \<open>The code point and the bytes consumed.\<close>

definition decode_escape :: "bytes \<Rightarrow> (u32 \<times> nat) option" where
  "decode_escape s =
     (if char_at s 0 \<noteq> HV_MARK then None
      else if char_at s 1 = 0x75 then map_option (\<lambda>v. (v, 6)) (read_fixed_hex s 2 4)
      else if char_at s 1 = 0x55 then
        (case read_fixed_hex s 2 6 of None \<Rightarrow> None | Some v \<Rightarrow> if v > 0x10FFFF then None else Some (v, 8))
      else None)"

lemma decode_escape_consumed: "decode_escape s = Some (cp, n) \<Longrightarrow> n = 6 \<or> n = 8"
  by (auto simp: decode_escape_def split: if_splits option.splits)

text \<open>The loop \<open>for (sh = (nd - 1) * 4; sh >= 0; sh -= 4)\<close> with \<open>sh = 4 * k\<close>.\<close>

fun put_hex_loop :: "nat \<Rightarrow> nat \<Rightarrow> u32 \<Rightarrow> obuf \<times> nat \<Rightarrow> obuf \<times> nat" where
  "put_hex_loop cap 0 c w = w"
| "put_hex_loop cap (Suc k) c w = put_hex_loop cap k c (put1 cap (hexdigit (drop_bit (4 * k) c AND 0xF)) w)"

definition put_escape :: "nat \<Rightarrow> u32 \<Rightarrow> obuf \<times> nat \<Rightarrow> obuf \<times> nat" where
  "put_escape cap c w =
     (let nd = (if c \<le> 0xFFFF then 4 else 6) in
      put_hex_loop cap nd c (put1 cap (if nd = 4 then 0x75 else 0x55) (put1 cap HV_MARK w)))"

section \<open>The conversions\<close>

function latin1_loop :: "nat \<Rightarrow> bytes \<Rightarrow> obuf \<times> nat \<Rightarrow> obuf \<times> nat" where
  "latin1_loop cap [] w = w"
| "latin1_loop cap (c # s) w = (case decode_escape (c # s) of
     Some (cp, consumed) \<Rightarrow> latin1_loop cap (drop consumed (c # s)) (put_cp_utf8 cap cp w)
   | None \<Rightarrow> latin1_loop cap s (put_cp_utf8 cap (ucast c) w))"
  by pat_completeness auto
termination
  by (relation "measure (\<lambda>(cap, s, w). length s)") (auto dest!: decode_escape_consumed)

text \<open>The terminator, below the capacity.\<close>

definition hv_terminate :: "nat \<Rightarrow> obuf \<times> nat \<Rightarrow> obuf \<times> nat" where
  "hv_terminate cap w = (case w of (dst, need) \<Rightarrow>
     (if cap > 0 then dst((if need < cap then need else cap - 1) := 0) else dst, need))"

definition hv_latin1_to_utf8 :: "bytes \<Rightarrow> obuf \<Rightarrow> nat \<Rightarrow> obuf \<times> nat" where
  "hv_latin1_to_utf8 latin1 dst cap = hv_terminate cap (latin1_loop cap latin1 (dst, 0))"

function utf8_loop :: "nat \<Rightarrow> bytes \<Rightarrow> obuf \<times> nat \<Rightarrow> obuf \<times> nat" where
  "utf8_loop cap [] w = w"
| "utf8_loop cap (c0 # s) w = (case u8_next c0 s of (c, s') \<Rightarrow> utf8_loop cap s'
     (if c = ucast HV_MARK then put_escape cap c w
      else if c \<le> 0xFF then put1 cap (ucast c) w
      else put_escape cap c w))"
  by pat_completeness auto
termination
  by (relation "measure (\<lambda>(cap, s, w). length s)") (auto dest!: u8_next_shorter)

definition hv_utf8_to_latin1 :: "bytes \<Rightarrow> obuf \<Rightarrow> nat \<Rightarrow> obuf \<times> nat" where
  "hv_utf8_to_latin1 utf8 dst cap = hv_terminate cap (utf8_loop cap utf8 (dst, 0))"

end
