(* ===== verification/HvCharsetProps.thy ===== *)
theory HvCharsetProps
  imports HvCharset
begin

text \<open>
  The two conversions of file names against their code points: each writes one text, host
  names survive both ways, and the names for which the escape departs from that.
\<close>

section \<open>The texts\<close>

definition scalar :: "u32 \<Rightarrow> bool" where
  "scalar c \<longleftrightarrow> c \<le> 0x10FFFF \<and> \<not> (0xD800 \<le> c \<and> c \<le> 0xDFFF)"

definition utf8_of :: "u32 \<Rightarrow> bytes" where
  "utf8_of c =
     (if c < 0x80 then [ucast c]
      else if c < 0x800 then [ucast (0xC0 OR drop_bit 6 c), ucast (0x80 OR (c AND 0x3F))]
      else if c < 0x10000 then
        [ucast (0xE0 OR drop_bit 12 c), ucast (0x80 OR (drop_bit 6 c AND 0x3F)), ucast (0x80 OR (c AND 0x3F))]
      else [ucast (0xF0 OR drop_bit 18 c), ucast (0x80 OR (drop_bit 12 c AND 0x3F)),
        ucast (0x80 OR (drop_bit 6 c AND 0x3F)), ucast (0x80 OR (c AND 0x3F))])"

definition utf8_text :: "u32 list \<Rightarrow> bytes" where "utf8_text cs = concat (map utf8_of cs)"

function u8_points :: "bytes \<Rightarrow> u32 list" where
  "u8_points [] = []"
| "u8_points (c0 # s) = (case u8_next c0 s of (c, s') \<Rightarrow> c # u8_points s')"
  by pat_completeness auto
termination
  by (relation "measure length") (auto dest!: u8_next_shorter)

function latin1_points :: "bytes \<Rightarrow> u32 list" where
  "latin1_points [] = []"
| "latin1_points (c # s) = (case decode_escape (c # s) of
     Some (cp, n) \<Rightarrow> cp # latin1_points (drop n (c # s))
   | None \<Rightarrow> ucast c # latin1_points s)"
  by pat_completeness auto
termination
  by (relation "measure length") (auto dest!: decode_escape_consumed)

definition hv_hex :: "nat \<Rightarrow> u32 \<Rightarrow> bytes" where
  "hv_hex k c = map (\<lambda>i. hexdigit (drop_bit (4 * i) c AND 0xF)) (rev [0..<k])"

definition escape_of :: "u32 \<Rightarrow> bytes" where
  "escape_of c = (if c \<le> 0xFFFF then HV_MARK # 0x75 # hv_hex 4 c else HV_MARK # 0x55 # hv_hex 6 c)"

definition latin1_of :: "u32 \<Rightarrow> bytes" where
  "latin1_of c = (if c \<noteq> ucast HV_MARK \<and> c \<le> 0xFF then [ucast c] else escape_of c)"

definition latin1_text :: "u32 list \<Rightarrow> bytes" where "latin1_text cs = concat (map latin1_of cs)"

lemma text_simps [simp]:
  "utf8_text [] = []" "utf8_text (c # cs) = utf8_of c @ utf8_text cs"
  "utf8_text (cs @ ds) = utf8_text cs @ utf8_text ds"
  "latin1_text [] = []" "latin1_text (c # cs) = latin1_of c @ latin1_text cs"
  by (simp_all add: utf8_text_def latin1_text_def)

section \<open>What the conversions write\<close>

text \<open>A text in a buffer of \<open>cap\<close> bytes: cut, terminated, and its length returned.\<close>

definition c_out :: "obuf \<Rightarrow> nat \<Rightarrow> bytes \<Rightarrow> obuf \<times> nat" where
  "c_out dst cap t =
     (if cap > 0 then (overlay dst 0 (cap - 1) t)(min (length t) (cap - 1) := 0) else dst, length t)"

lemma put1_at: "put1 cap = put_at 0 (cap - 1)"
  by (auto simp: put1_def put_at_def fun_eq_iff)

lemma terminated: "hv_terminate cap (fold (put1 cap) t (dst, 0)) = c_out dst cap t"
  by (auto simp: hv_terminate_def put1_at fold_put_at c_out_def overlay_none intro!: arg_cong2 [where f = "\<lambda>i f. f(i := 0)"])

lemma put_cp_text: "put_cp_utf8 cap c w = fold (put1 cap) (utf8_of c) w"
  by (simp add: put_cp_utf8_def utf8_of_def)

lemma put_hv_hex: "put_hex_loop cap k c w = fold (put1 cap) (hv_hex k c) w"
  by (induction k arbitrary: w) (simp_all add: hv_hex_def)

lemma put_escape_text: "put_escape cap c w = fold (put1 cap) (escape_of c) w"
  by (simp add: put_escape_def escape_of_def put_hv_hex)

lemma latin1_loop_text: "latin1_loop cap s w = fold (put1 cap) (utf8_text (latin1_points s)) w"
  by (induction cap s w rule: latin1_loop.induct) (auto simp: put_cp_text split: option.split)

lemma utf8_loop_text: "utf8_loop cap s w = fold (put1 cap) (latin1_text (u8_points s)) w"
  by (induction cap s w rule: utf8_loop.induct)
    (auto simp: put_escape_text latin1_of_def split: prod.split)

lemma latin1_to_utf8_writes: "hv_latin1_to_utf8 s dst cap = c_out dst cap (utf8_text (latin1_points s))"
  by (simp add: hv_latin1_to_utf8_def latin1_loop_text terminated)

lemma utf8_to_latin1_writes: "hv_utf8_to_latin1 s dst cap = c_out dst cap (latin1_text (u8_points s))"
  by (simp add: hv_utf8_to_latin1_def utf8_loop_text terminated)

section \<open>Decoding UTF-8\<close>

lemma lead_2: "unat d < 32 \<Longrightarrow> unat (ucast (0xC0 OR d :: u32) :: u8) = 0xC0 + unat d"
  and lead_3: "unat d < 16 \<Longrightarrow> unat (ucast (0xE0 OR d :: u32) :: u8) = 0xE0 + unat d"
  and lead_4: "unat d < 8 \<Longrightarrow> unat (ucast (0xF0 OR d :: u32) :: u8) = 0xF0 + unat d"
  using tag_byte(1) [of d 5 "0xC0"] tag_byte(1) [of d 4 "0xE0"] tag_byte(1) [of d 3 "0xF0"] by simp_all

lemma cont: "unat (ucast (0x80 OR (d AND 0x3F) :: u32) :: u8) = 0x80 + unat (d AND 0x3F)"
  using tag_byte(1) [of "d AND 0x3F" 6 "0x80"] and_63 [of d] by simp

lemma utf8_payload:
  "unat d < 32 \<Longrightarrow> ucast (ucast (0xC0 OR d :: u32) AND 0x1F :: u8) = d"
  "unat d < 16 \<Longrightarrow> ucast (ucast (0xE0 OR d :: u32) AND 0x0F :: u8) = d"
  "unat d < 8 \<Longrightarrow> ucast (ucast (0xF0 OR d :: u32) AND 0x07 :: u8) = d"
  "ucast (ucast (0x80 OR (d AND 0x3F) :: u32) AND 0x3F :: u8) = (d AND 0x3F :: u32)"
  using tag_byte(2) [of d 5 "0xC0"] tag_byte(2) [of d 4 "0xE0"] tag_byte(2) [of d 3 "0xF0"]
    tag_byte(2) [of "d AND 0x3F" 6 "0x80"] and_63 [of d]
  by (simp_all add: mask_eq_exp_minus_1 unsigned_and_eq)

lemma is_cont: "ucast (0x80 OR (d AND 0x3F) :: u32) AND 0xC0 = (0x80 :: u8)"
  using and_63 [of d] by (simp add: word_unat_eq_iff high_bits cont)

lemma u8_more_cont:
  assumes "char_at s i = ucast (0x80 OR (d AND 0x3F) :: u32)"
  shows "u8_more (Suc n) s i (drop_bit 6 d) = u8_more n s (i + 1) d"
  using assms is_cont [of d] utf8_payload(4) [of d] join_6 [of d] by (simp only: u8_more.simps if_False simp_thms)

text \<open>A lead byte of \<open>n\<close> continuation bytes.\<close>

lemma u8_next_lead:
  fixes m :: u32
  assumes "0x80 \<le> unat b" "u8_more n s 0 (ucast x) = Some c" "unat m \<le> unat c" "scalar c"
    and "n = 1 \<and> b AND 0xE0 = 0xC0 \<and> x = b AND 0x1F \<and> m = 0x80 \<or>
      n = 2 \<and> b AND 0xE0 \<noteq> 0xC0 \<and> b AND 0xF0 = 0xE0 \<and> x = b AND 0x0F \<and> m = 0x800 \<or>
      n = 3 \<and> b AND 0xE0 \<noteq> 0xC0 \<and> b AND 0xF0 \<noteq> 0xE0 \<and> b AND 0xF8 = 0xF0 \<and> x = b AND 0x07 \<and> m = 0x10000"
  shows "u8_next b s = (c, drop n s)"
proof -
  have f: "\<not> b < 0x80" "\<not> (c < m \<or> c > 0x10FFFF \<or> c \<ge> 0xD800 \<and> c \<le> 0xDFFF)"
    using assms(1,3,4) by (auto simp: scalar_def word_le_nat_alt word_less_nat_alt)
  have "(if b AND 0xE0 = 0xC0 then Some (1, b AND 0x1F, 0x80)
         else if b AND 0xF0 = 0xE0 then Some (2, b AND 0x0F, 0x800)
         else if b AND 0xF8 = 0xF0 then Some (3, b AND 0x07, 0x10000) else None) = Some (n, x, m)"
    using assms(5) by (elim disjE conjE) simp_all
  then show ?thesis
    unfolding u8_next_def by (simp only: f if_False option.case prod.case assms(2))
qed

lemma char_at_2 [simp]: "char_at (a # b # p) 2 = char_at p 0"
  by (simp add: char_at_def)

lemma u8_next_utf8_of:
  assumes "scalar c" shows "\<exists>b t. utf8_of c = b # t \<and> u8_next b (t @ r) = (c, r)"
proof -
  let ?k = "\<lambda>d. ucast (0x80 OR (d AND 0x3F) :: u32) :: u8"
  have lim: "unat c \<le> 0x10FFFF" using assms by (simp add: scalar_def word_le_nat_alt)
  consider "unat c < 0x80" | "0x80 \<le> unat c" "unat c < 0x800" | "0x800 \<le> unat c" "unat c < 0x10000" | "0x10000 \<le> unat c"
    by linarith
  then show ?thesis
  proof cases
    case 1
    then have u: "unat (ucast c :: u8) = unat c" by (simp add: unsigned_ucast_eq take_bit_nat_eq_self_iff)
    then have "ucast (ucast c :: u8) = c" using unat_ucast_u8 [of "ucast c", where ?'a = 32] by (simp add: word_unat_eq_iff)
    with 1 u show ?thesis by (simp add: utf8_of_def u8_next_def word_less_nat_alt)
  next
    case 2
    let ?b = "ucast (0xC0 OR drop_bit 6 c) :: u8"
    have d: "unat (drop_bit 6 c) < 32" using 2 by (simp add: unat_drop_bit)
    have "u8_more (Suc 0) (?k c # r) 0 (drop_bit 6 c) = u8_more 0 (?k c # r) (0 + 1) c"
      by (rule u8_more_cont) simp
    then have "u8_next ?b (?k c # r) = (c, drop 1 (?k c # r))"
      using d 2 lead_2 [OF d]
      by (intro u8_next_lead [where m = "0x80" and x = "?b AND 0x1F"] assms) (simp_all add: utf8_payload(1) word_unat_eq_iff high_bits del: u8_more.simps(2))
    then show ?thesis using 2 by (simp add: utf8_of_def word_less_nat_alt)
  next
    case 3
    let ?b = "ucast (0xE0 OR drop_bit 12 c) :: u8" and ?s = "?k (drop_bit 6 c) # ?k c # r"
    have d: "unat (drop_bit 12 c) < 16" using 3 by (simp add: unat_drop_bit)
    then have q: "(224 + unat (drop_bit 12 c)) div 32 \<noteq> 6" "(224 + unat (drop_bit 12 c)) div 16 = 14" by linarith+
    have "u8_more (Suc 1) ?s 0 (drop_bit 6 (drop_bit 6 c)) = u8_more (Suc 0) ?s (0 + 1) (drop_bit 6 c)"
      by (subst u8_more_cont) simp_all
    also have "\<dots> = u8_more 0 ?s (0 + 1 + 1) c" by (rule u8_more_cont) simp
    finally have "u8_more 2 ?s 0 (drop_bit 12 c) = Some c" by (simp only: u8_more.simps(1) drop_bit_drop_bit numeral_2_eq_2 One_nat_def) simp
    then have "u8_next ?b ?s = (c, drop 2 ?s)"
      using d 3 q lead_3 [OF d]
      by (intro u8_next_lead [where m = "0x800" and x = "?b AND 0x0F"] assms) (simp_all add: utf8_payload(2) word_unat_eq_iff high_bits del: u8_more.simps(2))
    then show ?thesis using 3 by (simp add: utf8_of_def word_less_nat_alt)
  next
    case 4
    let ?b = "ucast (0xF0 OR drop_bit 18 c) :: u8" and ?s = "?k (drop_bit 12 c) # ?k (drop_bit 6 c) # ?k c # r"
    have d: "unat (drop_bit 18 c) < 8" using lim by (simp add: unat_drop_bit)
    then have q: "(240 + unat (drop_bit 18 c)) div 32 \<noteq> 6" "(240 + unat (drop_bit 18 c)) div 16 \<noteq> 14"
      "(240 + unat (drop_bit 18 c)) div 8 = 30" by linarith+
    have "u8_more (Suc 2) ?s 0 (drop_bit 6 (drop_bit 12 c)) = u8_more (Suc 1) ?s (0 + 1) (drop_bit 6 (drop_bit 6 c))"
      by (subst u8_more_cont) (simp_all add: numeral_2_eq_2)
    also have "\<dots> = u8_more (Suc 0) ?s (0 + 1 + 1) (drop_bit 6 c)" by (subst u8_more_cont) simp_all
    also have "\<dots> = u8_more 0 ?s (0 + 1 + 1 + 1) c" by (rule u8_more_cont) (simp add: numeral_2_eq_2)
    finally have "u8_more 3 ?s 0 (drop_bit 18 c) = Some c" by (simp add: numeral_3_eq_3 numeral_2_eq_2)
    then have "u8_next ?b ?s = (c, drop 3 ?s)"
      using d 4 q lead_4 [OF d]
      by (intro u8_next_lead [where m = "0x10000" and x = "?b AND 0x07"] assms) (simp_all add: utf8_payload(3) word_unat_eq_iff high_bits del: u8_more.simps(2))
    then show ?thesis using 4 by (simp add: utf8_of_def word_less_nat_alt)
  qed
qed

lemma u8_points_text: "\<forall>c\<in>set cs. scalar c \<Longrightarrow> u8_points (utf8_text cs) = cs"
proof (induction cs)
  case (Cons c cs)
  obtain b t where "utf8_of c = b # t" "u8_next b (t @ utf8_text cs) = (c, utf8_text cs)"
    using u8_next_utf8_of [of c "utf8_text cs"] Cons.prems by auto
  with Cons show ?case by simp
qed simp

section \<open>Decoding the escape\<close>

lemma hv_hexval_table: "\<forall>n\<in>set [0..<16]. hv_hexval (lit ''0123456789ABCDEF'' ! n) = int n"
  by code_simp

lemma hv_hexval_hexdigit: "unat d < 16 \<Longrightarrow> hv_hexval (hexdigit d) = int (unat d)"
  using hv_hexval_table by (simp add: hexdigit_def)

lemma and_15: "unat (c AND 0xF :: u32) < 16"
  using unat_and_mask [of c 4] by (simp add: mask_eq_exp_minus_1)

lemma read_hex_digits:
  "\<forall>j<n. char_at s (i + j) = hexdigit (drop_bit (4 * (n - 1 - j)) c AND 0xF) \<Longrightarrow>
   read_hex_loop s i n (drop_bit (4 * n) c) = Some c"
proof (induction n arbitrary: i)
  case (Suc n)
  let ?d = "drop_bit (4 * n) c"
  have "char_at s i = hexdigit (?d AND 0xF)" using Suc.prems [rule_format, of 0] by simp
  then have h: "hv_hexval (char_at s i) = int (unat (?d AND 0xF))" by (simp add: hv_hexval_hexdigit and_15)
  have "push_bit 4 (drop_bit (4 * Suc n) c) OR of_int (int (unat (?d AND 0xF))) = ?d"
    using join_4 [of ?d] by (simp add: algebra_simps)
  moreover have "read_hex_loop s (i + 1) n ?d = Some c"
    by (rule Suc.IH) (use Suc.prems in \<open>auto dest: spec [of _ "Suc j" for j]\<close>)
  ultimately show ?case using h by (simp only: read_hex_loop.simps Let_def of_nat_less_0_iff if_False)
qed simp

lemma hv_hex_at: "j < k \<Longrightarrow> char_at (a # b # hv_hex k c @ r) (2 + j) = hexdigit (drop_bit (4 * (k - 1 - j)) c AND 0xF)"
  by (simp add: char_at_def hv_hex_def nth_append rev_nth)

lemma length_hv_hex [simp]: "length (hv_hex k c) = k" by (simp add: hv_hex_def)

lemma read_hv_hex:
  assumes "unat c < 2 ^ (4 * k)" shows "read_fixed_hex (a # b # hv_hex k c @ r) 2 k = Some c"
proof -
  have "drop_bit (4 * k) c = 0" using assms by (simp add: word_unat_eq_iff unat_drop_bit)
  then show ?thesis
    using read_hex_digits [of k "a # b # hv_hex k c @ r" 2 c] hv_hex_at [of _ k a b c r]
    by (simp add: read_fixed_hex_def del: char_at_2)
qed

lemma decode_escape_of:
  assumes "scalar c" shows "decode_escape (escape_of c @ r) = Some (c, length (escape_of c))"
proof (cases "c \<le> 0xFFFF")
  case True
  then have "unat c < 2 ^ (4 * 4)" by (simp add: word_le_nat_alt)
  from read_hv_hex [OF this, of HV_MARK "0x75" r] True show ?thesis
    by (simp add: escape_of_def decode_escape_def char_at_def)
next
  case False
  have "unat c < 2 ^ (4 * 6)" "\<not> c > 0x10FFFF" using assms by (auto simp: scalar_def word_le_nat_alt word_less_nat_alt)
  from read_hv_hex [OF this(1), of HV_MARK "0x55" r] this(2) False show ?thesis
    by (simp add: escape_of_def decode_escape_def char_at_def)
qed

lemma latin1_points_text: "\<forall>c\<in>set cs. scalar c \<Longrightarrow> latin1_points (latin1_text cs) = cs"
proof (induction cs)
  case (Cons c cs)
  show ?case
  proof (cases "c \<noteq> ucast HV_MARK \<and> c \<le> 0xFF")
    case True
    then have u: "unat (ucast c :: u8) = unat c" by (simp add: unsigned_ucast_eq take_bit_nat_eq_self_iff word_le_nat_alt)
    then have b: "ucast (ucast c :: u8) = c" using unat_ucast_u8 [of "ucast c", where ?'a = 32] by (simp add: word_unat_eq_iff)
    then have "ucast c \<noteq> HV_MARK" using True by metis
    then have "decode_escape (ucast c # latin1_text cs) = None" by (simp add: decode_escape_def)
    then show ?thesis using True b Cons by (simp add: latin1_of_def)
  next
    case False
    then have t: "latin1_text (c # cs) = escape_of c @ latin1_text cs" by (auto simp: latin1_of_def)
    obtain b t where e: "escape_of c = b # t" by (cases "c \<le> 0xFFFF") (simp_all add: escape_of_def)
    have d: "decode_escape (b # t @ latin1_text cs) = Some (c, Suc (length t))"
      using decode_escape_of [of c "latin1_text cs"] Cons.prems e by simp
    show ?thesis unfolding t e using d Cons by simp
  qed
qed simp

section \<open>Names\<close>

lemma byte_scalar: "scalar (ucast (b :: u8))"
  using unat_ucast_u8 [of b, where ?'a = 32] unsigned_less [of b, where ?'a = nat]
  by (simp add: scalar_def word_le_nat_alt)

lemma unat_narrow: "unat (c :: u32) < 256 \<Longrightarrow> unat (ucast c :: u8) = unat c"
  by (simp add: unsigned_ucast_eq take_bit_nat_eq_self)

lemma narrow_byte [simp]: "ucast (ucast (b :: u8) :: u32) = b"
  using unat_narrow [of "ucast b"] unat_ucast_u8 [of b, where ?'a = 32] unsigned_less [of b, where ?'a = nat]
  by (simp only: word_unat_eq_iff) simp

lemma utf8_of_not_nul: "scalar c \<Longrightarrow> c \<noteq> 0 \<Longrightarrow> 0 \<notin> set (utf8_of c)"
proof -
  assume c: "scalar c" "c \<noteq> 0"
  have a: "c < 0x80 \<Longrightarrow> ucast c \<noteq> (0 :: u8)"
    using c(2) unat_narrow [of c] by (auto simp: word_unat_eq_iff word_less_nat_alt)
  have "unat (ucast (0x80 OR (x AND 0x3F) :: u32) :: u8) \<noteq> unat (0 :: u8)" for x
    by (simp only: cont) simp
  then have t: "ucast (0x80 OR (x AND 0x3F) :: u32) \<noteq> (0 :: u8)" for x by metis
  have "unat c \<le> 0x10FFFF" using c by (simp add: scalar_def word_le_nat_alt)
  then have "unat (drop_bit 18 c) < 8" by (simp add: unat_drop_bit)
  moreover have "c < 0x800 \<Longrightarrow> unat (drop_bit 6 c) < 32" "c < 0x10000 \<Longrightarrow> unat (drop_bit 12 c) < 16"
    by (simp_all add: unat_drop_bit word_less_nat_alt)
  ultimately have l: "ucast (0xF0 OR drop_bit 18 c) \<noteq> (0 :: u8)"
    "c < 0x800 \<Longrightarrow> ucast (0xC0 OR drop_bit 6 c) \<noteq> (0 :: u8)"
    "c < 0x10000 \<Longrightarrow> ucast (0xE0 OR drop_bit 12 c) \<noteq> (0 :: u8)"
    using lead_2 [of "drop_bit 6 c"] lead_3 [of "drop_bit 12 c"] lead_4 [of "drop_bit 18 c"] by auto
  show ?thesis using a l t by (auto simp: utf8_of_def)
qed

lemma utf8_text_not_nul: "\<forall>c\<in>set cs. scalar c \<and> c \<noteq> 0 \<Longrightarrow> 0 \<notin> set (utf8_text cs)"
  using utf8_of_not_nul by (auto simp: utf8_text_def)

lemma hv_hex_not_nul: "0 \<notin> set (hv_hex k c)"
  using hexdigit_not_nul [OF and_15] by (force simp: hv_hex_def)

lemma latin1_text_not_nul: "0 \<notin> set cs \<Longrightarrow> 0 \<notin> set (latin1_text cs)"
proof -
  have "c \<le> 0xFF \<Longrightarrow> ucast c = (0 :: u8) \<Longrightarrow> c = 0" for c :: u32
    using unat_narrow [of c] by (simp add: word_unat_eq_iff word_le_nat_alt)
  then show "0 \<notin> set cs \<Longrightarrow> 0 \<notin> set (latin1_text cs)"
    using hv_hex_not_nul by (auto simp: latin1_text_def latin1_of_def escape_of_def HV_MARK_def)
qed

lemma c_out_string: "0 \<notin> set t \<Longrightarrow> c_out dst cap t = (b, n) \<Longrightarrow> n < cap \<Longrightarrow> c_string b cap = t"
  using c_string_overlay [of t cap dst] by (auto simp: c_out_def split: if_splits)

lemma latin1_points_plain:
  "HV_MARK \<notin> set p \<Longrightarrow> latin1_points (p @ s) = map ucast p @ latin1_points s"
  by (induction p) (auto simp: decode_escape_def)

lemma latin1_points_no_escape:
  "\<forall>k. decode_escape (drop k s) = None \<Longrightarrow> latin1_points s = map ucast s"
proof (induction s)
  case (Cons c s)
  have "\<forall>k. decode_escape (drop k s) = None"
  proof
    show "decode_escape (drop k s) = None" for k using Cons.prems [THEN spec, of "Suc k"] by simp
  qed
  with Cons.IH Cons.prems [THEN spec, of 0] show ?case by simp
qed simp

text \<open>C21: A host name, well-formed UTF-8 without a NUL, that fits both buffers comes back from
  AROS Latin-1 byte by byte: characters beyond Latin-1 and the marker itself travel as escapes
  of fixed width, whatever follows them.\<close>

theorem host_name_comes_back:
  assumes "\<forall>c\<in>set cs. scalar c \<and> c \<noteq> 0"
    and "hv_utf8_to_latin1 (utf8_text cs) dst cap = (b, n)" "n < cap"
    and "hv_latin1_to_utf8 (c_string b cap) dst2 cap2 = (b2, m)" "m < cap2"
  shows "c_string b2 cap2 = utf8_text cs \<and> m = length (utf8_text cs)"
proof -
  have u: "u8_points (utf8_text cs) = cs" using assms(1) by (simp add: u8_points_text)
  have "c_string b cap = latin1_text cs"
    using c_out_string [OF latin1_text_not_nul] assms by (auto simp: utf8_to_latin1_writes u)
  then have o: "c_out dst2 cap2 (utf8_text cs) = (b2, m)"
    using assms(1,4) by (simp add: latin1_to_utf8_writes latin1_points_text)
  then show ?thesis
    using c_out_string [OF utf8_text_not_nul [OF assms(1)] o assms(5)] by (auto simp: c_out_def split: if_splits)
qed

theorem host_name_comes_back_witness:
  "\<exists>b. c_string b 40 = utf8_text [0x35, 0x25, 0xE9, 0x153, 0x1F600, 0x64]"
proof -
  let ?cs = "[0x35, 0x25, 0xE9, 0x153, 0x1F600, 0x64] :: u32 list"
  let ?r = "hv_utf8_to_latin1 (utf8_text ?cs) (\<lambda>_. 1) 40"
  let ?q = "hv_latin1_to_utf8 (c_string (fst ?r) 40) (\<lambda>_. 2) 40"
  have s: "\<forall>c\<in>set ?cs. scalar c \<and> c \<noteq> 0" by (simp add: scalar_def)
  have n: "snd ?r < 40" "snd ?q < 40" by code_simp+
  have "c_string (fst ?q) 40 = utf8_text ?cs"
    using host_name_comes_back [OF s, of "\<lambda>_. 1" 40 "fst ?r" "snd ?r" "\<lambda>_. 2" 40 "fst ?q" "snd ?q"] n by simp
  then show ?thesis by (intro exI [of _ "fst ?q"])
qed

text \<open>Every marker as its escape.\<close>

definition escape_marks :: "bytes \<Rightarrow> bytes" where
  "escape_marks s = concat (map (\<lambda>c. if c = HV_MARK then lit ''%u0025'' else [c]) s)"

lemma escape_marks_same: "escape_marks s = s \<longleftrightarrow> HV_MARK \<notin> set s"
proof -
  have l: "length (lit ''%u0025'') = 6" by (simp add: lit_def)
  have le: "length t \<le> length (escape_marks t)" for t
    by (induction t) (simp_all add: escape_marks_def l)
  have "HV_MARK \<in> set t \<Longrightarrow> length t < length (escape_marks t)" for t
  proof (induction t)
    case (Cons c t)
    then show ?case using le [of t] by (auto simp: escape_marks_def l)
  qed simp
  moreover have "HV_MARK \<notin> set t \<Longrightarrow> escape_marks t = t" for t
    by (induction t) (auto simp: escape_marks_def)
  ultimately show ?thesis by (metis less_irrefl)
qed

text \<open>A text that goes on after a NUL.\<close>

lemma c_out_cut:
  assumes "0 \<notin> set t" "c_out dst cap (t @ 0 # r) = (b, n)" "n < cap"
  shows "c_string b cap = t"
proof -
  have b: "b = (overlay dst 0 (cap - 1) (t @ 0 # r))(length (t @ 0 # r) := 0)" "length (t @ 0 # r) < cap"
    using assms(2,3) by (auto simp: c_out_def split: if_splits)
  have u: "[0..<cap] = [0..<length t] @ length t # [Suc (length t)..<cap]"
    using b(2) upt_add_eq_append [of 0 "length t" "cap - length t"] upt_conv_Cons [of "length t" cap] by simp
  have "map b [0..<length t] = t" "b (length t) = 0"
    unfolding b(1) using b(2) by (auto simp: overlay_def nth_append intro!: nth_equalityI)
  then show ?thesis unfolding c_string_def u using assms(1) by (simp, subst takeWhile_append2) auto
qed

lemma latin1_text_bytes: "latin1_text (map ucast s) = escape_marks s"
proof -
  have one: "latin1_of (ucast c) = (if c = HV_MARK then lit ''%u0025'' else [c])" for c :: u8
  proof (cases "c = HV_MARK")
    case True
    then show ?thesis by (simp only: True if_True) code_simp
  next
    case False
    have "unat (ucast c :: u32) \<le> 0xFF"
      using unat_ucast_u8 [of c, where ?'a = 32] unsigned_less [of c, where ?'a = nat] by simp
    moreover have "(ucast c :: u32) \<noteq> ucast HV_MARK" using False by (metis narrow_byte)
    ultimately show ?thesis using False by (simp add: latin1_of_def word_le_nat_alt)
  qed
  show ?thesis by (simp add: latin1_text_def escape_marks_def one comp_def)
qed



text \<open>C23: The escapes of an AROS name are decoded without a look at the character: an escaped NUL
  ends the host name, so different AROS names are one host name, and an escaped slash is a
  directory separator in it.\<close>

theorem escapes_reach_the_host:
  assumes "0 \<notin> set p" "HV_MARK \<notin> set p"
    and "hv_latin1_to_utf8 p dst cap = (b, n)" "n < cap"
    and "hv_latin1_to_utf8 (p @ lit ''%u0000'' @ s) dst2 cap2 = (b2, m)" "m < cap2"
    and "hv_latin1_to_utf8 (p @ lit ''%u002F'') dst3 cap3 = (b3, k)" "k < cap3"
  shows "c_string b2 cap2 = c_string b cap \<and> c_string b3 cap3 = c_string b cap @ [0x2F]"
proof -
  let ?t = "utf8_text (map ucast p)"
  have e: "escape_of 0 = lit ''%u0000''" "escape_of 0x2F = lit ''%u002F''" by code_simp+
  have "scalar 0" "scalar 0x2F" by code_simp+
  from decode_escape_of [OF this(1), of s] decode_escape_of [OF this(2), of "[]"]
  have "decode_escape (lit ''%u0000'' @ s) = Some (0, 6)" "decode_escape (lit ''%u002F'') = Some (0x2F, 6)"
    by (simp_all add: e lit_def)
  then have d: "latin1_points (lit ''%u0000'' @ s) = 0 # latin1_points s" "latin1_points (lit ''%u002F'') = [0x2F]"
    by (simp_all add: lit_def)
  have z: "0 \<notin> set ?t"
  proof (intro utf8_text_not_nul ballI conjI)
    fix c assume "c \<in> set (map ucast p :: u32 list)"
    then obtain x where x: "x \<in> set p" "c = ucast x" by auto
    then show "scalar c" by (simp add: byte_scalar)
    from x assms(1) show "c \<noteq> 0" by (metis narrow_byte unsigned_0)
  qed
  have one: "utf8_of 0 = [0]" "utf8_of 0x2F = [0x2F]" by (simp_all add: utf8_of_def)
  have b: "c_string b cap = ?t"
    using c_out_string [OF z] assms(3,4) latin1_points_plain [OF assms(2), of "[]"] by (simp add: latin1_to_utf8_writes)
  have "c_out dst2 cap2 (?t @ 0 # utf8_text (latin1_points s)) = (b2, m)"
    using assms(5) by (simp add: latin1_to_utf8_writes latin1_points_plain [OF assms(2)] d one)
  then have "c_string b2 cap2 = ?t" using assms(6) by (intro c_out_cut [OF z])
  moreover have "c_string b3 cap3 = ?t @ [0x2F]"
    using c_out_string [of "?t @ [0x2F]"] z assms(7,8)
    by (simp add: latin1_to_utf8_writes latin1_points_plain [OF assms(2)] d one)
  ultimately show ?thesis using b by simp
qed

theorem escapes_reach_the_host_witness:
  "c_string (fst (hv_latin1_to_utf8 (lit ''abc%u0000def'') (\<lambda>_. 1) 40)) 40 = lit ''abc'' \<and>
   c_string (fst (hv_latin1_to_utf8 (lit ''abc%u002F'') (\<lambda>_. 1) 40)) 40 = lit ''abc/''"
proof -
  let ?a = "hv_latin1_to_utf8 (lit ''abc'') (\<lambda>_. 1) 40"
  let ?b = "hv_latin1_to_utf8 (lit ''abc'' @ lit ''%u0000'' @ lit ''def'') (\<lambda>_. 1) 40"
  let ?c = "hv_latin1_to_utf8 (lit ''abc'' @ lit ''%u002F'') (\<lambda>_. 1) 40"
  have z: "0 \<notin> set (lit ''abc'')" "HV_MARK \<notin> set (lit ''abc'')" by code_simp+
  have n: "snd ?a < 40" "snd ?b < 40" "snd ?c < 40" by code_simp+
  have a: "c_string (fst ?a) 40 = lit ''abc''" "lit ''abc'' @ [0x2F] = lit ''abc/''" by code_simp+
  have e: "lit ''abc%u0000def'' = lit ''abc'' @ lit ''%u0000'' @ lit ''def''"
    "lit ''abc%u002F'' = lit ''abc'' @ lit ''%u002F''" by (simp_all add: lit_def)
  have "c_string (fst ?b) 40 = c_string (fst ?a) 40 \<and> c_string (fst ?c) 40 = c_string (fst ?a) 40 @ [0x2F]"
    by (rule escapes_reach_the_host [OF z, of "\<lambda>_. 1" 40 "fst ?a" "snd ?a" "lit ''def''" "\<lambda>_. 1" 40 "fst ?b" "snd ?b"
        "\<lambda>_. 1" 40 "fst ?c" "snd ?c"]) (use n in simp_all)
  then show ?thesis by (simp only: a e simp_thms)
qed

end
