(* ===== verification/HvNorm.thy ===== *)
theory HvNorm
  imports HvCharsetProps
begin

text \<open>
  Unicode NFC of file names (\<open>hosted/hostvolume/hv_norm.c\<close>): the tables, the lookups, and the
  pipeline decode, decompose, order, compose, encode. Its \<open>u8_next\<close> is the one of
  \<open>hv_charset.c\<close>. An array of code points is the list of what has been stored in it.
\<close>

section \<open>The tables\<close>

definition ccc_tab :: "(u32 \<times> u8) list" where
  "ccc_tab = [
    (0x300, 230), (0x301, 230), (0x302, 230), (0x303, 230), (0x304, 230), (0x306, 230), (0x307, 230),
    (0x308, 230), (0x309, 230), (0x30A, 230), (0x30B, 230), (0x30C, 230), (0x323, 220), (0x327, 202),
    (0x328, 202)]"

definition dec_tab :: "(u32 \<times> u32 \<times> u32) list" where
  "dec_tab = [
    (0xC0, 0x41, 0x300), (0xC1, 0x41, 0x301), (0xC2, 0x41, 0x302), (0xC3, 0x41, 0x303), (0xC4, 0x41, 0x308),
    (0xC5, 0x41, 0x30A), (0xC7, 0x43, 0x327), (0xC8, 0x45, 0x300), (0xC9, 0x45, 0x301), (0xCA, 0x45, 0x302),
    (0xCB, 0x45, 0x308), (0xCC, 0x49, 0x300), (0xCD, 0x49, 0x301), (0xCE, 0x49, 0x302), (0xCF, 0x49, 0x308),
    (0xD1, 0x4E, 0x303), (0xD2, 0x4F, 0x300), (0xD3, 0x4F, 0x301), (0xD4, 0x4F, 0x302), (0xD5, 0x4F, 0x303),
    (0xD6, 0x4F, 0x308), (0xD9, 0x55, 0x300), (0xDA, 0x55, 0x301), (0xDB, 0x55, 0x302), (0xDC, 0x55, 0x308),
    (0xDD, 0x59, 0x301), (0xE0, 0x61, 0x300), (0xE1, 0x61, 0x301), (0xE2, 0x61, 0x302), (0xE3, 0x61, 0x303),
    (0xE4, 0x61, 0x308), (0xE5, 0x61, 0x30A), (0xE7, 0x63, 0x327), (0xE8, 0x65, 0x300), (0xE9, 0x65, 0x301),
    (0xEA, 0x65, 0x302), (0xEB, 0x65, 0x308), (0xEC, 0x69, 0x300), (0xED, 0x69, 0x301), (0xEE, 0x69, 0x302),
    (0xEF, 0x69, 0x308), (0xF1, 0x6E, 0x303), (0xF2, 0x6F, 0x300), (0xF3, 0x6F, 0x301), (0xF4, 0x6F, 0x302),
    (0xF5, 0x6F, 0x303), (0xF6, 0x6F, 0x308), (0xF9, 0x75, 0x300), (0xFA, 0x75, 0x301), (0xFB, 0x75, 0x302),
    (0xFC, 0x75, 0x308), (0xFD, 0x79, 0x301), (0xFF, 0x79, 0x308), (0x100, 0x41, 0x304), (0x101, 0x61, 0x304),
    (0x102, 0x41, 0x306), (0x103, 0x61, 0x306), (0x104, 0x41, 0x328), (0x105, 0x61, 0x328), (0x106, 0x43, 0x301),
    (0x107, 0x63, 0x301), (0x10C, 0x43, 0x30C), (0x10D, 0x63, 0x30C), (0x10E, 0x44, 0x30C), (0x10F, 0x64, 0x30C),
    (0x112, 0x45, 0x304), (0x113, 0x65, 0x304), (0x116, 0x45, 0x307), (0x117, 0x65, 0x307), (0x118, 0x45, 0x328),
    (0x119, 0x65, 0x328), (0x11A, 0x45, 0x30C), (0x11B, 0x65, 0x30C), (0x11E, 0x47, 0x306), (0x11F, 0x67, 0x306),
    (0x130, 0x49, 0x307), (0x139, 0x4C, 0x301), (0x13A, 0x6C, 0x301), (0x13D, 0x4C, 0x30C), (0x13E, 0x6C, 0x30C),
    (0x143, 0x4E, 0x301), (0x144, 0x6E, 0x301), (0x147, 0x4E, 0x30C), (0x148, 0x6E, 0x30C), (0x14C, 0x4F, 0x304),
    (0x14D, 0x6F, 0x304), (0x150, 0x4F, 0x30B), (0x151, 0x6F, 0x30B), (0x154, 0x52, 0x301), (0x155, 0x72, 0x301),
    (0x158, 0x52, 0x30C), (0x159, 0x72, 0x30C), (0x15A, 0x53, 0x301), (0x15B, 0x73, 0x301), (0x15E, 0x53, 0x327),
    (0x15F, 0x73, 0x327), (0x160, 0x53, 0x30C), (0x161, 0x73, 0x30C), (0x162, 0x54, 0x327), (0x163, 0x74, 0x327),
    (0x164, 0x54, 0x30C), (0x165, 0x74, 0x30C), (0x168, 0x55, 0x303), (0x169, 0x75, 0x303), (0x16A, 0x55, 0x304),
    (0x16B, 0x75, 0x304), (0x16C, 0x55, 0x306), (0x16D, 0x75, 0x306), (0x16E, 0x55, 0x30A), (0x16F, 0x75, 0x30A),
    (0x170, 0x55, 0x30B), (0x171, 0x75, 0x30B), (0x172, 0x55, 0x328), (0x173, 0x75, 0x328), (0x179, 0x5A, 0x301),
    (0x17A, 0x7A, 0x301), (0x17B, 0x5A, 0x307), (0x17C, 0x7A, 0x307), (0x17D, 0x5A, 0x30C), (0x17E, 0x7A, 0x30C)]"

text \<open>The loop of both lookups.\<close>

function table_loop :: "(u32 \<times> 'v) list \<Rightarrow> u32 \<Rightarrow> int \<Rightarrow> int \<Rightarrow> 'v option" where
  "table_loop tab c lo hi =
     (if lo \<le> hi then
        (let mid = (lo + hi) div 2; row = tab ! nat mid in
         if fst row = c then Some (snd row)
         else if fst row < c then table_loop tab c (mid + 1) hi
         else table_loop tab c lo (mid - 1))
      else None)"
  by pat_completeness auto
termination
  by (relation "measure (\<lambda>(tab, c, lo, hi). nat (hi - lo + 1))") auto

declare table_loop.simps [simp del]

definition ccc_of :: "u32 \<Rightarrow> u8" where
  "ccc_of c = (case table_loop ccc_tab c 0 (int (length ccc_tab) - 1) of Some k \<Rightarrow> k | None \<Rightarrow> 0)"

definition decompose1 :: "u32 \<Rightarrow> (u32 \<times> u32) option" where
  "decompose1 c = table_loop dec_tab c 0 (int (length dec_tab) - 1)"

fun compose_scan :: "(u32 \<times> u32 \<times> u32) list \<Rightarrow> u32 \<Rightarrow> u32 \<Rightarrow> u32 option" where
  "compose_scan [] a b = None"
| "compose_scan ((c, x, y) # tab) a b = (if x = a \<and> y = b then Some c else compose_scan tab a b)"

definition compose1 :: "u32 \<Rightarrow> u32 \<Rightarrow> u32 option" where
  "compose1 a b = compose_scan dec_tab a b"

section \<open>The tables are sorted and one level deep\<close>

lemma table_loop_sound: "table_loop tab c lo hi = Some v \<Longrightarrow> 0 \<le> lo \<Longrightarrow> hi < int (length tab) \<Longrightarrow> (c, v) \<in> set tab"
proof (induction tab c lo hi rule: table_loop.induct)
  case (1 tab c lo hi)
  let ?m = "(lo + hi) div 2"
  have le: "lo \<le> hi" using "1.prems"(1) by (auto simp: table_loop.simps [of tab c lo hi] split: if_splits)
  then have m: "lo \<le> ?m" "?m \<le> hi" by auto
  then have "tab ! nat ?m \<in> set tab" using "1.prems" by (intro nth_mem) linarith
  then show ?case
    using "1.IH" [OF le refl refl] "1.prems" le m
    by (auto simp: table_loop.simps [of tab c lo hi] Let_def split: if_splits)
qed

lemma table_loop_complete:
  "\<exists>i. lo \<le> int i \<and> int i \<le> hi \<and> tab ! i = (c, v) \<Longrightarrow> 0 \<le> lo \<Longrightarrow> hi < int (length tab) \<Longrightarrow>
   sorted_wrt (<) (map fst tab) \<Longrightarrow> table_loop tab c lo hi = Some v"
proof (induction tab c lo hi rule: table_loop.induct)
  case (1 tab c lo hi)
  let ?m = "(lo + hi) div 2"
  obtain i where i: "lo \<le> int i" "int i \<le> hi" "tab ! i = (c, v)" using "1.prems"(1) by blast
  have le: "lo \<le> hi" using i by linarith
  then have m: "lo \<le> ?m" "?m \<le> hi" by auto
  have nm: "int (nat ?m) = ?m" using m(1) "1.prems"(2) by linarith
  have mono: "fst (tab ! j) < fst (tab ! k)" if "j < k" "int k \<le> hi" for j k
    using sorted_wrt_nth_less [OF "1.prems"(4), of j k] that "1.prems"(3) by simp
  consider "i = nat ?m" | "i < nat ?m" | "nat ?m < i" by linarith
  then show ?case
  proof cases
    case 1
    then show ?thesis using i(3) le by (simp add: table_loop.simps [of tab c lo hi] Let_def)
  next
    case 2
    have lt: "c < fst (tab ! nat ?m)" using mono [OF 2, unfolded nm, OF m(2)] i(3) by simp
    have "\<exists>j. lo \<le> int j \<and> int j \<le> ?m - 1 \<and> tab ! j = (c, v)" using i 2 by (intro exI [of _ i]) linarith
    then have "table_loop tab c lo (?m - 1) = Some v"
      using "1.IH"(2) [OF le refl refl] lt "1.prems"(2-4) m by (simp add: order.asym order.strict_implies_not_eq)
    then show ?thesis using le lt by (auto simp: table_loop.simps [of tab c lo hi] Let_def)
  next
    case 3
    have lt: "fst (tab ! nat ?m) < c" using mono [OF 3 i(2)] i(3) by simp
    have "\<exists>j. ?m + 1 \<le> int j \<and> int j \<le> hi \<and> tab ! j = (c, v)" using i 3 by (intro exI [of _ i]) linarith
    then have "table_loop tab c (?m + 1) hi = Some v"
      using "1.IH"(1) [OF le refl refl] lt "1.prems"(2-4) m by (simp add: order.strict_implies_not_eq)
    then show ?thesis using le lt by (auto simp: table_loop.simps [of tab c lo hi] Let_def)
  qed
qed

lemma table_loop_map_of:
  assumes "sorted_wrt (<) (map fst tab)"
  shows "table_loop tab c 0 (int (length tab) - 1) = map_of tab c"
proof -
  have d: "distinct (map fst tab)" using assms strict_sorted_iff by blast
  show ?thesis
  proof (cases "map_of tab c")
    case None
    then have "(c, v) \<notin> set tab" for v using d by auto
    then show ?thesis using table_loop_sound [of tab c 0 "int (length tab) - 1"] None
      by (cases "table_loop tab c 0 (int (length tab) - 1)") auto
  next
    case (Some v)
    then obtain i where "i < length tab" "tab ! i = (c, v)" using map_of_SomeD in_set_conv_nth by metis
    then show ?thesis using table_loop_complete [of 0 "int (length tab) - 1" tab c v] assms Some by force
  qed
qed

lemma tables_step: "successively (<) (map fst ccc_tab)" "successively (<) (map fst dec_tab)"
  by code_simp+

lemma ccc_tab_sorted: "sorted_wrt (<) (map fst ccc_tab)"
  and dec_tab_sorted: "sorted_wrt (<) (map fst dec_tab)"
  using tables_step by (simp_all add: successively_conv_sorted_wrt)

lemma ccc_of_map: "ccc_of c = (case map_of ccc_tab c of Some k \<Rightarrow> k | None \<Rightarrow> 0)"
  by (simp add: ccc_of_def table_loop_map_of [OF ccc_tab_sorted])

lemma decompose1_map: "decompose1 c = map_of dec_tab c"
  by (simp add: decompose1_def table_loop_map_of [OF dec_tab_sorted])

text \<open>The ranges of the rows: composed letters, ASCII bases and marks.\<close>

lemma dec_tab_rows:
  "\<forall>(c, a, b)\<in>set dec_tab. 0xC0 \<le> c \<and> c < 0x180 \<and> 0x41 \<le> a \<and> a < 0x80 \<and> b \<in> fst ` set ccc_tab"
  by code_simp

lemma ccc_tab_rows: "\<forall>(b, k)\<in>set ccc_tab. 0x300 \<le> b \<and> b < 0x330 \<and> k \<noteq> 0"
  by code_simp

lemma decompose1_facts:
  assumes "decompose1 c = Some (a, b)"
  shows "ccc_of c = 0" "ccc_of a = 0" "ccc_of b \<noteq> 0" "decompose1 a = None" "decompose1 b = None"
    and "unat c < 0x180" "0xC0 \<le> unat c" "0x41 \<le> unat a" "unat a < 0x80" "0x300 \<le> unat b" "unat b < 0x330"
proof -
  have r: "(c, a, b) \<in> set dec_tab" using assms by (simp add: decompose1_map map_of_SomeD)
  then have k: "0xC0 \<le> c" "c < 0x180" "0x41 \<le> a" "a < 0x80" "b \<in> fst ` set ccc_tab" using dec_tab_rows by auto
  then obtain v where v: "(b, v) \<in> set ccc_tab" "map_of ccc_tab b = Some v"
    using ccc_tab_sorted by (auto simp: strict_sorted_iff)
  then have b: "0x300 \<le> b" "b < 0x330" "v \<noteq> 0" using ccc_tab_rows by auto
  show "unat c < 0x180" "0xC0 \<le> unat c" "0x41 \<le> unat a" "unat a < 0x80" "0x300 \<le> unat b" "unat b < 0x330"
    using k b by (simp_all add: word_less_nat_alt word_le_nat_alt)
  have ccc: "ccc_of x = 0" if "x < 0x300" for x
    using that ccc_tab_rows by (auto simp: ccc_of_map dest!: map_of_SomeD split: option.split)
  show "ccc_of c = 0" "ccc_of a = 0" using k by (auto intro!: ccc simp: word_less_nat_alt)
  show "ccc_of b \<noteq> 0" using v b by (simp add: ccc_of_map)
  have dec: "decompose1 x = None" if "x < 0xC0 \<or> 0x180 \<le> x" for x
    using that dec_tab_rows by (cases "decompose1 x") (auto simp: decompose1_map dest!: map_of_SomeD)
  show "decompose1 a = None" "decompose1 b = None" using k b by (auto intro!: dec simp: word_less_nat_alt word_le_nat_alt)
qed

lemma compose1_decomposes: "compose1 a b = Some c \<Longrightarrow> decompose1 c = Some (a, b)"
proof -
  have "compose_scan tab a b = Some c \<Longrightarrow> (c, a, b) \<in> set tab" for tab
    by (induction tab a b rule: compose_scan.induct) (auto split: if_splits)
  then show "compose1 a b = Some c \<Longrightarrow> decompose1 c = Some (a, b)"
    using dec_tab_sorted by (auto simp: compose1_def decompose1_map strict_sorted_iff)
qed

section \<open>The pipeline\<close>

definition HV_MAXCP :: nat where "HV_MAXCP = 1024"

text \<open>The bytes of one code point; the empty list is the return value 0 for want of room.\<close>

definition u8_put :: "u32 \<Rightarrow> nat \<Rightarrow> bytes" where
  "u8_put c cap =
     (if c < 0x80 then (if cap < 1 then [] else [ucast c])
      else if c < 0x800 then
        (if cap < 2 then [] else [ucast (0xC0 OR drop_bit 6 c), ucast (0x80 OR (c AND 0x3F))])
      else if c < 0x10000 then
        (if cap < 3 then []
         else [ucast (0xE0 OR drop_bit 12 c), ucast (0x80 OR (drop_bit 6 c AND 0x3F)), ucast (0x80 OR (c AND 0x3F))])
      else
        (if cap < 4 then []
         else [ucast (0xF0 OR drop_bit 18 c), ucast (0x80 OR (drop_bit 12 c AND 0x3F)),
           ucast (0x80 OR (drop_bit 6 c AND 0x3F)), ucast (0x80 OR (c AND 0x3F))]))"

text \<open>The code points stored and \<open>pos\<close>, which counts those that did not fit too.\<close>

function decomp_recursive :: "u32 \<Rightarrow> u32 list \<times> nat \<Rightarrow> nat \<Rightarrow> u32 list \<times> nat" where
  "decomp_recursive c w cap = (case decompose1 c of
     Some (a, b) \<Rightarrow> decomp_recursive b (decomp_recursive a w cap) cap
   | None \<Rightarrow> (case w of (buf, pos) \<Rightarrow> (if pos < cap then buf @ [c] else buf, pos + 1)))"
  by pat_completeness auto
termination
  by (relation "measure (\<lambda>(c, w, cap). if decompose1 c = None then 0 else 1)") (auto dest: decompose1_facts(4,5))

declare decomp_recursive.simps [simp del]

fun order_sink :: "u32 list \<Rightarrow> nat \<Rightarrow> u8 \<Rightarrow> u32 list" where
  "order_sink xs 0 cci = xs"
| "order_sink xs (Suc j) cci =
     (let ccp = ccc_of (xs ! j) in
      if ccp = 0 \<or> ccp \<le> cci then xs
      else order_sink (xs[Suc j := xs ! j, j := xs ! Suc j]) j cci)"

definition canonical_order :: "u32 list \<Rightarrow> nat \<Rightarrow> u32 list" where
  "canonical_order xs n =
     fold (\<lambda>i xs. let cci = ccc_of (xs ! i) in if cci = 0 then xs else order_sink xs i cci) [1..<n] xs"

record compose_state =
  cr_array :: "u32 list"
  cr_out :: nat
  cr_starter :: nat
  cr_have :: bool
  cr_last :: u8

definition compose_step :: "nat \<Rightarrow> compose_state \<Rightarrow> compose_state" where
  "compose_step i t =
     (let c = cr_array t ! i; cccc = ccc_of c;
          blocked = (cr_have t \<and> cr_last t \<noteq> 0 \<and> cr_last t \<ge> cccc \<and> cccc \<noteq> 0);
          composed = (if cr_have t \<and> \<not> blocked then compose1 (cr_array t ! cr_starter t) c else None) in
      case composed of
        Some k \<Rightarrow> t\<lparr>cr_array := (cr_array t)[cr_starter t := k]\<rparr>
      | None \<Rightarrow>
          (let t = t\<lparr>cr_array := (cr_array t)[cr_out t := c], cr_out := cr_out t + 1\<rparr>;
               t = (if cccc = 0 then t\<lparr>cr_have := True, cr_starter := cr_out t - 1\<rparr> else t) in
           t\<lparr>cr_last := cccc\<rparr>))"

text \<open>The array and the length of its result.\<close>

definition compose_run :: "u32 list \<Rightarrow> nat \<Rightarrow> u32 list \<times> nat" where
  "compose_run xs n =
     (if n = 0 then (xs, 0)
      else (let t = fold compose_step [1..<n]
              \<lparr>cr_array = xs, cr_out = 1, cr_starter = 0, cr_have = (ccc_of (xs ! 0) = 0), cr_last = ccc_of (xs ! 0)\<rparr> in
        (cr_array t, cr_out t)))"

function nfc_decode :: "bytes \<Rightarrow> u32 list \<times> nat \<Rightarrow> u32 list \<times> nat" where
  "nfc_decode [] w = w"
| "nfc_decode (c0 # s) w = (case u8_next c0 s of (c, s') \<Rightarrow>
     (case decomp_recursive c w HV_MAXCP of (buf, n) \<Rightarrow>
        if n \<ge> HV_MAXCP then (buf, HV_MAXCP) else nfc_decode s' (buf, n)))"
  by pat_completeness auto
termination
  by (relation "measure (\<lambda>(s, w). length s)") (auto dest!: u8_next_shorter)

fun nfc_encode :: "u32 list \<Rightarrow> nat \<Rightarrow> obuf \<times> nat \<Rightarrow> obuf \<times> nat" where
  "nfc_encode [] cap w = w"
| "nfc_encode (c # cs) cap w = nfc_encode cs cap (fold (put1 cap) (u8_put c 4) w)"

definition hv_to_nfc :: "bytes \<Rightarrow> obuf \<Rightarrow> nat \<Rightarrow> obuf \<times> nat" where
  "hv_to_nfc utf8 dst dstcap =
     (case nfc_decode utf8 ([], 0) of (buf, n) \<Rightarrow>
        (case compose_run (canonical_order buf n) n of (buf, n) \<Rightarrow>
           hv_terminate dstcap (nfc_encode (take n buf) dstcap (dst, 0))))"

text \<open>The two local buffers start with arbitrary bytes.\<close>

definition hv_nfc_equal :: "obuf \<Rightarrow> obuf \<Rightarrow> bytes \<Rightarrow> bytes \<Rightarrow> bool" where
  "hv_nfc_equal na nb a b =
     (let na = fst (hv_to_nfc a na HV_MAXCP); nb = fst (hv_to_nfc b nb HV_MAXCP) in
      c_string na HV_MAXCP = c_string nb HV_MAXCP)"

end
