(* ===== verification/PreludeLists.thy ===== *)
theory PreludeLists
  imports Prelude "HOL-Library.Multiset"
begin

text \<open>
  Stable sorting, shared by the components that insert into a sorted sequence from the right.
\<close>

lemma sort_key_twice: "sort_key f (sort_key f xs) = sort_key f xs"
  by (rule sort_key_id_if_sorted) simp

text \<open>A further element goes behind all that are not larger.\<close>

lemma sort_key_snoc:
  "sort_key f (xs @ [x]) = takeWhile (\<lambda>y. f y \<le> f x) (sort_key f xs) @ x # dropWhile (\<lambda>y. f y \<le> f x) (sort_key f xs)"
proof (rule properties_for_sort_key)
  let ?t = "takeWhile (\<lambda>y. f y \<le> f x) (sort_key f xs)" and ?d = "dropWhile (\<lambda>y. f y \<le> f x) (sort_key f xs)"
  have td: "?t @ ?d = sort_key f xs" by simp
  have s: "sorted (map f ?t @ map f ?d)" by (simp only: map_append [symmetric] td sorted_sort_key)
  have gt: "f x < f y" if "y \<in> set ?d" for y
  proof -
    obtain z zs where z: "?d = z # zs" using \<open>y \<in> set ?d\<close> by (cases ?d) auto
    then have "\<not> f z \<le> f x" using hd_dropWhile [of "\<lambda>y. f y \<le> f x" "sort_key f xs"] by auto
    moreover have "f z \<le> f y" using s that unfolding z by (auto simp: sorted_append)
    ultimately show ?thesis by simp
  qed
  show "mset (?t @ x # ?d) = mset (xs @ [x])"
  proof -
    have "mset ?t + mset ?d = mset xs" by (metis td mset_append mset_sort)
    then show ?thesis by simp
  qed
  show "filter (\<lambda>y. f k = f y) (?t @ x # ?d) = filter (\<lambda>y. f k = f y) (xs @ [x])" if "k \<in> set (?t @ x # ?d)" for k
  proof -
    have st: "filter (\<lambda>y. f k = f y) (sort_key f xs) = filter (\<lambda>y. f k = f y) xs"
      using sort_key_stable [of f "f k" xs] by (simp add: eq_commute)
    have ne: "f k \<noteq> f y" if "f k = f x" "y \<in> set ?d" for y using gt [OF that(2)] that(1) by simp
    have "f k = f x \<Longrightarrow> filter (\<lambda>y. f k = f y) ?d = []" unfolding filter_empty_conv using ne by blast
    moreover have "filter (\<lambda>y. f k = f y) ?t @ filter (\<lambda>y. f k = f y) ?d = filter (\<lambda>y. f k = f y) xs"
      by (simp only: filter_append [symmetric] td st)
    ultimately show ?thesis by (cases "f k = f x") simp_all
  qed
  show "sorted (map f (?t @ x # ?d))"
    using s gt by (auto simp: sorted_append dest: set_takeWhileD intro: less_imp_le)
qed

lemma insort_key_eq: "\<forall>y\<in>set (x # ys). f y = g y \<Longrightarrow> insort_key f x ys = insort_key g x ys"
  by (induction ys) auto

lemma sort_key_eq: "\<forall>y\<in>set xs. f y = g y \<Longrightarrow> sort_key f xs = sort_key g xs"
proof (induction xs)
  case (Cons x xs)
  then show ?case using insort_key_eq [of x "sort_key g xs" f g] by simp
qed simp

end
