(* ===== verification/HvNormOrder.thy ===== *)
theory HvNormOrder
  imports HvNorm PreludeLists
begin

text \<open>
  Canonical ordering as sorting: a text is a run of marks, then starters with their runs, and
  \<open>canonical_order\<close> is the stable sort of every run by combining class.
\<close>

section \<open>Segments\<close>

abbreviation marks :: "u32 list \<Rightarrow> bool" where
  "marks r \<equiv> \<forall>c\<in>set r. ccc_of c \<noteq> 0"

fun segs :: "u32 list \<Rightarrow> u32 list \<times> (u32 \<times> u32 list) list" where
  "segs [] = ([], [])"
| "segs (c # cs) = (case segs cs of (r, ss) \<Rightarrow> if ccc_of c = 0 then ([], (c, r) # ss) else (c # r, ss))"

definition flat :: "u32 list \<times> (u32 \<times> u32 list) list \<Rightarrow> u32 list" where
  "flat p = (case p of (r, ss) \<Rightarrow> r @ concat (map (\<lambda>(s, q). s # q) ss))"

definition seg_ok :: "u32 list \<times> (u32 \<times> u32 list) list \<Rightarrow> bool" where
  "seg_ok p \<longleftrightarrow> (case p of (r, ss) \<Rightarrow> marks r \<and> (\<forall>(s, q)\<in>set ss. ccc_of s = 0 \<and> marks q))"

lemma flat_segs: "flat (segs xs) = xs"
  by (induction xs) (auto simp: flat_def split: prod.splits)

lemma segs_ok: "seg_ok (segs xs)"
  by (induction xs) (auto simp: seg_ok_def split: prod.splits)

lemma segs_marks: "marks r \<Longrightarrow> segs (r @ xs) = (case segs xs of (q, ss) \<Rightarrow> (r @ q, ss))"
  by (induction r) (auto split: prod.splits)

lemma segs_flat: "seg_ok p \<Longrightarrow> segs (flat p) = p"
proof -
  have s: "\<forall>(s, q)\<in>set ss. ccc_of s = 0 \<and> marks q \<Longrightarrow> segs (concat (map (\<lambda>(s, q). s # q) ss)) = ([], ss)" for ss
    by (induction ss) (auto simp: segs_marks)
  obtain r ss where "p = (r, ss)" by force
  then show "seg_ok p \<Longrightarrow> segs (flat p) = p" using s [of ss] by (auto simp: flat_def seg_ok_def segs_marks)
qed

lemma segs_starter: "ccc_of s = 0 \<Longrightarrow>
    segs (xs @ s # ys) = (case segs xs of (r, ss) \<Rightarrow> case segs ys of (q, ts) \<Rightarrow> (r, ss @ (s, q) # ts))"
  by (induction xs) (auto split: prod.splits)

section \<open>The order\<close>

definition sort_segs :: "u32 list \<times> (u32 \<times> u32 list) list \<Rightarrow> u32 list \<times> (u32 \<times> u32 list) list" where
  "sort_segs p = (case p of (r, ss) \<Rightarrow> (sort_key ccc_of r, map (\<lambda>(s, q). (s, sort_key ccc_of q)) ss))"

definition ord :: "u32 list \<Rightarrow> u32 list" where "ord xs = flat (sort_segs (segs xs))"

lemma sort_segs_ok: "seg_ok p \<Longrightarrow> seg_ok (sort_segs p)"
  by (auto simp: seg_ok_def sort_segs_def split: prod.splits)

lemma sort_segs_twice: "sort_segs (sort_segs p) = sort_segs p"
  by (auto simp: sort_segs_def sort_key_twice split: prod.splits)

lemma ord_ord: "ord (ord xs) = ord xs"
  by (simp add: ord_def segs_flat sort_segs_ok segs_ok sort_segs_twice)

lemma ord_marks: "marks r \<Longrightarrow> ord r = sort_key ccc_of r"
  using segs_marks [of r "[]"] by (simp add: ord_def sort_segs_def flat_def)

lemma ord_starter: "ccc_of s = 0 \<Longrightarrow> ord (xs @ s # ys) = ord xs @ s # ord ys"
  by (auto simp: ord_def segs_starter sort_segs_def flat_def split: prod.splits)

lemma mset_ord: "mset (ord xs) = mset xs"
proof -
  have c: "mset (concat (map (\<lambda>(s, q). s # q) (map (\<lambda>(s, q). (s, sort_key ccc_of q)) ss))) =
      mset (concat (map (\<lambda>(s, q). s # q) ss))" for ss
    by (induction ss) auto
  have "mset (ord xs) = mset (flat (segs xs))"
    by (cases "segs xs") (simp add: ord_def sort_segs_def flat_def c [simplified])
  then show ?thesis by (simp add: flat_segs)
qed

lemma set_ord [simp]: "set (ord xs) = set xs" using mset_ord by (rule mset_eq_setD)

lemma length_ord [simp]: "length (ord xs) = length xs" using mset_ord by (rule mset_eq_length)

section \<open>Sinking is insertion\<close>

text \<open>\<open>order_sink\<close> on the reversed prefix.\<close>

fun rsink :: "u32 \<Rightarrow> u32 list \<Rightarrow> u32 list" where
  "rsink x [] = [x]"
| "rsink x (y # ys) = (if ccc_of y = 0 \<or> ccc_of y \<le> ccc_of x then x # y # ys else y # rsink x ys)"

lemma order_sink_rsink: "order_sink (p @ x # q) (length p) (ccc_of x) = rev (rsink x (rev p)) @ q"
proof (induction p arbitrary: q rule: rev_induct)
  case (snoc y p)
  have "((p @ [y]) @ x # q)[Suc (length p) := y, length p := x] = p @ x # y # q"
    by (simp add: list_update_append)
  with snoc [of "y # q"] show ?case by (simp add: Let_def nth_append)
qed simp

lemma rsink_starter: "marks q \<Longrightarrow> ccc_of s = 0 \<Longrightarrow> rsink x (rev q @ s # p) = rsink x (rev q) @ s # p"
proof -
  have "marks q \<Longrightarrow> ccc_of s = 0 \<Longrightarrow> rsink x (q @ s # p) = rsink x q @ s # p" for q
    by (induction q) auto
  from this [of "rev q"] show "marks q \<Longrightarrow> ccc_of s = 0 \<Longrightarrow> rsink x (rev q @ s # p) = rsink x (rev q) @ s # p" by simp
qed

lemma rsink_sorted:
  "marks ys \<Longrightarrow> sorted (map ccc_of ys) \<Longrightarrow>
   rev (rsink x (rev ys)) = takeWhile (\<lambda>y. ccc_of y \<le> ccc_of x) ys @ x # dropWhile (\<lambda>y. ccc_of y \<le> ccc_of x) ys"
proof (induction ys rule: rev_induct)
  case (snoc y ys)
  let ?P = "\<lambda>y. ccc_of y \<le> ccc_of x"
  show ?case
  proof (cases "?P y")
    case True
    then have "\<forall>z\<in>set (ys @ [y]). ?P z" using snoc.prems(2) by (auto simp: sorted_append)
    then have "takeWhile ?P (ys @ [y]) = ys @ [y]" "dropWhile ?P (ys @ [y]) = []"
      by (simp_all only: takeWhile_eq_all_conv dropWhile_eq_Nil_conv) 
    then show ?thesis using True by simp
  next
    case False
    have "takeWhile ?P (ys @ [y]) = takeWhile ?P ys" "dropWhile ?P (ys @ [y]) = dropWhile ?P ys @ [y]"
      using False by (induction ys) auto
    then show ?thesis using snoc False by (simp add: sorted_append)
  qed
qed simp

lemma run_split: obtains "marks xs" | p s q where "xs = p @ s # q" "ccc_of s = 0" "marks q"
proof (cases "\<exists>s\<in>set xs. ccc_of s = 0")
  case True
  then show thesis using split_list_last_prop [of xs "\<lambda>s. ccc_of s = 0"] that(2) by metis
qed (use that(1) in auto)

lemma ord_snoc: "ord (xs @ [x]) = (if ccc_of x = 0 then ord xs @ [x] else rev (rsink x (rev (ord xs))))"
proof (cases "ccc_of x = 0")
  case True
  then show ?thesis using ord_starter [of x xs "[]"] by (simp add: ord_marks)
next
  case False
  have r: "rev (rsink x (rev (sort_key ccc_of q))) = sort_key ccc_of (q @ [x])" if "marks q" for q
    using that by (simp add: rsink_sorted sort_key_snoc)
  show ?thesis
  proof (cases rule: run_split [of xs])
    case 1
    then show ?thesis using False r [OF 1] ord_marks [of "xs @ [x]"] by (simp add: ord_marks)
  next
    case (2 p s q)
    have "ord (xs @ [x]) = ord p @ s # sort_key ccc_of (q @ [x])"
      using 2 False ord_starter [of s p "q @ [x]"] ord_marks [of "q @ [x]"] by simp
    moreover have "rev (rsink x (rev (ord xs))) = ord p @ s # rev (rsink x (rev (sort_key ccc_of q)))"
      using 2 rsink_starter [of "sort_key ccc_of q" s x "rev (ord p)"] by (simp add: ord_starter ord_marks)
    ultimately show ?thesis using False r [OF 2(3)] by simp
  qed
qed

lemma canonical_order_ord: "canonical_order xs (length xs) = ord xs"
proof -
  let ?f = "\<lambda>i xs. let cci = ccc_of (xs ! i) in if cci = 0 then xs else order_sink xs i cci"
  have step: "?f (length p) (ord p @ x # q) = ord (p @ [x]) @ q" for p x q
    using order_sink_rsink [of "ord p" x q] by (auto simp: ord_snoc Let_def nth_append)
  have "i \<le> length xs \<Longrightarrow> 0 < i \<Longrightarrow> fold ?f [1..<i] xs = ord (take i xs) @ drop i xs" for i
  proof (induction i)
    case (Suc i)
    show ?case
    proof (cases "i = 0")
      case True
      have "xs = hd xs # drop 1 xs" using Suc.prems by (cases xs) auto
      moreover have "ord [x] = [x]" for x using ord_snoc [of "[]" x] by (cases "ccc_of x = 0") (simp_all add: ord_marks)
      ultimately show ?thesis using True Suc.prems by (cases xs) auto
    next
      case False
      then have u: "[1..<Suc i] = [1..<i] @ [i]" by simp
      have "fold ?f [1..<Suc i] xs = ?f i (fold ?f [1..<i] xs)"
        unfolding u by (simp only: fold_append comp_def fold.simps id_apply)
      also have "fold ?f [1..<i] xs = ord (take i xs) @ drop i xs"
        by (rule Suc.IH) (use Suc.prems False in simp_all)
      also have "drop i xs = xs ! i # drop (Suc i) xs" using Suc.prems by (simp add: Cons_nth_drop_Suc)
      also have "?f i (ord (take i xs) @ xs ! i # drop (Suc i) xs) = ord (take i xs @ [xs ! i]) @ drop (Suc i) xs"
        using step [of "take i xs" "xs ! i" "drop (Suc i) xs"] Suc.prems by (simp only: length_take min_absorb2 Suc_leD)
      finally show ?thesis using Suc.prems by (simp add: take_Suc_conv_app_nth)
    qed
  qed simp
  from this [of "length xs"] show ?thesis by (cases "xs = []") (simp_all add: canonical_order_def ord_marks)
qed

end
