(* ===== verification/HvNormProps.thy ===== *)
theory HvNormProps
  imports HvNormOrder
begin

text \<open>
  The composition of a normalised text, the whole pipeline as one function of the code points,
  and what follows: normalising twice is normalising once, and \<open>hv_nfc_equal\<close> is equality of
  the canonical decompositions.
\<close>

section \<open>Composition of a segment\<close>

text \<open>A starter with the marks that are left; \<open>lst\<close> is the class of the last mark left.\<close>

fun seg :: "u32 \<Rightarrow> u8 \<Rightarrow> u32 list \<Rightarrow> u32 \<times> u32 list" where
  "seg s lst [] = (s, [])"
| "seg s lst (c # q) =
     (case (if lst \<noteq> 0 \<and> lst \<ge> ccc_of c then None else compose1 s c) of
        Some k \<Rightarrow> seg k lst q
      | None \<Rightarrow> (case seg s (ccc_of c) q of (s', q') \<Rightarrow> (s', c # q')))"

definition comp_segs :: "(u32 \<times> u32 list) list \<Rightarrow> (u32 \<times> u32 list) list" where
  "comp_segs ss = map (\<lambda>(s, q). seg s 0 q) ss"

definition compose_text :: "u32 list \<Rightarrow> u32 list" where
  "compose_text xs = (case segs xs of (r, ss) \<Rightarrow> flat (r, comp_segs ss))"

lemma compose1_facts:
  assumes "compose1 s c = Some k"
  shows "ccc_of c \<noteq> 0" "ccc_of k = 0" "compose1 k x = None" "decompose1 k = Some (s, c)"
proof -
  have d: "decompose1 k = Some (s, c)" using assms by (rule compose1_decomposes)
  show "ccc_of c \<noteq> 0" "ccc_of k = 0" "decompose1 k = Some (s, c)"
    using decompose1_facts(1,3) [OF d] d by auto
  show "compose1 k x = None"
  proof (cases "compose1 k x")
    case (Some l)
    then show ?thesis using decompose1_facts(4) [OF compose1_decomposes] d by fastforce
  qed
qed

lemma flat_simps: "flat (c # r, ss) = c # flat (r, ss)" "flat ([], (s, q) # ss) = s # flat (q, ss)" "flat ([], []) = []"
  "flat (r @ q, ss) = r @ flat (q, ss)"
  by (simp_all add: flat_def)

lemma comp_segs_simps: "comp_segs [] = []" "comp_segs ((s, q) # ss) = seg s 0 q # comp_segs ss"
  by (simp_all add: comp_segs_def)

section \<open>The loop composes segment by segment\<close>

text \<open>The array from \<open>i\<close> on is what is left to read, the array below \<open>cr_out\<close> what was written.\<close>

definition state_at :: "compose_state \<Rightarrow> nat \<Rightarrow> u32 list \<Rightarrow> u32 list \<Rightarrow> bool" where
  "state_at t i written rest \<longleftrightarrow>
     length written = cr_out t \<and> cr_out t \<le> i \<and> take (cr_out t) (cr_array t) = written \<and> drop i (cr_array t) = rest \<and>
     i + length rest = length (cr_array t)"

lemma state_at_next:
  assumes "state_at t i w (c # rest)"
  shows "cr_array t ! i = c"
    and "state_at (t\<lparr>cr_array := (cr_array t)[cr_out t := c], cr_out := cr_out t + 1\<rparr>) (Suc i) (w @ [c]) rest"
    and "k < length w \<Longrightarrow> state_at (t\<lparr>cr_array := (cr_array t)[k := x]\<rparr>) (Suc i) (w[k := x]) rest"
    and "k < length w \<Longrightarrow> cr_array t ! k = w ! k"
proof -
  have s: "length w = cr_out t" "cr_out t \<le> i" "take (cr_out t) (cr_array t) = w" "drop i (cr_array t) = c # rest"
    "i < length (cr_array t)" "Suc i + length rest = length (cr_array t)"
    using assms by (auto simp: state_at_def)
  then have d: "drop (Suc i) (cr_array t) = rest" by (metis drop_Suc list.sel(3) tl_drop)
  show "cr_array t ! i = c" using s(4,5) by (metis Cons_nth_drop_Suc list.inject)
  show "state_at (t\<lparr>cr_array := (cr_array t)[cr_out t := c], cr_out := cr_out t + 1\<rparr>) (Suc i) (w @ [c]) rest"
    using s d by (simp add: state_at_def take_Suc_conv_app_nth)
  show "k < length w \<Longrightarrow> state_at (t\<lparr>cr_array := (cr_array t)[k := x]\<rparr>) (Suc i) (w[k := x]) rest"
    using s d by (simp add: state_at_def take_update_swap)
  show "k < length w \<Longrightarrow> cr_array t ! k = w ! k" using s(1,3) by (metis nth_take)
qed

lemma upt_rest: "state_at t i w (c # rest) \<Longrightarrow> [i..<length (cr_array t)] = i # [Suc i..<length (cr_array t)]"
  by (rule upt_conv_Cons) (auto simp: state_at_def)

lemma compose_loop:
  "state_at t i (p @ s # ms) rest \<Longrightarrow> cr_have t \<Longrightarrow> cr_starter t = length p \<Longrightarrow>
   \<exists>t'. fold compose_step [i..<length (cr_array t)] t = t' \<and>
     take (cr_out t') (cr_array t') = p @ (case segs rest of (r, ss) \<Rightarrow> case seg s (cr_last t) r of (s', q') \<Rightarrow>
       s' # ms @ flat (q', comp_segs ss))"
proof (induction rest arbitrary: t i p s ms)
  case Nil
  then show ?case by (auto simp: state_at_def flat_simps comp_segs_simps)
next
  case (Cons c rest)
  note n = state_at_next [OF Cons.prems(1)]
  obtain r ss where rs: "segs rest = (r, ss)" by force
  have s: "cr_array t ! cr_starter t = s" using n(4) [of "length p"] Cons.prems(3) by (simp add: nth_append)
  show ?case
  proof (cases "if cr_last t \<noteq> 0 \<and> cr_last t \<ge> ccc_of c then None else compose1 s c")
    case (Some k)
    let ?t = "t\<lparr>cr_array := (cr_array t)[length p := k]\<rparr>"
    have k: "compose1 s c = Some k" "\<not> (cr_last t \<noteq> 0 \<and> cr_last t \<ge> ccc_of c)" using Some by (auto split: if_splits)
    have st: "compose_step i t = ?t" using n(1) s k Cons.prems(2,3) by (auto simp: compose_step_def Let_def)
    have at: "state_at ?t (Suc i) (p @ k # ms) rest" using n(3) [of "length p" k] by (simp add: list_update_append)
    show ?thesis
      using Cons.IH [OF at] Cons.prems(2,3) k compose1_facts(1) [OF k(1)] rs st
      by (auto simp: upt_rest [OF Cons.prems(1)])
  next
    case None
    let ?w = "t\<lparr>cr_array := (cr_array t)[cr_out t := c], cr_out := cr_out t + 1\<rparr>"
    show ?thesis
    proof (cases "ccc_of c = 0")
      case True
      have "compose1 s c = None" using True compose1_facts(1) [of s c] by (cases "compose1 s c") auto
      then have st: "compose_step i t = ?w\<lparr>cr_have := True, cr_starter := cr_out t, cr_last := 0\<rparr>"
        using n(1) s True Cons.prems(2) by (auto simp: compose_step_def Let_def)
      have at: "state_at (?w\<lparr>cr_have := True, cr_starter := cr_out t, cr_last := 0\<rparr>) (Suc i) ((p @ s # ms) @ [c]) rest"
        using n(2) by (simp add: state_at_def)
      have out: "cr_out t = length (p @ s # ms)" using Cons.prems(1) by (simp add: state_at_def)
      show ?thesis
        using Cons.IH [OF at] True rs st out
        by (simp add: upt_rest [OF Cons.prems(1)] flat_simps comp_segs_simps split: prod.splits)
    next
      case False
      have st: "compose_step i t = ?w\<lparr>cr_last := ccc_of c\<rparr>"
        using n(1) s False None Cons.prems(2,3) by (auto simp: compose_step_def Let_def split: if_splits)
      have at: "state_at (?w\<lparr>cr_last := ccc_of c\<rparr>) (Suc i) (p @ s # (ms @ [c])) rest"
        using n(2) by (simp add: state_at_def)
      show ?thesis
        using Cons.IH [OF at] Cons.prems(2,3) False None rs st
        by (simp add: upt_rest [OF Cons.prems(1)] flat_simps split: prod.splits)
    qed
  qed
qed

lemma compose_head:
  "state_at t i w rest \<Longrightarrow> \<not> cr_have t \<Longrightarrow>
   \<exists>t'. fold compose_step [i..<length (cr_array t)] t = t' \<and>
     take (cr_out t') (cr_array t') = w @ compose_text rest"
proof (induction rest arbitrary: t i w)
  case Nil
  then show ?case by (auto simp: state_at_def compose_text_def flat_simps comp_segs_simps)
next
  case (Cons c rest)
  note n = state_at_next [OF Cons.prems(1)]
  obtain r ss where rs: "segs rest = (r, ss)" by force
  let ?w = "t\<lparr>cr_array := (cr_array t)[cr_out t := c], cr_out := cr_out t + 1\<rparr>"
  show ?case
  proof (cases "ccc_of c = 0")
    case True
    let ?t = "?w\<lparr>cr_have := True, cr_starter := cr_out t, cr_last := 0\<rparr>"
    have st: "compose_step i t = ?t" using n(1) True Cons.prems(2) by (auto simp: compose_step_def Let_def)
    have at: "state_at ?t (Suc i) (w @ c # []) rest" using n(2) by (simp add: state_at_def)
    have out: "cr_out t = length w" using Cons.prems(1) by (simp add: state_at_def)
    show ?thesis
      using compose_loop [OF at] True rs st out
      by (simp add: upt_rest [OF Cons.prems(1)] compose_text_def flat_simps comp_segs_simps split: prod.splits)
  next
    case False
    have st: "compose_step i t = ?w\<lparr>cr_last := ccc_of c\<rparr>"
      using n(1) False Cons.prems(2) by (auto simp: compose_step_def Let_def)
    have at: "state_at (?w\<lparr>cr_last := ccc_of c\<rparr>) (Suc i) (w @ [c]) rest" using n(2) by (simp add: state_at_def)
    show ?thesis
      using Cons.IH [OF at] Cons.prems(2) False rs st
      by (simp add: upt_rest [OF Cons.prems(1)] compose_text_def flat_simps)
  qed
qed

lemma compose_run_text:
  assumes "compose_run xs (length xs) = (ys, k)" shows "take k ys = compose_text xs"
proof (cases xs)
  case Nil
  then show ?thesis using assms by (simp add: compose_run_def compose_text_def flat_simps comp_segs_simps)
next
  case (Cons c rest)
  let ?t = "\<lparr>cr_array = xs, cr_out = 1, cr_starter = 0, cr_have = (ccc_of c = 0), cr_last = ccc_of c\<rparr>"
  have at: "state_at ?t 1 [c] rest" using Cons by (simp add: state_at_def)
  have r: "fold compose_step [1..<length (cr_array ?t)] ?t = t' \<Longrightarrow> ys = cr_array t' \<and> k = cr_out t'" for t'
    using assms Cons by (auto simp: compose_run_def Let_def)
  obtain q ss where rs: "segs rest = (q, ss)" by force
  show ?thesis
  proof (cases "ccc_of c = 0")
    case True
    have at: "state_at ?t 1 ([] @ c # []) rest" using at by simp
    show ?thesis using compose_loop [OF at] r True rs Cons
      by (auto simp: compose_text_def flat_simps comp_segs_simps split: prod.splits)
  next
    case False
    show ?thesis using compose_head [OF at] r False rs Cons by (auto simp: compose_text_def flat_simps)
  qed
qed

section \<open>Decomposing a composed text\<close>

definition expand :: "u32 \<Rightarrow> u32 list" where
  "expand c = (case decompose1 c of Some (a, b) \<Rightarrow> [a, b] | None \<Rightarrow> [c])"

definition decomp :: "u32 list \<Rightarrow> u32 list" where "decomp cs = concat (map expand cs)"

abbreviation atoms :: "u32 list \<Rightarrow> bool" where
  "atoms xs \<equiv> \<forall>c\<in>set xs. decompose1 c = None"

lemma decomp_simps [simp]: "decomp [] = []" "decomp (c # cs) = expand c @ decomp cs" "decomp (xs @ ys) = decomp xs @ decomp ys"
  by (simp_all add: decomp_def)

lemma decomp_atoms: "atoms xs \<Longrightarrow> decomp xs = xs"
  by (induction xs) (simp_all add: expand_def)

lemma atoms_decomp: "atoms (decomp xs)"
  by (induction xs) (auto simp: expand_def split: option.splits dest: decompose1_facts)

text \<open>A sorted run gives at most one mark to its starter, and every mark before it is of a lower
  class.\<close>

lemma seg_sorted:
  "marks q \<Longrightarrow> sorted (map ccc_of q) \<Longrightarrow> seg s lst q = (s', q') \<Longrightarrow> \<forall>x\<in>set q. lst \<le> ccc_of x \<Longrightarrow>
   s' = s \<and> q' = q \<or> (\<exists>u m v. q = u @ m # v \<and> q' = u @ v \<and> compose1 s m = Some s' \<and>
     (\<forall>x\<in>set u. ccc_of x < ccc_of m) \<and> (lst \<noteq> 0 \<longrightarrow> lst < ccc_of m))"
proof (induction q arbitrary: lst q')
  case (Cons c q)
  have dead: "seg k l q = (k, q)" if "compose1 s c = Some k" for k l
  proof -
    have "compose1 k x = None" for x using compose1_facts(3) [OF that] .
    then show ?thesis by (induction q arbitrary: l) auto
  qed
  show ?case
  proof (cases "if lst \<noteq> 0 \<and> lst \<ge> ccc_of c then None else compose1 s c")
    case (Some k)
    then have k: "compose1 s c = Some k" "lst \<noteq> 0 \<longrightarrow> lst < ccc_of c" by (auto split: if_splits)
    then have "s' = k" "q' = q" using Cons.prems(3) Some dead [OF k(1)] by auto
    then show ?thesis using k by (intro disjI2 exI [of _ "[]"]) auto
  next
    case None
    obtain q2 where q2: "seg s (ccc_of c) q = (s', q2)" "q' = c # q2"
      using Cons.prems(3) None by (auto split: prod.splits)
    have c: "ccc_of c \<noteq> 0" using Cons.prems(1) by simp
    from Cons.IH [OF _ _ q2(1)] Cons.prems(1,2)
    consider "s' = s" "q2 = q" | u m v where "q = u @ m # v" "q2 = u @ v" "compose1 s m = Some s'"
      "\<forall>x\<in>set u. ccc_of x < ccc_of m" "ccc_of c < ccc_of m" using c by auto
    then show ?thesis
    proof cases
      case (2 u m v)
      have "lst < ccc_of m" using 2(5) Cons.prems(4) by auto
      then show ?thesis using 2 q2(2) by (intro disjI2 exI [of _ "c # u"]) auto
    qed (use q2(2) in simp)
  qed
qed simp

lemma seg_decomposes:
  assumes "marks q" "sorted (map ccc_of q)" "decompose1 s = None" "atoms q" "seg s 0 q = (s', q')"
  obtains x where "expand s' @ q' = s # x" "marks x" "sort_key ccc_of x = q" "ccc_of s' = 0 \<or> s' = s" "atoms q'"
proof -
  have ge: "\<forall>x\<in>set q. 0 \<le> ccc_of x" by simp
  from seg_sorted [OF assms(1,2,5) ge]
  consider "s' = s" "q' = q" | u m v where "q = u @ m # v" "q' = u @ v" "compose1 s m = Some s'"
    "\<forall>x\<in>set u. ccc_of x < ccc_of m" by blast
  then show thesis
  proof cases
    case 1
    then show thesis using assms by (intro that [of q]) (simp_all add: expand_def sort_key_id_if_sorted)
  next
    case (2 u m v)
    have sv: "sorted (map ccc_of (u @ v))" "\<forall>y\<in>set v. ccc_of m \<le> ccc_of y"
      using assms(2) 2(1) by (auto simp: sorted_append)
    have "insort_key ccc_of m (u @ v) = u @ m # v"
      using 2(4) sv(2) by (induction u) (auto simp: insort_is_Cons)
    then have "sort_key ccc_of (m # u @ v) = q" using sv(1) 2(1) by (simp add: sort_key_id_if_sorted)
    then show thesis
      using assms(1,4) 2 compose1_facts [OF 2(3)] by (intro that [of "m # u @ v"]) (auto simp: expand_def)
  qed
qed

lemma ord_sorted: "segs xs = (r, ss) \<Longrightarrow> ord xs = xs \<Longrightarrow>
    sort_key ccc_of r = r \<and> (\<forall>(s, q)\<in>set ss. sort_key ccc_of q = q)"
proof -
  assume s: "segs xs = (r, ss)" "ord xs = xs"
  have "sort_segs (r, ss) = segs (ord xs)" using s(1) by (simp add: ord_def segs_flat sort_segs_ok segs_ok [of xs, unfolded s(1)])
  then have "sort_segs (r, ss) = (r, ss)" using s by simp
  then have m: "sort_key ccc_of r = r" "map (\<lambda>(s, q). (s, sort_key ccc_of q)) ss = map (\<lambda>x. x) ss"
    by (simp_all add: sort_segs_def)
  from m(2) have "\<forall>p\<in>set ss. (\<lambda>(s, q). (s, sort_key ccc_of q)) p = p" by (simp only: map_eq_conv)
  then show ?thesis using m(1) by auto
qed

lemma ord_flat: "seg_ok p \<Longrightarrow> ord (flat p) = flat (sort_segs p)"
  by (simp add: ord_def segs_flat)

text \<open>Composing a canonically decomposed text keeps its canonical decomposition.\<close>

lemma decompose_compose:
  assumes "atoms xs" "ord xs = xs" shows "ord (decomp (compose_text xs)) = xs"
proof -
  obtain r ss where rs: "segs xs = (r, ss)" by force
  have ok: "marks r" "\<forall>(s, q)\<in>set ss. ccc_of s = 0 \<and> marks q" using segs_ok [of xs] rs by (auto simp: seg_ok_def)
  have xs: "xs = flat (r, ss)" using flat_segs [of xs] rs by simp
  then have at: "atoms r" "\<forall>(s, q)\<in>set ss. decompose1 s = None \<and> atoms q" using assms(1) by (auto simp: flat_def)
  have so: "sort_key ccc_of r = r" "\<forall>(s, q)\<in>set ss. sort_key ccc_of q = q" using ord_sorted [OF rs assms(2)] by auto
  have "\<exists>tt. decomp (flat ([], comp_segs ss)) = flat ([], tt) \<and> (\<forall>(s, q)\<in>set tt. ccc_of s = 0 \<and> marks q) \<and>
      map (\<lambda>(s, q). (s, sort_key ccc_of q)) tt = ss"
    using ok(2) at(2) so(2)
  proof (induction ss)
    case (Cons a ss)
    obtain s q where a: "a = (s, q)" by force
    obtain s' q' where s': "seg s 0 q = (s', q')" by force
    have q: "marks q" "sorted (map ccc_of q)" "decompose1 s = None" "atoms q" "ccc_of s = 0"
      using Cons.prems a sorted_sort_key [of ccc_of q] by auto
    obtain x where x: "expand s' @ q' = s # x" "marks x" "sort_key ccc_of x = q" "atoms q'"
      using seg_decomposes [OF q(1-4) s'] by metis
    obtain tt where "decomp (flat ([], comp_segs ss)) = flat ([], tt)" "\<forall>(s, q)\<in>set tt. ccc_of s = 0 \<and> marks q"
      "map (\<lambda>(s, q). (s, sort_key ccc_of q)) tt = ss" using Cons by auto
    then show ?case
      using x q(5) a s' by (intro exI [of _ "(s, x) # tt"]) (simp add: comp_segs_simps flat_def decomp_atoms)
  qed (auto simp: flat_simps comp_segs_simps)
  then obtain tt where tt: "decomp (flat ([], comp_segs ss)) = flat ([], tt)" "\<forall>(s, q)\<in>set tt. ccc_of s = 0 \<and> marks q"
    "map (\<lambda>(s, q). (s, sort_key ccc_of q)) tt = ss" by blast
  have "decomp (compose_text xs) = flat (r, tt)"
    using tt(1) at(1) rs by (simp add: compose_text_def flat_def decomp_atoms)
  moreover have "seg_ok (r, tt)" using ok(1) tt(2) by (simp add: seg_ok_def)
  ultimately show ?thesis using so(1) tt(3) xs by (simp add: ord_flat sort_segs_def)
qed

section \<open>The pipeline\<close>

lemma decomp_stores:
  assumes "length buf < cap"
  shows "decomp_recursive c (buf, length buf) cap = (take cap (buf @ expand c), length buf + length (expand c))"
proof (cases "decompose1 c")
  case None
  then show ?thesis using assms by (simp add: decomp_recursive.simps [of c] expand_def)
next
  case (Some ab)
  obtain a b where ab: "ab = (a, b)" by force
  have n: "decompose1 a = None" "decompose1 b = None" using decompose1_facts(4,5) [of c a b] Some ab by simp_all
  have l: "decomp_recursive a (buf, length buf) cap = (buf @ [a], Suc (length buf))"
    using n assms by (simp add: decomp_recursive.simps [of a])
  show ?thesis
    using assms n l Some ab by (auto simp: decomp_recursive.simps [of c] decomp_recursive.simps [of b] expand_def take_Cons')
qed

lemma nfc_decode_text:
  "length buf < HV_MAXCP \<Longrightarrow> nfc_decode s (buf, length buf) =
     (let t = take HV_MAXCP (buf @ decomp (u8_points s)) in (t, length t))"
proof (induction s arbitrary: buf rule: length_induct)
  case (1 s)
  show ?case
  proof (cases s)
    case (Cons c0 r)
    obtain c r' where c: "u8_next c0 r = (c, r')" by force
    have sh: "length r' < length s" using u8_next_shorter [of c r' c0 r] c Cons by simp
    show ?thesis
    proof (cases "length (buf @ expand c) < HV_MAXCP")
      case True
      then have "nfc_decode s (buf, length buf) = nfc_decode r' (buf @ expand c, length (buf @ expand c))"
        using Cons c decomp_stores [OF "1.prems", of c] by simp
      then show ?thesis using "1.IH" [rule_format, OF sh True] Cons c by simp
    next
      case False
      then show ?thesis using Cons c decomp_stores [OF "1.prems", of c] by (simp add: Let_def)
    qed
  qed (use "1.prems" in simp)
qed

lemma nfc_encode_text: "nfc_encode cs cap w = fold (put1 cap) (utf8_text cs) w"
  by (induction cs cap w rule: nfc_encode.induct) (simp_all add: u8_put_def utf8_of_def)

definition nfd :: "bytes \<Rightarrow> u32 list" where
  "nfd s = ord (take HV_MAXCP (decomp (u8_points s)))"

text \<open>What \<open>hv_to_nfc\<close> writes.\<close>

lemma to_nfc_writes: "hv_to_nfc s dst cap = c_out dst cap (utf8_text (compose_text (nfd s)))"
proof -
  define t where "t = take HV_MAXCP (decomp (u8_points s))"
  have d: "nfc_decode s ([], 0) = (t, length t)"
    using nfc_decode_text [of "[]" s] by (simp add: HV_MAXCP_def t_def Let_def)
  have n: "nfd s = ord t" "length (nfd s) = length t" by (simp_all add: nfd_def t_def)
  obtain ys k where r: "compose_run (nfd s) (length (nfd s)) = (ys, k)" by force
  then have "hv_to_nfc s dst cap = hv_terminate cap (nfc_encode (take k ys) cap (dst, 0))"
    by (simp add: hv_to_nfc_def d canonical_order_ord n)
  then show ?thesis by (simp add: compose_run_text [OF r] nfc_encode_text terminated)
qed

section \<open>Code points\<close>

lemma u8_next_cases:
  "u8_next c0 s = (ucast c0, s) \<or> (\<exists>n x l c. n \<noteq> 0 \<and> u8_more n s 0 x = Some c \<and> 0x80 \<le> l \<and> \<not> c < l \<and> scalar c \<and>
     u8_next c0 s = (c, drop n s))"
proof -
  let ?sel = "if c0 AND 0xE0 = 0xC0 then Some (1, c0 AND 0x1F, 0x80)
    else if c0 AND 0xF0 = 0xE0 then Some (2, c0 AND 0x0F, 0x800)
    else if c0 AND 0xF8 = 0xF0 then Some (3, c0 AND 0x07, 0x10000) else None :: (nat \<times> u8 \<times> u32) option"
  have def: "u8_next c0 s = (if c0 < 0x80 then (ucast c0, s) else (case ?sel of None \<Rightarrow> (ucast c0, s)
    | Some (n, c, least) \<Rightarrow> (case u8_more n s 0 (ucast c) of None \<Rightarrow> (ucast c0, s)
      | Some c \<Rightarrow> if c < least \<or> c > 0x10FFFF \<or> c \<ge> 0xD800 \<and> c \<le> 0xDFFF then (ucast c0, s) else (c, drop n s))))"
    by (rule u8_next_def)
  show ?thesis
  proof (cases ?sel)
    case None
    then show ?thesis unfolding def by simp
  next
    case (Some t)
    obtain n x l where t: "t = (n, x, l)" by (metis prod_cases3)
    have n: "n \<noteq> 0" "0x80 \<le> l" using Some t by (auto split: if_splits)
    show ?thesis
    proof (cases "u8_more n s 0 (ucast x)")
      case None
      then show ?thesis unfolding def Some t by simp
    next
      case m: (Some c)
      then show ?thesis unfolding def Some t using n by (auto simp: scalar_def not_less)
    qed
  qed
qed

lemma u8_next_facts:
  assumes "u8_next c0 s = (c, s')" "0 \<notin> set (c0 # s)"
  shows "scalar c" "c \<noteq> 0" "set s' \<subseteq> set s" "c = ucast c0 \<or> length s' < length s"
proof -
  have b: "scalar (ucast c0)" "(ucast c0 :: u32) \<noteq> 0"
    using assms(2) byte_scalar [of c0] narrow_byte [of c0] by (auto simp del: narrow_byte)
  have m: "char_at s 0 AND 0xC0 = 0x80" if "u8_more n s 0 x = Some y" "n \<noteq> 0" for n x y
    using that by (cases n) (auto split: if_splits)
  have ne: "s \<noteq> []" if "char_at s 0 AND 0xC0 = 0x80" using that by (auto simp: char_at_def)
  consider "c = ucast c0" "s' = s" | n x l where "n \<noteq> 0" "u8_more n s 0 x = Some c" "0x80 \<le> l" "\<not> c < l"
    "scalar c" "s' = drop n s"
    using u8_next_cases [of c0 s] unfolding assms(1) prod.inject by blast
  then have "scalar c \<and> c \<noteq> 0 \<and> set s' \<subseteq> set s \<and> (c = ucast c0 \<or> length s' < length s)"
  proof cases
    case (2 n x l)
    have "s \<noteq> []" using ne m [OF 2(2,1)] by blast
    moreover have "c \<noteq> 0" using 2(3,4) by (auto simp: word_le_nat_alt word_less_nat_alt)
    ultimately show ?thesis using 2 by (auto dest: in_set_dropD)
  qed (use b in auto)
  then show "scalar c" "c \<noteq> 0" "set s' \<subseteq> set s" "c = ucast c0 \<or> length s' < length s" by blast+
qed

abbreviation letters :: "u32 list \<Rightarrow> bool" where
  "letters xs \<equiv> \<forall>c\<in>set xs. scalar c \<and> c \<noteq> 0"

lemma u8_points_letters: "0 \<notin> set s \<Longrightarrow> letters (u8_points s)"
proof (induction s rule: length_induct)
  case (1 s)
  show ?case
  proof (cases s)
    case (Cons c0 r)
    obtain c r' where c: "u8_next c0 r = (c, r')" by force
    have z: "0 \<notin> set (c0 # r)" using 1(2) Cons by simp
    have "length r' < length s" "0 \<notin> set r'"
      using u8_next_shorter [of c r' c0 r] c Cons u8_next_facts(3) [OF c z] z by auto
    then show ?thesis using 1(1) c Cons u8_next_facts(1,2) [OF c z] by auto
  qed simp
qed

lemma low_letter: "0x41 \<le> unat c \<Longrightarrow> unat c < 0x330 \<Longrightarrow> scalar c \<and> c \<noteq> 0"
  by (auto simp: scalar_def word_le_nat_alt)

lemma expand_letters: "scalar c \<Longrightarrow> c \<noteq> 0 \<Longrightarrow> letters (expand c)"
proof (cases "decompose1 c")
  case (Some ab)
  obtain a b where "ab = (a, b)" by force
  then show ?thesis using Some decompose1_facts [of c a b] low_letter [of a] low_letter [of b] by (simp add: expand_def)
qed (simp add: expand_def)

lemma decomp_letters: "letters xs \<Longrightarrow> letters (decomp xs)"
  by (induction xs) (use expand_letters in auto)

lemma composed_letter: "compose1 s c = Some k \<Longrightarrow> scalar k \<and> k \<noteq> 0"
  using decompose1_facts(6,7) [OF compose1_decomposes] low_letter [of k] by force

lemma seg_letters: "scalar s \<and> s \<noteq> 0 \<Longrightarrow> letters q \<Longrightarrow> seg s lst q = (s', q') \<Longrightarrow> letters (s' # q')"
proof (induction q arbitrary: s lst q')
  case (Cons c q)
  show ?case
  proof (cases "if lst \<noteq> 0 \<and> lst \<ge> ccc_of c then None else compose1 s c")
    case None
    then obtain q2 where "seg s (ccc_of c) q = (s', q2)" "q' = c # q2" using Cons.prems(3) by (auto split: prod.splits)
    then show ?thesis using Cons.IH [of s "ccc_of c" q2] Cons.prems(1,2) by simp
  next
    case (Some k)
    then have "compose1 s c = Some k" by (simp split: if_splits)
    then have k: "scalar k \<and> k \<noteq> 0" by (rule composed_letter)
    have "seg k lst q = (s', q')" using Cons.prems(3) Some by simp
    then show ?thesis using Cons.IH [OF k, of lst q'] Cons.prems(2) by simp
  qed
qed simp

lemma flat_letters: "letters (flat (r, ss)) \<longleftrightarrow> letters r \<and> (\<forall>(s, q)\<in>set ss. letters (s # q))"
  by (induction ss) (simp_all add: flat_def ball_Un split_beta conj_ac)

lemma compose_letters: "letters xs \<Longrightarrow> letters (compose_text xs)"
proof -
  obtain r ss where rs: "segs xs = (r, ss)" by force
  assume "letters xs"
  then have f: "letters r" "\<forall>(s, q)\<in>set ss. letters (s # q)" using flat_segs [of xs] rs flat_letters [of r ss] by simp_all
  have "letters (s' # q')" if p: "(s', q') \<in> set (comp_segs ss)" for s' q'
  proof -
    obtain s q where s: "(s, q) \<in> set ss" "seg s 0 q = (s', q')" using p by (auto simp: comp_segs_def)
    then have "scalar s \<and> s \<noteq> 0" "letters q" using f(2) by auto
    then show ?thesis using s(2) by (rule seg_letters)
  qed
  then have "\<forall>(s, q)\<in>set (comp_segs ss). letters (s # q)" by blast
  then show ?thesis using f(1) rs by (simp add: compose_text_def flat_letters)
qed

lemma nfd_facts: "atoms (nfd s)" "ord (nfd s) = nfd s" "0 \<notin> set s \<Longrightarrow> letters (nfd s)"
proof -
  let ?t = "take HV_MAXCP (decomp (u8_points s))"
  have sub: "set ?t \<subseteq> set (decomp (u8_points s))" by (rule set_take_subset)
  show "atoms (nfd s)" "ord (nfd s) = nfd s" using sub atoms_decomp by (auto simp: nfd_def ord_ord)
  show "letters (nfd s)" if "0 \<notin> set s"
    using sub decomp_letters [OF u8_points_letters [OF that]] by (auto simp: nfd_def)
qed

lemma nfd_of_nfc: "0 \<notin> set s \<Longrightarrow> nfd (utf8_text (compose_text (nfd s))) = nfd s"
proof -
  assume z: "0 \<notin> set s"
  let ?c = "compose_text (nfd s)"
  have p: "u8_points (utf8_text ?c) = ?c"
    using compose_letters [OF nfd_facts(3) [OF z]] by (intro u8_points_text) blast
  have d: "ord (decomp ?c) = nfd s" by (rule decompose_compose) (simp_all add: nfd_facts)
  have "length (decomp ?c) = length (nfd s)" using d length_ord [of "decomp ?c"] by simp
  then have "length (decomp ?c) \<le> HV_MAXCP" by (simp add: nfd_def)
  then show ?thesis unfolding nfd_def [of "utf8_text ?c"] using d by (simp add: p)
qed

text \<open>C24: Normalising a name that is normalised changes nothing: on every name, well-formed UTF-8
  or not and of any length, a second \<open>hv_to_nfc\<close> gives the bytes of the first.\<close>

theorem nfc_idempotent:
  assumes "0 \<notin> set s" "hv_to_nfc s dst cap = (b, n)" "n < cap"
    and "hv_to_nfc (c_string b cap) dst2 cap2 = (b2, m)" "m < cap2"
  shows "c_string b2 cap2 = c_string b cap \<and> m = n"
proof -
  let ?t = "utf8_text (compose_text (nfd s))"
  have z: "0 \<notin> set ?t" by (rule utf8_text_not_nul [OF compose_letters [OF nfd_facts(3) [OF assms(1)]]])
  have b: "c_string b cap = ?t" using c_out_string [OF z _ assms(3)] assms(2) by (simp add: to_nfc_writes)
  then have o: "c_out dst2 cap2 ?t = (b2, m)" using assms(1,4) by (simp add: to_nfc_writes nfd_of_nfc)
  have "n = length ?t" using assms(2,3) by (auto simp: to_nfc_writes c_out_def split: if_splits)
  moreover have "m = length ?t" using o assms(5) by (auto simp: c_out_def split: if_splits)
  ultimately show ?thesis using c_out_string [OF z o assms(5)] b by simp
qed

theorem nfc_idempotent_witness:
  "\<exists>b b2. hv_to_nfc [0x65, 0xCC, 0xA3, 0xCC, 0x81, 0xC7] (\<lambda>_. 1) 40 = (b, 6) \<and>
     hv_to_nfc (c_string b 40) (\<lambda>_. 2) 40 = (b2, 6) \<and> c_string b2 40 = c_string b 40"
proof -
  let ?s = "[0x65, 0xCC, 0xA3, 0xCC, 0x81, 0xC7] :: u8 list"
  let ?r = "hv_to_nfc ?s (\<lambda>_. 1) 40"
  let ?q = "hv_to_nfc (c_string (fst ?r) 40) (\<lambda>_. 2) 40"
  have z: "0 \<notin> set ?s" by simp
  have n: "snd ?r = 6" "snd ?q = 6" by code_simp+
  have "c_string (fst ?q) 40 = c_string (fst ?r) 40 \<and> 6 = (6 :: nat)"
    by (rule nfc_idempotent [OF z, of "\<lambda>_. 1" 40 "fst ?r" 6 "\<lambda>_. 2" 40 "fst ?q" 6]) (use n in \<open>simp_all add: prod_eq_iff\<close>)
  then show ?thesis using n by (intro exI [of _ "fst ?r"] exI [of _ "fst ?q"]) (simp add: prod_eq_iff)
qed

text \<open>A name of 255 bytes fits the arrays.\<close>

lemma utf8_of_length: "length (utf8_of c) \<le> 4" "unat c < 0x800 \<Longrightarrow> length (utf8_of c) \<le> 2" "unat c < 0x80 \<Longrightarrow> length (utf8_of c) = 1"
  by (simp_all add: utf8_of_def word_less_nat_alt)

lemma expand_length: "length (utf8_text (expand c)) \<le> 4" "unat c < 0x800 \<Longrightarrow> length (utf8_text (expand c)) \<le> 3"
  "length (expand c) \<le> 2"
proof -
  have "length (utf8_text (expand c)) \<le> 4 \<and> (unat c < 0x800 \<longrightarrow> length (utf8_text (expand c)) \<le> 3) \<and> length (expand c) \<le> 2"
  proof (cases "decompose1 c")
    case None
    then show ?thesis using utf8_of_length(1,2) [of c] by (auto simp: expand_def)
  next
    case (Some ab)
    obtain a b where "ab = (a, b)" by force
    then show ?thesis
      using Some decompose1_facts(9,11) [of c a b] utf8_of_length(3) [of a] utf8_of_length(2) [of b] by (simp add: expand_def)
  qed
  then show "length (utf8_text (expand c)) \<le> 4" "unat c < 0x800 \<Longrightarrow> length (utf8_text (expand c)) \<le> 3"
    "length (expand c) \<le> 2" by blast+
qed

lemma decomp_length: "0 \<notin> set s \<Longrightarrow>
    length (utf8_text (decomp (u8_points s))) \<le> 3 * length s \<and> length (decomp (u8_points s)) \<le> 2 * length s"
proof (induction s rule: length_induct)
  case (1 s)
  show ?case
  proof (cases s)
    case (Cons c0 r)
    obtain c r' where c: "u8_next c0 r = (c, r')" by force
    have z: "0 \<notin> set (c0 # r)" using 1(2) Cons by simp
    have r': "length r' < length s" "0 \<notin> set r'" "length r' \<le> length r"
      using u8_next_shorter [of c r' c0 r] c Cons u8_next_facts(3) [OF c z] z by auto
    have "unat (ucast c0 :: u32) < 0x800"
      using unat_ucast_u8 [of c0, where ?'a = 32] unsigned_less [of c0, where ?'a = nat] by simp
    then have "length (utf8_text (expand c)) + 3 * length r' \<le> 3 * length s"
      using expand_length(1,2) [of c] u8_next_facts(4) [OF c z] r' Cons by auto
    then show ?thesis using 1(1) r' c Cons expand_length(3) [of c] by fastforce
  qed simp
qed

lemma utf8_text_mset: "mset xs = mset ys \<Longrightarrow> length (utf8_text xs) = length (utf8_text ys)"
proof -
  have "length (utf8_text zs) = sum_mset (image_mset (length \<circ> utf8_of) (mset zs))" for zs
    by (induction zs) simp_all
  then show "mset xs = mset ys \<Longrightarrow> length (utf8_text xs) = length (utf8_text ys)" by metis
qed

lemma compose_shorter: "length (utf8_text (compose_text (nfd s))) \<le> length (utf8_text (nfd s))"
proof -
  let ?c = "compose_text (nfd s)"
  have one: "length (utf8_of c) \<le> length (utf8_text (expand c))" for c
  proof (cases "decompose1 c")
    case (Some ab)
    obtain a b where "ab = (a, b)" by force
    then show ?thesis using Some decompose1_facts(6) [of c a b] utf8_of_length(2) [of c]
        utf8_of_length(3) [of a] decompose1_facts(9-11) [of c a b]
      by (simp add: expand_def utf8_of_def word_less_nat_alt)
  qed (simp add: expand_def)
  have "length (utf8_text zs) \<le> length (utf8_text (decomp zs))" for zs
    by (induction zs) (use one in \<open>auto intro: add_mono\<close>)
  moreover have "mset (decomp ?c) = mset (nfd s)"
    using decompose_compose [OF nfd_facts(1,2), of s] mset_ord [of "decomp ?c"] by simp
  ultimately show ?thesis using utf8_text_mset by metis
qed

text \<open>C25: Two host names of at most 255 bytes are equal for \<open>hv_nfc_equal\<close> exactly when their
  canonical decompositions are: neither the arrays of 1024 code points and bytes nor the
  composition merge or separate names.\<close>

theorem nfc_equal_is_canonical:
  assumes "0 \<notin> set a" "0 \<notin> set b" "length a \<le> 255" "length b \<le> 255"
  shows "hv_nfc_equal na nb a b \<longleftrightarrow> ord (decomp (u8_points a)) = ord (decomp (u8_points b))"
proof -
  let ?n = "\<lambda>s. compose_text (nfd s)"
  have n: "nfd s = ord (decomp (u8_points s))" if "0 \<notin> set s" "length s \<le> 255" for s
    using decomp_length [OF that(1)] that(2) by (simp add: nfd_def HV_MAXCP_def)
  have f: "c_string (fst (hv_to_nfc s d HV_MAXCP)) HV_MAXCP = utf8_text (?n s)" if s: "0 \<notin> set s" "length s \<le> 255" for s d
  proof -
    have "length (utf8_text (nfd s)) \<le> 3 * length s"
      using decomp_length [OF s(1)] utf8_text_mset [OF mset_ord] n [OF s] by simp
    then have "length (utf8_text (?n s)) < HV_MAXCP" using compose_shorter [of s] s(2) by (simp add: HV_MAXCP_def)
    then show ?thesis
      using c_out_string [OF utf8_text_not_nul [OF compose_letters [OF nfd_facts(3) [OF s(1)]]], of d HV_MAXCP]
      by (simp add: to_nfc_writes c_out_def)
  qed
  have "utf8_text (?n a) = utf8_text (?n b) \<longleftrightarrow> nfd a = nfd b"
    using nfd_of_nfc [OF assms(1)] nfd_of_nfc [OF assms(2)] by metis
  then show ?thesis using n f assms by (simp add: hv_nfc_equal_def Let_def)
qed

theorem nfc_equal_is_canonical_witness:
  "hv_nfc_equal (\<lambda>_. 1) (\<lambda>_. 2) [0xC3, 0xA9, 0x2E] [0x65, 0xCC, 0x81, 0x2E] \<and>
   \<not> hv_nfc_equal (\<lambda>_. 1) (\<lambda>_. 2) [0xC4, 0x88] [0x43, 0xCC, 0x82]"
proof -
  have e: "ord (decomp (u8_points [0xC3, 0xA9, 0x2E])) = ord (decomp (u8_points [0x65, 0xCC, 0x81, 0x2E]))"
    "ord (decomp (u8_points [0xC4, 0x88])) \<noteq> ord (decomp (u8_points [0x43, 0xCC, 0x82]))" by code_simp+
  have "hv_nfc_equal (\<lambda>_. 1) (\<lambda>_. 2) [0xC3, 0xA9, 0x2E] [0x65, 0xCC, 0x81, 0x2E]"
    by (subst nfc_equal_is_canonical) (simp_all add: e(1) del: u8_points.simps)
  moreover have "\<not> hv_nfc_equal (\<lambda>_. 1) (\<lambda>_. 2) [0xC4, 0x88] [0x43, 0xCC, 0x82]"
    by (subst nfc_equal_is_canonical) (simp_all add: e(2) del: u8_points.simps)
  ultimately show ?thesis ..
qed

end
