(* ===== verification/EmuGuest.thy ===== *)
theory EmuGuest
  imports HunkLoader "HOL-Library.Monad_Syntax"
begin

text \<open>
  The guest memory of a hosted 68k program as the library handlers see it
  (\<open>hosted/emu68k/emu68k_host.c\<close>): the accessors \<open>emu68k_gread8\<close> .. \<open>emu68k_gwrite32\<close>,
  \<open>emu68k_guest_cstr\<close>, \<open>emu68k_guest_alloc\<close>, \<open>emu68k_guest_strdup\<close>, and \<open>span_ok\<close> of
  \<open>emu68k_utility.c\<close>.

  The sandbox is the loader's. A host access outside the host array is undefined behaviour,
  the value \<open>None\<close>.
\<close>

text \<open>\<open>sb->sandbox_origin + sb->size\<close> in 32 bits.\<close>

definition box_end :: "j4_sandbox \<Rightarrow> u32" where
  "box_end sb = jb_origin sb + jb_size sb"

text \<open>The arena does not reach the end of the 32-bit address space.\<close>

definition arena_ok :: "j4_sandbox \<Rightarrow> bool" where
  "arena_ok sb \<longleftrightarrow> unat (jb_origin sb) + unat (jb_size sb) < 2 ^ 32"

text \<open>In \<open>span_ok\<close> both sums are made in 64 bits.\<close>

definition span_ok :: "j4_sandbox \<Rightarrow> u32 \<Rightarrow> u32 \<Rightarrow> bool" where
  "span_ok sb p n \<longleftrightarrow> p \<ge> jb_origin sb \<and>
     (ucast p :: u64) + ucast n \<le> ucast (jb_origin sb) + ucast (jb_size sb)"

section \<open>The accessors\<close>

definition gread8 :: "j4_sandbox \<Rightarrow> u32 \<Rightarrow> u8 option" where
  "gread8 sb a = (if host_ok sb a 1 then Some (jb_mem sb (j4_sandbox_host sb a)) else None)"

definition gwrite8 :: "j4_sandbox \<Rightarrow> u32 \<Rightarrow> u8 \<Rightarrow> j4_sandbox option" where
  "gwrite8 sb a v =
     (if a < jb_origin sb \<or> a \<ge> box_end sb then Some sb
      else if \<not> host_ok sb a 1 then None
      else Some (sb\<lparr>jb_mem := (jb_mem sb)(j4_sandbox_host sb a := v)\<rparr>))"

definition gread32 :: "j4_sandbox \<Rightarrow> u32 \<Rightarrow> u32 option" where
  "gread32 sb a =
     (if a < jb_origin sb \<or> a + 4 > box_end sb then Some 0
      else if \<not> host_ok sb a 4 then None
      else Some (sb_read_be32 sb (j4_sandbox_host sb a)))"

definition gwrite32 :: "j4_sandbox \<Rightarrow> u32 \<Rightarrow> u32 \<Rightarrow> j4_sandbox option" where
  "gwrite32 sb a v =
     (if a < jb_origin sb \<or> a + 4 > box_end sb then Some sb
      else if \<not> host_ok sb a 4 then None
      else Some (sb_write_be32 sb (j4_sandbox_host sb a) v))"

definition gread16 :: "j4_sandbox \<Rightarrow> u32 \<Rightarrow> u32 option" where
  "gread16 sb a =
     (if a < jb_origin sb \<or> a + 2 > box_end sb then Some 0
      else if \<not> host_ok sb a 2 then None
      else (let p = j4_sandbox_host sb a in
        Some (push_bit 8 (ucast (jb_mem sb p)) OR ucast (jb_mem sb (p + 1)))))"

definition gwrite16 :: "j4_sandbox \<Rightarrow> u32 \<Rightarrow> u32 \<Rightarrow> j4_sandbox option" where
  "gwrite16 sb a v =
     (if a < jb_origin sb \<or> a + 2 > box_end sb then Some sb
      else if \<not> host_ok sb a 2 then None
      else (let p = j4_sandbox_host sb a in
        Some (sb\<lparr>jb_mem := (jb_mem sb)(p := byte_of 1 v, p + 1 := byte_of 0 v)\<rparr>)))"

text \<open>\<open>memset\<close> on the host bytes of an address.\<close>

definition gfill :: "j4_sandbox \<Rightarrow> u32 \<Rightarrow> u8 \<Rightarrow> nat \<Rightarrow> j4_sandbox option" where
  "gfill sb a v n =
     (if n \<noteq> 0 \<and> \<not> host_ok sb a n then None
      else (let p = j4_sandbox_host sb a in
        Some (sb\<lparr>jb_mem := (\<lambda>i. if p \<le> i \<and> i < p + n then v else jb_mem sb i)\<rparr>)))"

section \<open>Strings\<close>

text \<open>The bytes from a host offset to the end of the arena; a C string in them.\<close>

definition host_bytes :: "j4_sandbox \<Rightarrow> u32 \<Rightarrow> u8 list" where
  "host_bytes sb a = map (jb_mem sb) [j4_sandbox_host sb a..<unat (jb_size sb)]"

definition c_str :: "j4_sandbox \<Rightarrow> u32 \<Rightarrow> u8 list" where
  "c_str sb a = takeWhile (\<lambda>c. c \<noteq> 0) (host_bytes sb a)"

text \<open>Whether \<open>emu68k_guest_cstr\<close> gives a pointer; the string is read from memory where the
  source reads it.\<close>

definition guest_cstr :: "j4_sandbox \<Rightarrow> u32 \<Rightarrow> bool" where
  "guest_cstr sb addr \<longleftrightarrow>
     \<not> (addr < jb_origin sb \<or> addr \<ge> box_end sb) \<and> 0 \<in> set (host_bytes sb addr)"

definition put_bytes :: "j4_sandbox \<Rightarrow> u32 \<Rightarrow> u8 list \<Rightarrow> j4_sandbox option" where
  "put_bytes sb a s =
     (if \<not> host_ok sb a (length s) then None
      else (let p = j4_sandbox_host sb a in
        Some (sb\<lparr>jb_mem := (\<lambda>i. if p \<le> i \<and> i < p + length s then s ! (i - p) else jb_mem sb i)\<rparr>)))"

section \<open>The run\<close>

text \<open>A \<open>NamedObject\<close> of \<open>utility.library\<close>, a slot of \<open>struct emu68k_run\<close>.\<close>

record named_obj =
  no_object :: u32
  no_userspace :: u32
  no_user_size :: u32
  no_guest_name :: u32
  no_parent :: u32
  no_refs :: int
  no_priority :: u8
  no_flags :: u8
  no_live :: bool
  no_has_namespace :: bool
  no_added :: bool
  no_pending_remove :: bool
  no_name :: "u8 list"

record emu_run =
  e_box :: j4_sandbox
  exec_heap :: u32
  exec_heap_end :: u32
  named :: "named_obj list"

definition guest_alloc :: "emu_run \<Rightarrow> u32 \<Rightarrow> (u32 \<times> emu_run) option" where
  "guest_alloc r sz =
     (let sz = (sz + 7) AND NOT 7 in
      if sz = 0 \<or> exec_heap r + sz > exec_heap_end r then Some (0, r)
      else (let a = exec_heap r; heap = a + sz; sb = e_box r;
                sb = (if next_alloc sb < heap then sb\<lparr>next_alloc := heap\<rparr> else sb) in
        map_option (\<lambda>sb. (a, r\<lparr>exec_heap := heap, e_box := sb\<rparr>)) (gfill sb a 0 (unat sz))))"

definition guest_strdup :: "emu_run \<Rightarrow> u32 \<Rightarrow> u32 \<Rightarrow> (u32 \<times> emu_run) option" where
  "guest_strdup r s n = do {
     (a, r) \<leftarrow> guest_alloc r (n + 1);
     if a = 0 then Some (0, r)
     else do {
       sb \<leftarrow> put_bytes (e_box r) a (take (unat n) (host_bytes (e_box r) s) @ [0]);
       Some (a, r\<lparr>e_box := sb\<rparr>) } }"

section \<open>Accesses inside a checked span\<close>

lemma span_ok_nat:
  "span_ok sb p n \<longleftrightarrow> unat (jb_origin sb) \<le> unat p \<and> unat p + unat n \<le> unat (jb_origin sb) + unat (jb_size sb)"
proof -
  have s: "unat ((ucast a :: u64) + ucast b) = unat a + unat b" for a b :: u32
    using unsigned_less [of a, where ?'a = nat] unsigned_less [of b, where ?'a = nat]
    by (simp add: unat_word_ariths unat_ucast_32_64)
  show ?thesis by (simp add: span_ok_def word_le_nat_alt s)
qed

lemma unat_box_end: "arena_ok sb \<Longrightarrow> unat (box_end sb) = unat (jb_origin sb) + unat (jb_size sb)"
  by (simp add: arena_ok_def box_end_def unat_word_ariths)

text \<open>What a checked span of \<open>n\<close> bytes gives at an offset inside it.\<close>

lemma span_facts:
  assumes "arena_ok sb" "span_ok sb p n" "unat k + w \<le> unat n"
  shows "unat (p + k) = unat p + unat k"
    and "unat (jb_origin sb) \<le> unat (p + k)"
    and "unat (p + k) + w \<le> unat (box_end sb)"
    and "j4_sandbox_host sb (p + k) = unat p - unat (jb_origin sb) + unat k"
    and "host_ok sb (p + k) w"
proof -
  have s: "unat (jb_origin sb) \<le> unat p" "unat p + unat n \<le> unat (jb_origin sb) + unat (jb_size sb)"
    using assms(2) by (auto simp: span_ok_nat)
  have less: "unat p + unat k < 2 ^ 32" using s assms by (simp add: arena_ok_def)
  then show u: "unat (p + k) = unat p + unat k" by (simp add: unat_word_ariths)
  then show "unat (jb_origin sb) \<le> unat (p + k)" using s by simp
  show "unat (p + k) + w \<le> unat (box_end sb)" using u s assms by (simp add: unat_box_end)
  have "unat (p + k - jb_origin sb) = unat (p + k) - unat (jb_origin sb)"
    using u s by (intro unat_sub) (simp add: word_le_nat_alt)
  then show h: "j4_sandbox_host sb (p + k) = unat p - unat (jb_origin sb) + unat k"
    using u s by (simp add: j4_sandbox_host_def)
  show "host_ok sb (p + k) w" using h s assms(3) by (simp add: host_ok_def)
qed

lemma span_read32:
  assumes "arena_ok sb" "span_ok sb p n" "unat k + 4 \<le> unat n"
  shows "gread32 sb (p + k) = Some (sb_read_be32 sb (unat p - unat (jb_origin sb) + unat k))"
proof -
  note f = span_facts [OF assms]
  have "unat (box_end sb) < 2 ^ 32" using unsigned_less [of "box_end sb", where ?'a = nat] by simp
  then have "unat (p + k + 4) = unat (p + k) + 4" using f(3) by (simp add: unat_word_ariths)
  then have "\<not> (p + k < jb_origin sb \<or> p + k + 4 > box_end sb)"
    using f(2,3) by (simp add: word_less_nat_alt)
  then show ?thesis using f(4,5) by (simp add: gread32_def)
qed

lemma span_range:
  assumes "arena_ok sb" "span_ok sb p n" "unat k + unat w \<le> unat n"
  shows "\<not> (p + k < jb_origin sb \<or> p + k + w > box_end sb)"
proof -
  note f = span_facts [OF assms]
  have "unat (box_end sb) < 2 ^ 32" using unsigned_less [of "box_end sb", where ?'a = nat] by simp
  then have "unat (p + k + w) = unat (p + k) + unat w" using f(3) by (simp add: unat_word_ariths)
  then show ?thesis using f(2,3) by (simp add: word_less_nat_alt)
qed

lemma span_read16:
  assumes "arena_ok sb" "span_ok sb p n" "unat k + 2 \<le> unat n"
  shows "gread16 sb (p + k) = Some (push_bit 8 (ucast (jb_mem sb (unat p - unat (jb_origin sb) + unat k)))
      OR ucast (jb_mem sb (unat p - unat (jb_origin sb) + unat k + 1)))"
  using span_facts [OF assms] span_range [OF assms(1,2), of k 2] assms(3) by (simp add: gread16_def Let_def)

lemma span_write16:
  assumes "arena_ok sb" "span_ok sb p n" "unat k + 2 \<le> unat n"
  shows "gwrite16 sb (p + k) v = Some (sb\<lparr>jb_mem := (jb_mem sb)
      (unat p - unat (jb_origin sb) + unat k := byte_of 1 v, unat p - unat (jb_origin sb) + unat k + 1 := byte_of 0 v)\<rparr>)"
  using span_facts [OF assms] span_range [OF assms(1,2), of k 2] assms(3) by (simp add: gwrite16_def Let_def)

lemma span_mem [simp]:
  "arena_ok (sb\<lparr>jb_mem := m\<rparr>) = arena_ok sb" "span_ok (sb\<lparr>jb_mem := m\<rparr>) p n = span_ok sb p n"
  by (simp_all add: arena_ok_def span_ok_def)

lemma join_be16: "push_bit 8 (ucast (byte_of 1 v)) OR ucast (byte_of 0 v) = (v AND 0xFFFF :: u32)"
proof -
  have m: "(0xFFFF :: u32) = mask 16" by (simp add: mask_eq_exp_minus_1)
  show ?thesis unfolding m
    by (rule bit_word_eqI) (auto simp: byte_of_def bit_simps)
qed

text \<open>A 16-bit field of a checked structure: written, it reads back, and no other byte changes.\<close>

lemma field16:
  assumes "arena_ok sb" "span_ok sb p n" "unat k + 2 \<le> unat n"
  obtains sb' where "gwrite16 sb (p + k) v = Some sb'" "arena_ok sb'" "\<And>q m. span_ok sb' q m = span_ok sb q m"
    "jb_origin sb' = jb_origin sb" "gread16 sb' (p + k) = Some (v AND 0xFFFF)"
    "\<And>j. unat j + 2 \<le> unat n \<Longrightarrow> unat j + 2 \<le> unat k \<or> unat k + 2 \<le> unat j \<Longrightarrow> gread16 sb' (p + j) = gread16 sb (p + j)"
    "\<And>i. i < unat p - unat (jb_origin sb) + unat k \<or> unat p - unat (jb_origin sb) + unat k + 2 \<le> i \<Longrightarrow>
       jb_mem sb' i = jb_mem sb i"
proof -
  let ?B = "unat p - unat (jb_origin sb)"
  let ?sb = "sb\<lparr>jb_mem := (jb_mem sb)(?B + unat k := byte_of 1 v, ?B + unat k + 1 := byte_of 0 v)\<rparr>"
  show thesis
  proof (rule that [of ?sb])
    show "gwrite16 sb (p + k) v = Some ?sb" by (rule span_write16 [OF assms])
    show "gread16 ?sb (p + k) = Some (v AND 0xFFFF)"
      using span_read16 [of ?sb p n k] assms join_be16 [of v] by simp
    show "gread16 ?sb (p + j) = gread16 sb (p + j)"
      if "unat j + 2 \<le> unat n" "unat j + 2 \<le> unat k \<or> unat k + 2 \<le> unat j" for j
      using span_read16 [of ?sb p n j] span_read16 [of sb p n j] assms that by auto
  qed (use assms in auto)
qed

text \<open>Several fields, one after the other.\<close>

fun put_fields :: "j4_sandbox \<Rightarrow> u32 \<Rightarrow> (u32 \<times> u32) list \<Rightarrow> j4_sandbox option" where
  "put_fields sb p [] = Some sb"
| "put_fields sb p ((k, v) # kvs) = do { sb \<leftarrow> gwrite16 sb (p + k) v; put_fields sb p kvs }"

lemma put_fields:
  "arena_ok sb \<Longrightarrow> span_ok sb p n \<Longrightarrow> \<forall>k\<in>set (map fst kvs). unat k + 2 \<le> unat n \<and> even (unat k) \<Longrightarrow>
   distinct (map fst kvs) \<Longrightarrow>
   \<exists>sb'. put_fields sb p kvs = Some sb' \<and> arena_ok sb' \<and> span_ok sb' p n \<and> jb_origin sb' = jb_origin sb \<and>
     (\<forall>k. unat k + 2 \<le> unat n \<and> even (unat k) \<longrightarrow> gread16 sb' (p + k) =
        (case map_of kvs k of None \<Rightarrow> gread16 sb (p + k) | Some v \<Rightarrow> Some (v AND 0xFFFF))) \<and>
     (\<forall>i. i < unat p - unat (jb_origin sb) \<or> unat p - unat (jb_origin sb) + unat n \<le> i \<longrightarrow> jb_mem sb' i = jb_mem sb i)"
proof (induction kvs arbitrary: sb)
  case (Cons kv kvs)
  obtain k v where kv: "kv = (k, v)" by force
  have k: "unat k + 2 \<le> unat n" "even (unat k)" using Cons.prems(3) kv by auto
  obtain s where s: "gwrite16 sb (p + k) v = Some s" "arena_ok s" "\<And>q m. span_ok s q m = span_ok sb q m"
    "jb_origin s = jb_origin sb" "gread16 s (p + k) = Some (v AND 0xFFFF)"
    "\<And>j. unat j + 2 \<le> unat n \<Longrightarrow> unat j + 2 \<le> unat k \<or> unat k + 2 \<le> unat j \<Longrightarrow> gread16 s (p + j) = gread16 sb (p + j)"
    "\<And>i. i < unat p - unat (jb_origin sb) + unat k \<or> unat p - unat (jb_origin sb) + unat k + 2 \<le> i \<Longrightarrow>
       jb_mem s i = jb_mem sb i"
    by (rule field16 [OF Cons.prems(1,2) k(1), of v]) blast
  have "\<exists>sb'. put_fields s p kvs = Some sb' \<and> arena_ok sb' \<and> span_ok sb' p n \<and> jb_origin sb' = jb_origin s \<and>
     (\<forall>k. unat k + 2 \<le> unat n \<and> even (unat k) \<longrightarrow> gread16 sb' (p + k) =
        (case map_of kvs k of None \<Rightarrow> gread16 s (p + k) | Some v \<Rightarrow> Some (v AND 0xFFFF))) \<and>
     (\<forall>i. i < unat p - unat (jb_origin s) \<or> unat p - unat (jb_origin s) + unat n \<le> i \<longrightarrow> jb_mem sb' i = jb_mem s i)"
    using Cons.prems s(2,3) by (intro Cons.IH) auto
  then obtain sb' where sb': "put_fields s p kvs = Some sb'" "arena_ok sb'" "span_ok sb' p n" "jb_origin sb' = jb_origin s"
    "\<And>k. unat k + 2 \<le> unat n \<Longrightarrow> even (unat k) \<Longrightarrow> gread16 sb' (p + k) =
        (case map_of kvs k of None \<Rightarrow> gread16 s (p + k) | Some v \<Rightarrow> Some (v AND 0xFFFF))"
    "\<And>i. i < unat p - unat (jb_origin s) \<or> unat p - unat (jb_origin s) + unat n \<le> i \<Longrightarrow> jb_mem sb' i = jb_mem s i"
    by blast
  have nk: "map_of kvs k = None" using Cons.prems(4) kv by (simp add: map_of_eq_None_iff)
  have "gread16 sb' (p + j) = (case map_of (kv # kvs) j of None \<Rightarrow> gread16 sb (p + j) | Some v \<Rightarrow> Some (v AND 0xFFFF))"
    if j: "unat j + 2 \<le> unat n" "even (unat j)" for j
  proof (cases "j = k")
    case True
    with sb'(5) [OF j] s(5) nk kv show ?thesis by simp
  next
    case False
    then have "unat j \<noteq> unat k" by (simp add: word_unat_eq_iff)
    then have "unat j + 2 \<le> unat k \<or> unat k + 2 \<le> unat j" using j(2) k(2) by presburger
    with sb'(5) [OF j] s(6) [OF j(1)] False kv show ?thesis by (simp split: option.split)
  qed
  moreover have "jb_mem sb' i = jb_mem sb i"
    if i: "i < unat p - unat (jb_origin sb) \<or> unat p - unat (jb_origin sb) + unat n \<le> i" for i
  proof -
    have "jb_mem s i = jb_mem sb i" by (rule s(7)) (use i k(1) in linarith)
    then show ?thesis using sb'(6) [of i] s(4) i by simp
  qed
  ultimately show ?case using s sb'(1-4) kv by auto
qed simp

section \<open>Cells\<close>

text \<open>The host offset of a checked address, and 32-bit accesses there.\<close>

definition hof :: "j4_sandbox \<Rightarrow> u32 \<Rightarrow> nat" where
  "hof sb p = unat p - unat (jb_origin sb)"

lemma hof_mem [simp]: "hof (sb\<lparr>jb_mem := m\<rparr>) p = hof sb p" by (simp add: hof_def)

lemma hof_add:
  "arena_ok sb \<Longrightarrow> span_ok sb p n \<Longrightarrow> unat k \<le> unat n \<Longrightarrow> hof sb (p + k) = hof sb p + unat k"
  using span_facts(1,2) [of sb p n k 0] by (simp add: hof_def span_ok_nat)

lemma read32_at: "arena_ok sb \<Longrightarrow> span_ok sb p n \<Longrightarrow> unat k + 4 \<le> unat n \<Longrightarrow>
    gread32 sb (p + k) = Some (sb_read_be32 sb (hof sb p + unat k))"
  using span_read32 by (simp add: hof_def)

lemma write32_at: "arena_ok sb \<Longrightarrow> span_ok sb p n \<Longrightarrow> unat k + 4 \<le> unat n \<Longrightarrow>
    gwrite32 sb (p + k) v = Some (sb_write_be32 sb (hof sb p + unat k) v)"
  using span_facts [of sb p n k 4] span_range [of sb p n k 4] by (simp add: gwrite32_def hof_def)

lemma write_be32_frame [simp]:
  "jb_origin (sb_write_be32 sb i v) = jb_origin sb" "jb_size (sb_write_be32 sb i v) = jb_size sb"
  "arena_ok (sb_write_be32 sb i v) = arena_ok sb" "span_ok (sb_write_be32 sb i v) p n = span_ok sb p n"
  "hof (sb_write_be32 sb i v) p = hof sb p"
  by (simp_all add: sb_write_be32_def arena_ok_def span_ok_def hof_def)

lemma read_write_be32:
  "sb_read_be32 (sb_write_be32 sb i v) i = v"
  "j + 4 \<le> i \<or> i + 4 \<le> j \<Longrightarrow> sb_read_be32 (sb_write_be32 sb i v) j = sb_read_be32 sb j"
  by (auto simp: sb_read_be32_def sb_write_be32_def be32_bytes [simplified])

lemma write_be32_other: "j < i \<or> i + 4 \<le> j \<Longrightarrow> jb_mem (sb_write_be32 sb i v) j = jb_mem sb j"
  by (auto simp: sb_write_be32_def)

lemma read_be32_cong:
  "(\<And>k. k < 4 \<Longrightarrow> jb_mem sb' (i + k) = jb_mem sb (i + k)) \<Longrightarrow> sb_read_be32 sb' i = sb_read_be32 sb i"
proof -
  assume m: "\<And>k. k < 4 \<Longrightarrow> jb_mem sb' (i + k) = jb_mem sb (i + k)"
  show "sb_read_be32 sb' i = sb_read_be32 sb i"
    using m [of 0] m [of 1] m [of 2] m [of 3] by (simp add: sb_read_be32_def)
qed

end
