(* ===== verification/UtilTags.thy ===== *)
theory UtilTags
  imports EmuGuest
begin

text \<open>
  The tag lists of \<open>utility.library\<close> (\<open>hosted/emu68k/emu68k_utility.c\<close>): the cursor over the
  TAG_MORE/TAG_SKIP language and the calls that walk lists with it.

  A call that does not return is \<open>None\<close>; a host access outside the arena is \<open>UUndef\<close>, and
  \<open>UErr\<close> is the handler's return value 1 with a message.
\<close>

datatype 'a ures = URet 'a | UErr string | UUndef

definition TAG_DONE :: u32 where "TAG_DONE = 0"
definition TAG_IGNORE :: u32 where "TAG_IGNORE = 1"
definition TAG_MORE :: u32 where "TAG_MORE = 2"
definition TAG_SKIP :: u32 where "TAG_SKIP = 3"

lemmas tag_consts = TAG_DONE_def TAG_IGNORE_def TAG_MORE_def TAG_SKIP_def

section \<open>The cursor\<close>

text \<open>The item, 0 for none, and the new cursor.\<close>

fun next_item_loop :: "nat \<Rightarrow> j4_sandbox \<Rightarrow> u32 \<Rightarrow> (u32 \<times> u32) option" where
  "next_item_loop 0 sb p = Some (0, 0)"
| "next_item_loop (Suc g) sb p =
     (if p = 0 \<or> \<not> span_ok sb p 8 then Some (0, 0)
      else do {
        tag \<leftarrow> gread32 sb p;
        data \<leftarrow> gread32 sb (p + 4);
        if tag = TAG_DONE then Some (0, 0)
        else if tag = TAG_IGNORE then next_item_loop g sb (p + 8)
        else if tag = TAG_MORE then next_item_loop g sb data
        else if tag = TAG_SKIP then
          (if data > 0x1fffffff then Some (0, 0) else next_item_loop g sb (p + 8 * (data + 1)))
        else Some (p, p + 8) })"

definition next_item :: "j4_sandbox \<Rightarrow> u32 \<Rightarrow> (u32 \<times> u32) option" where
  "next_item sb cursor = next_item_loop 65536 sb cursor"

definition utility_next_tag :: "j4_sandbox \<Rightarrow> u32 \<Rightarrow> (u32 \<times> j4_sandbox) option" where
  "utility_next_tag sb statep =
     (if \<not> span_ok sb statep 4 then Some (0, sb)
      else do {
        cursor \<leftarrow> gread32 sb statep;
        (item, cursor) \<leftarrow> next_item sb cursor;
        sb \<leftarrow> gwrite32 sb statep cursor;
        Some (item, sb) })"

text \<open>The loop \<open>while ((item = next_item (sb, &cursor)) != 0) body\<close>; the guard of \<open>next_item\<close>
  starts again at every item.\<close>

partial_function (option) tag_loop ::
  "(u32 \<Rightarrow> j4_sandbox \<Rightarrow> 's \<Rightarrow> (j4_sandbox \<times> 's) ures option) \<Rightarrow> j4_sandbox \<Rightarrow> u32 \<Rightarrow> 's \<Rightarrow> (j4_sandbox \<times> 's) ures option" where
  "tag_loop body sb cursor s = (case next_item sb cursor of
     None \<Rightarrow> Some UUndef
   | Some (item, cursor') \<Rightarrow>
       if item = 0 then Some (URet (sb, s))
       else Option.bind (body item sb s) (\<lambda>r. case r of
           URet (sb', s') \<Rightarrow> tag_loop body sb' cursor' s'
         | UErr e \<Rightarrow> Some (UErr e)
         | UUndef \<Rightarrow> Some UUndef))"

partial_function (option) utility_find_tag :: "j4_sandbox \<Rightarrow> u32 \<Rightarrow> u32 \<Rightarrow> u32 ures option" where
  "utility_find_tag sb wanted list = (case next_item sb list of
     None \<Rightarrow> Some UUndef
   | Some (item, list') \<Rightarrow>
       if item = 0 then Some (URet 0)
       else (case gread32 sb item of
           None \<Rightarrow> Some UUndef
         | Some tag \<Rightarrow> if tag = wanted then Some (URet item) else utility_find_tag sb wanted list'))"

fun tag_in_array_loop :: "nat \<Rightarrow> j4_sandbox \<Rightarrow> u32 \<Rightarrow> u32 \<Rightarrow> bool option" where
  "tag_in_array_loop 0 sb wanted arr = Some False"
| "tag_in_array_loop (Suc g) sb wanted arr =
     (if arr = 0 \<or> \<not> span_ok sb arr 4 then Some False
      else do {
        tag \<leftarrow> gread32 sb arr;
        if tag = TAG_DONE then Some False
        else if tag = wanted then Some True
        else tag_in_array_loop g sb wanted (arr + 4) })"

definition tag_in_array :: "j4_sandbox \<Rightarrow> u32 \<Rightarrow> u32 \<Rightarrow> bool option" where
  "tag_in_array sb wanted arr = tag_in_array_loop 65536 sb wanted arr"

section \<open>The calls\<close>

text \<open>A host access of a loop body, and a search that may not return.\<close>

definition try_read :: "'a option \<Rightarrow> ('a \<Rightarrow> 'b ures option) \<Rightarrow> 'b ures option" where
  "try_read m f = (case m of None \<Rightarrow> Some UUndef | Some v \<Rightarrow> f v)"

definition try_call :: "'a ures option \<Rightarrow> ('a \<Rightarrow> 'b ures option) \<Rightarrow> 'b ures option" where
  "try_call m f = Option.bind m (\<lambda>r. case r of URet v \<Rightarrow> f v | UErr e \<Rightarrow> Some (UErr e) | UUndef \<Rightarrow> Some UUndef)"

definition find_tag_item :: "j4_sandbox \<Rightarrow> u32 \<Rightarrow> u32 \<Rightarrow> u32 ures option" where
  "find_tag_item sb wanted list = utility_find_tag sb wanted list"

definition get_tag_data :: "j4_sandbox \<Rightarrow> u32 \<Rightarrow> u32 \<Rightarrow> u32 \<Rightarrow> u32 ures option" where
  "get_tag_data sb wanted dflt list = try_call (utility_find_tag sb wanted list) (\<lambda>item.
     if item = 0 then Some (URet dflt) else try_read (gread32 sb (item + 4)) (\<lambda>v. Some (URet v)))"

definition pack_bool_tags :: "j4_sandbox \<Rightarrow> u32 \<Rightarrow> u32 \<Rightarrow> u32 \<Rightarrow> u32 ures option" where
  "pack_bool_tags sb flags list maps = try_call (tag_loop (\<lambda>item sb flags.
       try_read (gread32 sb item) (\<lambda>tag. try_call (utility_find_tag sb tag maps) (\<lambda>mp.
         if mp = 0 then Some (URet (sb, flags))
         else try_read (gread32 sb (mp + 4)) (\<lambda>mask. try_read (gread32 sb (item + 4)) (\<lambda>data.
           Some (URet (sb, if data \<noteq> 0 then flags OR mask else flags AND NOT mask)))))))
     sb list flags) (\<lambda>(sb, flags). Some (URet flags))"

definition filter_tag_changes :: "j4_sandbox \<Rightarrow> u32 \<Rightarrow> u32 \<Rightarrow> u32 \<Rightarrow> j4_sandbox ures option" where
  "filter_tag_changes sb apply_it changes orig_list = try_call (tag_loop (\<lambda>item sb s.
       try_read (gread32 sb item) (\<lambda>tag. try_call (utility_find_tag sb tag orig_list) (\<lambda>orig.
         if orig = 0 then Some (URet (sb, s))
         else try_read (gread32 sb (item + 4)) (\<lambda>new. try_read (gread32 sb (orig + 4)) (\<lambda>old.
           if new = old then try_read (gwrite32 sb item TAG_IGNORE) (\<lambda>sb. Some (URet (sb, s)))
           else if apply_it \<noteq> 0 then try_read (gwrite32 sb (orig + 4) new) (\<lambda>sb. Some (URet (sb, s)))
           else Some (URet (sb, s)))))))
     sb changes ()) (\<lambda>(sb, s). Some (URet sb))"

definition map_tags :: "j4_sandbox \<Rightarrow> u32 \<Rightarrow> u32 \<Rightarrow> u32 \<Rightarrow> j4_sandbox ures option" where
  "map_tags sb map_type list maps = try_call (tag_loop (\<lambda>item sb s.
       try_read (gread32 sb item) (\<lambda>tag. try_call (utility_find_tag sb tag maps) (\<lambda>mp.
         if mp \<noteq> 0 then try_read (gread32 sb (mp + 4)) (\<lambda>replacement.
           try_read (gwrite32 sb item (if replacement \<noteq> 0 then replacement else TAG_IGNORE)) (\<lambda>sb. Some (URet (sb, s))))
         else if map_type = 0 then try_read (gwrite32 sb item TAG_IGNORE) (\<lambda>sb. Some (URet (sb, s)))
         else Some (URet (sb, s)))))
     sb list ()) (\<lambda>(sb, s). Some (URet sb))"

definition apply_tag_changes :: "j4_sandbox \<Rightarrow> u32 \<Rightarrow> u32 \<Rightarrow> j4_sandbox ures option" where
  "apply_tag_changes sb list changes = try_call (tag_loop (\<lambda>item sb s.
       try_read (gread32 sb item) (\<lambda>tag. try_call (utility_find_tag sb tag changes) (\<lambda>change.
         if change \<noteq> 0 then try_read (gread32 sb (change + 4)) (\<lambda>v.
           try_read (gwrite32 sb (item + 4) v) (\<lambda>sb. Some (URet (sb, s))))
         else Some (URet (sb, s)))))
     sb list ()) (\<lambda>(sb, s). Some (URet sb))"

definition filter_tag_items :: "j4_sandbox \<Rightarrow> u32 \<Rightarrow> u32 \<Rightarrow> u32 \<Rightarrow> (j4_sandbox \<times> u32) ures option" where
  "filter_tag_items sb logic list arr = tag_loop (\<lambda>item sb valid.
       try_read (gread32 sb item) (\<lambda>tag. try_read (tag_in_array sb tag arr) (\<lambda>found.
         if logic = 0 \<and> found \<or> logic = 1 \<and> \<not> found then Some (URet (sb, valid + 1))
         else try_read (gwrite32 sb item TAG_IGNORE) (\<lambda>sb. Some (URet (sb, valid))))))
     sb list 0"

definition allocate_tag_items :: "emu_run \<Rightarrow> u32 \<Rightarrow> (u32 \<times> emu_run) option" where
  "allocate_tag_items r n =
     (if n \<noteq> 0 \<and> n \<le> 0xFFFFFFFF div 8 then guest_alloc r (n * 8) else Some (0, r))"

text \<open>The second loop of \<open>CloneTagItems\<close> also stops when the allocation failed.\<close>

definition copy_items :: "j4_sandbox \<Rightarrow> u32 \<Rightarrow> u32 \<Rightarrow> (j4_sandbox \<times> u32) ures option" where
  "copy_items sb list dst = tag_loop (\<lambda>item sb dst.
       try_read (gread32 sb item) (\<lambda>tag. try_read (gwrite32 sb dst tag) (\<lambda>sb.
         try_read (gread32 sb (item + 4)) (\<lambda>data. try_read (gwrite32 sb (dst + 4) data) (\<lambda>sb.
           Some (URet (sb, dst + 8)))))))
     sb list dst"

definition clone_tag_items :: "emu_run \<Rightarrow> u32 \<Rightarrow> (u32 \<times> emu_run) ures option" where
  "clone_tag_items r list =
     try_call (tag_loop (\<lambda>item sb count. Some (URet (sb, count + 1))) (e_box r) list (1 :: u32)) (\<lambda>(sb, count).
       try_read (guest_alloc r (count * 8)) (\<lambda>(out, r).
         if out = 0 then Some (URet (0, r))
         else try_call (copy_items (e_box r) list out) (\<lambda>(sb, dst). Some (URet (out, r\<lparr>e_box := sb\<rparr>)))))"

text \<open>\<open>RefreshTagItemClones\<close> leaves its loop when the destination leaves the arena.\<close>

partial_function (option) refresh_loop :: "j4_sandbox \<Rightarrow> u32 \<Rightarrow> u32 \<Rightarrow> (j4_sandbox \<times> u32) ures option" where
  "refresh_loop sb cursor dst = (case next_item sb cursor of
     None \<Rightarrow> Some UUndef
   | Some (item, cursor') \<Rightarrow>
       if item = 0 \<or> \<not> span_ok sb dst 8 then Some (URet (sb, dst))
       else (case do {
           tag \<leftarrow> gread32 sb item; sb \<leftarrow> gwrite32 sb dst tag;
           data \<leftarrow> gread32 sb (item + 4); gwrite32 sb (dst + 4) data } of
           None \<Rightarrow> Some UUndef
         | Some sb' \<Rightarrow> refresh_loop sb' cursor' (dst + 8)))"

definition refresh_tag_item_clones :: "j4_sandbox \<Rightarrow> u32 \<Rightarrow> u32 \<Rightarrow> j4_sandbox ures option" where
  "refresh_tag_item_clones sb dst list =
     (if dst = 0 then Some (URet sb)
      else try_call (refresh_loop sb list dst) (\<lambda>(sb, dst).
        if span_ok sb dst 8 then
          try_read (do { sb \<leftarrow> gwrite32 sb dst 0; gwrite32 sb (dst + 4) 0 }) (\<lambda>sb. Some (URet sb))
        else Some (URet sb)))"

end
