(* ===== verification/UtilTagProps.thy ===== *)
theory UtilTagProps
  imports UtilTags
begin

text \<open>
  What the tag calls do, against the language of tag lists as an inductive relation: the first
  match, copying, filtering in place, and the lists on which a walk never returns.
\<close>

section \<open>Tag lists\<close>

text \<open>A pair of a tag and its data that the cursor may read.\<close>

definition tag_cell :: "j4_sandbox \<Rightarrow> u32 \<Rightarrow> u32 \<Rightarrow> u32 \<Rightarrow> bool" where
  "tag_cell sb p t d \<longleftrightarrow> p \<noteq> 0 \<and> span_ok sb p 8 \<and> gread32 sb p = Some t \<and> gread32 sb (p + 4) = Some d"

text \<open>\<open>tag_path sb g p cs xs\<close>: from \<open>p\<close> the list visits the cells \<open>cs\<close>, of which \<open>xs\<close> are items,
  and at most \<open>g\<close> cells before the next item or the end.\<close>

inductive tag_path :: "j4_sandbox \<Rightarrow> nat \<Rightarrow> u32 \<Rightarrow> u32 list \<Rightarrow> u32 list \<Rightarrow> bool" for sb where
  null: "tag_path sb (Suc g) 0 [] []"
| finish: "tag_cell sb p TAG_DONE d \<Longrightarrow> tag_path sb (Suc g) p [p] []"
| ignore: "tag_cell sb p TAG_IGNORE d \<Longrightarrow> tag_path sb g (p + 8) cs xs \<Longrightarrow> tag_path sb (Suc g) p (p # cs) xs"
| more: "tag_cell sb p TAG_MORE d \<Longrightarrow> tag_path sb g d cs xs \<Longrightarrow> tag_path sb (Suc g) p (p # cs) xs"
| skip: "tag_cell sb p TAG_SKIP d \<Longrightarrow> d \<le> 0x1fffffff \<Longrightarrow> tag_path sb g (p + 8 * (d + 1)) cs xs \<Longrightarrow>
    tag_path sb (Suc g) p (p # cs) xs"
| item: "tag_cell sb p t d \<Longrightarrow> t > TAG_SKIP \<Longrightarrow> tag_path sb 65536 (p + 8) cs xs \<Longrightarrow>
    tag_path sb (Suc g) p (p # cs) (p # xs)"

lemma item_tag: "t > TAG_SKIP \<Longrightarrow> t \<noteq> TAG_DONE \<and> t \<noteq> TAG_IGNORE \<and> t \<noteq> TAG_MORE \<and> t \<noteq> TAG_SKIP"
  by (auto simp: tag_consts)

text \<open>One step of the cursor.\<close>

lemma path_end: "tag_path sb g p cs [] \<Longrightarrow> next_item_loop g sb p = Some (0, 0)"
  by (induction g p cs "[] :: u32 list" rule: tag_path.induct) (auto simp: tag_cell_def tag_consts not_less)

lemma path_next:
  "tag_path sb g p cs ys \<Longrightarrow> ys = x # xs \<Longrightarrow> next_item_loop g sb p = Some (x, x + 8) \<and>
     (\<exists>cs1 cs2 t d. cs = cs1 @ x # cs2 \<and> tag_path sb 65536 (x + 8) cs2 xs \<and> tag_cell sb x t d \<and> t > TAG_SKIP)"
proof (induction g p cs ys rule: tag_path.induct)
  case (item p t d cs xs' g)
  then have "next_item_loop (Suc g) sb p = Some (x, x + 8)"
    using item_tag [OF item.hyps(2)] by (auto simp: tag_cell_def)
  moreover have "p # cs = [] @ x # cs" using item.prems by simp
  ultimately show ?case using item by blast
next
  case (ignore p d g cs xs')
  then obtain cs1 cs2 t d' where "cs = cs1 @ x # cs2" "tag_path sb 65536 (x + 8) cs2 xs" "tag_cell sb x t d'" "t > TAG_SKIP"
    by blast
  with ignore show ?case
    by (intro conjI exI [of _ "p # cs1"] exI [of _ cs2] exI) (auto simp: tag_cell_def tag_consts)
next
  case (more p d g cs xs')
  then obtain cs1 cs2 t d' where "cs = cs1 @ x # cs2" "tag_path sb 65536 (x + 8) cs2 xs" "tag_cell sb x t d'" "t > TAG_SKIP"
    by blast
  with more show ?case
    by (intro conjI exI [of _ "p # cs1"] exI [of _ cs2] exI) (auto simp: tag_cell_def tag_consts)
next
  case (skip p d g cs xs')
  then obtain cs1 cs2 t d' where "cs = cs1 @ x # cs2" "tag_path sb 65536 (x + 8) cs2 xs" "tag_cell sb x t d'" "t > TAG_SKIP"
    by blast
  with skip show ?case
    by (intro conjI exI [of _ "p # cs1"] exI [of _ cs2] exI) (auto simp: tag_cell_def tag_consts not_less)
qed auto

lemma path_frame:
  assumes "tag_path sb g p cs xs"
    and "\<And>c t d. c \<in> set cs \<Longrightarrow> tag_cell sb c t d \<Longrightarrow> tag_cell sb' c t d"
  shows "tag_path sb' g p cs xs"
  using assms by (induction g p cs xs rule: tag_path.induct) (blast intro: tag_path.intros list.set_intros)+

lemma path_items: "tag_path sb g p cs xs \<Longrightarrow> set xs \<subseteq> set cs"
  by (induction g p cs xs rule: tag_path.induct) auto

section \<open>Searching\<close>

lemma find_tag_path:
  "tag_path sb 65536 p cs xs \<Longrightarrow> utility_find_tag sb w p =
     Some (URet (case List.find (\<lambda>x. gread32 sb x = Some w) xs of Some x \<Rightarrow> x | None \<Rightarrow> 0))"
proof (induction xs arbitrary: p cs)
  case Nil
  then show ?case using path_end [of sb 65536 p cs] by (subst utility_find_tag.simps) (simp add: next_item_def)
next
  case (Cons x xs)
  obtain cs2 t d where n: "next_item sb p = Some (x, x + 8)" "tag_path sb 65536 (x + 8) cs2 xs" "tag_cell sb x t d"
    using path_next [OF Cons.prems refl] by (auto simp: next_item_def)
  then show ?case
    using Cons.IH [OF n(2)] by (subst utility_find_tag.simps) (auto simp: tag_cell_def)
qed

text \<open>On every finite tag list, whatever its TAG_IGNORE, TAG_MORE and TAG_SKIP cells,
  \<open>FindTagItem\<close> returns the first item of the tag, and 0 when there is none.\<close>

theorem find_tag_first:
  assumes "tag_path sb 65536 p cs xs"
  shows "find_tag_item sb w p = Some (URet (case List.find (\<lambda>x. gread32 sb x = Some w) xs of Some x \<Rightarrow> x | None \<Rightarrow> 0))"
  unfolding find_tag_item_def by (rule find_tag_path [OF assms])


section \<open>Loops over a list\<close>

lemma tag_loop_end: "tag_path sb 65536 p cs [] \<Longrightarrow> tag_loop body sb p s = Some (URet (sb, s))"
  using path_end [of sb 65536 p cs] by (subst tag_loop.simps) (simp add: next_item_def)

lemma tag_loop_next:
  assumes "tag_path sb 65536 p cs (x # xs)" "body x sb s = Some (URet (sb', s'))"
  shows "tag_loop body sb p s = tag_loop body sb' (x + 8) s'"
proof -
  have "next_item sb p = Some (x, x + 8)" "x \<noteq> 0"
    using path_next [OF assms(1) refl] by (auto simp: next_item_def tag_cell_def)
  with assms(2) show ?thesis by (subst tag_loop.simps) simp
qed

lemma count_items:
  "tag_path sb 65536 p cs xs \<Longrightarrow>
     tag_loop (\<lambda>item sb count. Some (URet (sb, count + 1))) sb p n = Some (URet (sb, n + of_nat (length xs)))"
proof (induction xs arbitrary: p cs n)
  case Nil
  then show ?case by (simp add: tag_loop_end)
next
  case (Cons x xs)
  then obtain cs2 where "tag_path sb 65536 (x + 8) cs2 xs" using path_next [OF Cons.prems refl] by blast
  with Cons.IH [of "x + 8" cs2 "n + 1"] show ?case
    by (subst tag_loop_next [OF Cons.prems, where sb' = sb and s' = "n + 1"]) (simp_all add: add.assoc)
qed

section \<open>Memory that changes elsewhere\<close>

text \<open>The same arena, and the same bytes below a host offset.\<close>

definition agree_below :: "nat \<Rightarrow> j4_sandbox \<Rightarrow> j4_sandbox \<Rightarrow> bool" where
  "agree_below B sb sb' \<longleftrightarrow> jb_origin sb' = jb_origin sb \<and> jb_size sb' = jb_size sb \<and> (\<forall>i<B. jb_mem sb' i = jb_mem sb i)"

lemma agree_below_simps:
  assumes "agree_below B sb sb'"
  shows "arena_ok sb' = arena_ok sb" "span_ok sb' p n = span_ok sb p n" "hof sb' p = hof sb p"
  using assms by (simp_all add: agree_below_def arena_ok_def span_ok_def hof_def)

lemma agree_read: "agree_below B sb sb' \<Longrightarrow> i + 4 \<le> B \<Longrightarrow> sb_read_be32 sb' i = sb_read_be32 sb i"
  by (rule read_be32_cong) (auto simp: agree_below_def)

lemma cell_reads:
  assumes "arena_ok sb" "span_ok sb c 8"
  shows "gread32 sb c = Some (sb_read_be32 sb (hof sb c))" "gread32 sb (c + 4) = Some (sb_read_be32 sb (hof sb c + 4))"
  using read32_at [OF assms, of 0] read32_at [OF assms, of 4] by simp_all

lemma agree_cell:
  assumes "agree_below B sb sb'" "arena_ok sb" "hof sb c + 8 \<le> B" "tag_cell sb c t d"
  shows "tag_cell sb' c t d"
proof -
  have s: "span_ok sb c 8" using assms(4) by (simp add: tag_cell_def)
  note a = agree_below_simps [OF assms(1)]
  show ?thesis
    using assms(4) cell_reads [OF assms(2) s] cell_reads [of sb' c] a s assms(2)
      agree_read [OF assms(1), of "hof sb c"] agree_read [OF assms(1), of "hof sb c + 4"] assms(3)
    by (simp add: tag_cell_def)
qed

lemma agree_path:
  "agree_below B sb sb' \<Longrightarrow> arena_ok sb \<Longrightarrow> \<forall>c\<in>set cs. hof sb c + 8 \<le> B \<Longrightarrow> tag_path sb g p cs xs \<Longrightarrow> tag_path sb' g p cs xs"
  using path_frame agree_cell by blast

section \<open>Copying\<close>

lemma copy_run:
  "arena_ok sb \<Longrightarrow> tag_path sb 65536 p cs xs \<Longrightarrow> \<forall>c\<in>set cs. hof sb c + 8 \<le> hof sb dst \<Longrightarrow>
   unat (jb_origin sb) \<le> unat dst \<Longrightarrow> unat dst + 8 * length xs \<le> unat (jb_origin sb) + unat (jb_size sb) \<Longrightarrow>
   \<exists>sb'. copy_items sb p dst = Some (URet (sb', dst + 8 * of_nat (length xs))) \<and> agree_below (hof sb dst) sb sb' \<and>
     (\<forall>i\<ge>hof sb dst + 8 * length xs. jb_mem sb' i = jb_mem sb i) \<and>
     (\<forall>k<length xs. sb_read_be32 sb' (hof sb dst + 8 * k) = sb_read_be32 sb (hof sb (xs ! k)) \<and>
        sb_read_be32 sb' (hof sb dst + 8 * k + 4) = sb_read_be32 sb (hof sb (xs ! k) + 4))"
proof (induction xs arbitrary: sb p cs dst)
  case Nil
  then show ?case by (auto simp: copy_items_def tag_loop_end agree_below_def)
next
  case (Cons x xs)
  obtain cs1 cs2 t d where n: "cs = cs1 @ x # cs2" "tag_path sb 65536 (x + 8) cs2 xs" "tag_cell sb x t d"
    using path_next [OF Cons.prems(2) refl] by blast
  have sx: "span_ok sb x 8" using n(3) by (simp add: tag_cell_def)
  have below: "hof sb x + 8 \<le> hof sb dst" using Cons.prems(3) n(1) by simp
  have sd: "span_ok sb dst 8" using Cons.prems(4,5) by (simp add: span_ok_nat)
  let ?s1 = "sb_write_be32 sb (hof sb dst) (sb_read_be32 sb (hof sb x))"
  let ?s2 = "sb_write_be32 ?s1 (hof sb dst + 4) (sb_read_be32 sb (hof sb x + 4))"
  have w1: "gwrite32 sb dst (sb_read_be32 sb (hof sb x)) = Some ?s1"
    using write32_at [OF Cons.prems(1) sd, of 0] by simp
  have r1: "gread32 ?s1 (x + 4) = Some (sb_read_be32 sb (hof sb x + 4))"
    using cell_reads(2) [of ?s1 x] Cons.prems(1) sx read_write_be32(2) [of "hof sb x + 4" "hof sb dst"] below by simp
  have w2: "gwrite32 ?s1 (dst + 4) (sb_read_be32 sb (hof sb x + 4)) = Some ?s2"
    using write32_at [of ?s1 dst 8 4] Cons.prems(1) sd by simp
  have ag: "agree_below (hof sb dst) sb ?s2" by (simp add: agree_below_def write_be32_other)
  have d8: "unat (dst + 8) = unat dst + 8" "hof ?s2 (dst + 8) = hof sb dst + 8"
    using span_facts(1) [OF Cons.prems(1) sd, of 8 0] Cons.prems(4) by (simp_all add: hof_def)
  have "\<exists>sb'. copy_items ?s2 (x + 8) (dst + 8) = Some (URet (sb', dst + 8 + 8 * of_nat (length xs))) \<and>
     agree_below (hof ?s2 (dst + 8)) ?s2 sb' \<and>
     (\<forall>i\<ge>hof ?s2 (dst + 8) + 8 * length xs. jb_mem sb' i = jb_mem ?s2 i) \<and>
     (\<forall>k<length xs. sb_read_be32 sb' (hof ?s2 (dst + 8) + 8 * k) = sb_read_be32 ?s2 (hof ?s2 (xs ! k)) \<and>
        sb_read_be32 sb' (hof ?s2 (dst + 8) + 8 * k + 4) = sb_read_be32 ?s2 (hof ?s2 (xs ! k) + 4))"
  proof (rule Cons.IH)
    show "tag_path ?s2 65536 (x + 8) cs2 xs"
      by (rule agree_path [OF ag Cons.prems(1) _ n(2)]) (use Cons.prems(3) n(1) in auto)
    show "\<forall>c\<in>set cs2. hof ?s2 c + 8 \<le> hof ?s2 (dst + 8)"
    proof
      fix c assume "c \<in> set cs2"
      then have "hof sb c + 8 \<le> hof sb dst" using Cons.prems(3) n(1) by simp
      then show "hof ?s2 c + 8 \<le> hof ?s2 (dst + 8)" unfolding d8(2) by simp
    qed
  qed (use Cons.prems d8 in auto)
  then obtain sb' where sb': "copy_items ?s2 (x + 8) (dst + 8) = Some (URet (sb', dst + 8 + 8 * of_nat (length xs)))"
    "agree_below (hof sb dst + 8) ?s2 sb'" "\<And>i. hof sb dst + 8 + 8 * length xs \<le> i \<Longrightarrow> jb_mem sb' i = jb_mem ?s2 i"
    "\<And>k. k < length xs \<Longrightarrow> sb_read_be32 sb' (hof sb dst + 8 + 8 * k) = sb_read_be32 ?s2 (hof sb (xs ! k)) \<and>
        sb_read_be32 sb' (hof sb dst + 8 + 8 * k + 4) = sb_read_be32 ?s2 (hof sb (xs ! k) + 4)"
    unfolding d8(2) by auto
  have call: "copy_items sb p dst = copy_items ?s2 (x + 8) (dst + 8)"
    unfolding copy_items_def
    by (rule tag_loop_next [OF Cons.prems(2)])
      (use cell_reads [OF Cons.prems(1) sx] w1 r1 w2 in \<open>simp add: try_read_def\<close>)
  have b2: "hof sb (xs ! k) + 8 \<le> hof sb dst" if "k < length xs" for k
    using path_items [OF n(2)] nth_mem [OF that] Cons.prems(3) n(1) by auto
  have s2: "sb_read_be32 ?s2 i = sb_read_be32 sb i" if "i + 4 \<le> hof sb dst" for i
    using that agree_read [OF ag] by simp
  have first: "sb_read_be32 sb' (hof sb dst) = sb_read_be32 sb (hof sb x)"
    "sb_read_be32 sb' (hof sb dst + 4) = sb_read_be32 sb (hof sb x + 4)"
    using agree_read [OF sb'(2), of "hof sb dst"] agree_read [OF sb'(2), of "hof sb dst + 4"]
    by (simp_all add: read_write_be32)
  have cells: "sb_read_be32 sb' (hof sb dst + 8 * k) = sb_read_be32 sb (hof sb ((x # xs) ! k)) \<and>
      sb_read_be32 sb' (hof sb dst + 8 * k + 4) = sb_read_be32 sb (hof sb ((x # xs) ! k) + 4)"
    if k: "k < length (x # xs)" for k
  proof (cases k)
    case (Suc j)
    then have j: "j < length xs" using k by simp
    have "hof sb dst + 8 * k = hof sb dst + 8 + 8 * j" "(x # xs) ! k = xs ! j" using Suc by simp_all
    moreover have "hof sb (xs ! j) + 4 \<le> hof sb dst" "hof sb (xs ! j) + 4 + 4 \<le> hof sb dst"
      using b2 [OF j] by simp_all
    ultimately show ?thesis using sb'(4) [OF j] by (simp only: s2)
  qed (use first in simp)
  have rest: "jb_mem sb' i = jb_mem sb i" if "hof sb dst + 8 * length (x # xs) \<le> i" for i
    using sb'(3) [of i] that by (simp add: write_be32_other)
  have "agree_below (hof sb dst) sb sb'" using ag sb'(2) by (auto simp: agree_below_def)
  then show ?case using call sb'(1) rest cells by (auto simp: algebra_simps)
qed

text \<open>The items one after the other, closed by TAG_DONE.\<close>

fun row :: "u32 \<Rightarrow> nat \<Rightarrow> u32 list" where
  "row p 0 = []"
| "row p (Suc n) = p # row (p + 8) n"

lemma row_path:
  "(\<And>k. k < n \<Longrightarrow> \<exists>t d. tag_cell sb (p + 8 * of_nat k) t d \<and> t > TAG_SKIP) \<Longrightarrow>
   tag_cell sb (p + 8 * of_nat n) TAG_DONE d \<Longrightarrow>
   tag_path sb (Suc g) p (row p n @ [p + 8 * of_nat n]) (row p n)"
proof (induction n arbitrary: p g)
  case 0
  then show ?case by (auto intro: tag_path.finish)
next
  case (Suc n)
  have "tag_path sb (Suc 65535) (p + 8) (row (p + 8) n @ [p + 8 + 8 * of_nat n]) (row (p + 8) n)"
  proof (rule Suc.IH)
    fix k assume "k < n"
    then show "\<exists>t d. tag_cell sb (p + 8 + 8 * of_nat k) t d \<and> t > TAG_SKIP"
      using Suc.prems(1) [of "Suc k"] by (simp add: algebra_simps)
  next
    show "tag_cell sb (p + 8 + 8 * of_nat n) TAG_DONE d" using Suc.prems(2) by (simp add: algebra_simps)
  qed
  moreover obtain t d' where "tag_cell sb p t d'" "t > TAG_SKIP" using Suc.prems(1) [of 0] by auto
  ultimately have "tag_path sb (Suc g) p (p # row (p + 8) n @ [p + 8 + 8 * of_nat n]) (p # row (p + 8) n)"
    by (auto intro: tag_path.item)
  then show ?case by (simp add: algebra_simps)
qed

lemma row_nth: "k < n \<Longrightarrow> row p n ! k = p + 8 * of_nat k"
  by (induction p n arbitrary: k rule: row.induct) (auto simp: nth_Cons' algebra_simps)

lemma row_length [simp]: "length (row p n) = n" by (induction p n rule: row.induct) auto

section \<open>Cloning\<close>

text \<open>The heap lies in the arena.\<close>

definition heap_ok :: "emu_run \<Rightarrow> bool" where
  "heap_ok r \<longleftrightarrow> arena_ok (e_box r) \<and> jb_origin (e_box r) \<le> exec_heap r \<and> exec_heap r \<noteq> 0 \<and>
     exec_heap r \<le> exec_heap_end r \<and> exec_heap_end r \<le> box_end (e_box r)"

lemma round8:
  fixes n :: u32
  assumes "unat n = 8 * k" "8 * k < 2 ^ 31"
  shows "(n + 7) AND NOT 7 = n"
proof -
  have m: "(7 :: u32) = mask 3" by (simp add: mask_eq_exp_minus_1)
  have "unat (n + 7) = 8 * k + 7" using assms by (simp add: unat_word_ariths)
  then have "unat ((n + 7) AND NOT (mask 3)) = unat n" using assms(1) by (simp add: unat_and_not_mask)
  then show ?thesis unfolding m by (simp add: word_unat_eq_iff)
qed

lemma guest_alloc_cases:
  assumes "heap_ok r" "unat n = 8 * k" "0 < k" "8 * k < 2 ^ 31" "unat (exec_heap_end r) < 2 ^ 31"
  shows "if unat (exec_heap r) + 8 * k \<le> unat (exec_heap_end r)
    then \<exists>sb'. guest_alloc r n = Some (exec_heap r, r\<lparr>exec_heap := exec_heap r + n, e_box := sb'\<rparr>) \<and>
       agree_below (hof (e_box r) (exec_heap r)) (e_box r) sb' \<and>
       unat (exec_heap r) + 8 * k \<le> unat (jb_origin (e_box r)) + unat (jb_size (e_box r)) \<and>
       (\<forall>i. hof (e_box r) (exec_heap r) \<le> i \<and> i < hof (e_box r) (exec_heap r) + 8 * k \<longrightarrow> jb_mem sb' i = 0) \<and>
       (\<forall>i. hof (e_box r) (exec_heap r) + 8 * k \<le> i \<longrightarrow> jb_mem sb' i = jb_mem (e_box r) i)
    else guest_alloc r n = Some (0, r)"
proof -
  let ?sb = "e_box r"
  have hp: "unat (exec_heap r) \<le> unat (exec_heap_end r)" "unat (jb_origin ?sb) \<le> unat (exec_heap r)"
    "unat (exec_heap_end r) \<le> unat (jb_origin ?sb) + unat (jb_size ?sb)"
    using assms(1) unat_box_end [of ?sb] by (auto simp: heap_ok_def word_le_nat_alt)
  have sum: "unat (exec_heap r + n) = unat (exec_heap r) + 8 * k"
    using hp assms(2,4,5) by (simp add: unat_word_ariths)
  have n0: "n \<noteq> 0" using assms(2,3) by auto
  show ?thesis
  proof (cases "exec_heap r + n > exec_heap_end r")
    case True
    then have "\<not> unat (exec_heap r) + 8 * k \<le> unat (exec_heap_end r)" by (simp add: word_less_nat_alt sum)
    moreover have "guest_alloc r n = Some (0, r)"
      using True unfolding guest_alloc_def round8 [OF assms(2,4)] by simp
    ultimately show ?thesis by simp
  next
    case False
    then have top: "unat (exec_heap r) + 8 * k \<le> unat (exec_heap_end r)"
      by (simp add: word_less_nat_alt sum)
    have off: "j4_sandbox_host ?sb (exec_heap r) = hof ?sb (exec_heap r)"
      using hp(2) by (simp add: j4_sandbox_host_def hof_def unat_sub word_le_nat_alt)
    let ?sb1 = "if next_alloc ?sb < exec_heap r + n then ?sb\<lparr>next_alloc := exec_heap r + n\<rparr> else ?sb"
    have same: "jb_origin ?sb1 = jb_origin ?sb" "jb_size ?sb1 = jb_size ?sb" "jb_mem ?sb1 = jb_mem ?sb"
      "j4_sandbox_host ?sb1 (exec_heap r) = hof ?sb (exec_heap r)"
      using off by (simp_all add: j4_sandbox_host_def)
    have ok: "host_ok ?sb1 (exec_heap r) (unat n)"
      using top hp assms(2) same by (simp add: host_ok_def hof_def)
    define sb' where "sb' = ?sb1\<lparr>jb_mem := (\<lambda>i. if hof ?sb (exec_heap r) \<le> i \<and> i < hof ?sb (exec_heap r) + unat n
        then 0 else jb_mem ?sb1 i)\<rparr>"
    have fill: "gfill ?sb1 (exec_heap r) 0 (unat n) = Some sb'"
      using ok same by (simp add: gfill_def sb'_def Let_def)
    have "guest_alloc r n = Some (exec_heap r, r\<lparr>exec_heap := exec_heap r + n, e_box := sb'\<rparr>)"
      using False n0 fill unfolding guest_alloc_def round8 [OF assms(2,4)] by (simp add: Let_def)
    moreover have "agree_below (hof ?sb (exec_heap r)) ?sb sb'"
      by (simp add: agree_below_def sb'_def)
    moreover have "jb_mem sb' i = 0" if "hof ?sb (exec_heap r) \<le> i \<and> i < hof ?sb (exec_heap r) + 8 * k" for i
      using that assms(2) by (simp add: sb'_def)
    moreover have "jb_mem sb' i = jb_mem ?sb i" if "hof ?sb (exec_heap r) + 8 * k \<le> i" for i
      using that assms(2) by (simp add: sb'_def)
    ultimately show ?thesis using top hp by auto
  qed
qed

lemma path_cells: "tag_path sb g p cs xs \<Longrightarrow> c \<in> set cs \<Longrightarrow> \<exists>t d. tag_cell sb c t d"
  by (induction g p cs xs rule: tag_path.induct) auto

lemma item_cells: "tag_path sb g p cs xs \<Longrightarrow> x \<in> set xs \<Longrightarrow> \<exists>t d. tag_cell sb x t d \<and> t > TAG_SKIP"
  by (induction g p cs xs rule: tag_path.induct) auto

text \<open>A list of two items with a TAG_IGNORE and a TAG_MORE cell between them, and a cyclic one.\<close>

definition tag_box :: emu_run where
  "tag_box = \<lparr>e_box = \<lparr>jb_mem = (\<lambda>i. if i < 64 then byte_of (3 - i mod 4)
       ([TAG_IGNORE, 0, 0x80000001, 7, TAG_MORE, 0x1030, 0, 0, 0x80000009, 5, TAG_MORE, 0x1020,
         0x80000002, 8, TAG_DONE, 0] ! (i div 4)) else 0),
     jb_origin = 0x1000, jb_size = 0x100, next_alloc = 0x1080\<rparr>,
     exec_heap = 0x1080, exec_heap_end = 0x1100, named = []\<rparr>"

lemma tag_box_cells:
  "tag_cell (e_box tag_box) 0x1000 TAG_IGNORE 0" "tag_cell (e_box tag_box) 0x1008 0x80000001 7"
  "tag_cell (e_box tag_box) 0x1010 TAG_MORE 0x1030" "tag_cell (e_box tag_box) 0x1030 0x80000002 8"
  "tag_cell (e_box tag_box) 0x1038 TAG_DONE 0"
  "tag_cell (e_box tag_box) 0x1020 0x80000009 5" "tag_cell (e_box tag_box) 0x1028 TAG_MORE 0x1020"
  by (unfold tag_cell_def, code_simp+)

lemma tag_box_path: "tag_path (e_box tag_box) 65536 0x1000 [0x1000, 0x1008, 0x1010, 0x1030, 0x1038] [0x1008, 0x1030]"
proof -
  let ?P = "tag_path (e_box tag_box)"
  have a: "?P (Suc g) 0x1038 [0x1038] []" for g by (rule tag_path.finish [OF tag_box_cells(5)])
  have b: "?P (Suc g) 0x1030 [0x1030, 0x1038] [0x1030]" for g
    by (rule tag_path.item [OF tag_box_cells(4)]) (use a [of 65535] in \<open>simp_all add: tag_consts\<close>)
  have c: "?P (Suc (Suc g)) 0x1010 [0x1010, 0x1030, 0x1038] [0x1030]" for g
    by (rule tag_path.more [OF tag_box_cells(3) b])
  have d: "?P (Suc g) 0x1008 [0x1008, 0x1010, 0x1030, 0x1038] [0x1008, 0x1030]" for g
    by (rule tag_path.item [OF tag_box_cells(2)]) (use c [of 65534] in \<open>simp_all add: tag_consts\<close>)
  have "?P (Suc 65535) 0x1000 [0x1000, 0x1008, 0x1010, 0x1030, 0x1038] [0x1008, 0x1030]"
    by (rule tag_path.ignore [OF tag_box_cells(1)]) (use d [of 65534] in simp)
  then show ?thesis by simp
qed

theorem find_tag_first_witness: "find_tag_item (e_box tag_box) 0x80000002 0x1000 = Some (URet 0x1030)"
  using find_tag_first [OF tag_box_path, where w = "0x80000002"] tag_box_cells(2,4) by (simp add: tag_cell_def)


lemma tag_box_heap: "heap_ok tag_box"
  by (simp add: heap_ok_def tag_box_def arena_ok_def box_end_def)

text \<open>C26: \<open>CloneTagItems\<close> of a finite tag list below the heap makes a list of its own when the heap
  has room for its items and the closing cell: at the heap pointer, which moves past it, the
  same tags with the same data in the same order, one after the other and closed. Every
  byte outside that new block is unchanged, so the original list and its data are what they
  were. It returns 0, with nothing changed at all, exactly when the room is missing.\<close>

theorem clone_copies:
  assumes "heap_ok r" "tag_path (e_box r) 65536 p cs xs" "\<forall>c\<in>set cs. hof (e_box r) c + 8 \<le> hof (e_box r) (exec_heap r)"
    and "length xs < 2 ^ 27" "unat (exec_heap_end r) < 2 ^ 31"
  shows "if unat (exec_heap r) + 8 * (length xs + 1) \<le> unat (exec_heap_end r)
    then \<exists>r'. clone_tag_items r p = Some (URet (exec_heap r, r')) \<and> exec_heap r \<noteq> 0 \<and>
      exec_heap r' = exec_heap r + 8 * of_nat (length xs + 1) \<and>
      exec_heap_end r' = exec_heap_end r \<and> named r' = named r \<and>
      tag_path (e_box r') 65536 (exec_heap r)
        (row (exec_heap r) (length xs) @ [exec_heap r + 8 * of_nat (length xs)]) (row (exec_heap r) (length xs)) \<and>
      (\<forall>k<length xs. \<exists>t d. tag_cell (e_box r) (xs ! k) t d \<and> tag_cell (e_box r') (exec_heap r + 8 * of_nat k) t d) \<and>
      (\<forall>i. i < hof (e_box r) (exec_heap r) \<or> hof (e_box r) (exec_heap r) + 8 * (length xs + 1) \<le> i \<longrightarrow>
         jb_mem (e_box r') i = jb_mem (e_box r) i) \<and>
      tag_path (e_box r') 65536 p cs xs \<and>
      (\<forall>c\<in>set cs. \<exists>t d. tag_cell (e_box r) c t d \<and> tag_cell (e_box r') c t d)
    else clone_tag_items r p = Some (URet (0, r))"
proof -
  let ?sb = "e_box r" and ?n = "length xs" and ?a = "exec_heap r"
  have ar: "arena_ok ?sb" using assms(1) by (simp add: heap_ok_def)
  have count: "tag_loop (\<lambda>item sb count. Some (URet (sb, count + 1))) ?sb p (1 :: u32) = Some (URet (?sb, 1 + of_nat ?n))"
    by (rule count_items [OF assms(2)])
  have un: "unat ((1 + of_nat ?n :: u32) * 8) = 8 * (?n + 1)"
  proof -
    have e: "(1 + of_nat ?n :: u32) * 8 = of_nat (8 * (?n + 1))" by (simp add: algebra_simps)
    show ?thesis unfolding e unat_of_nat using assms(4) by simp
  qed
  have lim: "0 < ?n + 1" "8 * (?n + 1) < 2 ^ 31" using assms(4) by simp_all
  note alloc = guest_alloc_cases [OF assms(1) un lim assms(5)]
  show ?thesis
  proof (cases "unat ?a + 8 * (?n + 1) \<le> unat (exec_heap_end r)")
    case False
    then have "guest_alloc r ((1 + of_nat ?n) * 8) = Some (0, r)" using alloc by simp
    then have "clone_tag_items r p = Some (URet (0, r))" by (simp add: clone_tag_items_def count try_call_def try_read_def)
    then show ?thesis using False by simp
  next
    case room: True
    define r1 where "r1 sb = r\<lparr>exec_heap := ?a + (1 + of_nat ?n) * 8, e_box := sb\<rparr>" for sb
    from alloc room obtain s1 where 2: "guest_alloc r ((1 + of_nat ?n) * 8) = Some (?a, r1 s1)"
       "agree_below (hof ?sb ?a) ?sb s1" "unat ?a + 8 * (?n + 1) \<le> unat (jb_origin ?sb) + unat (jb_size ?sb)"
       "\<And>i. hof ?sb ?a \<le> i \<Longrightarrow> i < hof ?sb ?a + 8 * (?n + 1) \<Longrightarrow> jb_mem s1 i = 0"
       "\<And>i. hof ?sb ?a + 8 * (?n + 1) \<le> i \<Longrightarrow> jb_mem s1 i = jb_mem ?sb i"
      unfolding if_P [OF room] r1_def [symmetric] by blast
    let ?s1 = s1
    note fr = agree_below_simps [OF 2(2)]
    have h1: "hof ?s1 q = hof ?sb q" "jb_origin ?s1 = jb_origin ?sb" "jb_size ?s1 = jb_size ?sb" for q
      using fr(3) 2(2) by (auto simp: agree_below_def)
    have og: "unat (jb_origin ?sb) \<le> unat ?a" using assms(1) by (simp add: heap_ok_def word_le_nat_alt)
    have p1: "tag_path ?s1 65536 p cs xs" by (rule agree_path [OF 2(2) ar assms(3,2)])
    have "\<exists>sb'. copy_items ?s1 p ?a = Some (URet (sb', ?a + 8 * of_nat ?n)) \<and> agree_below (hof ?s1 ?a) ?s1 sb' \<and>
       (\<forall>i\<ge>hof ?s1 ?a + 8 * ?n. jb_mem sb' i = jb_mem ?s1 i) \<and>
       (\<forall>k<?n. sb_read_be32 sb' (hof ?s1 ?a + 8 * k) = sb_read_be32 ?s1 (hof ?s1 (xs ! k)) \<and>
          sb_read_be32 sb' (hof ?s1 ?a + 8 * k + 4) = sb_read_be32 ?s1 (hof ?s1 (xs ! k) + 4))"
      by (rule copy_run [OF _ p1]) (use ar fr(1) h1 assms(3) og 2(3) in auto)
    then obtain sb' where c: "copy_items ?s1 p ?a = Some (URet (sb', ?a + 8 * of_nat ?n))"
      "agree_below (hof ?sb ?a) ?s1 sb'" "\<And>i. hof ?sb ?a + 8 * ?n \<le> i \<Longrightarrow> jb_mem sb' i = jb_mem ?s1 i"
      "\<And>k. k < ?n \<Longrightarrow> sb_read_be32 sb' (hof ?sb ?a + 8 * k) = sb_read_be32 ?s1 (hof ?sb (xs ! k))"
      "\<And>k. k < ?n \<Longrightarrow> sb_read_be32 sb' (hof ?sb ?a + 8 * k + 4) = sb_read_be32 ?s1 (hof ?sb (xs ! k) + 4)"
      unfolding h1 by blast
    have ag: "agree_below (hof ?sb ?a) ?sb sb'" using 2(2) c(2) by (auto simp: agree_below_def)
    note fr' = agree_below_simps [OF ag]
    have cell: "unat (?a + 8 * of_nat k) = unat ?a + 8 * k \<and> span_ok sb' (?a + 8 * of_nat k) 8 \<and>
        ?a + 8 * of_nat k \<noteq> 0 \<and>
        tag_cell sb' (?a + 8 * of_nat k) (sb_read_be32 sb' (hof ?sb ?a + 8 * k)) (sb_read_be32 sb' (hof ?sb ?a + 8 * k + 4))"
      if k: "k \<le> ?n" for k
    proof -
      have e: "?a + 8 * of_nat k = of_nat (unat ?a + 8 * k)" by simp
      have u: "unat (?a + 8 * of_nat k) = unat ?a + 8 * k"
        unfolding e unat_of_nat using k 2(3) ar by (simp add: arena_ok_def)
      have "span_ok ?sb (?a + 8 * of_nat k) 8" unfolding span_ok_nat u using og k 2(3) by simp
      then have sp: "span_ok sb' (?a + 8 * of_nat k) 8" unfolding fr'(2) .
      have nz: "?a + 8 * of_nat k \<noteq> 0"
      proof
        assume "?a + 8 * of_nat k = 0"
        then have "unat ?a = 0" using u by simp
        then show False using assms(1) by (simp add: heap_ok_def unat_eq_0)
      qed
      have h: "hof sb' (?a + 8 * of_nat k) = hof ?sb ?a + 8 * k" unfolding fr'(3) using u og by (simp add: hof_def)
      show ?thesis using u sp nz cell_reads [of sb', OF _ sp] ar fr'(1) h by (simp add: tag_cell_def)
    qed
    have orig: "tag_cell ?sb (xs ! k) (sb_read_be32 ?sb (hof ?sb (xs ! k))) (sb_read_be32 ?sb (hof ?sb (xs ! k) + 4))"
      "sb_read_be32 ?sb (hof ?sb (xs ! k)) > TAG_SKIP" "hof ?sb (xs ! k) + 8 \<le> hof ?sb ?a" if k: "k < ?n" for k
    proof -
      obtain t d where td: "tag_cell ?sb (xs ! k) t d" "t > TAG_SKIP" using item_cells [OF assms(2) nth_mem [OF k]] by blast
      then have "span_ok ?sb (xs ! k) 8" by (simp add: tag_cell_def)
      from cell_reads [OF ar this] td
      show "tag_cell ?sb (xs ! k) (sb_read_be32 ?sb (hof ?sb (xs ! k))) (sb_read_be32 ?sb (hof ?sb (xs ! k) + 4))"
        "sb_read_be32 ?sb (hof ?sb (xs ! k)) > TAG_SKIP" by (auto simp: tag_cell_def)
      show "hof ?sb (xs ! k) + 8 \<le> hof ?sb ?a" using assms(3) path_items [OF assms(2)] nth_mem [OF k] by blast
    qed
    have same: "\<exists>t d. tag_cell ?sb (xs ! k) t d \<and> tag_cell sb' (?a + 8 * of_nat k) t d \<and> t > TAG_SKIP" if k: "k < ?n" for k
      using cell [of k] orig [OF k] c(4,5) [OF k] agree_read [OF 2(2), of "hof ?sb (xs ! k)"]
        agree_read [OF 2(2), of "hof ?sb (xs ! k) + 4"] k by auto
    have zero: "sb_read_be32 sb' (hof ?sb ?a + 8 * ?n) = 0"
      using c(3) 2(4) by (simp add: sb_read_be32_def be32_def)
    have new: "tag_path sb' (Suc 65535) ?a (row ?a ?n @ [?a + 8 * of_nat ?n]) (row ?a ?n)"
    proof (rule row_path)
      show "\<exists>t d. tag_cell sb' (?a + 8 * of_nat k) t d \<and> t > TAG_SKIP" if "k < ?n" for k
        using same [OF that] by blast
      show "tag_cell sb' (?a + 8 * of_nat ?n) TAG_DONE (sb_read_be32 sb' (hof ?sb ?a + 8 * ?n + 4))"
        using cell [of ?n] zero by (simp add: TAG_DONE_def)
    qed
    have old: "tag_path sb' 65536 p cs xs" by (rule agree_path [OF ag ar assms(3,2)])
    have call: "clone_tag_items r p = Some (URet (?a, r1 sb'))"
      using assms(1) count 2(1) c(1) by (simp add: clone_tag_items_def try_call_def try_read_def heap_ok_def r1_def)
    have cells: "\<exists>t d. tag_cell ?sb c t d \<and> tag_cell sb' c t d" if "c \<in> set cs" for c
      using path_cells [OF assms(2) that] agree_cell [OF ag ar] assms(3) that by blast
    have outside: "jb_mem sb' i = jb_mem ?sb i" if "i < hof ?sb ?a \<or> hof ?sb ?a + 8 * (?n + 1) \<le> i" for i
      using that ag c(3) [of i] 2(5) [of i] by (auto simp: agree_below_def)
    have r1: "exec_heap (r1 sb') = ?a + 8 * of_nat (?n + 1)" "e_box (r1 sb') = sb'"
      "exec_heap_end (r1 sb') = exec_heap_end r" "named (r1 sb') = named r"
      by (simp_all add: r1_def algebra_simps)
    have nz: "?a \<noteq> 0" using assms(1) by (simp add: heap_ok_def)
    have each: "\<exists>t d. tag_cell ?sb (xs ! k) t d \<and> tag_cell sb' (?a + 8 * of_nat k) t d" if "k < ?n" for k
      using same [OF that] by blast
    show ?thesis
      unfolding if_P [OF room]
      by (intro exI [of _ "r1 sb'"] conjI) (use call nz new old cells outside each in \<open>simp_all add: r1\<close>)
  qed
qed

theorem clone_copies_witness:
  "(\<exists>r'. clone_tag_items tag_box 0x1000 = Some (URet (0x1080, r')) \<and>
     tag_path (e_box r') 65536 0x1080 [0x1080, 0x1088, 0x1090] [0x1080, 0x1088] \<and>
     tag_path (e_box r') 65536 0x1000 [0x1000, 0x1008, 0x1010, 0x1030, 0x1038] [0x1008, 0x1030]) \<and>
   clone_tag_items (tag_box\<lparr>exec_heap_end := 0x1090\<rparr>) 0x1000 = Some (URet (0, tag_box\<lparr>exec_heap_end := 0x1090\<rparr>))"
proof (intro conjI)
  let ?small = "tag_box\<lparr>exec_heap_end := 0x1090\<rparr>"
  have b: "e_box ?small = e_box tag_box" "exec_heap ?small = exec_heap tag_box" by simp_all
  have cs: "\<forall>c\<in>set [0x1000, 0x1008, 0x1010, 0x1030, 0x1038]. hof (e_box tag_box) c + 8 \<le> hof (e_box tag_box) (exec_heap tag_box)"
    by (simp add: hof_def tag_box_def)
  have n: "length [0x1008, 0x1030 :: u32] = 2" "length [0x1008, 0x1030 :: u32] < 2 ^ 27" by simp_all
  have e: "unat (exec_heap_end tag_box) < 2 ^ 31" "unat (exec_heap_end ?small) < 2 ^ 31" "exec_heap tag_box = 0x1080"
    "unat (exec_heap tag_box) + 8 * (2 + 1) \<le> unat (exec_heap_end tag_box)"
    "\<not> unat (exec_heap ?small) + 8 * (2 + 1) \<le> unat (exec_heap_end ?small)"
    by (simp_all add: tag_box_def)
  have row: "row 0x1080 2 @ [0x1080 + 8 * of_nat 2] = [0x1080, 0x1088, 0x1090]" "row 0x1080 2 = [0x1080, 0x1088]"
    by (simp_all add: numeral_2_eq_2)
  from clone_copies [OF tag_box_heap tag_box_path cs n(2) e(1)] show
    "\<exists>r'. clone_tag_items tag_box 0x1000 = Some (URet (0x1080, r')) \<and>
     tag_path (e_box r') 65536 0x1080 [0x1080, 0x1088, 0x1090] [0x1080, 0x1088] \<and>
     tag_path (e_box r') 65536 0x1000 [0x1000, 0x1008, 0x1010, 0x1030, 0x1038] [0x1008, 0x1030]"
    unfolding n(1) if_P [OF e(4)] unfolding e(3) unfolding row(1) unfolding row(2) by blast
  have "heap_ok ?small" by (simp add: heap_ok_def tag_box_def arena_ok_def box_end_def)
  from clone_copies [OF this, unfolded b, OF tag_box_path cs n(2) e(2)]
  show "clone_tag_items ?small 0x1000 = Some (URet (0, ?small))"
    using e(5) unfolding n(1) b by (simp only: if_False)
qed

end
