(* ===== verification/UtilNamed.thy ===== *)
theory UtilNamed
  imports UtilTags
begin

text \<open>
  The NamedObjects of \<open>utility.library\<close> (\<open>hosted/emu68k/emu68k_utility.c\<close>): 128 slots with
  reference counts, a parent name space and a deferred removal. A handler returns \<open>d0\<close> and the
  run; \<open>UErr\<close> is the return value 1 with its message, and a reference count above its
  \<open>int32_t\<close> is undefined behaviour.
\<close>

definition ANO_NAMESPACE :: u32 where "ANO_NAMESPACE = 4000"
definition ANO_USERSPACE :: u32 where "ANO_USERSPACE = 4001"
definition ANO_PRIORITY :: u32 where "ANO_PRIORITY = 4002"
definition ANO_FLAGS :: u32 where "ANO_FLAGS = 4003"
definition NSF_NODUPS :: u8 where "NSF_NODUPS = 1"
definition NSF_CASE :: u8 where "NSF_CASE = 2"

definition named_bad :: string where
  "named_bad = ''utility NamedObject is stale or outside the guest namespace''"

section \<open>Helpers\<close>

text \<open>The first slot from \<open>from\<close> on; \<open>-1\<close> is \<open>None\<close>.\<close>

definition named_scan :: "emu_run \<Rightarrow> (named_obj \<Rightarrow> bool) \<Rightarrow> nat \<Rightarrow> nat option" where
  "named_scan r P from = List.find (\<lambda>i. P (named r ! i)) [from..<128]"

definition named_index :: "emu_run \<Rightarrow> u32 \<Rightarrow> nat option" where
  "named_index r object =
     (if object = 0 then None else named_scan r (\<lambda>n. no_live n \<and> no_object n = object) 0)"

text \<open>\<open>tolower\<close> of the C locale.\<close>

definition lower_byte :: "u8 \<Rightarrow> u8" where
  "lower_byte c = (if 65 \<le> c \<and> c \<le> 90 then c + 32 else c)"

definition named_equal :: "u8 list \<Rightarrow> u8 list \<Rightarrow> u8 \<Rightarrow> bool" where
  "named_equal a b flags =
     (if flags AND NSF_CASE \<noteq> 0 then a = b else map lower_byte a = map lower_byte b)"

definition named_namespace_flags :: "emu_run \<Rightarrow> u32 \<Rightarrow> u8" where
  "named_namespace_flags r parent =
     (case named_index r parent of Some i \<Rightarrow> no_flags (named r ! i) | None \<Rightarrow> NSF_NODUPS)"

definition slot_update :: "emu_run \<Rightarrow> nat \<Rightarrow> (named_obj \<Rightarrow> named_obj) \<Rightarrow> emu_run" where
  "slot_update r i f = r\<lparr>named := (named r)[i := f (named r ! i)]\<rparr>"

definition named_remove_if_ready :: "named_obj \<Rightarrow> named_obj" where
  "named_remove_if_ready n =
     (if no_live n \<and> no_pending_remove n \<and> no_refs n = 0
      then n\<lparr>no_added := False, no_parent := 0, no_pending_remove := False\<rparr> else n)"

text \<open>\<open>if (refs > 0) refs--\<close>\<close>

definition named_drop_ref :: "named_obj \<Rightarrow> named_obj" where
  "named_drop_ref n = (if no_refs n > 0 then n\<lparr>no_refs := no_refs n - 1\<rparr> else n)"

definition named_zero :: named_obj where
  "named_zero = \<lparr>no_object = 0, no_userspace = 0, no_user_size = 0, no_guest_name = 0, no_parent = 0,
     no_refs = 0, no_priority = 0, no_flags = 0, no_live = False, no_has_namespace = False,
     no_added = False, no_pending_remove = False, no_name = []\<rparr>"

section \<open>The handlers\<close>

text \<open>The tags of \<open>AllocNamedObjectA\<close>: name space, user space, priority and flags.\<close>

definition ano_tags :: "j4_sandbox \<Rightarrow> u32 \<Rightarrow> (j4_sandbox \<times> bool \<times> u32 \<times> u32 \<times> u32) ures option" where
  "ano_tags sb list = tag_loop (\<lambda>item sb (ns, us, pri, fl).
     try_read (gread32 sb item) (\<lambda>tag. try_read (gread32 sb (item + 4)) (\<lambda>data. Some (URet (sb,
       if tag = ANO_NAMESPACE then (data \<noteq> 0, us, pri, fl)
       else if tag = ANO_USERSPACE then (ns, data, pri, fl)
       else if tag = ANO_PRIORITY then (ns, us, data, fl)
       else if tag = ANO_FLAGS then (ns, us, pri, data)
       else (ns, us, pri, fl))))))
     sb list (False, 0, 0, 0)"

text \<open>The three allocations; the name is measured again after the first two.\<close>

definition named_allocs :: "emu_run \<Rightarrow> bool \<Rightarrow> u32 \<Rightarrow> u32 \<Rightarrow> (u32 \<times> u32 \<times> u32 \<times> emu_run) option" where
  "named_allocs r have_slot userspace name = do {
     (object, r) \<leftarrow> (if have_slot then guest_alloc r 4 else Some (0, r));
     (data, r) \<leftarrow> (if userspace \<noteq> 0 then guest_alloc r userspace else Some (0, r));
     (guest_name, r) \<leftarrow> (if object \<noteq> 0
        then guest_strdup r name (of_nat (length (c_str (e_box r) name))) else Some (0, r));
     Some (object, data, guest_name, r) }"

text \<open>The cleared object and user space, and the public pointer \<open>no_Object\<close>.\<close>

definition named_fill :: "j4_sandbox \<Rightarrow> u32 \<Rightarrow> u32 \<Rightarrow> u32 \<Rightarrow> j4_sandbox option" where
  "named_fill sb object data userspace = do {
     sb \<leftarrow> gfill sb object 0 4;
     sb \<leftarrow> (if data \<noteq> 0 then gfill sb data 0 (unat userspace) else Some sb);
     gwrite32 sb object data }"

definition new_named :: "u32 \<Rightarrow> u32 \<Rightarrow> u32 \<Rightarrow> u32 \<Rightarrow> u32 \<Rightarrow> u32 \<Rightarrow> bool \<Rightarrow> u8 list \<Rightarrow> named_obj" where
  "new_named object data userspace guest_name priority flags ns name = named_zero\<lparr>
     no_object := object, no_userspace := data, no_user_size := userspace, no_guest_name := guest_name,
     no_refs := 1, no_priority := ucast priority, no_flags := ucast flags, no_live := True,
     no_has_namespace := ns, no_name := name\<rparr>"

definition alloc_named_object :: "emu_run \<Rightarrow> u32 \<Rightarrow> u32 \<Rightarrow> (u32 \<times> emu_run) ures option" where
  "alloc_named_object r name tags =
     (if \<not> guest_cstr (e_box r) name \<or> length (c_str (e_box r) name) \<ge> 96 then Some (URet (0, r))
      else try_call (ano_tags (e_box r) tags) (\<lambda>(sb, ns, us, pri, fl).
        if us > 16 * 1024 * 1024 then Some (URet (0, r\<lparr>e_box := sb\<rparr>))
        else (let slot = named_scan r (\<lambda>n. \<not> no_live n) 0 in
          try_read (named_allocs (r\<lparr>e_box := sb\<rparr>) (slot \<noteq> None) us name) (\<lambda>(object, data, guest_name, r).
            if object = 0 \<or> us \<noteq> 0 \<and> data = 0 \<or> guest_name = 0 then Some (URet (0, r))
            else try_read (named_fill (e_box r) object data us) (\<lambda>sb.
              if \<not> guest_cstr sb name \<or> length (c_str sb name) \<ge> 96 then Some UUndef
              else Some (URet (object, r\<lparr>e_box := sb, named := (named r)[the slot :=
                new_named object data us guest_name pri fl ns (c_str sb name)]\<rparr>)))))))"

text \<open>Whether a parent is refused: given, but no name space.\<close>

definition parent_bad :: "emu_run \<Rightarrow> u32 \<Rightarrow> bool" where
  "parent_bad r parent \<longleftrightarrow> parent \<noteq> 0 \<and>
     (case named_index r parent of None \<Rightarrow> True | Some i \<Rightarrow> \<not> no_has_namespace (named r ! i))"

definition add_named_object :: "emu_run \<Rightarrow> u32 \<Rightarrow> u32 \<Rightarrow> u32 \<times> emu_run" where
  "add_named_object r parent object =
     (case named_index r object of
        None \<Rightarrow> (0, r)
      | Some i \<Rightarrow>
          if parent_bad r parent \<or> no_added (named r ! i) then (0, r)
          else (let flags = named_namespace_flags r parent in
            if flags AND NSF_NODUPS \<noteq> 0 \<and>
               named_scan r (\<lambda>n. no_live n \<and> no_added n \<and> no_parent n = parent \<and>
                 named_equal (no_name n) (no_name (named r ! i)) flags) 0 \<noteq> None
            then (0, r)
            else (0xFFFFFFFF, slot_update r i (\<lambda>n. n\<lparr>no_parent := parent, no_added := True\<rparr>))))"

text \<open>Whether \<open>FindNamedObject\<close> takes a slot; without a name it takes every one of the parent.\<close>

definition named_match :: "u32 \<Rightarrow> u8 \<Rightarrow> u8 list option \<Rightarrow> named_obj \<Rightarrow> bool" where
  "named_match parent flags name n \<longleftrightarrow> no_live n \<and> no_added n \<and> no_parent n = parent \<and>
     (case name of None \<Rightarrow> True | Some s \<Rightarrow> named_equal (no_name n) s flags)"

definition find_named_object :: "emu_run \<Rightarrow> u32 \<Rightarrow> u32 \<Rightarrow> u32 \<Rightarrow> (u32 \<times> emu_run) ures" where
  "find_named_object r parent name prev =
     (if parent_bad r parent \<or> name \<noteq> 0 \<and> \<not> guest_cstr (e_box r) name \<or> prev \<noteq> 0 \<and> named_index r prev = None
      then UErr named_bad
      else (let flags = named_namespace_flags r parent;
                s = (if name = 0 then None else Some (c_str (e_box r) name));
                from = (case named_index r prev of None \<Rightarrow> 0 | Some i \<Rightarrow> i + 1) in
        case named_scan r (named_match parent flags s) from of
          None \<Rightarrow> URet (0, r)
        | Some i \<Rightarrow>
            if no_refs (named r ! i) = 2147483647 then UUndef
            else URet (no_object (named r ! i), slot_update r i (\<lambda>n. n\<lparr>no_refs := no_refs n + 1\<rparr>))))"

definition named_object_name :: "emu_run \<Rightarrow> u32 \<Rightarrow> u32 ures" where
  "named_object_name r object =
     (case named_index r object of
        None \<Rightarrow> if object \<noteq> 0 then UErr named_bad else URet 0
      | Some i \<Rightarrow> URet (no_guest_name (named r ! i)))"

definition release_named_object :: "emu_run \<Rightarrow> u32 \<Rightarrow> emu_run ures" where
  "release_named_object r object =
     (case named_index r object of
        None \<Rightarrow> if object \<noteq> 0 then UErr named_bad else URet r
      | Some i \<Rightarrow> URet (slot_update r i (\<lambda>n. named_remove_if_ready (named_drop_ref n))))"

definition attempt_rem_named_object :: "emu_run \<Rightarrow> u32 \<Rightarrow> (u32 \<times> emu_run) ures" where
  "attempt_rem_named_object r object =
     (case named_index r object of
        None \<Rightarrow> UErr named_bad
      | Some i \<Rightarrow>
          if no_refs (named r ! i) > 1 then URet (0, r)
          else URet (0xFFFFFFFF, slot_update r i
            (\<lambda>n. named_remove_if_ready (named_drop_ref (n\<lparr>no_pending_remove := True\<rparr>)))))"

text \<open>\<open>RemNamedObject\<close> replies the message through \<open>exec.library\<close>, the parameter \<open>reply\<close>.\<close>

definition rem_named_object :: "(emu_run \<Rightarrow> u32 \<Rightarrow> emu_run ures) \<Rightarrow> emu_run \<Rightarrow> u32 \<Rightarrow> u32 \<Rightarrow> emu_run ures" where
  "rem_named_object reply r object message =
     (case named_index r object of
        None \<Rightarrow> UErr named_bad
      | Some i \<Rightarrow>
          (let r = slot_update r i
             (\<lambda>n. named_remove_if_ready (named_drop_ref (n\<lparr>no_pending_remove := True\<rparr>))) in
           if message = 0 then URet r
           else if \<not> span_ok (e_box r) message 20 then UErr named_bad
           else (case gwrite32 (e_box r) (message + 10) object of
               None \<Rightarrow> UUndef
             | Some sb \<Rightarrow> reply (r\<lparr>e_box := sb\<rparr>) message)))"

definition free_named_object :: "emu_run \<Rightarrow> u32 \<Rightarrow> emu_run ures" where
  "free_named_object r object =
     (case named_index r object of
        None \<Rightarrow> if object \<noteq> 0 then UErr named_bad else URet r
      | Some i \<Rightarrow> URet (if no_added (named r ! i) then r else slot_update r i (\<lambda>_. named_zero)))"

end
