(* ===== verification/UtilNamedProps.thy ===== *)
theory UtilNamedProps
  imports UtilNamed UtilTagProps
begin

text \<open>
  The NamedObject table as a state machine: the invariant of every reachable table, names that
  stay unique in a name space without duplicates, and enumeration by \<open>FindNamedObject\<close>.
\<close>

section \<open>Scanning\<close>

lemma named_scan_Some:
  "named_scan r P from = Some i \<longleftrightarrow> from \<le> i \<and> i < 128 \<and> P (named r ! i) \<and> (\<forall>j. from \<le> j \<and> j < i \<longrightarrow> \<not> P (named r ! j))"
proof
  assume "named_scan r P from = Some i"
  then obtain k where k: "k < length [from..<128]" "P (named r ! ([from..<128] ! k))" "i = [from..<128] ! k"
    "\<forall>j<k. \<not> P (named r ! ([from..<128] ! j))"
    by (auto simp: named_scan_def find_Some_iff)
  have "\<not> P (named r ! j)" if "from \<le> j \<and> j < i" for j
  proof -
    have "j - from < k" "[from..<128] ! (j - from) = j" using that k(1,3) by auto
    then show ?thesis using k(4) by metis
  qed
  with k show "from \<le> i \<and> i < 128 \<and> P (named r ! i) \<and> (\<forall>j. from \<le> j \<and> j < i \<longrightarrow> \<not> P (named r ! j))" by auto
next
  assume a: "from \<le> i \<and> i < 128 \<and> P (named r ! i) \<and> (\<forall>j. from \<le> j \<and> j < i \<longrightarrow> \<not> P (named r ! j))"
  then show "named_scan r P from = Some i"
    unfolding named_scan_def find_Some_iff by (intro exI [of _ "i - from"]) auto
qed

lemma named_scan_None: "named_scan r P from = None \<longleftrightarrow> (\<forall>j. from \<le> j \<and> j < 128 \<longrightarrow> \<not> P (named r ! j))"
  by (auto simp: named_scan_def find_None_iff)

lemma named_index_Some:
  "named_index r p = Some i \<Longrightarrow> i < 128 \<and> no_live (named r ! i) \<and> no_object (named r ! i) = p \<and> p \<noteq> 0"
  by (auto simp: named_index_def named_scan_Some split: if_splits)

section \<open>The invariant\<close>

text \<open>Objects are heap addresses, and each slot has its own; counts are not negative, and a
  removal is pending only while the object is held.\<close>

definition slots_ok :: "emu_run \<Rightarrow> bool" where
  "slots_ok r \<longleftrightarrow> length (named r) = 128 \<and> exec_heap r \<noteq> 0 \<and> exec_heap r \<le> exec_heap_end r \<and>
     exec_heap_end r \<le> 0xFE000000 \<and>
     (\<forall>i<128. no_parent (named r ! i) < exec_heap r \<and>
       (no_live (named r ! i) \<longrightarrow> no_object (named r ! i) \<noteq> 0 \<and> no_object (named r ! i) < exec_heap r \<and>
         no_refs (named r ! i) \<ge> 0 \<and> (no_pending_remove (named r ! i) \<longrightarrow> no_refs (named r ! i) > 0))) \<and>
     (\<forall>i<128. \<forall>j<128. no_live (named r ! i) \<and> no_live (named r ! j) \<and>
        no_object (named r ! i) = no_object (named r ! j) \<longrightarrow> i = j)"

text \<open>The flags of a name space that exists: the root, or a live object.\<close>

definition space_flags :: "emu_run \<Rightarrow> u32 \<Rightarrow> u8 option" where
  "space_flags r p = (if p = 0 then Some NSF_NODUPS
     else (case named_index r p of Some i \<Rightarrow> Some (no_flags (named r ! i)) | None \<Rightarrow> None))"

definition names_unique :: "emu_run \<Rightarrow> bool" where
  "names_unique r \<longleftrightarrow> (\<forall>i<128. \<forall>j<128. \<forall>f. i \<noteq> j \<and>
     no_live (named r ! i) \<and> no_added (named r ! i) \<and> no_live (named r ! j) \<and> no_added (named r ! j) \<and>
     no_parent (named r ! i) = no_parent (named r ! j) \<and> space_flags r (no_parent (named r ! i)) = Some f \<and>
     f AND NSF_NODUPS \<noteq> 0 \<longrightarrow> \<not> named_equal (no_name (named r ! i)) (no_name (named r ! j)) f)"

lemma names_uniqueD:
  "names_unique r \<Longrightarrow> i < 128 \<Longrightarrow> j < 128 \<Longrightarrow> i \<noteq> j \<Longrightarrow> no_live (named r ! i) \<Longrightarrow> no_added (named r ! i) \<Longrightarrow>
     no_live (named r ! j) \<Longrightarrow> no_added (named r ! j) \<Longrightarrow> no_parent (named r ! i) = no_parent (named r ! j) \<Longrightarrow>
     space_flags r (no_parent (named r ! i)) = Some f \<Longrightarrow> f AND NSF_NODUPS \<noteq> 0 \<Longrightarrow>
     \<not> named_equal (no_name (named r ! i)) (no_name (named r ! j)) f"
  unfolding names_unique_def by blast

definition named_inv :: "emu_run \<Rightarrow> bool" where
  "named_inv r \<longleftrightarrow> slots_ok r \<and> names_unique r"

lemma slots_distinct:
  "slots_ok r \<Longrightarrow> i < 128 \<Longrightarrow> j < 128 \<Longrightarrow> no_live (named r ! i) \<Longrightarrow> no_live (named r ! j) \<Longrightarrow>
     no_object (named r ! i) = no_object (named r ! j) \<Longrightarrow> i = j"
  unfolding slots_ok_def by blast

lemma slots_slot:
  "slots_ok r \<Longrightarrow> i < 128 \<Longrightarrow> no_parent (named r ! i) < exec_heap r \<and>
     (no_live (named r ! i) \<longrightarrow> no_object (named r ! i) \<noteq> 0 \<and> no_object (named r ! i) < exec_heap r \<and>
       no_refs (named r ! i) \<ge> 0 \<and> (no_pending_remove (named r ! i) \<longrightarrow> no_refs (named r ! i) > 0))"
  unfolding slots_ok_def by blast

text \<open>In a table of the invariant an address names at most one slot.\<close>

lemma named_index_iff:
  "slots_ok r \<Longrightarrow> named_index r p = Some i \<longleftrightarrow> i < 128 \<and> no_live (named r ! i) \<and> no_object (named r ! i) = p"
proof
  assume "slots_ok r" and a: "i < 128 \<and> no_live (named r ! i) \<and> no_object (named r ! i) = p"
  then have p: "p \<noteq> 0" and u: "\<And>j. j < 128 \<Longrightarrow> no_live (named r ! j) \<and> no_object (named r ! j) = p \<Longrightarrow> j = i"
    unfolding slots_ok_def by blast+
  have "\<not> (no_live (named r ! j) \<and> no_object (named r ! j) = p)" if "j < i" for j
    using u [of j] that a by linarith
  with a p show "named_index r p = Some i" by (auto simp: named_index_def named_scan_Some)
qed (auto dest: named_index_Some)

lemma index_below: "slots_ok r \<Longrightarrow> named_index r p = Some i \<Longrightarrow> p < exec_heap r"
  using named_index_Some [of r p i] unfolding slots_ok_def by blast

lemma nth_slot_update:
  "i < length (named r) \<Longrightarrow> j < length (named r) \<Longrightarrow>
     named (slot_update r i f) ! j = (if j = i then f (named r ! i) else named r ! j)"
  by (simp add: slot_update_def nth_list_update)

lemma slot_update_frame [simp]:
  "e_box (slot_update r i f) = e_box r" "exec_heap (slot_update r i f) = exec_heap r"
  "exec_heap_end (slot_update r i f) = exec_heap_end r" "length (named (slot_update r i f)) = length (named r)"
  by (simp_all add: slot_update_def)

section \<open>Changes that keep the invariant\<close>

text \<open>A slot that stays what it is, or is cleared.\<close>

definition slot_keeps :: "named_obj \<Rightarrow> named_obj \<Rightarrow> bool" where
  "slot_keeps n m \<longleftrightarrow> (no_parent m = no_parent n \<or> no_parent m = 0) \<and>
     (no_live m \<longrightarrow> no_live n \<and> no_object m = no_object n \<and> no_flags m = no_flags n \<and>
       no_name m = no_name n \<and> (no_added m \<longrightarrow> no_added n \<and> no_parent m = no_parent n) \<and>
       (no_refs n \<ge> 0 \<and> (no_pending_remove n \<longrightarrow> no_refs n > 0) \<longrightarrow>
         no_refs m \<ge> 0 \<and> (no_pending_remove m \<longrightarrow> no_refs m > 0)))"

lemma index_cong:
  assumes "\<And>j. j < 128 \<Longrightarrow> no_live (named r' ! j) = no_live (named r ! j) \<and> no_object (named r' ! j) = no_object (named r ! j)"
  shows "named_index r' p = named_index r p"
proof -
  have "List.find (\<lambda>i. no_live (named r' ! i) \<and> no_object (named r' ! i) = p) [0..<128] =
      List.find (\<lambda>i. no_live (named r ! i) \<and> no_object (named r ! i) = p) [0..<128]"
    by (rule find_cong [OF refl]) (simp only: assms atLeastLessThan_iff set_upt)
  then show ?thesis unfolding named_index_def named_scan_def by (rule if_cong [OF refl refl])
qed

lemma keeps_index:
  assumes "slots_ok r" "slots_ok r'" "\<And>i. i < 128 \<Longrightarrow> slot_keeps (named r ! i) (named r' ! i)"
    "named_index r' p = Some i"
  shows "named_index r p = Some i"
  using assms(3) [of i] assms(4) unfolding named_index_iff [OF assms(1)] named_index_iff [OF assms(2)]
  by (auto simp: slot_keeps_def)

lemma keeps_inv:
  assumes "named_inv r" "length (named r') = length (named r)" "exec_heap r' = exec_heap r"
    "exec_heap_end r' = exec_heap_end r"
    and k: "\<And>i. i < 128 \<Longrightarrow> slot_keeps (named r ! i) (named r' ! i)"
  shows "named_inv r'"
proof -
  have ok: "slots_ok r" and un: "names_unique r" using assms(1) by (simp_all add: named_inv_def)
  have hp: "0 < exec_heap r" using ok by (simp add: slots_ok_def word_gt_0)
  have slot: "no_parent (named r' ! i) < exec_heap r' \<and> (no_live (named r' ! i) \<longrightarrow>
      no_object (named r' ! i) \<noteq> 0 \<and> no_object (named r' ! i) < exec_heap r' \<and> no_refs (named r' ! i) \<ge> 0 \<and>
      (no_pending_remove (named r' ! i) \<longrightarrow> no_refs (named r' ! i) > 0))" if "i < 128" for i
  proof -
    show ?thesis using slots_slot [OF ok that] k [OF that] hp unfolding slot_keeps_def assms(3) by auto
  qed
  have ok': "slots_ok r'" unfolding slots_ok_def
  proof (intro conjI allI impI)
    fix i j :: nat
    assume ij: "i < 128" "j < 128" "no_live (named r' ! i) \<and> no_live (named r' ! j) \<and>
      no_object (named r' ! i) = no_object (named r' ! j)"
    then have "no_live (named r ! i) \<and> no_live (named r ! j) \<and> no_object (named r ! i) = no_object (named r ! j)"
      using k [of i] k [of j] by (auto simp: slot_keeps_def)
    then show "i = j" using slots_distinct [OF ok ij(1,2)] by blast
  qed (use ok assms(2-4) slot in \<open>auto simp: slots_ok_def\<close>)
  have sf: "space_flags r' p = Some f \<Longrightarrow> space_flags r p = Some f" for p f
    using keeps_index [OF ok ok' k, of p] k
    by (auto simp: space_flags_def slot_keeps_def split: option.splits if_splits dest: named_index_Some)
  have "names_unique r'" unfolding names_unique_def
  proof (intro allI impI)
    fix i j :: nat and f
    assume ij: "i < 128" "j < 128" and a: "i \<noteq> j \<and> no_live (named r' ! i) \<and> no_added (named r' ! i) \<and>
      no_live (named r' ! j) \<and> no_added (named r' ! j) \<and> no_parent (named r' ! i) = no_parent (named r' ! j) \<and>
      space_flags r' (no_parent (named r' ! i)) = Some f \<and> f AND NSF_NODUPS \<noteq> 0"
    have i: "no_live (named r ! i)" "no_added (named r ! i)" "no_parent (named r' ! i) = no_parent (named r ! i)"
        "no_name (named r' ! i) = no_name (named r ! i)"
      and j: "no_live (named r ! j)" "no_added (named r ! j)" "no_parent (named r' ! j) = no_parent (named r ! j)"
        "no_name (named r' ! j) = no_name (named r ! j)"
      using k [OF ij(1)] k [OF ij(2)] a by (auto simp: slot_keeps_def)
    then show "\<not> named_equal (no_name (named r' ! i)) (no_name (named r' ! j)) f"
      unfolding i(4) j(4) using a [unfolded i(3) j(3)] sf by (intro names_uniqueD [OF un ij]) blast+
  qed
  with ok' show ?thesis by (simp add: named_inv_def)
qed

lemma update_inv: "named_inv r \<Longrightarrow> i < 128 \<Longrightarrow> slot_keeps (named r ! i) (f (named r ! i)) \<Longrightarrow> named_inv (slot_update r i f)"
  by (rule keeps_inv [of r]) (auto simp: nth_slot_update named_inv_def slots_ok_def slot_keeps_def)

lemma slot_changes:
  "slot_keeps n (named_remove_if_ready (named_drop_ref n))"
  "slot_keeps n (named_remove_if_ready (named_drop_ref (n\<lparr>no_pending_remove := True\<rparr>)))"
  "slot_keeps n (n\<lparr>no_refs := no_refs n + 1\<rparr>)" "slot_keeps n named_zero"
  by (auto simp: slot_keeps_def named_remove_if_ready_def named_drop_ref_def named_zero_def)

lemma slot_keeps_refl [simp]: "slot_keeps n n" by (auto simp: slot_keeps_def)

lemma same_table_inv: "named r' = named r \<Longrightarrow> exec_heap r' = exec_heap r \<Longrightarrow> exec_heap_end r' = exec_heap_end r \<Longrightarrow>
    named_inv r \<Longrightarrow> named_inv r'"
  by (rule keeps_inv [of r]) simp_all

lemma named_equal_sym: "named_equal a b f = named_equal b a f" by (auto simp: named_equal_def)

lemma add_inv:
  assumes "named_inv r" "add_named_object r parent object = (d, r')"
  shows "named_inv r'"
proof (cases "r' = r")
  case False
  have ok: "slots_ok r" and un: "names_unique r" using assms(1) by (simp_all add: named_inv_def)
  let ?fl = "named_namespace_flags r parent"
  obtain i where i: "named_index r object = Some i" "\<not> parent_bad r parent" "\<not> no_added (named r ! i)"
    "?fl AND NSF_NODUPS = 0 \<or> named_scan r (\<lambda>n. no_live n \<and> no_added n \<and> no_parent n = parent \<and>
        named_equal (no_name n) (no_name (named r ! i)) ?fl) 0 = None"
    and r': "r' = slot_update r i (\<lambda>n. n\<lparr>no_parent := parent, no_added := True\<rparr>)"
    using assms(2) False by (auto simp: add_named_object_def Let_def split: option.splits if_splits)
  have l: "length (named r) = 128" and i128: "i < 128" using ok named_index_Some [OF i(1)] by (auto simp: slots_ok_def)
  have nth: "named r' ! j = (if j = i then (named r ! i)\<lparr>no_parent := parent, no_added := True\<rparr> else named r ! j)"
    if "j < 128" for j using that i128 l by (simp add: r' nth_slot_update)
  have keep: "no_live (named r' ! j) = no_live (named r ! j)" "no_object (named r' ! j) = no_object (named r ! j)"
    "no_name (named r' ! j) = no_name (named r ! j)" if "j < 128" for j
    using nth [OF that] by simp_all
  have idx: "named_index r' p = named_index r p" for p
    by (rule index_cong) (simp add: nth)
  have sf: "space_flags r' p = space_flags r p" for p
    using nth by (auto simp: space_flags_def idx split: option.split dest: named_index_Some)
  have "0 < exec_heap r" using ok by (simp add: slots_ok_def word_gt_0)
  moreover have "named_index r 0 = None" by (simp add: named_index_def)
  ultimately have p: "parent < exec_heap r" "space_flags r parent = Some ?fl"
    using i(2) index_below [OF ok, of parent]
    by (auto simp: parent_bad_def space_flags_def named_namespace_flags_def split: option.splits)
  have slot: "no_parent (named r' ! j) < exec_heap r \<and> (no_live (named r' ! j) \<longrightarrow>
      no_object (named r' ! j) \<noteq> 0 \<and> no_object (named r' ! j) < exec_heap r \<and> no_refs (named r' ! j) \<ge> 0 \<and>
      (no_pending_remove (named r' ! j) \<longrightarrow> no_refs (named r' ! j) > 0))" if "j < 128" for j
  proof -
    show ?thesis using slots_slot [OF ok that] nth [OF that] p(1) by auto
  qed
  have "slots_ok r'" unfolding slots_ok_def
  proof (intro conjI allI impI)
    fix j k :: nat
    assume "j < 128" "k < 128" "no_live (named r' ! j) \<and> no_live (named r' ! k) \<and>
      no_object (named r' ! j) = no_object (named r' ! k)"
    then have "no_live (named r ! j) \<and> no_live (named r ! k) \<and> no_object (named r ! j) = no_object (named r ! k)"
      by (simp only: keep)
    with \<open>j < 128\<close> \<open>k < 128\<close> show "j = k" using slots_distinct [OF ok] by blast
  qed (use ok slot l in \<open>auto simp: slots_ok_def r'\<close>)
  moreover have "\<not> named_equal (no_name (named r' ! j)) (no_name (named r' ! k)) f"
    if jk: "j < 128" "k < 128" "j \<noteq> k" "no_live (named r' ! j) \<and> no_added (named r' ! j)"
      "no_live (named r' ! k) \<and> no_added (named r' ! k)" "no_parent (named r' ! j) = no_parent (named r' ! k)"
      "space_flags r' (no_parent (named r' ! j)) = Some f" "f AND NSF_NODUPS \<noteq> 0" for j k f
  proof -
    have new: "\<not> named_equal (no_name (named r ! m)) (no_name (named r ! i)) f"
      if "m < 128" "m \<noteq> i" "no_live (named r ! m) \<and> no_added (named r ! m)" "no_parent (named r ! m) = parent"
        "space_flags r parent = Some f" for m
      using that i(4) jk(8) p(2) by (auto simp: named_scan_None)
    consider "j = i" | "k = i" | "j \<noteq> i" "k \<noteq> i" by blast
    then show ?thesis
    proof cases
      case 1
      then show ?thesis using new [of k] jk nth [of j] nth [of k] by (auto simp: sf named_equal_sym)
    next
      case 2
      then show ?thesis using new [of j] jk nth [of j] nth [of k] by (auto simp: sf)
    next
      case 3
      then show ?thesis using un jk nth [of j] nth [of k] unfolding names_unique_def sf by auto
    qed
  qed
  ultimately show ?thesis by (auto simp: named_inv_def names_unique_def)
qed (use assms in simp)

section \<open>Allocation\<close>

lemma guest_alloc_heap:
  assumes "guest_alloc r n = Some (a, r')" "exec_heap r \<le> exec_heap_end r" "exec_heap_end r \<le> 0xFE000000" "n \<le> 0x1000000"
  shows "named r' = named r" "exec_heap_end r' = exec_heap_end r" "exec_heap r \<le> exec_heap r'" "exec_heap r' \<le> exec_heap_end r"
    "a \<noteq> 0 \<Longrightarrow> a = exec_heap r \<and> exec_heap r < exec_heap r'"
proof -
  let ?sz = "(n + 7) AND NOT 7"
  have m: "(7 :: u32) = mask 3" by (simp add: mask_eq_exp_minus_1)
  have "unat n \<le> 0x1000000" using assms(4) by (simp add: word_le_nat_alt)
  then have "unat (n + 7) = unat n + 7" by (simp add: unat_word_ariths)
  moreover have "unat ?sz = unat (n + 7) div 2 ^ 3 * 2 ^ 3" unfolding m by (rule unat_and_not_mask)
  ultimately have sz: "unat ?sz \<le> 0x1000007" using \<open>unat n \<le> 0x1000000\<close> by simp
  have h: "unat (exec_heap r) \<le> 0xFE000000" using assms(2,3) by (simp add: word_le_nat_alt)
  have sum: "unat (exec_heap r + ?sz) = unat (exec_heap r) + unat ?sz" using h sz by (simp add: unat_word_ariths)
  have cases: "(a = 0 \<and> r' = r) \<or> (?sz \<noteq> 0 \<and> exec_heap r + ?sz \<le> exec_heap_end r \<and> a = exec_heap r \<and>
      exec_heap r' = exec_heap r + ?sz \<and> named r' = named r \<and> exec_heap_end r' = exec_heap_end r)"
    using assms(1) unfolding guest_alloc_def by (auto simp: Let_def not_less split: if_splits)
  have le: "exec_heap r \<le> exec_heap r + ?sz" "?sz \<noteq> 0 \<Longrightarrow> exec_heap r < exec_heap r + ?sz"
    unfolding word_le_nat_alt word_less_nat_alt sum by (simp_all add: unat_gt_0)
  show "named r' = named r" "exec_heap_end r' = exec_heap_end r" "exec_heap r \<le> exec_heap r'" "exec_heap r' \<le> exec_heap_end r"
    "a \<noteq> 0 \<Longrightarrow> a = exec_heap r \<and> exec_heap r < exec_heap r'"
    using cases le assms(2) by auto
qed

text \<open>The allocator clears memory: a string in the arena does not get longer.\<close>

definition cleared :: "j4_sandbox \<Rightarrow> j4_sandbox \<Rightarrow> bool" where
  "cleared sb sb' \<longleftrightarrow> jb_origin sb' = jb_origin sb \<and> jb_size sb' = jb_size sb \<and>
     (\<forall>i. jb_mem sb' i = jb_mem sb i \<or> jb_mem sb' i = 0)"

lemma cleared_refl [simp]: "cleared sb sb" by (simp add: cleared_def)

lemma cleared_trans: "cleared a b \<Longrightarrow> cleared b c \<Longrightarrow> cleared a c"
  by (auto simp: cleared_def) (metis (full_types))

lemma takeWhile_cleared:
  "(\<And>i. i \<in> set is \<Longrightarrow> g i = f i \<or> g i = (0 :: u8)) \<Longrightarrow>
   length (takeWhile (\<lambda>c. c \<noteq> 0) (map g is)) \<le> length (takeWhile (\<lambda>c. c \<noteq> 0) (map f is))"
proof (induction "is")
  case (Cons i "is")
  have "length (takeWhile (\<lambda>c. c \<noteq> 0) (map g is)) \<le> length (takeWhile (\<lambda>c. c \<noteq> 0) (map f is))"
    by (rule Cons.IH) (simp add: Cons.prems)
  moreover have "g i = f i \<or> g i = 0" by (rule Cons.prems) simp
  ultimately show ?case by auto
qed simp

lemma c_str_cleared: "cleared sb sb' \<Longrightarrow> length (c_str sb' a) \<le> length (c_str sb a)"
  using takeWhile_cleared [of "[j4_sandbox_host sb a..<unat (jb_size sb)]" "jb_mem sb'" "jb_mem sb"]
  by (simp add: c_str_def host_bytes_def cleared_def j4_sandbox_host_def)

lemma guest_alloc_cleared: "guest_alloc r n = Some (a, r') \<Longrightarrow> cleared (e_box r) (e_box r')"
  unfolding guest_alloc_def gfill_def by (auto simp: Let_def cleared_def split: if_splits)

lemma guest_strdup_heap:
  assumes "guest_strdup r p n = Some (a, r')" "exec_heap r \<le> exec_heap_end r" "exec_heap_end r \<le> 0xFE000000" "n < 0x1000000"
  shows "named r' = named r" "exec_heap_end r' = exec_heap_end r" "exec_heap r \<le> exec_heap r'" "exec_heap r' \<le> exec_heap_end r"
proof -
  have n: "n + 1 \<le> 0x1000000" using assms(4) by (rule inc_le)
  obtain a1 r1 where r1: "guest_alloc r (n + 1) = Some (a1, r1)" "\<exists>sb. r' = r1\<lparr>e_box := sb\<rparr>"
  proof -
    obtain a1 r1 where g: "guest_alloc r (n + 1) = Some (a1, r1)"
      using assms(1) by (auto simp: guest_strdup_def split: bind_splits)
    moreover have "\<exists>sb. r' = r1\<lparr>e_box := sb\<rparr>"
    proof (cases "a1 = 0")
      case True
      then have "r' = r1\<lparr>e_box := e_box r1\<rparr>" using assms(1) g by (simp add: guest_strdup_def)
      then show ?thesis ..
    next
      case False
      then show ?thesis using assms(1) g by (auto simp: guest_strdup_def split: bind_splits)
    qed
    ultimately show thesis by (rule that)
  qed
  show "named r' = named r" "exec_heap_end r' = exec_heap_end r" "exec_heap r \<le> exec_heap r'" "exec_heap r' \<le> exec_heap_end r"
    using guest_alloc_heap [OF r1(1) assms(2,3) n] r1(2) by auto
qed

lemma named_allocs_heap:
  assumes "named_allocs r slot us name = Some (object, data, gname, r')" "exec_heap r \<le> exec_heap_end r"
    "exec_heap_end r \<le> 0xFE000000" "us \<le> 0x1000000" "length (c_str (e_box r) name) < 96"
  shows "named r' = named r \<and> exec_heap_end r' = exec_heap_end r \<and> exec_heap r' \<le> exec_heap_end r \<and> exec_heap r \<le> exec_heap r' \<and>
    (object \<noteq> 0 \<longrightarrow> object = exec_heap r \<and> exec_heap r < exec_heap r' \<and> slot)"
proof -
  obtain r1 r2 where a: "(if slot then guest_alloc r 4 else Some (0, r)) = Some (object, r1)"
    "(if us \<noteq> 0 then guest_alloc r1 us else Some (0, r1)) = Some (data, r2)"
    "(if object \<noteq> 0 then guest_strdup r2 name (of_nat (length (c_str (e_box r2) name))) else Some (0, r2)) = Some (gname, r')"
    using assms(1) by (auto simp: named_allocs_def split: bind_splits)
  have 1: "named r1 = named r" "exec_heap_end r1 = exec_heap_end r" "exec_heap r \<le> exec_heap r1" "exec_heap r1 \<le> exec_heap_end r"
    "object \<noteq> 0 \<Longrightarrow> object = exec_heap r \<and> exec_heap r < exec_heap r1 \<and> slot" "cleared (e_box r) (e_box r1)"
    using a(1) guest_alloc_heap [of r 4 object r1] assms(2,3) guest_alloc_cleared [of r 4 object r1] by (auto split: if_splits)
  have 2: "named r2 = named r1" "exec_heap_end r2 = exec_heap_end r1" "exec_heap r1 \<le> exec_heap r2" "exec_heap r2 \<le> exec_heap_end r1"
    "cleared (e_box r1) (e_box r2)"
    using a(2) guest_alloc_heap [of r1 us data r2] 1 assms(3,4) guest_alloc_cleared [of r1 us data r2] by (auto split: if_splits)
  have "length (c_str (e_box r2) name) < 96"
    using c_str_cleared [OF cleared_trans [OF 1(6) 2(5)]] assms(5) by (rule le_less_trans)
  then have n: "of_nat (length (c_str (e_box r2) name)) < (0x1000000 :: u32)"
    by (simp add: word_less_nat_alt unat_of_nat)
  have 3: "named r' = named r2 \<and> exec_heap_end r' = exec_heap_end r2 \<and> exec_heap r2 \<le> exec_heap r' \<and> exec_heap r' \<le> exec_heap_end r2"
    using a(3) guest_strdup_heap [OF _ _ _ n, of r2 name gname r'] 1 2 assms(3) by (auto split: if_splits)
  show ?thesis using 1 2 3 by auto
qed

text \<open>A loop whose body leaves the arena alone leaves it alone.\<close>

lemma tag_loop_box:
  assumes "tag_loop body sb p s = Some (URet (sb', s'))"
    "\<And>item sb s sb' s'. body item sb s = Some (URet (sb', s')) \<Longrightarrow> sb' = sb"
  shows "sb' = sb"
proof -
  let ?P = "\<lambda>b sb p s res. b = body \<longrightarrow> (\<forall>sb' s'. res = URet (sb', s') \<longrightarrow> sb' = sb)"
  have "?P body sb p s (URet (sb', s'))"
  proof (rule tag_loop.raw_induct [OF _ assms(1), of ?P])
    fix f :: "(u32 \<Rightarrow> j4_sandbox \<Rightarrow> 'a \<Rightarrow> (j4_sandbox \<times> 'a) ures option) \<Rightarrow> j4_sandbox \<Rightarrow> u32 \<Rightarrow> 'a \<Rightarrow> (j4_sandbox \<times> 'a) ures option"
      and b sb p s res
    assume ih: "\<And>b sb p s res. f b sb p s = Some res \<Longrightarrow> ?P b sb p s res"
      and r: "(case next_item sb p of None \<Rightarrow> Some UUndef
       | Some (item, cursor') \<Rightarrow>
       if item = 0 then Some (URet (sb, s))
       else Option.bind (b item sb s) (\<lambda>r. case r of
           URet (sb', s') \<Rightarrow> f b sb' cursor' s'
         | UErr e \<Rightarrow> Some (UErr e)
         | UUndef \<Rightarrow> Some UUndef)) = Some res"
    show "?P b sb p s res"
    proof (intro impI allI)
      fix sb1 s1 assume b: "b = body" and res: "res = URet (sb1, s1)"
      show "sb1 = sb"
        using r b res ih assms(2) by (fastforce split: option.splits prod.splits if_splits bind_splits ures.splits)
    qed
  qed
  then show ?thesis by blast
qed

lemma ano_tags_box: "ano_tags sb list = Some (URet (sb', s)) \<Longrightarrow> sb' = sb"
  unfolding ano_tags_def by (erule tag_loop_box) (auto simp: try_read_def split: option.splits)

text \<open>A dead slot that becomes an object of the heap, not yet in a name space.\<close>

lemma new_slot_inv:
  assumes "named_inv r" "named r' = (named r)[k := m]" "k < 128" "\<not> no_live (named r ! k)"
    "no_object m = exec_heap r" "no_live m" "\<not> no_added m" "no_parent m = 0" "no_refs m = 1" "\<not> no_pending_remove m"
    "exec_heap r < exec_heap r'" "exec_heap r' \<le> exec_heap_end r" "exec_heap_end r' = exec_heap_end r"
  shows "named_inv r'"
proof -
  have ok: "slots_ok r" and un: "names_unique r" using assms(1) by (simp_all add: named_inv_def)
  have l: "length (named r) = 128" and hp: "exec_heap r \<noteq> 0" using ok by (simp_all add: slots_ok_def)
  have nth: "named r' ! j = (if j = k then m else named r ! j)" if "j < 128" for j
    using that assms(2,3) l by (simp add: nth_list_update)
  have old: "no_object (named r ! j) < exec_heap r" if "j < 128" "no_live (named r ! j)" for j
    using slots_slot [OF ok that(1)] that(2) by simp
  have slot: "no_parent (named r' ! j) < exec_heap r' \<and> (no_live (named r' ! j) \<longrightarrow>
      no_object (named r' ! j) \<noteq> 0 \<and> no_object (named r' ! j) < exec_heap r' \<and> no_refs (named r' ! j) \<ge> 0 \<and>
      (no_pending_remove (named r' ! j) \<longrightarrow> no_refs (named r' ! j) > 0))" if "j < 128" for j
  proof (cases "j = k")
    case True
    then show ?thesis using nth [OF that] assms hp by (auto simp: word_gt_0)
  next
    case False
    then show ?thesis using nth [OF that] slots_slot [OF ok that] assms(11) by auto
  qed
  have dist: "i = j" if "i < 128" "j < 128" "no_live (named r' ! i)" "no_live (named r' ! j)"
      "no_object (named r' ! i) = no_object (named r' ! j)" for i j
  proof -
    have a: "no_object (named r' ! i) = exec_heap r \<longleftrightarrow> i = k" if "i < 128" "no_live (named r' ! i)" for i
      using that nth [OF that(1)] old [OF that(1)] assms(5) by auto
    show ?thesis
    proof (cases "i = k")
      case True
      then have "no_object (named r' ! j) = exec_heap r" using a [OF that(1,3)] unfolding that(5) by blast
      then show ?thesis using a [OF that(2,4)] True by blast
    next
      case False
      then have "no_object (named r' ! j) \<noteq> exec_heap r" using a [OF that(1,3)] unfolding that(5) by blast
      then have "j \<noteq> k" using a [OF that(2,4)] by blast
      then show ?thesis using slots_distinct [OF ok that(1,2)] that(3-5) nth [OF that(1)] nth [OF that(2)] False by simp
    qed
  qed
  have ok': "slots_ok r'" unfolding slots_ok_def
  proof (intro conjI allI impI)
    fix i j :: nat
    assume "i < 128" "j < 128" "no_live (named r' ! i) \<and> no_live (named r' ! j) \<and>
      no_object (named r' ! i) = no_object (named r' ! j)"
    then show "i = j" using dist by blast
  qed (use ok slot assms l hp in \<open>auto simp: slots_ok_def\<close>)
  have sf: "space_flags r p = Some f" if sp: "space_flags r' p = Some f" "p < exec_heap r" for p f
  proof (cases "p = 0")
    case False
    then obtain i where i: "named_index r' p = Some i" "f = no_flags (named r' ! i)"
      using sp(1) by (auto simp: space_flags_def split: option.splits)
    note w = i(1) [unfolded named_index_iff [OF ok']]
    have "i \<noteq> k" using w sp(2) assms(5) nth [of k] assms(3) by auto
    then have "named_index r p = Some i" "f = no_flags (named r ! i)"
      using w i(2) nth [of i] unfolding named_index_iff [OF ok] by auto
    then show ?thesis using False by (simp add: space_flags_def)
  qed (use sp in \<open>simp add: space_flags_def\<close>)
  have "names_unique r'" unfolding names_unique_def
  proof (intro allI impI)
    fix i j :: nat and f
    assume ij: "i < 128" "j < 128" and a: "i \<noteq> j \<and> no_live (named r' ! i) \<and> no_added (named r' ! i) \<and>
      no_live (named r' ! j) \<and> no_added (named r' ! j) \<and> no_parent (named r' ! i) = no_parent (named r' ! j) \<and>
      space_flags r' (no_parent (named r' ! i)) = Some f \<and> f AND NSF_NODUPS \<noteq> 0"
    then have k: "i \<noteq> k" "j \<noteq> k" using nth [of k] assms(3,7) by auto
    have n: "named r' ! i = named r ! i" "named r' ! j = named r ! j" using nth ij k by simp_all
    have "space_flags r (no_parent (named r ! i)) = Some f"
      using a sf [of "no_parent (named r ! i)" f] slots_slot [OF ok ij(1)] unfolding n by blast
    then show "\<not> named_equal (no_name (named r' ! i)) (no_name (named r' ! j)) f"
      using a unfolding n by (intro names_uniqueD [OF un ij]) blast+
  qed
  with ok' show ?thesis by (simp add: named_inv_def)
qed

lemma grown_inv:
  assumes "named_inv r" "named r' = named r" "exec_heap r \<le> exec_heap r'" "exec_heap r' \<le> exec_heap_end r"
    "exec_heap_end r' = exec_heap_end r"
  shows "named_inv r'"
proof -
  have ok: "slots_ok r" and un: "names_unique r" using assms(1) by (simp_all add: named_inv_def)
  have "named_scan r' P n = named_scan r P n" for P n by (simp only: named_scan_def assms(2))
  then have "space_flags r' p = space_flags r p" for p
    by (simp only: space_flags_def named_index_def assms(2))
  then have "names_unique r'" using un by (simp only: names_unique_def assms(2))
  moreover have "slots_ok r'" unfolding slots_ok_def assms(2)
  proof (intro conjI allI impI)
    fix i j :: nat
    assume "i < 128" "j < 128" "no_live (named r ! i) \<and> no_live (named r ! j) \<and>
      no_object (named r ! i) = no_object (named r ! j)"
    then show "i = j" using slots_distinct [OF ok] by blast
  next
    fix i :: nat
    assume i: "i < 128"
    show "no_parent (named r ! i) < exec_heap r'" using slots_slot [OF ok i] assms(3) by (meson order.strict_trans2)
    assume live: "no_live (named r ! i)"
    then show "no_object (named r ! i) < exec_heap r'" using slots_slot [OF ok i] assms(3) by (meson order.strict_trans2)
  qed (use ok assms slots_slot [OF ok] in \<open>auto simp: slots_ok_def\<close>)
  ultimately show ?thesis by (simp add: named_inv_def)
qed

lemma new_named_simps [simp]:
  "no_object (new_named ob da us gn pri fl ns nm) = ob" "no_live (new_named ob da us gn pri fl ns nm)"
  "\<not> no_added (new_named ob da us gn pri fl ns nm)" "no_parent (new_named ob da us gn pri fl ns nm) = 0"
  "no_refs (new_named ob da us gn pri fl ns nm) = 1" "\<not> no_pending_remove (new_named ob da us gn pri fl ns nm)"
  by (simp_all add: new_named_def named_zero_def)

lemma alloc_inv:
  assumes "named_inv r" "alloc_named_object r name tags = Some (URet (d, r'))"
  shows "named_inv r'"
proof (cases "guest_cstr (e_box r) name \<and> length (c_str (e_box r) name) < 96")
  case False
  then have "r' = r" using assms(2) by (auto simp: alloc_named_object_def)
  then show ?thesis using assms(1) by simp
next
  case True
  have hp: "exec_heap r \<le> exec_heap_end r" "exec_heap_end r \<le> 0xFE000000" using assms(1) by (simp_all add: named_inv_def slots_ok_def)
  have ln: "length (named r) = 128" using assms(1) by (simp add: named_inv_def slots_ok_def)
  let ?slot = "named_scan r (\<lambda>n. \<not> no_live n) 0"
  obtain sb ns us pri fl where t: "ano_tags (e_box r) tags = Some (URet (sb, ns, us, pri, fl))"
    using assms(2) True by (force simp: alloc_named_object_def try_call_def split: bind_splits ures.splits)
  then have sb: "sb = e_box r" by (rule ano_tags_box)
  have box: "r\<lparr>e_box := e_box r\<rparr> = r" by simp
  note res = assms(2) [unfolded alloc_named_object_def t sb box try_call_def]
  show ?thesis
  proof (cases "us > 16 * 1024 * 1024")
    case True
    then have "r' = r" using res \<open>guest_cstr _ _ \<and> _\<close> by simp
    then show ?thesis using assms(1) by simp
  next
    case False
    then have us: "us \<le> 0x1000000" by simp
    have "named_allocs r (?slot \<noteq> None) us name \<noteq> None"
    proof
      assume "named_allocs r (?slot \<noteq> None) us name = None"
      then show False using res True False by (simp add: try_read_def Let_def)
    qed
    then obtain object data gname r1 where al: "named_allocs r (?slot \<noteq> None) us name = Some (object, data, gname, r1)"
      by (metis not_None_eq prod_cases4)
    have h: "named r1 = named r" "exec_heap_end r1 = exec_heap_end r" "exec_heap r1 \<le> exec_heap_end r" "exec_heap r \<le> exec_heap r1"
      "object \<noteq> 0 \<Longrightarrow> object = exec_heap r \<and> exec_heap r < exec_heap r1 \<and> ?slot \<noteq> None"
      using named_allocs_heap [OF al hp us] True by simp_all
    show ?thesis
    proof (cases "object = 0 \<or> us \<noteq> 0 \<and> data = 0 \<or> gname = 0")
      case bad: True
      then have "r' = r1" using res True False al by (auto simp: try_read_def Let_def)
      then show ?thesis using grown_inv [OF assms(1) h(1)] h by simp
    next
      case good: False
      have "named_fill (e_box r1) object data us \<noteq> None"
      proof
        assume "named_fill (e_box r1) object data us = None"
        then show False using res True False al good by (auto simp: try_read_def Let_def split: if_splits)
      qed
      then obtain sb2 where "named_fill (e_box r1) object data us = Some sb2" by blast
      then have sb2: "r' = r1\<lparr>e_box := sb2, named := (named r1)[the ?slot :=
          new_named object data us gname pri fl ns (c_str sb2 name)]\<rparr>"
        using res True False al good by (auto simp: try_read_def Let_def split: if_splits)
      obtain k where k: "?slot = Some k" using h(5) good by auto
      then have "k < 128" "\<not> no_live (named r ! k)" by (auto simp: named_scan_Some)
      then show ?thesis
        using h good k
        by (intro new_slot_inv [OF assms(1), of r' k "new_named object data us gname pri fl ns (c_str sb2 name)"])
          (simp_all add: sb2)
    qed
  qed
qed

section \<open>Reachable tables\<close>

text \<open>One call of a guest: the eight NamedObject entries. What \<open>exec.library\<close> does with the
  message of \<open>RemNamedObject\<close> leaves the table and the heap alone.\<close>

definition reply_frame :: "(emu_run \<Rightarrow> u32 \<Rightarrow> emu_run ures) \<Rightarrow> bool" where
  "reply_frame reply \<longleftrightarrow> (\<forall>r m r'. reply r m = URet r' \<longrightarrow>
     named r' = named r \<and> exec_heap r' = exec_heap r \<and> exec_heap_end r' = exec_heap_end r)"

inductive named_step :: "(emu_run \<Rightarrow> u32 \<Rightarrow> emu_run ures) \<Rightarrow> emu_run \<Rightarrow> emu_run \<Rightarrow> bool" for reply where
  alloc: "alloc_named_object r name tags = Some (URet (d, r')) \<Longrightarrow> named_step reply r r'"
| add: "add_named_object r parent object = (d, r') \<Longrightarrow> named_step reply r r'"
| search: "find_named_object r parent name prev = URet (d, r') \<Longrightarrow> named_step reply r r'"
| release: "release_named_object r object = URet r' \<Longrightarrow> named_step reply r r'"
| attempt: "attempt_rem_named_object r object = URet (d, r') \<Longrightarrow> named_step reply r r'"
| remove: "rem_named_object reply r object message = URet r' \<Longrightarrow> named_step reply r r'"
| free: "free_named_object r object = URet r' \<Longrightarrow> named_step reply r r'"
| store: "named_step reply r (r\<lparr>e_box := sb\<rparr>)"

inductive_cases named_stepE: "named_step reply r r'"

lemma named_step_inv:
  assumes "reply_frame reply" "named_step reply r r'" "named_inv r"
  shows "named_inv r'"
  using assms(2)
proof cases
  case (search parent name prev d)
  then show ?thesis using assms(3)
    by (auto simp: find_named_object_def Let_def named_scan_Some split: option.splits if_splits
        intro!: update_inv slot_changes)
next
  case (release object)
  then show ?thesis using assms(3)
    by (auto simp: release_named_object_def split: option.splits if_splits dest: named_index_Some
        intro!: update_inv slot_changes)
next
  case (attempt object d)
  then show ?thesis using assms(3)
    by (auto simp: attempt_rem_named_object_def split: option.splits if_splits dest: named_index_Some
        intro!: update_inv slot_changes)
next
  case (remove object message)
  then obtain i where i: "named_index r object = Some i"
    by (auto simp: rem_named_object_def split: option.splits)
  let ?r1 = "slot_update r i (\<lambda>n. named_remove_if_ready (named_drop_ref (n\<lparr>no_pending_remove := True\<rparr>)))"
  have "named_inv ?r1" using i assms(3) by (auto dest: named_index_Some intro!: update_inv slot_changes)
  moreover have "named r' = named ?r1 \<and> exec_heap r' = exec_heap ?r1 \<and> exec_heap_end r' = exec_heap_end ?r1"
    using remove i assms(1)
    by (auto simp: rem_named_object_def Let_def reply_frame_def split: if_splits option.splits)
  ultimately show ?thesis using same_table_inv by blast
next
  case (free object)
  then show ?thesis using assms(3)
    by (auto simp: free_named_object_def split: option.splits if_splits dest: named_index_Some
        intro!: update_inv slot_changes)
next
  case (store sb)
  then show ?thesis using same_table_inv [of r' r] assms(3) by simp
qed (use assms(3) alloc_inv add_inv in blast)+

text \<open>C27: However the NamedObject calls are interleaved, in every table reachable from one that
  satisfies the invariant no two objects of a name space without duplicates have equal names
  (under its case rule), every object address belongs to one slot, and no reference count is
  negative.\<close>

theorem reachable_names_unique:
  assumes "named_inv r0" "reply_frame reply" "(named_step reply)\<^sup>*\<^sup>* r0 r"
  shows "names_unique r \<and> slots_ok r"
proof -
  have "named_inv r" using assms(3,1)
    by (induction rule: rtranclp_induct) (use named_step_inv [OF assms(2)] in blast)+
  then show ?thesis by (simp add: named_inv_def)
qed

text \<open>A table with two objects of the name \<open>A\<close>, in no name space yet.\<close>

definition named_box :: emu_run where
  "named_box = \<lparr>e_box = \<lparr>jb_mem = (\<lambda>i. if i = 0 then 65 else 0), jb_origin = 0x1000, jb_size = 0x100,
     next_alloc = 0x1080\<rparr>, exec_heap = 0x1080, exec_heap_end = 0x1100,
     named = new_named 0x1010 0 0 0x1018 0 0 False [65] # new_named 0x1020 0 0 0x1028 0 0 False [65] #
       replicate 126 named_zero\<rparr>"

lemma named_box_inv: "named_inv named_box"
proof -
  have n: "named named_box ! i = (if i = 0 then new_named 0x1010 0 0 0x1018 0 0 False [65]
      else if i = 1 then new_named 0x1020 0 0 0x1028 0 0 False [65] else named_zero)" if "i < 128" for i
    using that by (auto simp: named_box_def nth_Cons')
  have z: "\<not> no_live named_zero" "\<not> no_added named_zero" "no_parent named_zero = 0" by (simp_all add: named_zero_def)
  have h: "exec_heap named_box = 0x1080" "exec_heap_end named_box = 0x1100" "length (named named_box) = 128"
    by (simp_all add: named_box_def)
  have "slots_ok named_box" unfolding slots_ok_def h
    by (intro conjI allI impI) (auto simp: n z split: if_splits)
  moreover have "names_unique named_box" unfolding names_unique_def
    by (intro allI impI) (auto simp: n z split: if_splits)
  ultimately show ?thesis by (simp add: named_inv_def)
qed

lemma named_demo:
  "case add_named_object named_box 0 0x1010 of (d, r) \<Rightarrow> d = 0xFFFFFFFF \<and> fst (add_named_object r 0 0x1020) = 0"
  by code_simp

theorem reachable_names_unique_witness:
  "\<exists>r. names_unique r \<and> slots_ok r \<and> add_named_object named_box 0 0x1010 = (0xFFFFFFFF, r) \<and>
     fst (add_named_object r 0 0x1020) = 0"
proof -
  have rf: "reply_frame (\<lambda>r m. URet r)" by (simp add: reply_frame_def)
  obtain r where d: "add_named_object named_box 0 0x1010 = (0xFFFFFFFF, r)" "fst (add_named_object r 0 0x1020) = 0"
    using named_demo by (auto split: prod.splits)
  have "(named_step (\<lambda>r m. URet r))\<^sup>*\<^sup>* named_box r" by (rule r_into_rtranclp) (rule named_step.add [OF d(1)])
  from reachable_names_unique [OF named_box_inv rf this] d show ?thesis by blast
qed

section \<open>Searching by enumeration\<close>

text \<open>The loop of a client: \<open>FindNamedObject\<close> from 0, then from each object found.\<close>

fun find_walk :: "nat \<Rightarrow> emu_run \<Rightarrow> u32 \<Rightarrow> u32 \<Rightarrow> u32 \<Rightarrow> (u32 list \<times> emu_run) ures" where
  "find_walk 0 r parent name prev = URet ([], r)"
| "find_walk (Suc n) r parent name prev =
     (case find_named_object r parent name prev of
        URet (obj, r) \<Rightarrow> if obj = 0 then URet ([], r)
          else (case find_walk n r parent name obj of URet (objs, r) \<Rightarrow> URet (obj # objs, r) | UErr e \<Rightarrow> UErr e | UUndef \<Rightarrow> UUndef)
      | UErr e \<Rightarrow> UErr e | UUndef \<Rightarrow> UUndef)"

text \<open>The slots a search takes, in order.\<close>

definition named_hits :: "emu_run \<Rightarrow> u32 \<Rightarrow> u8 list option \<Rightarrow> nat \<Rightarrow> nat list" where
  "named_hits r parent s from =
     filter (\<lambda>i. named_match parent (named_namespace_flags r parent) s (named r ! i)) [from..<128]"

lemma named_hits_step:
  "named_hits r parent s from =
     (case named_scan r (named_match parent (named_namespace_flags r parent) s) from of
        None \<Rightarrow> [] | Some i \<Rightarrow> i # named_hits r parent s (i + 1))"
proof (cases "named_scan r (named_match parent (named_namespace_flags r parent) s) from")
  case None
  have "\<forall>j. from \<le> j \<and> j < 128 \<longrightarrow> \<not> named_match parent (named_namespace_flags r parent) s (named r ! j)"
    using None by (simp only: named_scan_None)
  then show ?thesis unfolding None by (simp add: named_hits_def filter_empty_conv)
next
  case (Some i)
  then have i: "from \<le> i" "i < 128" "named_match parent (named_namespace_flags r parent) s (named r ! i)"
    "\<forall>j. from \<le> j \<and> j < i \<longrightarrow> \<not> named_match parent (named_namespace_flags r parent) s (named r ! j)"
    by (auto simp: named_scan_Some)
  have "[from..<128] = [from..<i] @ i # [i + 1..<128]"
    using upt_add_eq_append [of "from" i "128 - i"] i(1,2) by (simp add: upt_conv_Cons)
  then show ?thesis using Some i by (simp add: named_hits_def filter_empty_conv)
qed

lemma hits_below: "i \<in> set (named_hits r parent s from) \<Longrightarrow> from \<le> i \<and> i < 128 \<and> no_live (named r ! i)"
  by (auto simp: named_hits_def named_match_def)

lemma find_step:
  assumes "\<not> parent_bad r parent" "name = 0 \<or> guest_cstr (e_box r) name"
    and "prev = 0 \<and> from = 0 \<or> (\<exists>i. named_index r prev = Some i \<and> from = i + 1)"
  shows "find_named_object r parent name prev =
    (case named_scan r (named_match parent (named_namespace_flags r parent)
        (if name = 0 then None else Some (c_str (e_box r) name))) from of
       None \<Rightarrow> URet (0, r)
     | Some i \<Rightarrow> if no_refs (named r ! i) = 2147483647 then UUndef
         else URet (no_object (named r ! i), slot_update r i (\<lambda>n. n\<lparr>no_refs := no_refs n + 1\<rparr>)))"
proof -
  have f: "(case named_index r prev of None \<Rightarrow> 0 | Some i \<Rightarrow> i + 1) = from"
    using assms(3) by (auto simp: named_index_def)
  have g: "\<not> (parent_bad r parent \<or> name \<noteq> 0 \<and> \<not> guest_cstr (e_box r) name \<or> prev \<noteq> 0 \<and> named_index r prev = None)"
    using assms by auto
  show ?thesis unfolding find_named_object_def Let_def if_not_P [OF g] f by (rule refl)
qed

lemma ref_update_same:
  fixes r i
  defines "r1 \<equiv> slot_update r i (\<lambda>n. n\<lparr>no_refs := no_refs n + 1\<rparr>)"
  assumes "length (named r) = 128" "i < 128"
  shows "named_index r1 p = named_index r p" "parent_bad r1 p = parent_bad r p"
    "named_namespace_flags r1 p = named_namespace_flags r p" "named_hits r1 p s from = named_hits r p s from"
proof -
  have nth: "named r1 ! j = (if j = i then (named r ! i)\<lparr>no_refs := no_refs (named r ! i) + 1\<rparr> else named r ! j)"
    if "j < 128" for j using that assms by (simp add: r1_def nth_slot_update)
  show idx: "named_index r1 p = named_index r p" for p by (rule index_cong) (simp add: nth)
  have keep: "no_has_namespace (named r1 ! j) = no_has_namespace (named r ! j)" "no_flags (named r1 ! j) = no_flags (named r ! j)"
    if "named_index r q = Some j" for q j
    using nth [of j] named_index_Some [OF that] by simp_all
  show "parent_bad r1 p = parent_bad r p"
    unfolding parent_bad_def idx by (simp add: keep split: option.split)
  show fl: "named_namespace_flags r1 p = named_namespace_flags r p" for p
    unfolding named_namespace_flags_def idx by (simp add: keep split: option.split)
  show "named_hits r1 p s from = named_hits r p s from"
    unfolding named_hits_def fl by (rule filter_cong) (auto simp: nth named_match_def split: option.split)
qed

lemma find_walk_hits:
  assumes "named_inv r" "\<not> parent_bad r parent" "name = 0 \<or> guest_cstr (e_box r) name"
    and "prev = 0 \<and> from = 0 \<or> (\<exists>i. named_index r prev = Some i \<and> from = i + 1)"
    and "hits = named_hits r parent (if name = 0 then None else Some (c_str (e_box r) name)) from"
    and "\<forall>i\<in>set hits. no_refs (named r ! i) < 2147483647" "length hits \<le> n"
  shows "\<exists>r'. find_walk n r parent name prev = URet (map (\<lambda>i. no_object (named r ! i)) hits, r') \<and>
    (\<forall>i<128. named r' ! i = (if i \<in> set hits then (named r ! i)\<lparr>no_refs := no_refs (named r ! i) + 1\<rparr> else named r ! i))"
  using assms
proof (induction hits arbitrary: n r prev "from")
  case Nil
  let ?P = "named_match parent (named_namespace_flags r parent) (if name = 0 then None else Some (c_str (e_box r) name))"
  have "named_scan r ?P from = None"
    using Nil.prems(5) named_hits_step [of r parent _ "from"] by (auto split: option.splits)
  then have "find_named_object r parent name prev = URet (0, r)" unfolding find_step [OF Nil.prems(2-4)] by simp
  then show ?case by (cases n) auto
next
  case (Cons i hits)
  let ?s = "if name = 0 then None else Some (c_str (e_box r) name)"
  let ?P = "named_match parent (named_namespace_flags r parent) ?s"
  let ?f = "\<lambda>n. n\<lparr>no_refs := no_refs n + 1\<rparr>"
  obtain m where n: "n = Suc m" "length hits \<le> m" using Cons.prems(7) by (cases n) auto
  have scan: "named_scan r ?P from = Some i" "hits = named_hits r parent ?s (i + 1)"
    using Cons.prems(5) named_hits_step [of r parent ?s "from"] by (auto split: option.splits)
  have ok: "slots_ok r" using Cons.prems(1) by (simp add: named_inv_def)
  then have l: "length (named r) = 128" by (simp add: slots_ok_def)
  have i: "i < 128" "no_live (named r ! i)" using hits_below [of i r parent ?s "from"] unfolding Cons.prems(5) [symmetric] by simp_all
  have obj: "no_object (named r ! i) \<noteq> 0" using slots_slot [OF ok i(1)] i(2) by blast
  let ?r1 = "slot_update r i ?f"
  note same = ref_update_same [OF l i(1)]
  have nth: "named ?r1 ! j = (if j = i then ?f (named r ! i) else named r ! j)" if "j < 128" for j
    using that i(1) l by (simp add: nth_slot_update)
  have above: "j \<in> set hits \<Longrightarrow> i < j \<and> j < 128" for j using hits_below [of j r parent ?s "i + 1"] scan(2) by auto
  have idx: "named_index ?r1 (no_object (named r ! i)) = Some i"
    unfolding same(1) using i by (simp add: named_index_iff [OF ok])
  have one: "find_named_object r parent name prev = URet (no_object (named r ! i), ?r1)"
    unfolding find_step [OF Cons.prems(2-4)] using scan(1) Cons.prems(6) by simp
  have "\<exists>r'. find_walk m ?r1 parent name (no_object (named r ! i)) = URet (map (\<lambda>i. no_object (named ?r1 ! i)) hits, r') \<and>
    (\<forall>j<128. named r' ! j = (if j \<in> set hits then ?f (named ?r1 ! j) else named ?r1 ! j))"
  proof (rule Cons.IH)
    show "named_inv ?r1" using Cons.prems(1) i(1) slot_changes(3) by (rule update_inv)
    show "hits = named_hits ?r1 parent (if name = 0 then None else Some (c_str (e_box ?r1) name)) (i + 1)"
      using scan(2) by (simp add: same)
    show "\<forall>j\<in>set hits. no_refs (named ?r1 ! j) < 2147483647"
      using Cons.prems(6) above nth by fastforce
  qed (use Cons.prems(2,3) same idx n in auto)
  then obtain r' where r': "find_walk m ?r1 parent name (no_object (named r ! i)) = URet (map (\<lambda>i. no_object (named ?r1 ! i)) hits, r')"
    "\<And>j. j < 128 \<Longrightarrow> named r' ! j = (if j \<in> set hits then ?f (named ?r1 ! j) else named ?r1 ! j)" by blast
  have objs: "map (\<lambda>j. no_object (named ?r1 ! j)) hits = map (\<lambda>j. no_object (named r ! j)) hits"
    using above nth by auto
  have "named r' ! j = (if j \<in> set (i # hits) then ?f (named r ! j) else named r ! j)" if "j < 128" for j
    using r'(2) [OF that] nth [OF that] above [of j] by auto
  then show ?case using one r'(1) obj objs n(1) by auto
qed

text \<open>C28: A client that calls \<open>FindNamedObject\<close> from 0 and then from each object it was given sees
  every object of the name space with the name (or every object, without a name) exactly once,
  in slot order, and then 0; it holds one more reference on each of them, and no other slot
  changes.\<close>

theorem find_enumerates:
  assumes "named_inv r" "\<not> parent_bad r parent" "name = 0 \<or> guest_cstr (e_box r) name"
    and "\<forall>i<128. no_refs (named r ! i) < 2147483647"
  shows "\<exists>r' hits. find_walk 129 r parent name 0 = URet (map (\<lambda>i. no_object (named r ! i)) hits, r') \<and>
    sorted_wrt (<) hits \<and> set hits = {i. i < 128 \<and> named_match parent (named_namespace_flags r parent)
      (if name = 0 then None else Some (c_str (e_box r) name)) (named r ! i)} \<and>
    (\<forall>i<128. named r' ! i = (if i \<in> set hits then (named r ! i)\<lparr>no_refs := no_refs (named r ! i) + 1\<rparr> else named r ! i))"
proof -
  let ?hits = "named_hits r parent (if name = 0 then None else Some (c_str (e_box r) name)) 0"
  have "length ?hits \<le> length [0..<128]" unfolding named_hits_def by (rule length_filter_le)
  then have len: "length ?hits \<le> 129" by simp
  have refs: "\<forall>i\<in>set ?hits. no_refs (named r ! i) < 2147483647" using assms(4) hits_below by blast
  have "sorted_wrt (<) ?hits" unfolding named_hits_def by (rule sorted_wrt_filter) simp
  moreover have "set ?hits = {i. i < 128 \<and> named_match parent (named_namespace_flags r parent)
      (if name = 0 then None else Some (c_str (e_box r) name)) (named r ! i)}"
    unfolding named_hits_def set_filter set_upt by auto
  moreover obtain r' where "find_walk 129 r parent name 0 = URet (map (\<lambda>i. no_object (named r ! i)) ?hits, r')"
    "\<forall>i<128. named r' ! i = (if i \<in> set ?hits then (named r ! i)\<lparr>no_refs := no_refs (named r ! i) + 1\<rparr> else named r ! i)"
    using find_walk_hits [OF assms(1-3) _ refl refs len, of 0] by blast
  ultimately show ?thesis by (intro exI [of _ r'] exI [of _ ?hits]) blast
qed

theorem find_enumerates_witness:
  "\<exists>r r'. add_named_object named_box 0 0x1010 = (0xFFFFFFFF, r) \<and> find_walk 129 r 0 0 0 = URet ([0x1010], r') \<and>
     no_refs (named r' ! 0) = 2"
proof -
  let ?r = "slot_update named_box 0 (\<lambda>n. n\<lparr>no_parent := 0, no_added := True\<rparr>)"
  have idx: "named_index named_box 0x1010 = Some 0" by code_simp
  have new: "named_scan named_box (\<lambda>n. no_live n \<and> no_added n \<and> no_parent n = 0 \<and>
      named_equal (no_name n) (no_name (named named_box ! 0)) (named_namespace_flags named_box 0)) 0 = None" by code_simp
  have "\<not> no_added (named named_box ! 0)" by (simp add: named_box_def)
  then have add: "add_named_object named_box 0 0x1010 = (0xFFFFFFFF, ?r)"
    using idx new by (simp add: add_named_object_def parent_bad_def Let_def)
  have inv: "named_inv ?r" using named_box_inv add by (rule add_inv)
  have nth: "named ?r ! i = (if i = 0 then (new_named 0x1010 0 0 0x1018 0 0 False [65])\<lparr>no_parent := 0, no_added := True\<rparr>
      else if i = 1 then new_named 0x1020 0 0 0x1028 0 0 False [65] else named_zero)" if "i < 128" for i
    using that by (auto simp: slot_update_def named_box_def nth_Cons' nth_list_update)
  have refs: "\<forall>i<128. no_refs (named ?r ! i) < 2147483647"
    by (auto simp: nth named_zero_def new_named_def)
  have pb: "\<not> parent_bad ?r 0" by (simp add: parent_bad_def)
  obtain r' hits where h: "find_walk 129 ?r 0 0 0 = URet (map (\<lambda>i. no_object (named ?r ! i)) hits, r')" "sorted_wrt (<) hits"
    "set hits = {i. i < 128 \<and> named_match 0 (named_namespace_flags ?r 0) None (named ?r ! i)}"
    "\<forall>i<128. named r' ! i = (if i \<in> set hits then (named ?r ! i)\<lparr>no_refs := no_refs (named ?r ! i) + 1\<rparr> else named ?r ! i)"
    using find_enumerates [OF inv pb _ refs, of 0] by auto
  have "named_match 0 f None (named ?r ! i) = (i = 0)" if "i < 128" for i f
    by (auto simp: nth [OF that] named_match_def named_zero_def new_named_def)
  then have "set hits = {0}" using h(3) by auto
  moreover from this h(2) have "hits = [0]" by (cases hits) (auto simp: subset_singleton_iff)
  ultimately show ?thesis using add h(1,4) nth [of 0] by (intro exI [of _ ?r] exI [of _ r']) simp
qed

end
