(* ===== verification/UtilPack.thy ===== *)
theory UtilPack
  imports UtilTags
begin

text \<open>
  \<open>PackStructureTags\<close> and \<open>UnpackStructureTags\<close> of \<open>utility.library\<close>
  (\<open>pack_structure\<close> in \<open>hosted/emu68k/emu68k_utility.c\<close>): a table of 32-bit entries maps tags to
  the fields of a structure.
\<close>

definition pack_bad :: string where
  "pack_bad = ''utility pack table leaves guest memory''"

text \<open>The fields of an entry.\<close>

definition pk_memoff :: "u32 \<Rightarrow> u32" where "pk_memoff entry = entry AND 0x1FFF"
definition pk_bit :: "u32 \<Rightarrow> u8" where "pk_bit entry = push_bit (unat (drop_bit 13 entry AND 7)) 1"
definition pk_control :: "u32 \<Rightarrow> u32" where "pk_control entry = entry AND 0x98000000"
definition pk_tag :: "u32 \<Rightarrow> u32 \<Rightarrow> u32" where "pk_tag tagbase entry = tagbase + (drop_bit 16 entry AND 0x3FF)"

definition pk_width :: "u32 \<Rightarrow> u32" where
  "pk_width control = (if control = 0x10000000 \<or> control = 0x90000000 then 4
     else if control = 0x08000000 \<or> control = 0x88000000 then 2 else 1)"

text \<open>One field written from the data of its tag; whether it counts.\<close>

definition pack_field :: "j4_sandbox \<Rightarrow> u32 \<Rightarrow> u32 \<Rightarrow> u32 \<Rightarrow> (j4_sandbox \<times> bool) ures option" where
  "pack_field sb at entry data =
     (let control = pk_control entry; bit = pk_bit entry in
      if \<not> span_ok sb at (pk_width control) then Some (UErr pack_bad)
      else if entry AND 0x1C000000 = 0x1C000000 then
        try_read (gread8 sb at) (\<lambda>b.
          try_read (gwrite8 sb at (if entry AND 0x80000000 \<noteq> 0 then b AND NOT bit else b OR bit)) (\<lambda>sb.
            Some (URet (sb, True))))
      else if control = 0x10000000 \<or> control = 0x90000000 then
        try_read (gwrite32 sb at data) (\<lambda>sb. Some (URet (sb, True)))
      else if control = 0x08000000 \<or> control = 0x88000000 then
        try_read (gwrite16 sb at data) (\<lambda>sb. Some (URet (sb, True)))
      else if control = 0 \<or> control = 0x80000000 then
        try_read (gwrite8 sb at (ucast data)) (\<lambda>sb. Some (URet (sb, True)))
      else if control = 0x18000000 \<or> control = 0x98000000 then
        try_read (gread8 sb at) (\<lambda>b.
          try_read (gwrite8 sb at (if (data \<noteq> 0) = (control = 0x18000000) then b OR bit else b AND NOT bit)) (\<lambda>sb.
            Some (URet (sb, True))))
      else Some (URet (sb, False)))"

text \<open>The value of a field; \<open>None\<close> inside is the \<open>default\<close> of the switch. Only the tag's data, the
  address of the result, is checked.\<close>

definition unpack_value :: "j4_sandbox \<Rightarrow> u32 \<Rightarrow> u32 \<Rightarrow> u32 option option" where
  "unpack_value sb at entry =
     (let control = pk_control entry; bit = pk_bit entry in
      if control = 0x10000000 \<or> control = 0x90000000 then map_option Some (gread32 sb at)
      else if control = 0x08000000 then map_option Some (gread16 sb at)
      else if control = 0x88000000 then map_option (\<lambda>v. Some (scast (ucast v :: u16))) (gread16 sb at)
      else if control = 0 then map_option (\<lambda>b. Some (ucast b)) (gread8 sb at)
      else if control = 0x80000000 then map_option (\<lambda>b. Some (scast b)) (gread8 sb at)
      else if control = 0x18000000 then map_option (\<lambda>b. Some (if b AND bit \<noteq> 0 then 1 else 0)) (gread8 sb at)
      else if control = 0x98000000 then map_option (\<lambda>b. Some (if b AND bit \<noteq> 0 then 0 else 1)) (gread8 sb at)
      else Some None)"

definition unpack_field :: "j4_sandbox \<Rightarrow> u32 \<Rightarrow> u32 \<Rightarrow> u32 \<Rightarrow> (j4_sandbox \<times> bool) ures option" where
  "unpack_field sb at entry data =
     (if \<not> span_ok sb data 4 then Some (UErr pack_bad)
      else try_read (unpack_value sb at entry) (\<lambda>out. case out of
          None \<Rightarrow> Some (URet (sb, False))
        | Some v \<Rightarrow> try_read (gwrite32 sb data v) (\<lambda>sb. Some (URet (sb, True)))))"

fun pack_loop :: "nat \<Rightarrow> j4_sandbox \<Rightarrow> u32 \<Rightarrow> u32 \<Rightarrow> bool \<Rightarrow> u32 \<Rightarrow> u32 \<Rightarrow> u32 \<Rightarrow> (j4_sandbox \<times> u32) ures option" where
  "pack_loop 0 sb pack tags unpack table tagbase count = Some (UErr pack_bad)"
| "pack_loop (Suc g) sb pack tags unpack table tagbase count =
     (if \<not> span_ok sb table 4 then Some (UErr pack_bad)
      else try_read (gread32 sb table) (\<lambda>entry.
        if entry = 0 then Some (URet (sb, count))
        else if entry = 0xFFFFFFFF then
          (if \<not> span_ok sb (table + 4) 4 then Some (UErr pack_bad)
           else try_read (gread32 sb (table + 4)) (\<lambda>tagbase.
             pack_loop g sb pack tags unpack (table + 8) tagbase count))
        else if \<not> unpack \<and> entry AND 0x20000000 \<noteq> 0 \<or> unpack \<and> entry AND 0x40000000 \<noteq> 0 then
          pack_loop g sb pack tags unpack (table + 4) tagbase count
        else try_call (utility_find_tag sb (pk_tag tagbase entry) tags) (\<lambda>item.
          if item = 0 then pack_loop g sb pack tags unpack (table + 4) tagbase count
          else try_read (gread32 sb (item + 4)) (\<lambda>data.
            try_call ((if unpack then unpack_field else pack_field) sb (pack + pk_memoff entry) entry data)
              (\<lambda>(sb, counted). pack_loop g sb pack tags unpack (table + 4) tagbase
                 (if counted then count + 1 else count))))))"

definition pack_structure :: "j4_sandbox \<Rightarrow> u32 \<Rightarrow> u32 \<Rightarrow> u32 \<Rightarrow> bool \<Rightarrow> (j4_sandbox \<times> u32) ures option" where
  "pack_structure sb pack table tags unpack =
     (if \<not> span_ok sb table 4 then Some (UErr pack_bad)
      else try_read (gread32 sb table) (\<lambda>tagbase. pack_loop 65536 sb pack tags unpack (table + 4) tagbase 0))"

section \<open>One field\<close>

lemma span8:
  assumes "arena_ok sb" "span_ok sb p 1"
  shows "gread8 sb p = Some (jb_mem sb (hof sb p))"
    "gwrite8 sb p v = Some (sb\<lparr>jb_mem := (jb_mem sb)(hof sb p := v)\<rparr>)"
  using span_facts [OF assms, of 0 1] span_range [OF assms, of 0 1]
  by (simp_all add: gread8_def gwrite8_def hof_def word_less_nat_alt word_le_nat_alt)

lemma span16:
  assumes "arena_ok sb" "span_ok sb p 2"
  shows "gread16 sb p = Some (push_bit 8 (ucast (jb_mem sb (hof sb p))) OR ucast (jb_mem sb (hof sb p + 1)))"
    "gwrite16 sb p v = Some (sb\<lparr>jb_mem := (jb_mem sb)(hof sb p := byte_of 1 v, hof sb p + 1 := byte_of 0 v)\<rparr>)"
  using span_read16 [OF assms, of 0] span_write16 [OF assms, of 0] by (simp_all add: hof_def)

lemma span32:
  assumes "arena_ok sb" "span_ok sb p 4"
  shows "gread32 sb p = Some (sb_read_be32 sb (hof sb p))" "gwrite32 sb p v = Some (sb_write_be32 sb (hof sb p) v)"
  using read32_at [OF assms, of 0] write32_at [OF assms, of 0] by simp_all

lemma pk_bit_facts [simp]: "pk_bit e \<noteq> 0" "(b AND NOT (pk_bit e)) AND pk_bit e = 0"
proof -
  have "unat (drop_bit 13 e AND 7) < 8"
    using unat_and_mask [of "drop_bit 13 e" 3] by (simp add: mask_eq_exp_minus_1)
  then have "bit (pk_bit e) (unat (drop_bit 13 e AND 7))" by (simp add: pk_bit_def bit_simps)
  then show "pk_bit e \<noteq> 0" by auto
  show "(b AND NOT (pk_bit e)) AND pk_bit e = 0" by (rule bit_word_eqI) (simp add: bit_simps)
qed

text \<open>The eight controls.\<close>

lemma pk_control_cases:
  obtains "pk_control e = 0x10000000" | "pk_control e = 0x90000000" | "pk_control e = 0x08000000"
  | "pk_control e = 0x88000000" | "pk_control e = 0" | "pk_control e = 0x80000000"
  | "pk_control e = 0x18000000" | "pk_control e = 0x98000000"
proof -
  have one: "e AND push_bit k 1 = push_bit k 1 \<or> e AND push_bit k 1 = 0" for k
  proof -
    have b: "bit (push_bit k 1 :: u32) n \<longleftrightarrow> n = k \<and> n < 32" for n by (auto simp: bit_simps)
    show ?thesis
    proof (cases "bit e k")
      case True
      have "e AND push_bit k 1 = push_bit k 1" by (rule bit_word_eqI) (use True b in \<open>auto simp: bit_and_iff\<close>)
      then show ?thesis ..
    next
      case False
      have "e AND push_bit k 1 = 0" by (rule bit_word_eqI) (use False b in \<open>auto simp: bit_and_iff\<close>)
      then show ?thesis ..
    qed
  qed
  have split: "pk_control e = (e AND push_bit 31 1) OR (e AND push_bit 28 1) OR (e AND push_bit 27 1)"
  proof -
    have m: "(0x98000000 :: u32) = push_bit 31 1 OR push_bit 28 1 OR push_bit 27 1" by simp
    show ?thesis unfolding pk_control_def m by (rule bit_word_eqI) (auto simp only: bit_and_iff bit_or_iff)
  qed
  show thesis
    using one [of 31] one [of 28] one [of 27] split by (elim disjE) (simp_all add: that)
qed

lemma ucast_low:
  "(ucast (data AND 0xFFFF :: u32) :: u16) = ucast data" "ucast (ucast data :: u8) = (data AND 0xFF :: u32)"
proof -
  have m: "(0xFFFF :: u32) = mask 16" "(0xFF :: u32) = mask 8" by (simp_all add: mask_eq_exp_minus_1)
  show "(ucast (data AND 0xFFFF :: u32) :: u16) = ucast data" "ucast (ucast data :: u8) = (data AND 0xFF :: u32)"
    unfolding m by (rule bit_word_eqI, auto simp: bit_simps)+
qed

text \<open>What a field keeps of the data: its low bytes, sign-extended for the signed controls; a bit
  field keeps whether the data is 0.\<close>

definition field_value :: "u32 \<Rightarrow> u32 \<Rightarrow> u32" where
  "field_value entry data =
     (if pk_control entry AND 0x18000000 = 0x18000000 then (if data \<noteq> 0 then 1 else 0)
      else if pk_control entry AND 0x10000000 \<noteq> 0 then data
      else if pk_control entry = 0x08000000 then data AND 0xFFFF
      else if pk_control entry = 0x88000000 then scast (ucast data :: u16)
      else if pk_control entry = 0 then data AND 0xFF
      else scast (ucast data :: u8))"


section \<open>The structure outside the arena\<close>

text \<open>A byte field of a structure that is not in guest memory: \<open>PackStructureTags\<close> refuses the
  call, but \<open>UnpackStructureTags\<close> has no check of the structure and reads the host's memory
  outside the arena.\<close>

theorem unpack_reads_outside:
  assumes "arena_ok sb" "span_ok sb table 8" "gread32 sb table = Some base" "gread32 sb (table + 4) = Some entry"
    and "entry \<noteq> 0" "entry \<noteq> 0xFFFFFFFF" "entry AND 0x60000000 = 0" "pk_control entry = 0 \<or> pk_control entry = 0x80000000"
    and "utility_find_tag sb (pk_tag base entry) tags = Some (URet item)" "item \<noteq> 0" "gread32 sb (item + 4) = Some target"
    and "span_ok sb target 4" "\<not> host_ok sb (pack + pk_memoff entry) 1"
  shows "pack_structure sb pack table tags True = Some UUndef \<and>
    pack_structure sb pack table tags False = Some (UErr pack_bad)"
proof -
  have t: "span_ok sb table 4" "span_ok sb (table + 4) 4"
    using assms(1,2) span_facts(1) [OF assms(1,2), of 4 0] by (auto simp: span_ok_nat)
  have "entry AND 0x20000000 = (entry AND 0x60000000) AND 0x20000000" "entry AND 0x40000000 = (entry AND 0x60000000) AND 0x40000000"
    by (simp_all add: and.assoc)
  then have e: "entry AND 0x20000000 = 0" "entry AND 0x40000000 = 0" unfolding assms(7) by simp_all
  have w: "pk_width (pk_control entry) = 1" using assms(8) by (auto simp: pk_width_def)
  have "\<not> span_ok sb (pack + pk_memoff entry) 1"
    using assms(13) span_facts(5) [OF assms(1), of "pack + pk_memoff entry" 1 0 1] by auto
  then have p: "pack_field sb (pack + pk_memoff entry) entry target = Some (UErr pack_bad)"
    by (simp add: pack_field_def Let_def w)
  have u: "unpack_field sb (pack + pk_memoff entry) entry target = Some UUndef"
    using assms(8,12,13) by (auto simp: unpack_field_def unpack_value_def gread8_def try_read_def Let_def)
  have run: "pack_loop (Suc g) sb pack tags unp (table + 4) base 0 =
      try_call ((if unp then unpack_field else pack_field) sb (pack + pk_memoff entry) entry target)
        (\<lambda>(sb, counted). pack_loop g sb pack tags unp (table + 4 + 4) base (if counted then 0 + 1 else 0))" for g unp
    unfolding pack_loop.simps using assms(4-6,9-11) t(2) e by (simp add: try_read_def try_call_def)
  have "pack_structure sb pack table tags unp = pack_loop (Suc 65535) sb pack tags unp (table + 4) base 0" for unp
    using t(1) assms(3) by (simp add: pack_structure_def try_read_def)
  then show ?thesis unfolding run by (simp add: p u try_call_def)
qed

definition pack_box :: j4_sandbox where
  "pack_box = \<lparr>jb_mem = (\<lambda>i. if i < 32 then byte_of (3 - i mod 4)
       ([0x80000001, 4, 0, 0, 0x80000001, 0x1040, 0, 0 :: u32] ! (i div 4)) else 0),
     jb_origin = 0x1000, jb_size = 0x100, next_alloc = 0x1080\<rparr>"

lemma pack_box_facts:
  "arena_ok pack_box" "span_ok pack_box 0x1000 8" "gread32 pack_box 0x1000 = Some 0x80000001"
  "gread32 pack_box (0x1000 + 4) = Some 4" "gread32 pack_box (0x1010 + 4) = Some 0x1040" "span_ok pack_box 0x1040 4"
  "gread32 pack_box 0x1010 = Some 0x80000001" "span_ok pack_box 0x1010 8"
  by (simp_all add: pack_box_def arena_ok_def span_ok_def gread32_def box_end_def host_ok_def j4_sandbox_host_def
      sb_read_be32_def be32_bytes [simplified])

theorem unpack_reads_outside_witness: "pack_structure pack_box 0x5000 0x1000 0x1010 True = Some UUndef"
proof -
  have f: "utility_find_tag pack_box (pk_tag 0x80000001 4) 0x1010 = Some (URet 0x1010)"
  proof -
    have "next_item_loop (Suc 65535) pack_box 0x1010 = Some (0x1010, 0x1018)"
      unfolding next_item_loop.simps using pack_box_facts(5,7,8) by (simp add: tag_consts)
    then show ?thesis
      using pack_box_facts(7) by (subst utility_find_tag.simps) (simp add: pk_tag_def next_item_def)
  qed
  show ?thesis
    using unpack_reads_outside [OF pack_box_facts(1-4) _ _ _ _ f _ pack_box_facts(5,6), of "0x5000"]
    by (simp add: pk_control_def pk_memoff_def host_ok_def j4_sandbox_host_def pack_box_def)
qed


end
