(* ===== verification/UtilFormat.thy ===== *)
theory UtilFormat
  imports UtilPack
begin

text \<open>
  \<open>emu68k_guest_format\<close> (\<open>hosted/emu68k/emu68k_utility.c\<close>), the formatter of \<open>VSNPrintf\<close>: the
  format, the arguments and the buffer are guest memory and may overlap.

  A result is \<open>URet\<close>, the refusal \<open>UErr\<close>, or \<open>UUndef\<close> for a host access outside the arena;
  \<open>None\<close> would be a loop that does not end.
\<close>

definition fmt_bad :: string where
  "fmt_bad = ''utility.VSNPrintf leaves guest memory''"

record fmt_output =
  fo_sb :: j4_sandbox
  fo_buffer :: u32
  fo_room :: u32
  fo_count :: u32

definition fmt_put :: "fmt_output \<Rightarrow> u8 \<Rightarrow> fmt_output option" where
  "fmt_put out ch =
     (if fo_buffer out \<noteq> 0 \<and> fo_room out \<noteq> 0 \<and> fo_count out < fo_room out - 1
      then map_option (\<lambda>sb. out\<lparr>fo_sb := sb, fo_count := fo_count out + 1\<rparr>)
             (gwrite8 (fo_sb out) (fo_buffer out + fo_count out) ch)
      else Some (out\<lparr>fo_count := fo_count out + 1\<rparr>))"

fun fmt_repeat :: "fmt_output \<Rightarrow> u8 \<Rightarrow> nat \<Rightarrow> fmt_output option" where
  "fmt_repeat out ch 0 = Some out"
| "fmt_repeat out ch (Suc n) = do { out \<leftarrow> fmt_put out ch; fmt_repeat out ch n }"

fun fmt_text :: "fmt_output \<Rightarrow> u8 list \<Rightarrow> fmt_output option" where
  "fmt_text out [] = Some out"
| "fmt_text out (c # cs) = do { out \<leftarrow> fmt_put out c; fmt_text out cs }"

definition fmt_field :: "fmt_output \<Rightarrow> u8 list \<Rightarrow> u32 \<Rightarrow> bool \<Rightarrow> bool \<Rightarrow> bool \<Rightarrow> fmt_output option" where
  "fmt_field out text width left zero negative =
     (let total = of_nat (length text) + (if negative then 1 else 0);
          pad = unat (if width > total then width - total else 0) in do {
        out \<leftarrow> (if \<not> left \<and> \<not> zero then fmt_repeat out 32 pad else Some out);
        out \<leftarrow> (if negative then fmt_put out 45 else Some out);
        out \<leftarrow> (if \<not> left \<and> zero then fmt_repeat out 48 pad else Some out);
        out \<leftarrow> fmt_text out text;
        if left then fmt_repeat out 32 pad else Some out })"

section \<open>A directive\<close>

text \<open>One format byte.\<close>

definition fmt_peek :: "j4_sandbox \<Rightarrow> u32 \<Rightarrow> (u8 \<Rightarrow> 'b ures option) \<Rightarrow> 'b ures option" where
  "fmt_peek sb fp f = (if \<not> span_ok sb fp 1 then Some (UErr fmt_bad) else try_read (gread8 sb fp) f)"

partial_function (option) fmt_flags :: "j4_sandbox \<Rightarrow> u32 \<Rightarrow> bool \<Rightarrow> bool \<Rightarrow> (u32 \<times> bool \<times> bool) ures option" where
  "fmt_flags sb fp left zero =
     (if \<not> span_ok sb fp 1 then Some (UErr fmt_bad)
      else (case gread8 sb fp of
          None \<Rightarrow> Some UUndef
        | Some ch \<Rightarrow>
            if ch = 45 then fmt_flags sb (fp + 1) True zero
            else if ch = 48 then fmt_flags sb (fp + 1) left True
            else Some (URet (fp, left, zero))))"

text \<open>The digits of a width or a limit.\<close>

partial_function (option) fmt_digits :: "j4_sandbox \<Rightarrow> u32 \<Rightarrow> u32 \<Rightarrow> (u32 \<times> u32) ures option" where
  "fmt_digits sb fp v =
     (if \<not> span_ok sb fp 1 then Some (URet (v, fp))
      else (case gread8 sb fp of
          None \<Rightarrow> Some UUndef
        | Some ch \<Rightarrow>
            if 48 \<le> ch \<and> ch \<le> 57
            then fmt_digits sb (fp + 1) (if v < 100000 then v * 10 + ucast ch - 48 else v)
            else Some (URet (v, fp))))"

record fmt_spec =
  fs_left :: bool
  fs_zero :: bool
  fs_width :: u32
  fs_limit :: u32
  fs_long :: bool
  fs_ch :: u8

definition fmt_directive :: "j4_sandbox \<Rightarrow> u32 \<Rightarrow> (fmt_spec \<times> u32) ures option" where
  "fmt_directive sb fp =
     try_call (fmt_flags sb fp False False) (\<lambda>(fp, left, zero).
     try_call (fmt_digits sb fp 0) (\<lambda>(width, fp).
     fmt_peek sb fp (\<lambda>ch.
     try_call (if ch = 46 then fmt_digits sb (fp + 1) 0 else Some (URet (0xFFFFFFFF, fp))) (\<lambda>(limit, fp).
     fmt_peek sb fp (\<lambda>ch.
     let is_long = (ch = 108); fp = (if is_long then fp + 1 else fp) in
     fmt_peek sb fp (\<lambda>ch.
     Some (URet (\<lparr>fs_left = left, fs_zero = zero, fs_width = width, fs_limit = limit, fs_long = is_long, fs_ch = ch\<rparr>,
       fp + 1))))))))"

text \<open>The length of a C string in the arena; the bytes of a string argument, read while they are
  put.\<close>

fun fmt_strlen :: "nat \<Rightarrow> j4_sandbox \<Rightarrow> u32 \<Rightarrow> u32 \<Rightarrow> u32 option" where
  "fmt_strlen 0 sb p len = Some len"
| "fmt_strlen (Suc g) sb p len =
     (if \<not> span_ok sb (p + len) 1 then Some len
      else do { ch \<leftarrow> gread8 sb (p + len); if ch \<noteq> 0 then fmt_strlen g sb p (len + 1) else Some len })"

fun fmt_copy :: "fmt_output \<Rightarrow> u32 \<Rightarrow> nat \<Rightarrow> fmt_output option" where
  "fmt_copy out p 0 = Some out"
| "fmt_copy out p (Suc n) = do {
     ch \<leftarrow> gread8 (fo_sb out) p; out \<leftarrow> fmt_put out ch; fmt_copy out (p + 1) n }"

definition fmt_padded :: "fmt_output \<Rightarrow> fmt_spec \<Rightarrow> u32 \<Rightarrow> nat \<Rightarrow> nat \<Rightarrow> fmt_output option" where
  "fmt_padded out fs p len pad = do {
     out \<leftarrow> (if \<not> fs_left fs then fmt_repeat out (if fs_zero fs then 48 else 32) pad else Some out);
     out \<leftarrow> fmt_copy out p len;
     if fs_left fs then fmt_repeat out 32 pad else Some out }"

definition fmt_string :: "fmt_output \<Rightarrow> fmt_spec \<Rightarrow> u32 \<Rightarrow> u32 \<Rightarrow> fmt_output ures option" where
  "fmt_string out fs p len =
     (let limit = fs_limit fs; width = fs_width fs;
          len = (if limit \<noteq> 0xFFFFFFFF \<and> len > limit then limit else len);
          pad = (if width > len then unat (width - len) else 0) in
      try_read (fmt_padded out fs p (unat len) pad) (\<lambda>out. Some (URet out)))"

definition fmt_string_arg :: "fmt_output \<Rightarrow> fmt_spec \<Rightarrow> u32 \<Rightarrow> fmt_output ures option" where
  "fmt_string_arg out fs ap =
     (let sb = fo_sb out in
      if \<not> span_ok sb ap 4 then Some (UErr fmt_bad)
      else try_read (gread32 sb ap) (\<lambda>p.
        if fs_ch fs = 98 then
          (let p = push_bit 2 p in
           fmt_peek sb p (\<lambda>len.
           if \<not> span_ok sb (p + 1) (ucast len) then Some (UErr fmt_bad) else fmt_string out fs (p + 1) (ucast len)))
        else if p = 0 \<or> \<not> span_ok sb p 1 then Some (UErr fmt_bad)
        else try_read (fmt_strlen 65536 sb p 0) (\<lambda>len.
          if len = 65536 \<or> \<not> span_ok sb (p + len) 1 then Some (UErr fmt_bad) else fmt_string out fs p len)))"

text \<open>The digits of a number, least significant first, at most \<open>sizeof digits\<close> of them.\<close>

fun fmt_radix :: "nat \<Rightarrow> u32 \<Rightarrow> u32 \<Rightarrow> u8 list" where
  "fmt_radix 0 base m = []"
| "fmt_radix (Suc g) base m =
     (let digit = m mod base; m = m div base in
      (if digit < 10 then 48 + ucast digit else 97 + ucast (digit - 10)) #
      (if m \<noteq> 0 then fmt_radix g base m else []))"

definition fmt_digits_of :: "u32 \<Rightarrow> u32 \<Rightarrow> u8 list" where
  "fmt_digits_of base m = rev (fmt_radix 16 base m)"

text \<open>The sign and the magnitude of a \<open>%d\<close> argument of 16 or 32 bits.\<close>

definition fmt_signed :: "bool \<Rightarrow> u32 \<Rightarrow> bool \<times> u32" where
  "fmt_signed is_long value =
     (let s = (if is_long then value else scast (ucast value :: u16)) in
      if s <s 0 then (True, - s) else (False, s))"

definition fmt_number :: "fmt_output \<Rightarrow> fmt_spec \<Rightarrow> u32 \<Rightarrow> (fmt_output \<times> u32) ures option" where
  "fmt_number out fs ap =
     (let sb = fo_sb out; bytes = (if fs_long fs then 4 else 2); ch = fs_ch fs;
          base = (if ch = 120 \<or> ch = 88 then 16 else 10) in
      if \<not> span_ok sb ap bytes then Some (UErr fmt_bad)
      else try_read (if fs_long fs then gread32 sb ap else gread16 sb ap) (\<lambda>value.
        try_read
          (if ch = 99 then fmt_put out (ucast value)
           else (let (negative, magnitude) = (if ch = 100 then fmt_signed (fs_long fs) value else (False, value)) in
             fmt_field out (fmt_digits_of base magnitude) (fs_width fs) (fs_left fs) (fs_zero fs) negative))
          (\<lambda>out. Some (URet (out, ap + bytes)))))"

definition fmt_one :: "fmt_output \<Rightarrow> fmt_spec \<Rightarrow> u32 \<Rightarrow> (fmt_output \<times> u32) ures option" where
  "fmt_one out fs ap =
     (let ch = fs_ch fs in
      if ch = 115 \<or> ch = 98 then try_call (fmt_string_arg out fs ap) (\<lambda>out. Some (URet (out, ap + 4)))
      else if ch = 99 \<or> ch = 100 \<or> ch = 117 \<or> ch = 120 \<or> ch = 88 then fmt_number out fs ap
      else try_read (fmt_put out ch) (\<lambda>out. Some (URet (out, ap))))"

section \<open>The loop over the format\<close>

fun fmt_loop :: "nat \<Rightarrow> fmt_output \<Rightarrow> u32 \<Rightarrow> u32 \<Rightarrow> fmt_output ures option" where
  "fmt_loop 0 out fp ap = Some (UErr fmt_bad)"
| "fmt_loop (Suc g) out fp ap =
     fmt_peek (fo_sb out) fp (\<lambda>ch.
       if ch = 0 then Some (URet out)
       else if ch \<noteq> 37 then try_read (fmt_put out ch) (\<lambda>out. fmt_loop g out (fp + 1) ap)
       else try_call (fmt_directive (fo_sb out) (fp + 1)) (\<lambda>(fs, fp).
         if fs_ch fs = 0 then Some (UErr fmt_bad)
         else try_call (fmt_one out fs ap) (\<lambda>(out, ap). fmt_loop g out fp ap)))"

definition emu68k_guest_format :: "j4_sandbox \<Rightarrow> u32 \<Rightarrow> u32 \<Rightarrow> u32 \<Rightarrow> u32 \<Rightarrow> (j4_sandbox \<times> u32) ures option" where
  "emu68k_guest_format sb buffer room format args =
     (if format = 0 \<or> \<not> span_ok sb format 1 \<or> buffer \<noteq> 0 \<and> room \<noteq> 0 \<and> \<not> span_ok sb buffer room
      then Some (UErr fmt_bad)
      else try_call (fmt_loop 65536 \<lparr>fo_sb = sb, fo_buffer = buffer, fo_room = room, fo_count = 0\<rparr> format args) (\<lambda>out.
        try_read
          (if buffer \<noteq> 0 \<and> room \<noteq> 0
           then gwrite8 (fo_sb out) (buffer + (if fo_count out < room then fo_count out else room - 1)) 0
           else Some (fo_sb out))
          (\<lambda>sb. Some (URet (sb, fo_count out + 1)))))"

end
