(* ===== verification/UtilFormatProps.thy ===== *)
theory UtilFormatProps
  imports UtilFormat
begin

text \<open>
  The formatter is memory-safe on every input, writes only its buffer, and its numbers read back.
\<close>

section \<open>Results that are not undefined\<close>

text \<open>A call that returns, with a value that satisfies \<open>P\<close> or with the refusal.\<close>

definition fine :: "('a \<Rightarrow> bool) \<Rightarrow> 'a ures option \<Rightarrow> bool" where
  "fine P m \<longleftrightarrow> (\<exists>x. m = Some (URet x) \<and> P x) \<or> m = Some (UErr fmt_bad)"

lemma fine_ret: "P x \<Longrightarrow> fine P (Some (URet x))" and fine_err: "fine P (Some (UErr fmt_bad))"
  by (auto simp: fine_def)

lemma fine_call: "fine P m \<Longrightarrow> (\<And>x. P x \<Longrightarrow> fine Q (f x)) \<Longrightarrow> fine Q (try_call m f)"
  unfolding fine_def [of P] by (elim disjE exE conjE) (simp_all add: try_call_def fine_err)

lemma fine_read: "\<exists>v. m = Some v \<and> P v \<Longrightarrow> (\<And>v. P v \<Longrightarrow> fine Q (f v)) \<Longrightarrow> fine Q (try_read m f)"
  by (auto simp: try_read_def)

lemma fine_peek: "arena_ok sb \<Longrightarrow> (\<And>ch. fine Q (f ch)) \<Longrightarrow> fine Q (fmt_peek sb fp f)"
  by (auto simp: fmt_peek_def try_read_def span8 fine_err)

lemma fine_mono: "fine P m \<Longrightarrow> (\<And>x. P x \<Longrightarrow> Q x) \<Longrightarrow> fine Q m"
  by (auto simp: fine_def)

section \<open>The output\<close>

text \<open>An output over the arena of \<open>sb\<close> that has changed nothing but its buffer.\<close>

definition out_ok :: "j4_sandbox \<Rightarrow> u32 \<Rightarrow> u32 \<Rightarrow> fmt_output \<Rightarrow> bool" where
  "out_ok sb buffer room out \<longleftrightarrow> fo_buffer out = buffer \<and> fo_room out = room \<and>
     jb_origin (fo_sb out) = jb_origin sb \<and> jb_size (fo_sb out) = jb_size sb \<and>
     (\<forall>i. jb_mem (fo_sb out) i \<noteq> jb_mem sb i \<longrightarrow>
        buffer \<noteq> 0 \<and> hof sb buffer \<le> i \<and> i < hof sb buffer + unat room)"

definition buffer_ok :: "j4_sandbox \<Rightarrow> u32 \<Rightarrow> u32 \<Rightarrow> bool" where
  "buffer_ok sb buffer room \<longleftrightarrow> arena_ok sb \<and> (buffer \<noteq> 0 \<and> room \<noteq> 0 \<longrightarrow> span_ok sb buffer room)"

lemma out_ok_arena: "buffer_ok sb buffer room \<Longrightarrow> out_ok sb buffer room out \<Longrightarrow> arena_ok (fo_sb out)"
  by (simp add: out_ok_def buffer_ok_def arena_ok_def)

lemma out_write:
  assumes "buffer_ok sb buffer room" "jb_origin sb1 = jb_origin sb" "jb_size sb1 = jb_size sb" "buffer \<noteq> 0" "k < room"
  shows "gwrite8 sb1 (buffer + k) ch = Some (sb1\<lparr>jb_mem := (jb_mem sb1)(hof sb buffer + unat k := ch)\<rparr>)"
    "hof sb buffer + unat k < hof sb buffer + unat room"
proof -
  have r: "room \<noteq> 0" using assms(5) by auto
  then have s: "arena_ok sb" "span_ok sb buffer room" using assms(1,4) by (auto simp: buffer_ok_def)
  have k: "unat k + 1 \<le> unat room" using assms(5) by (simp add: word_less_nat_alt)
  note f = span_facts [OF s k]
  have "arena_ok sb1" "span_ok sb1 (buffer + k) 1" "hof sb1 (buffer + k) = hof sb buffer + unat k"
    using s f assms(2,3) unat_box_end [OF s(1)] by (auto simp: arena_ok_def span_ok_nat hof_def)
  then show "gwrite8 sb1 (buffer + k) ch = Some (sb1\<lparr>jb_mem := (jb_mem sb1)(hof sb buffer + unat k := ch)\<rparr>)"
    using span8(2) [of sb1 "buffer + k"] by simp
  show "hof sb buffer + unat k < hof sb buffer + unat room" using k by simp
qed

lemma fmt_put_ok:
  assumes "buffer_ok sb buffer room" "out_ok sb buffer room out"
  shows "\<exists>out'. fmt_put out ch = Some out' \<and> out_ok sb buffer room out'"
proof (cases "buffer \<noteq> 0 \<and> room \<noteq> 0 \<and> fo_count out < room - 1")
  case True
  have "fo_count out < room"
  proof -
    have "unat (room - 1) < unat room" using True by (metis unat_gt_0 unat_minus_one diff_less less_numeral_extra(1))
    then show ?thesis using True by (simp add: word_less_nat_alt)
  qed
  note w = out_write(1) [OF assms(1), of "fo_sb out" "fo_count out" ch]
    out_write(2) [OF assms(1), of "fo_sb out" "fo_count out"]
  show ?thesis using w True \<open>fo_count out < room\<close> assms(2) by (auto simp: fmt_put_def out_ok_def)
next
  case False
  then show ?thesis using assms(2) by (auto simp: fmt_put_def out_ok_def)
qed


lemma fmt_repeat_ok: "buffer_ok sb buffer room \<Longrightarrow> out_ok sb buffer room out \<Longrightarrow>
    \<exists>out'. fmt_repeat out ch n = Some out' \<and> out_ok sb buffer room out'"
proof (induction n arbitrary: out)
  case (Suc n)
  then show ?case using fmt_put_ok [OF Suc.prems, of ch] by auto
qed simp

lemma fmt_text_ok: "buffer_ok sb buffer room \<Longrightarrow> out_ok sb buffer room out \<Longrightarrow>
    \<exists>out'. fmt_text out cs = Some out' \<and> out_ok sb buffer room out'"
proof (induction cs arbitrary: out)
  case (Cons c cs)
  then show ?case using fmt_put_ok [OF Cons.prems, of c] by auto
qed simp

text \<open>Sequences of puts.\<close>

definition puts :: "j4_sandbox \<Rightarrow> u32 \<Rightarrow> u32 \<Rightarrow> (fmt_output \<Rightarrow> fmt_output option) \<Rightarrow> bool" where
  "puts sb buffer room f \<longleftrightarrow> (\<forall>out. out_ok sb buffer room out \<longrightarrow> (\<exists>out'. f out = Some out' \<and> out_ok sb buffer room out'))"

lemma puts_bind: "puts sb buffer room f \<Longrightarrow> puts sb buffer room g \<Longrightarrow> puts sb buffer room (\<lambda>out. Option.bind (f out) g)"
  unfolding puts_def by fastforce

lemma puts_if: "puts sb buffer room f \<Longrightarrow> puts sb buffer room g \<Longrightarrow> puts sb buffer room (\<lambda>out. if b then f out else g out)"
  by (simp add: puts_def)

lemma puts_prims:
  "puts sb buffer room Some"
  "buffer_ok sb buffer room \<Longrightarrow> puts sb buffer room (\<lambda>out. fmt_put out ch)"
  "buffer_ok sb buffer room \<Longrightarrow> puts sb buffer room (\<lambda>out. fmt_repeat out ch n)"
  "buffer_ok sb buffer room \<Longrightarrow> puts sb buffer room (\<lambda>out. fmt_text out cs)"
  unfolding puts_def using fmt_put_ok fmt_repeat_ok fmt_text_ok by blast+

lemmas puts_intros = puts_bind puts_if puts_prims

lemma fmt_field_ok: "buffer_ok sb buffer room \<Longrightarrow> puts sb buffer room (\<lambda>out. fmt_field out text width left zero negative)"
  unfolding fmt_field_def Let_def by (intro puts_intros)

lemma span_inside:
  assumes "arena_ok sb" "span_ok sb p m" "unat k < unat m"
  shows "span_ok sb (p + k) 1"
  using span_facts [OF assms(1,2), of k 1] assms unat_box_end [OF assms(1)] by (auto simp: span_ok_nat)

lemma out_span: "out_ok sb buffer room out \<Longrightarrow> span_ok (fo_sb out) p n = span_ok sb p n"
  by (simp add: out_ok_def span_ok_def)

lemma fmt_copy_ok:
  "buffer_ok sb buffer room \<Longrightarrow> \<forall>k<n. span_ok sb (p + of_nat k) 1 \<Longrightarrow> out_ok sb buffer room out \<Longrightarrow>
     \<exists>out'. fmt_copy out p n = Some out' \<and> out_ok sb buffer room out'"
proof (induction n arbitrary: p out)
  case (Suc n)
  have "span_ok (fo_sb out) p 1" using Suc.prems(2) [rule_format, of 0] Suc.prems(3) by (simp add: out_span)
  then obtain ch where ch: "gread8 (fo_sb out) p = Some ch"
    using span8(1) out_ok_arena [OF Suc.prems(1,3)] by blast
  obtain out1 where o1: "fmt_put out ch = Some out1" "out_ok sb buffer room out1"
    using fmt_put_ok [OF Suc.prems(1,3)] by blast
  have "span_ok sb (p + 1 + of_nat k) 1" if "k < n" for k
    using Suc.prems(2) [rule_format, of "Suc k"] that by (simp add: algebra_simps)
  then show ?case using Suc.IH [OF Suc.prems(1) _ o1(2), of "p + 1"] ch o1(1) by simp
qed simp

lemma fine_puts:
  "puts sb buffer room f \<Longrightarrow> out_ok sb buffer room out \<Longrightarrow> (\<And>out. out_ok sb buffer room out \<Longrightarrow> fine Q (h out)) \<Longrightarrow>
     fine Q (try_read (f out) h)"
  by (rule fine_read) (auto simp: puts_def)

section \<open>The directive\<close>

lemma step_up:
  assumes "arena_ok sb" "span_ok sb fp 1"
  shows "unat (box_end sb) - unat (fp + 1) < unat (box_end sb) - unat fp"
  using span_facts(1,3) [OF assms, of 1 0] span_facts(3) [OF assms, of 0 1] by auto

lemma fmt_flags_fine: "arena_ok sb \<Longrightarrow> fine (\<lambda>_. True) (fmt_flags sb fp left zero)"
proof (induction "unat (box_end sb) - unat fp" arbitrary: fp left zero rule: less_induct)
  case less
  show ?case
  proof (cases "span_ok sb fp 1")
    case True
    note IH = less.hyps [OF step_up [OF less.prems True] less.prems]
    show ?thesis using True IH span8(1) [OF less.prems True]
      by (subst fmt_flags.simps) (auto intro: fine_ret)
  next
    case False
    then show ?thesis by (subst fmt_flags.simps) (simp add: fine_err)
  qed
qed

lemma fmt_digits_fine: "arena_ok sb \<Longrightarrow> fine (\<lambda>_. True) (fmt_digits sb fp v)"
proof (induction "unat (box_end sb) - unat fp" arbitrary: fp v rule: less_induct)
  case less
  show ?case
  proof (cases "span_ok sb fp 1")
    case True
    note IH = less.hyps [OF step_up [OF less.prems True] less.prems]
    show ?thesis using True IH span8(1) [OF less.prems True]
      by (subst fmt_digits.simps) (auto intro: fine_ret)
  next
    case False
    then show ?thesis by (subst fmt_digits.simps) (simp add: fine_ret)
  qed
qed

lemma fmt_directive_fine:
  assumes "arena_ok sb"
  shows "fine (\<lambda>_. True) (fmt_directive sb fp)"
  unfolding fmt_directive_def Let_def
  using fmt_flags_fine [OF assms] fmt_digits_fine [OF assms]
  by (auto intro!: fine_call [where P = "\<lambda>_. True"] fine_peek [OF assms] fine_ret)

section \<open>Strings and numbers\<close>

lemma fmt_strlen_ok:
  assumes "arena_ok sb"
  shows "(\<forall>k<unat len. span_ok sb (p + of_nat k) 1) \<Longrightarrow> unat len + g < 2 ^ 32 \<Longrightarrow>
    \<exists>len'. fmt_strlen g sb p len = Some len' \<and> (\<forall>k<unat len'. span_ok sb (p + of_nat k) 1)"
proof (induction g arbitrary: len)
  case (Suc g)
  show ?case
  proof (cases "span_ok sb (p + len) 1")
    case True
    then have r: "gread8 sb (p + len) = Some (jb_mem sb (hof sb (p + len)))" using span8(1) [OF assms] by blast
    have u: "unat (len + 1) = unat len + 1" using Suc.prems(2) by (simp add: unat_word_ariths)
    have "\<forall>k<unat (len + 1). span_ok sb (p + of_nat k) 1"
      unfolding u using Suc.prems(1) True by (auto simp: less_Suc_eq)
    then show ?thesis using Suc.IH [of "len + 1"] Suc.prems True r u by auto
  next
    case False
    then show ?thesis using Suc.prems(1) by auto
  qed
qed auto

lemma fmt_string_fine:
  assumes "buffer_ok sb buffer room" "out_ok sb buffer room out" "\<forall>k<unat len. span_ok sb (p + of_nat k) 1"
  shows "fine (out_ok sb buffer room) (fmt_string out fs p len)"
proof -
  let ?len = "if fs_limit fs \<noteq> 0xFFFFFFFF \<and> len > fs_limit fs then fs_limit fs else len"
  have "unat ?len \<le> unat len" by (simp add: word_less_nat_alt less_imp_le)
  then have "\<forall>k<unat ?len. span_ok sb (p + of_nat k) 1" using assms(3) by auto
  then have "puts sb buffer room (\<lambda>out. fmt_copy out p (unat ?len))"
    using fmt_copy_ok [OF assms(1)] unfolding puts_def by blast
  then have "puts sb buffer room (\<lambda>out. fmt_padded out fs p (unat ?len) pad)" for pad
    unfolding fmt_padded_def by (intro puts_intros assms(1))
  then show ?thesis unfolding fmt_string_def Let_def
    by (rule fine_puts [OF _ assms(2)]) (rule fine_ret)
qed

lemma fmt_string_arg_fine:
  assumes "buffer_ok sb buffer room" "out_ok sb buffer room out"
  shows "fine (out_ok sb buffer room) (fmt_string_arg out fs ap)"
proof -
  let ?sb = "fo_sb out"
  have ar: "arena_ok ?sb" by (rule out_ok_arena [OF assms])
  have short: "fine (out_ok sb buffer room) (fmt_peek ?sb p (\<lambda>len.
      if \<not> span_ok ?sb (p + 1) (ucast len) then Some (UErr fmt_bad) else fmt_string out fs (p + 1) (ucast len)))" for p
  proof (rule fine_peek [OF ar])
    fix len
    show "fine (out_ok sb buffer room)
        (if \<not> span_ok ?sb (p + 1) (ucast len) then Some (UErr fmt_bad) else fmt_string out fs (p + 1) (ucast len))"
    proof (cases "span_ok ?sb (p + 1) (ucast len)")
      case True
      then have s: "arena_ok sb" "span_ok sb (p + 1) (ucast len)" using assms by (simp_all add: out_span buffer_ok_def)
      have "\<forall>k<unat (ucast len :: u32). span_ok sb (p + 1 + of_nat k) 1"
      proof (intro allI impI)
        fix k assume k: "k < unat (ucast len :: u32)"
        have "unat (of_nat k :: u32) = k"
          unfolding unat_of_nat using k unsigned_less [of "ucast len :: u32", where ?'a = nat] by (intro mod_less) simp
        then show "span_ok sb (p + 1 + of_nat k) 1" using span_inside [OF s, of "of_nat k"] k by simp
      qed
      then show ?thesis using True fmt_string_fine [OF assms] by simp
    next
      case False
      then show ?thesis by (simp add: fine_err)
    qed
  qed
  have long: "fine (out_ok sb buffer room) (try_read (fmt_strlen 65536 ?sb p 0) (\<lambda>len.
      if len = 65536 \<or> \<not> span_ok ?sb (p + len) 1 then Some (UErr fmt_bad) else fmt_string out fs p len))" for p
    using fmt_strlen_ok [OF ar, of 0 p 65536] fmt_string_fine [OF assms]
    by (intro fine_read [where P = "\<lambda>len. \<forall>k<unat len. span_ok ?sb (p + of_nat k) 1"])
      (auto simp: fine_err out_span [OF assms(2)])
  show ?thesis
  proof (cases "span_ok ?sb ap 4")
    case True
    then obtain p where "gread32 ?sb ap = Some p" using span32(1) [OF ar] by blast
    then show ?thesis using True short long by (auto simp: fmt_string_arg_def Let_def try_read_def [of "Some p"] fine_err)
  next
    case False
    then show ?thesis by (simp add: fmt_string_arg_def Let_def fine_err)
  qed
qed

lemma fmt_number_fine:
  assumes "buffer_ok sb buffer room" "out_ok sb buffer room out"
  shows "fine (\<lambda>(out, ap). out_ok sb buffer room out) (fmt_number out fs ap)"
proof -
  let ?sb = "fo_sb out"
  have ar: "arena_ok ?sb" by (rule out_ok_arena [OF assms])
  have put: "puts sb buffer room (\<lambda>out. if fs_ch fs = 99 then fmt_put out (ucast v)
      else (let (negative, magnitude) = (if fs_ch fs = 100 then fmt_signed (fs_long fs) v else (False, v)) in
        fmt_field out (fmt_digits_of base magnitude) (fs_width fs) (fs_left fs) (fs_zero fs) negative))" for v base
  proof -
    obtain n m where "fmt_signed (fs_long fs) v = (n, m)" by force
    then show ?thesis by (intro puts_if) (use assms(1) puts_prims(2) fmt_field_ok in \<open>auto simp: Let_def\<close>)
  qed
  show ?thesis
  proof (cases "span_ok ?sb ap (if fs_long fs then 4 else 2)")
    case True
    then have "\<exists>v. (if fs_long fs then gread32 ?sb ap else gread16 ?sb ap) = Some v"
      using span32(1) [OF ar] span16(1) [OF ar] by auto
    then obtain v where v: "(if fs_long fs then gread32 ?sb ap else gread16 ?sb ap) = Some v" by blast
    have nb: "\<not> \<not> span_ok ?sb ap (if fs_long fs then 4 else 2)" using True by blast
    show ?thesis unfolding fmt_number_def Let_def if_not_P [OF nb] v
      unfolding try_read_def [of "Some v"] option.case
      by (rule fine_puts [OF put [unfolded Let_def] assms(2)]) (simp add: fine_ret)
  next
    case False
    then show ?thesis by (simp add: fmt_number_def Let_def fine_err)
  qed
qed

lemma fmt_one_fine:
  assumes "buffer_ok sb buffer room" "out_ok sb buffer room out"
  shows "fine (\<lambda>(out, ap). out_ok sb buffer room out) (fmt_one out fs ap)"
proof -
  have "fine (\<lambda>(out, ap). out_ok sb buffer room out) (try_call (fmt_string_arg out fs ap) (\<lambda>out. Some (URet (out, ap + 4))))"
    by (rule fine_call [OF fmt_string_arg_fine [OF assms]]) (simp add: fine_ret)
  moreover have "fine (\<lambda>(out, ap). out_ok sb buffer room out) (try_read (fmt_put out (fs_ch fs)) (\<lambda>out. Some (URet (out, ap))))"
    by (rule fine_puts [OF puts_prims(2) [OF assms(1)] assms(2)]) (simp add: fine_ret)
  ultimately show ?thesis using fmt_number_fine [OF assms] by (simp add: fmt_one_def Let_def)
qed

lemma fmt_loop_fine:
  "buffer_ok sb buffer room \<Longrightarrow> out_ok sb buffer room out \<Longrightarrow> fine (out_ok sb buffer room) (fmt_loop g out fp ap)"
proof (induction g arbitrary: out fp ap)
  case 0
  then show ?case by (simp add: fine_err)
next
  case (Suc g)
  note ok = Suc.prems
  have lit: "fine (out_ok sb buffer room) (try_read (fmt_put out ch) (\<lambda>out. fmt_loop g out (fp + 1) ap))" for ch
    by (rule fine_puts [OF puts_prims(2) [OF ok(1)] ok(2)]) (rule Suc.IH [OF ok(1)])
  have one: "fine (out_ok sb buffer room) (try_call (fmt_one out fs ap) (\<lambda>(out, ap). fmt_loop g out fp ap))" for fs fp
    by (rule fine_call [OF fmt_one_fine [OF ok]]) (use Suc.IH [OF ok(1)] in auto)
  have dir: "fine (out_ok sb buffer room) (try_call (fmt_directive (fo_sb out) (fp + 1)) (\<lambda>(fs, fp).
      if fs_ch fs = 0 then Some (UErr fmt_bad) else try_call (fmt_one out fs ap) (\<lambda>(out, ap). fmt_loop g out fp ap)))"
    by (rule fine_call [OF fmt_directive_fine [OF out_ok_arena [OF ok]]]) (use one in \<open>auto simp: fine_err\<close>)
  show ?case unfolding fmt_loop.simps
    by (rule fine_peek [OF out_ok_arena [OF ok]]) (use lit dir ok in \<open>auto intro: fine_ret\<close>)
qed



section \<open>Numbers\<close>

text \<open>The value of a digit, and the number a text of digits reads as.\<close>

definition digit_value :: "u8 \<Rightarrow> nat" where
  "digit_value c = (if c < 58 then unat c - 48 else unat c - 87)"

definition read_number :: "nat \<Rightarrow> u8 list \<Rightarrow> nat" where
  "read_number base cs = foldl (\<lambda>a c. a * base + digit_value c) 0 cs"

lemma unat_low8: "unat (x :: u32) < 256 \<Longrightarrow> unat (ucast x :: u8) = unat x"
  by (simp add: unsigned_ucast_eq take_bit_nat_eq_self_iff)

lemma radix_digit:
  assumes "unat (x :: u32) < 16"
  shows "digit_value (if x < 10 then 48 + ucast x else 97 + ucast (x - 10)) = unat x"
    "(if x < 10 then 48 + ucast x else 97 + ucast (x - 10)) = (48 :: u8) \<longleftrightarrow> x = 0"
proof -
  have a: "unat (48 + ucast x :: u8) = 48 + unat x" using assms by (simp add: unat_word_ariths unat_low8)
  have b: "unat (97 + ucast (x - 10) :: u8) = 87 + unat x" if "\<not> x < 10"
  proof -
    have "unat (x - 10) = unat x - 10" using that by (simp add: unat_sub_if_le)
    moreover have "10 \<le> unat x" using that by (simp add: word_less_nat_alt)
    ultimately show ?thesis using assms by (simp add: unat_word_ariths unat_low8)
  qed
  show "digit_value (if x < 10 then 48 + ucast x else 97 + ucast (x - 10)) = unat x"
    using a b assms by (auto simp: digit_value_def word_less_nat_alt)
  show "(if x < 10 then 48 + ucast x else 97 + ucast (x - 10)) = (48 :: u8) \<longleftrightarrow> x = 0"
  proof (cases "x < 10")
    case True
    then show ?thesis using a by (auto simp: word_unat_eq_iff)
  next
    case False
    then have "unat x \<noteq> 0" by (auto simp: word_less_nat_alt)
    then show ?thesis using False b by (auto simp: word_unat_eq_iff)
  qed
qed

lemma radix_value:
  assumes "10 \<le> unat base" "unat base \<le> 16"
  shows "unat m < unat base ^ g \<Longrightarrow> 0 < g \<Longrightarrow>
    foldr (\<lambda>c a. a * unat base + digit_value c) (fmt_radix g base m) 0 = unat m \<and>
    fmt_radix g base m \<noteq> [] \<and> (last (fmt_radix g base m) = 48 \<longrightarrow> fmt_radix g base m = [48])"
proof (induction g arbitrary: m)
  case (Suc g)
  have x: "unat (m mod base) < 16" using assms by (simp add: unat_mod) (metis mod_less_divisor order.strict_trans2 less_le_trans zero_less_numeral)
  note dig = radix_digit [OF x]
  show ?case
  proof (cases "m div base = 0")
    case True
    then have "unat m div unat base = 0" by (metis unat_div unat_0)
    then have "unat (m mod base) = unat m" using assms(1) by (simp add: unat_mod div_eq_0_iff)
    then show ?thesis using True dig(1) by (simp add: Let_def)
  next
    case False
    then have nz: "unat m div unat base \<noteq> 0" by (metis unat_div unat_eq_0)
    have g: "0 < g"
    proof (rule ccontr)
      assume "\<not> 0 < g"
      then have "unat m < unat base" using Suc.prems(1) by simp
      then show False using nz by simp
    qed
    have "unat (m div base) < unat base ^ g"
      using Suc.prems(1) assms(1) by (simp add: unat_div less_mult_imp_div_less mult.commute)
    note IH = Suc.IH [OF this g]
    have "fmt_radix g base (m div base) \<noteq> [48]"
    proof
      assume "fmt_radix g base (m div base) = [48]"
      then have "unat (m div base) = 0" using IH by (simp add: digit_value_def)
      then show False using False by (simp add: unat_eq_0)
    qed
    moreover have "unat (m div base) * unat base + unat (m mod base) = unat m" by (simp add: unat_div unat_mod)
    ultimately show ?thesis using False IH dig(1) by (simp add: Let_def)
  qed
qed simp

lemma digits_read:
  assumes "base = 10 \<or> base = 16"
  shows "read_number (unat base) (fmt_digits_of base m) = unat m \<and>
    fmt_digits_of base m \<noteq> [] \<and> (hd (fmt_digits_of base m) = 48 \<longrightarrow> fmt_digits_of base m = [48])"
proof -
  have b: "10 \<le> unat base" "unat base \<le> 16" using assms by auto
  have "unat m < 2 ^ 32" using unsigned_less [of m, where ?'a = nat] by simp
  also have "(2 :: nat) ^ 32 \<le> 10 ^ 16" by simp
  also have "(10 :: nat) ^ 16 \<le> unat base ^ 16" using b(1) by (rule power_mono) simp
  finally have m: "unat m < unat base ^ 16" .
  note v = radix_value [OF b m, simplified]
  show ?thesis
    using v by (auto simp: read_number_def fmt_digits_of_def foldl_conv_foldr hd_rev)
qed

lemma sint_scast_16_32: "sint (scast (x :: u16) :: u32) = sint x"
proof -
  have "- (2 ^ 31) \<le> sint x" "sint x < 2 ^ 31" using sint_greater_eq [of x] sint_less [of x] by simp_all
  then show ?thesis by (simp add: signed_scast_eq signed_take_bit_int_eq_self)
qed

lemma int_unat: "int (unat w) = uint w" by simp

lemma magnitude:
  fixes s :: u32
  shows "s <s 0 \<Longrightarrow> int (unat (- s)) = - sint s" "\<not> s <s 0 \<Longrightarrow> int (unat s) = sint s"
proof -
  have b: "- (2 ^ 31) \<le> sint s" "sint s < 2 ^ 31" using sint_greater_eq [of s] sint_less [of s] by simp_all
  have u: "uint (word_of_int i :: u32) = i mod 2 ^ 32" for i by (simp add: uint_word_of_int)
  have "- s = word_of_int (- sint s)" "s = word_of_int (sint s)" by simp_all
  then have e: "uint (- s) = (- sint s) mod 2 ^ 32" "uint s = sint s mod 2 ^ 32" using u by metis+
  show "int (unat (- s)) = - sint s" if "s <s 0"
  proof -
    have "0 \<le> - sint s" "- sint s < 2 ^ 32" using that b by (simp_all add: word_sless_alt)
    then show ?thesis unfolding int_unat e by (rule mod_pos_pos_trivial)
  qed
  show "int (unat s) = sint s" if "\<not> s <s 0"
  proof -
    have "0 \<le> sint s" "sint s < 2 ^ 32" using that b by (simp_all add: word_sless_alt)
    then show ?thesis unfolding int_unat e by (rule mod_pos_pos_trivial)
  qed
qed

text \<open>C30: A number that \<open>VSNPrintf\<close> prints reads back as itself: the digits have no leading zero
  (but for the number 0), \<open>%u\<close> and \<open>%x\<close> show the unsigned value in base 10 and 16, and \<open>%d\<close> shows
  the sign and the magnitude of the signed value of 16 bits, or 32 with \<open>l\<close>.\<close>

theorem formatted_number_reads_back:
  "read_number 10 (fmt_digits_of 10 v) = unat v \<and> read_number 16 (fmt_digits_of 16 v) = unat v \<and>
   (hd (fmt_digits_of 10 v) = 48 \<longleftrightarrow> v = 0) \<and>
   (case fmt_signed is_long v of (negative, m) \<Rightarrow>
      (if negative then - int (read_number 10 (fmt_digits_of 10 m)) else int (read_number 10 (fmt_digits_of 10 m))) =
      (if is_long then sint v else sint (ucast v :: u16)))"
proof (intro conjI)
  have d: "read_number 10 (fmt_digits_of 10 w) = unat w" "fmt_digits_of 10 w \<noteq> []"
      "hd (fmt_digits_of 10 w) = 48 \<Longrightarrow> fmt_digits_of 10 w = [48]" for w
    using digits_read [of 10 w] by simp_all
  show "read_number 10 (fmt_digits_of 10 v) = unat v" by (rule d)
  show "read_number 16 (fmt_digits_of 16 v) = unat v" using digits_read [of 16 v] by simp
  show "hd (fmt_digits_of 10 v) = 48 \<longleftrightarrow> v = 0"
  proof
    assume "hd (fmt_digits_of 10 v) = 48"
    then have "unat v = read_number 10 [48]" using d(1) [of v] d(3) [of v] by simp
    then show "v = 0" by (simp add: read_number_def digit_value_def unat_eq_0)
  next
    assume "v = 0"
    have "fmt_radix (Suc 15) 10 0 = [48]" unfolding fmt_radix.simps by simp
    then show "hd (fmt_digits_of 10 v) = 48" using \<open>v = 0\<close> by (simp add: fmt_digits_of_def)
  qed
  show "case fmt_signed is_long v of (negative, m) \<Rightarrow>
      (if negative then - int (read_number 10 (fmt_digits_of 10 m)) else int (read_number 10 (fmt_digits_of 10 m))) =
      (if is_long then sint v else sint (ucast v :: u16))"
  proof -
    let ?s = "if is_long then v else scast (ucast v :: u16)"
    have s: "sint ?s = (if is_long then sint v else sint (ucast v :: u16))" by (simp add: sint_scast_16_32)
    show ?thesis
    proof (cases "?s <s 0")
      case True
      then have "fmt_signed is_long v = (True, - ?s)" by (simp add: fmt_signed_def Let_def)
      then show ?thesis using magnitude(1) [OF True] s by (simp add: d)
    next
      case False
      then have "fmt_signed is_long v = (False, ?s)" by (simp add: fmt_signed_def Let_def)
      then show ?thesis using magnitude(2) [OF False] s by (simp add: d)
    qed
  qed
qed

end
