(* ===== verification/UtilDate.thy ===== *)
theory UtilDate
  imports EmuGuest
begin

text \<open>
  The dates of \<open>utility.library\<close> (\<open>hosted/emu68k/emu68k_utility.c\<close>): \<open>amiga_to_date\<close> and
  \<open>date_to_amiga\<close> on a \<open>ClockData\<close> in guest memory, with the calendar of the source.
\<close>

definition leap_year :: "u32 \<Rightarrow> bool" where
  "leap_year year \<longleftrightarrow> year mod 400 = 0 \<or> year mod 4 = 0 \<and> year mod 100 \<noteq> 0"

definition year_days :: "u32 \<Rightarrow> u32" where
  "year_days y = (if leap_year y then 366 else 365)"

text \<open>The static table has twelve entries; an index outside is a read outside the array.\<close>

definition month_table :: "u32 list" where
  "month_table = [31,28,31,30,31,30,31,31,30,31,30,31]"

definition month_days :: "u32 \<Rightarrow> u32 \<Rightarrow> u32 option" where
  "month_days year month =
     (let i = unat (month - 1) in
      if i < 12 then Some (month_table ! i + (if month = 2 \<and> leap_year year then 1 else 0))
      else None)"

definition ClockData_SIZEOF :: u32 where "ClockData_SIZEOF = 14"
definition CD_sec :: u32 where "CD_sec = 0"
definition CD_min :: u32 where "CD_min = 2"
definition CD_hour :: u32 where "CD_hour = 4"
definition CD_mday :: u32 where "CD_mday = 6"
definition CD_month :: u32 where "CD_month = 8"
definition CD_year :: u32 where "CD_year = 10"
definition CD_wday :: u32 where "CD_wday = 12"

lemmas clock_offsets = CD_sec_def CD_min_def CD_hour_def CD_mday_def CD_month_def CD_year_def
  CD_wday_def ClockData_SIZEOF_def

section \<open>Date to seconds\<close>

function years_sum :: "u32 \<Rightarrow> u32 \<Rightarrow> u32 \<Rightarrow> u32" where
  "years_sum y year days =
     (if y < year then years_sum (y + 1) year (days + year_days y) else days)"
  by pat_completeness auto
termination
  by (relation "measure (\<lambda>(y, year, days). unat year - unat y)")
    (auto simp: unat_Suc_less word_less_nat_alt)

function months_sum :: "u32 \<Rightarrow> u32 \<Rightarrow> u32 \<Rightarrow> u32 \<Rightarrow> u32 option" where
  "months_sum year m month days =
     (if m < month then (case month_days year m of None \<Rightarrow> None
        | Some k \<Rightarrow> months_sum year (m + 1) month (days + k))
      else Some days)"
  by pat_completeness auto
termination
  by (relation "measure (\<lambda>(year, m, month, days). unat month - unat m)")
    (auto simp: unat_Suc_less word_less_nat_alt)

declare years_sum.simps [simp del] months_sum.simps [simp del]

text \<open>The value 0 is also the answer for a date that is not valid; \<open>None\<close> is a read outside
  the table or the host array.\<close>

definition date_to_amiga :: "j4_sandbox \<Rightarrow> u32 \<Rightarrow> bool \<Rightarrow> u32 option" where
  "date_to_amiga sb p validate =
     (if \<not> span_ok sb p ClockData_SIZEOF then Some 0
      else do {
        sec \<leftarrow> gread16 sb (p + CD_sec);
        mi \<leftarrow> gread16 sb (p + CD_min);
        hour \<leftarrow> gread16 sb (p + CD_hour);
        mday \<leftarrow> gread16 sb (p + CD_mday);
        month \<leftarrow> gread16 sb (p + CD_month);
        year \<leftarrow> gread16 sb (p + CD_year);
        wday \<leftarrow> gread16 sb (p + CD_wday);
        bad \<leftarrow> (if validate then
            (if sec > 60 \<or> mi > 59 \<or> hour > 23 \<or> year < 1978 \<or> wday > 6 \<or> month < 1 \<or> month > 12 \<or> mday < 1
             then Some True else map_option (\<lambda>k. mday > k) (month_days year month))
          else Some False);
        if bad then Some 0
        else do {
          days \<leftarrow> months_sum year 1 month (years_sum 1978 year 0);
          let days = days + (mday - 1);
          Some (days * 86400 + hour * 3600 + mi * 60 + sec) } })"

section \<open>Seconds to date\<close>

function year_loop :: "u32 \<Rightarrow> u32 \<Rightarrow> u32 \<times> u32" where
  "year_loop days year =
     (if days \<ge> year_days year then year_loop (days - year_days year) (year + 1) else (days, year))"
  by pat_completeness auto
termination
  by (relation "measure (\<lambda>(days, year). unat days)")
    (auto simp: year_days_def unat_sub_if_le word_le_nat_alt)

lemma month_days_positive: "month_days y m = Some k \<Longrightarrow> 0 < unat k"
proof -
  assume "month_days y m = Some k"
  then obtain i where i: "i < 12" "k = month_table ! i + (if m = 2 \<and> leap_year y then 1 else 0)"
    by (auto simp: month_days_def Let_def split: if_splits)
  have "list_all (\<lambda>x. 0 < unat x \<and> 0 < unat (x + 1)) month_table" by code_simp
  then have "0 < unat (month_table ! i) \<and> 0 < unat (month_table ! i + 1)"
    using i(1) by (auto simp: list_all_length month_table_def)
  then show ?thesis using i(2) by (auto split: if_splits)
qed

function month_loop :: "u32 \<Rightarrow> u32 \<Rightarrow> u32 \<Rightarrow> (u32 \<times> u32) option" where
  "month_loop year days month = (case month_days year month of None \<Rightarrow> None
     | Some k \<Rightarrow> if days \<ge> k then month_loop year (days - k) (month + 1) else Some (days, month))"
  by pat_completeness auto
termination
  by (relation "measure (\<lambda>(year, days, month). unat days)")
    (auto simp: unat_sub_if_le word_le_nat_alt dest!: month_days_positive)

declare year_loop.simps [simp del] month_loop.simps [simp del]

definition amiga_to_date :: "j4_sandbox \<Rightarrow> u32 \<Rightarrow> u32 \<Rightarrow> j4_sandbox option" where
  "amiga_to_date sb seconds p =
     (let days = seconds div 86400; rem = seconds mod 86400; original_days = days in
      if \<not> span_ok sb p ClockData_SIZEOF then Some sb
      else (case year_loop days 1978 of (days, year) \<Rightarrow> do {
        (days, month) \<leftarrow> month_loop year days 1;
        put_fields sb p [(CD_sec, rem mod 60), (CD_min, rem div 60 mod 60), (CD_hour, rem div 3600),
          (CD_mday, days + 1), (CD_month, month), (CD_year, year), (CD_wday, original_days mod 7)] }))"

section \<open>The calendar\<close>

definition leapn :: "nat \<Rightarrow> bool" where
  "leapn y \<longleftrightarrow> y mod 400 = 0 \<or> y mod 4 = 0 \<and> y mod 100 \<noteq> 0"

definition ydn :: "nat \<Rightarrow> nat" where "ydn y = (if leapn y then 366 else 365)"

definition mdn :: "nat \<Rightarrow> nat \<Rightarrow> nat" where
  "mdn y m = [31,28,31,30,31,30,31,31,30,31,30,31] ! (m - 1) + (if m = 2 \<and> leapn y then 1 else 0)"

text \<open>The days since the first of January 1978.\<close>

definition day_number :: "nat \<Rightarrow> nat \<Rightarrow> nat \<Rightarrow> nat" where
  "day_number y m d = (\<Sum>i\<in>{1978..<y}. ydn i) + (\<Sum>i\<in>{1..<m}. mdn y i) + (d - 1)"

definition legal_date :: "nat \<Rightarrow> nat \<Rightarrow> nat \<Rightarrow> bool" where
  "legal_date y m d \<longleftrightarrow> 1978 \<le> y \<and> 1 \<le> m \<and> m \<le> 12 \<and> 1 \<le> d \<and> d \<le> mdn y m"

lemma leap_nat: "leap_year y = leapn (unat y)"
  by (simp add: leap_year_def leapn_def word_unat_eq_iff unat_mod)

lemma ydn_nat: "unat (year_days y) = ydn (unat y)"
  by (simp add: year_days_def ydn_def leap_nat)

lemma mdn_nat:
  assumes "1 \<le> unat m" "unat m \<le> 12"
  shows "\<exists>k. month_days y m = Some k \<and> unat k = mdn (unat y) (unat m)"
proof -
  have m1: "unat (m - 1) = unat m - 1" using assms(1) unat_sub [of 1 m] by (simp add: word_le_nat_alt)
  have t: "map unat month_table = [31,28,31,30,31,30,31,31,30,31,30,31]" by code_simp
  have l: "length month_table = 12" by (simp add: month_table_def)
  have "list_all (\<lambda>x. unat (x + 1) = unat x + 1) month_table" by code_simp
  then have s: "unat (month_table ! (unat m - 1) + 1) = unat (month_table ! (unat m - 1)) + 1"
    using assms l by (auto simp: list_all_length)
  have n: "unat (month_table ! (unat m - 1)) = [31,28,31,30,31,30,31,31,30,31,30,31] ! (unat m - 1)"
    using assms l by (subst t [symmetric]) simp
  have "m = 2 \<longleftrightarrow> unat m = 2" by (simp add: word_unat_eq_iff)
  then show ?thesis using assms m1 s n by (auto simp: month_days_def Let_def mdn_def leap_nat)
qed

lemma mdn_out: "unat m = 0 \<or> 12 < unat m \<Longrightarrow> month_days y m = None"
proof -
  assume "unat m = 0 \<or> 12 < unat m"
  moreover have "unat m = 0 \<Longrightarrow> m = 0" by (metis unat_0 word_unat_eq_iff)
  moreover have "unat (- 1 :: u32) = 2 ^ 32 - 1" by (simp add: unsigned_minus_1_eq_mask mask_eq_exp_minus_1)
  moreover have "12 < unat m \<Longrightarrow> unat (m - 1) = unat m - 1" using unat_sub [of 1 m] by (simp add: word_le_nat_alt)
  ultimately show ?thesis by (auto simp: month_days_def Let_def)
qed

lemma year_has_months: "(\<Sum>i\<in>{1..<13}. mdn y i) = ydn y"
proof -
  have "(\<Sum>i\<in>{1..<13}. mdn y i) = sum_list (map (mdn y) [1..<13])"
    by (simp only: interv_sum_list_conv_sum_set_nat set_upt)
  also have "\<dots> = ydn y" by (simp add: upt_conv_Cons mdn_def ydn_def)
  finally show ?thesis .
qed

section \<open>The loops against the calendar\<close>

lemma years_sum_nat:
  "unat y \<le> unat year \<Longrightarrow> years_sum y year days = days + of_nat (\<Sum>i\<in>{unat y..<unat year}. ydn i)"
proof (induction y year days rule: years_sum.induct)
  case (1 y year days)
  show ?case
  proof (cases "y < year")
    case True
    then have y: "unat y < unat year" "unat (y + 1) = Suc (unat y)"
      using unat_Suc_less [OF True] by (simp_all add: word_less_nat_alt)
    have "year_days y = of_nat (ydn (unat y))" by (simp flip: ydn_nat)
    then show ?thesis
      using 1 True y by (subst years_sum.simps) (simp add: sum.atLeast_Suc_lessThan add.assoc)
  next
    case False
    then have "unat y = unat year" using 1 by (simp add: word_less_nat_alt)
    with False show ?thesis by (subst years_sum.simps) simp
  qed
qed

lemma months_sum_nat:
  "1 \<le> unat m \<Longrightarrow> unat m \<le> unat month \<Longrightarrow> unat month \<le> 13 \<Longrightarrow>
     months_sum year m month days = Some (days + of_nat (\<Sum>i\<in>{unat m..<unat month}. mdn (unat year) i))"
proof (induction year m month days rule: months_sum.induct)
  case (1 year m month days)
  show ?case
  proof (cases "m < month")
    case True
    then have m: "unat m < unat month" "unat (m + 1) = Suc (unat m)"
      using unat_Suc_less [OF True] by (simp_all add: word_less_nat_alt)
    obtain k where k: "month_days year m = Some k" "unat k = mdn (unat year) (unat m)"
      using mdn_nat [of m year] 1(2,4) m(1) by auto
    then have "k = of_nat (mdn (unat year) (unat m))" by (simp flip: k(2))
    then show ?thesis
      using 1 True m k by (subst months_sum.simps) (simp add: sum.atLeast_Suc_lessThan add.assoc)
  next
    case False
    then have "unat m = unat month" using 1 by (simp add: word_less_nat_alt)
    with False show ?thesis by (subst months_sum.simps) simp
  qed
qed

text \<open>A month above 13 reads outside the table.\<close>

lemma months_sum_out:
  "1 \<le> unat m \<Longrightarrow> unat m \<le> 13 \<Longrightarrow> 13 < unat month \<Longrightarrow> months_sum year m month days = None"
proof (induction "13 - unat m" arbitrary: m days)
  case 0
  then show ?case using mdn_out [of m year] by (subst months_sum.simps) (simp add: word_less_nat_alt)
next
  case (Suc x)
  then have m: "m < month" by (simp add: word_less_nat_alt)
  then show ?case
    using Suc unat_Suc_less [OF m] by (subst months_sum.simps) (auto split: option.split)
qed

lemma year_loop_nat:
  "unat year + unat days < 2 ^ 32 \<Longrightarrow> year_loop days year = (d, y) \<Longrightarrow>
     unat year \<le> unat y \<and> unat days = (\<Sum>i\<in>{unat year..<unat y}. ydn i) + unat d \<and> unat d < ydn (unat y)"
proof (induction days year arbitrary: d y rule: year_loop.induct)
  case (1 days year)
  show ?case
  proof (cases "days \<ge> year_days year")
    case True
    then have le: "ydn (unat year) \<le> unat days" by (simp add: word_le_nat_alt ydn_nat)
    have u: "unat (days - year_days year) = unat days - ydn (unat year)"
      using True by (simp add: unat_sub_if_le ydn_nat)
    have p: "0 < ydn (unat year)" by (simp add: ydn_def)
    have s: "unat (year + 1) = Suc (unat year)" using 1(2) le p by (simp add: unat_word_ariths)
    have "year_loop (days - year_days year) (year + 1) = (d, y)"
      using 1(3) True by (subst (asm) year_loop.simps) simp
    then have "Suc (unat year) \<le> unat y \<and>
        unat days - ydn (unat year) = (\<Sum>i\<in>{Suc (unat year)..<unat y}. ydn i) + unat d \<and> unat d < ydn (unat y)"
      using 1(1) [OF True, of d y] 1(2) u s le p by simp
    then show ?thesis using le by (auto simp: sum.atLeast_Suc_lessThan)
  next
    case False
    then have "d = days \<and> y = year" using 1(3) by (subst (asm) year_loop.simps) simp
    with False show ?thesis by (simp add: word_le_nat_alt ydn_nat)
  qed
qed

lemma month_loop_nat:
  "1 \<le> unat m \<Longrightarrow> unat m \<le> 12 \<Longrightarrow> unat days + (\<Sum>i\<in>{1..<unat m}. mdn (unat year) i) < ydn (unat year) \<Longrightarrow>
     \<exists>d m'. month_loop year days m = Some (d, m') \<and> unat m \<le> unat m' \<and> unat m' \<le> 12 \<and>
       unat days = (\<Sum>i\<in>{unat m..<unat m'}. mdn (unat year) i) + unat d \<and> unat d < mdn (unat year) (unat m')"
proof (induction year days m rule: month_loop.induct)
  case (1 year days m)
  obtain k where k: "month_days year m = Some k" "unat k = mdn (unat year) (unat m)"
    using mdn_nat [OF 1(2,3)] by auto
  show ?case
  proof (cases "days \<ge> k")
    case True
    then have le: "mdn (unat year) (unat m) \<le> unat days" using k(2) by (simp add: word_le_nat_alt)
    have u: "unat (days - k) = unat days - mdn (unat year) (unat m)" using True k(2) by (simp add: unat_sub_if_le)
    have s: "unat (m + 1) = Suc (unat m)" using 1(3) by (simp add: unat_word_ariths)
    have sum: "(\<Sum>i\<in>{1..<Suc (unat m)}. mdn (unat year) i) = (\<Sum>i\<in>{1..<unat m}. mdn (unat year) i) + mdn (unat year) (unat m)"
      using 1(2) by simp
    have "unat m \<noteq> 12"
    proof
      assume "unat m = 12"
      then have "(\<Sum>i\<in>{1..<Suc (unat m)}. mdn (unat year) i) = ydn (unat year)"
        using year_has_months [of "unat year"] by simp
      then show False using 1(4) le sum by linarith
    qed
    then have "\<exists>d m'. month_loop year (days - k) (m + 1) = Some (d, m') \<and> Suc (unat m) \<le> unat m' \<and> unat m' \<le> 12 \<and>
       unat days - mdn (unat year) (unat m) = (\<Sum>i\<in>{Suc (unat m)..<unat m'}. mdn (unat year) i) + unat d \<and>
       unat d < mdn (unat year) (unat m')"
      using 1(1) [OF k(1) True] 1(3,4) u s le sum by simp
    then show ?thesis
      using k True le by (subst month_loop.simps) (auto simp: sum.atLeast_Suc_lessThan)
  next
    case False
    then show ?thesis using k 1(3) by (subst month_loop.simps) (auto simp: word_le_nat_alt)
  qed
qed

section \<open>What is stored\<close>

definition clock_values :: "j4_sandbox \<Rightarrow> u32 \<Rightarrow> u32 option list" where
  "clock_values sb p = map (\<lambda>k. gread16 sb (p + k)) [CD_sec, CD_min, CD_hour, CD_mday, CD_month, CD_year, CD_wday]"

lemma small16: "unat v < 2 ^ 16 \<Longrightarrow> v AND 0xFFFF = (v :: u32)"
proof -
  assume "unat v < 2 ^ 16"
  then have "unat (v AND mask 16) = unat v" by (simp add: unat_and_mask)
  then have "v AND mask 16 = v" by (simp add: word_unat_eq_iff)
  then show ?thesis by (simp add: mask_eq_exp_minus_1)
qed

text \<open>The stored date, in numbers.\<close>

lemma amiga_to_date_fields:
  assumes "arena_ok sb" "span_ok sb p ClockData_SIZEOF"
  shows "\<exists>sb' mday month year. amiga_to_date sb s p = Some sb' \<and> arena_ok sb' \<and> span_ok sb' p ClockData_SIZEOF \<and>
    clock_values sb' p = map Some [s mod 86400 mod 60, s mod 86400 div 60 mod 60, s mod 86400 div 3600,
       mday, month, year, s div 86400 mod 7] \<and>
    legal_date (unat year) (unat month) (unat mday) \<and> unat year \<le> 51689 \<and>
    day_number (unat year) (unat month) (unat mday) = unat s div 86400 \<and>
    (\<forall>i. i < unat p - unat (jb_origin sb) \<or> unat p - unat (jb_origin sb) + 14 \<le> i \<longrightarrow> jb_mem sb' i = jb_mem sb i)"
proof -
  let ?days = "s div 86400"
  have ds: "unat ?days = unat s div 86400" by (simp add: unat_div)
  have "unat s < 2 ^ 32" using unsigned_less [of s, where ?'a = nat] by simp
  then have lt: "unat ?days < 49711" unfolding ds by (simp add: less_mult_imp_div_less)
  obtain d year where y: "year_loop ?days 1978 = (d, year)" by force
  have yl: "1978 \<le> unat year" "unat ?days = (\<Sum>i\<in>{1978..<unat year}. ydn i) + unat d" "unat d < ydn (unat year)"
    using year_loop_nat [OF _ y] lt by auto
  have "unat year - 1978 \<le> (\<Sum>i\<in>{1978..<unat year}. ydn i)"
    using sum_mono [of "{1978..<unat year}" "\<lambda>_. 1" ydn] by (simp add: ydn_def)
  then have yb: "unat year \<le> 51689" using yl(2) lt by simp
  obtain d' m where m: "month_loop year d 1 = Some (d', m)" "1 \<le> unat m" "unat m \<le> 12"
    "unat d = (\<Sum>i\<in>{1..<unat m}. mdn (unat year) i) + unat d'" "unat d' < mdn (unat year) (unat m)"
    using month_loop_nat [of 1 d year] yl(3) by auto
  have "mdn (unat year) (unat m) \<le> ydn (unat year)"
    using member_le_sum [of "unat m" "{1..<13}" "mdn (unat year)"] m(2,3) unfolding year_has_months by auto
  then have dl: "unat d' < 366" using m(5) by (simp add: ydn_def split: if_splits)
  then have dp: "unat (d' + 1) = unat d' + 1" by (simp add: unat_word_ariths)
  let ?kvs = "[(CD_sec, s mod 86400 mod 60), (CD_min, s mod 86400 div 60 mod 60), (CD_hour, s mod 86400 div 3600),
          (CD_mday, d' + 1), (CD_month, m), (CD_year, year), (CD_wday, ?days mod 7)]"
  have "\<forall>k\<in>set (map fst ?kvs). unat k + 2 \<le> unat ClockData_SIZEOF \<and> even (unat k)" "distinct (map fst ?kvs)"
    by (simp_all add: clock_offsets)
  from put_fields [OF assms this] obtain sb' where sb': "put_fields sb p ?kvs = Some sb'" "arena_ok sb'"
    "span_ok sb' p ClockData_SIZEOF"
    "\<And>k. unat k + 2 \<le> unat ClockData_SIZEOF \<Longrightarrow> even (unat k) \<Longrightarrow> gread16 sb' (p + k) =
        (case map_of ?kvs k of None \<Rightarrow> gread16 sb (p + k) | Some v \<Rightarrow> Some (v AND 0xFFFF))"
    "\<And>i. i < unat p - unat (jb_origin sb) \<or> unat p - unat (jb_origin sb) + unat ClockData_SIZEOF \<le> i \<Longrightarrow>
       jb_mem sb' i = jb_mem sb i" by blast
  have vals: "clock_values sb' p = map (\<lambda>kv. Some (snd kv AND 0xFFFF)) ?kvs"
    using sb'(4) [of 0] unfolding clock_values_def by (simp add: sb'(4) clock_offsets)
  have small: "map (\<lambda>kv. snd kv AND 0xFFFF) ?kvs = map snd ?kvs"
    using m(3) yb dp dl by (simp add: small16 unat_mod unat_div)
  show ?thesis
  proof (rule exI [of _ sb'], rule exI [of _ "d' + 1"], rule exI [of _ m], rule exI [of _ year], intro conjI)
    show "amiga_to_date sb s p = Some sb'"
      using assms(2) y m(1) sb'(1) by (simp add: amiga_to_date_def Let_def)
    show "clock_values sb' p = map Some [s mod 86400 mod 60, s mod 86400 div 60 mod 60, s mod 86400 div 3600,
       d' + 1, m, year, ?days mod 7]"
      using vals small by simp
    show "legal_date (unat year) (unat m) (unat (d' + 1))"
      using yl(1) m(2,3,5) dp by (simp add: legal_date_def)
    show "day_number (unat year) (unat m) (unat (d' + 1)) = unat s div 86400"
      using yl(2) m(4) dp ds by (simp add: day_number_def)
  qed (use sb' yb in \<open>auto simp: clock_offsets\<close>)
qed

section \<open>The properties\<close>

text \<open>What \<open>date_to_amiga\<close> computes from the fields.\<close>

lemma date_to_amiga_fields:
  assumes "span_ok sb p ClockData_SIZEOF" "clock_values sb p = map Some [sec, mi, hour, mday, month, year, wday]"
    and "1978 \<le> unat year" "1 \<le> unat month" "unat month \<le> 12" "1 \<le> unat mday" "unat mday \<le> mdn (unat year) (unat month)"
    and "v \<Longrightarrow> sec \<le> 60 \<and> mi \<le> 59 \<and> hour \<le> 23 \<and> wday \<le> 6"
  shows "date_to_amiga sb p v = Some (of_nat (day_number (unat year) (unat month) (unat mday)) * 86400
      + hour * 3600 + mi * 60 + sec)"
proof -
  obtain k where k: "month_days year month = Some k" "unat k = mdn (unat year) (unat month)"
    using mdn_nat [OF assms(4,5)] by blast
  have "\<not> mday > k" using k(2) assms(7) by (simp add: word_less_nat_alt)
  moreover have "\<not> (year < 1978 \<or> month < 1 \<or> month > 12 \<or> mday < 1)"
    using assms(3-6) by (simp add: word_less_nat_alt)
  moreover have "unat (mday - 1) = unat mday - 1" using unat_sub [of 1 mday] assms(6) by (simp add: word_le_nat_alt)
  from this [symmetric] have "mday - 1 = of_nat (unat mday - 1)" by simp
  moreover have "months_sum year 1 month (years_sum 1978 year 0) =
      Some (of_nat (\<Sum>i\<in>{1978..<unat year}. ydn i) + of_nat (\<Sum>i\<in>{1..<unat month}. mdn (unat year) i))"
    using months_sum_nat [of 1 month year] years_sum_nat [of 1978 year 0] assms(3-5) by simp
  ultimately show ?thesis
    using assms(1,2,8) k(1)
    by (auto simp: date_to_amiga_def clock_values_def day_number_def not_less)
qed

lemma join_nat: "n div 3600 * 3600 + n div 60 mod 60 * 60 + n mod 60 = (n :: nat)"
proof -
  have "n div 3600 = n div 60 div 60" using div_mult2_eq [of n 60 60] by simp
  moreover have "n div 60 = n div 60 div 60 * 60 + n div 60 mod 60" "n = n div 60 * 60 + n mod 60" by simp_all
  ultimately show ?thesis by linarith
qed

lemma seconds_join:
  "of_nat (unat s div 86400) * 86400 + s mod 86400 div 3600 * 3600 + s mod 86400 div 60 mod 60 * 60
     + s mod 86400 mod 60 = (s :: u32)"
proof -
  let ?n = "unat s mod 86400"
  have w: "s mod 86400 div 3600 = of_nat (?n div 3600)" "s mod 86400 div 60 mod 60 = of_nat (?n div 60 mod 60)"
    "s mod 86400 mod 60 = of_nat (?n mod 60)"
    by (simp_all add: word_unat_eq_iff unat_div unat_mod unat_of_nat)
  have "unat s = unat s div 86400 * 86400 + (?n div 3600 * 3600 + ?n div 60 mod 60 * 60 + ?n mod 60)" by (simp only: join_nat) simp
  then have "of_nat (unat s) = (of_nat (unat s div 86400 * 86400 + (?n div 3600 * 3600 + ?n div 60 mod 60 * 60 + ?n mod 60)) :: u32)"
    by (rule arg_cong)
  then show ?thesis unfolding w by (simp add: add.assoc)
qed

text \<open>C38: \<open>Amiga2Date\<close> followed by \<open>Date2Amiga\<close>, and also by \<open>CheckDate\<close>, gives every number of
  seconds back.\<close>

theorem date_roundtrip:
  assumes "arena_ok sb" "span_ok sb p ClockData_SIZEOF"
  shows "\<exists>sb'. amiga_to_date sb s p = Some sb' \<and> date_to_amiga sb' p v = Some s"
proof -
  obtain sb' mday month year where f: "amiga_to_date sb s p = Some sb'" "span_ok sb' p ClockData_SIZEOF"
    "clock_values sb' p = map Some [s mod 86400 mod 60, s mod 86400 div 60 mod 60, s mod 86400 div 3600,
       mday, month, year, s div 86400 mod 7]"
    "legal_date (unat year) (unat month) (unat mday)"
    "day_number (unat year) (unat month) (unat mday) = unat s div 86400"
    using amiga_to_date_fields [OF assms] by blast
  have "date_to_amiga sb' p v = Some (of_nat (unat s div 86400) * 86400
      + s mod 86400 div 3600 * 3600 + s mod 86400 div 60 mod 60 * 60 + s mod 86400 mod 60)"
    unfolding f(5) [symmetric]
    by (rule date_to_amiga_fields [OF f(2,3)]) (use f(4) in \<open>auto simp: legal_date_def word_le_nat_alt unat_mod unat_div\<close>)
  also have "of_nat (unat s div 86400) * 86400
      + s mod 86400 div 3600 * 3600 + s mod 86400 div 60 mod 60 * 60 + s mod 86400 mod 60 = s"
    by (rule seconds_join)
  finally show ?thesis using f(1) by blast
qed

text \<open>A small arena for the witnesses.\<close>

definition small_box :: j4_sandbox where
  "small_box = \<lparr>jb_mem = (\<lambda>_. 0), jb_origin = 0x1000, jb_size = 256, next_alloc = 0x1000\<rparr>"

lemma small_box_ok: "arena_ok small_box" "span_ok small_box 0x1010 ClockData_SIZEOF"
  by (simp_all add: small_box_def arena_ok_def span_ok_nat clock_offsets)

theorem date_roundtrip_witness:
  "\<exists>sb'. amiga_to_date small_box 1000000000 0x1010 = Some sb' \<and> date_to_amiga sb' 0x1010 True = Some 1000000000"
  by (rule date_roundtrip [OF small_box_ok])

text \<open>\<open>Amiga2Date\<close> stores the calendar date of the seconds: a legal day of the Gregorian
  calendar whose number, with the time of day, is the number of seconds, and the day of the
  week counted from the Sunday that began 1978; it writes no byte outside the \<open>ClockData\<close>.\<close>

theorem amiga_to_date_calendar:
  assumes "arena_ok sb" "span_ok sb p ClockData_SIZEOF"
  shows "\<exists>sb' sec mi hour mday month year wday. amiga_to_date sb s p = Some sb' \<and>
    clock_values sb' p = map Some [sec, mi, hour, mday, month, year, wday] \<and>
    legal_date (unat year) (unat month) (unat mday) \<and> unat sec < 60 \<and> unat mi < 60 \<and> unat hour < 24 \<and>
    unat s = day_number (unat year) (unat month) (unat mday) * 86400 + unat hour * 3600 + unat mi * 60 + unat sec \<and>
    unat wday = day_number (unat year) (unat month) (unat mday) mod 7 \<and>
    (\<forall>i. i < unat p - unat (jb_origin sb) \<or> unat p - unat (jb_origin sb) + 14 \<le> i \<longrightarrow> jb_mem sb' i = jb_mem sb i)"
proof -
  obtain sb' mday month year where f: "amiga_to_date sb s p = Some sb'"
    "clock_values sb' p = map Some [s mod 86400 mod 60, s mod 86400 div 60 mod 60, s mod 86400 div 3600,
       mday, month, year, s div 86400 mod 7]"
    "legal_date (unat year) (unat month) (unat mday)"
    "day_number (unat year) (unat month) (unat mday) = unat s div 86400"
    "\<forall>i. i < unat p - unat (jb_origin sb) \<or> unat p - unat (jb_origin sb) + 14 \<le> i \<longrightarrow> jb_mem sb' i = jb_mem sb i"
    using amiga_to_date_fields [OF assms] by blast
  let ?n = "unat s mod 86400"
  have u: "unat (s mod 86400 mod 60) = ?n mod 60" "unat (s mod 86400 div 60 mod 60) = ?n div 60 mod 60"
    "unat (s mod 86400 div 3600) = ?n div 3600" "unat (s div 86400 mod 7) = unat s div 86400 mod 7"
    by (simp_all add: unat_div unat_mod)
  have "?n div 3600 < 24" by (simp add: less_mult_imp_div_less)
  moreover have "unat s = unat s div 86400 * 86400 + ?n div 3600 * 3600 + ?n div 60 mod 60 * 60 + ?n mod 60"
    by (simp only: add.assoc [of "unat s div 86400 * 86400"] join_nat) simp
  ultimately have w: "unat (s mod 86400 mod 60) < 60 \<and> unat (s mod 86400 div 60 mod 60) < 60 \<and>
      unat (s mod 86400 div 3600) < 24 \<and>
      unat s = unat s div 86400 * 86400 + unat (s mod 86400 div 3600) * 3600 + unat (s mod 86400 div 60 mod 60) * 60
        + unat (s mod 86400 mod 60) \<and>
      unat (s div 86400 mod 7) = unat s div 86400 mod 7"
    unfolding u by simp
  show ?thesis
    by (intro exI) (use f(1,2,3,5) w [folded f(4)] in blast)
qed

theorem amiga_to_date_calendar_witness:
  "\<exists>sb' mday month year. amiga_to_date small_box 1000000000 0x1010 = Some sb' \<and>
    legal_date (unat (year :: u32)) (unat (month :: u32)) (unat mday) \<and>
    day_number (unat year) (unat month) (unat (mday :: u32)) = 11574"
proof -
  from amiga_to_date_calendar [OF small_box_ok, of 1000000000]
  obtain sb' sec mi hour mday month year where f: "amiga_to_date small_box 1000000000 0x1010 = Some sb'"
    "legal_date (unat (year :: u32)) (unat (month :: u32)) (unat (mday :: u32))"
    "unat (sec :: u32) < 60" "unat (mi :: u32) < 60" "unat (hour :: u32) < 24"
    "unat (1000000000 :: u32) = day_number (unat year) (unat month) (unat mday) * 86400 + unat hour * 3600 + unat mi * 60 + unat sec"
    by blast
  moreover have "unat (1000000000 :: u32) = 1000000000" by simp
  ultimately have "day_number (unat year) (unat month) (unat mday) = 11574" by linarith
  with f show ?thesis by blast
qed

text \<open>\<open>CheckDate\<close> is the number of seconds of a legal date with a legal time, a second of 60
  included, and 0 for every other date; \<open>Date2Amiga\<close> of a month above 13 reads outside the
  table of month lengths.\<close>

theorem check_date_cases:
  assumes "span_ok sb p ClockData_SIZEOF" "clock_values sb p = map Some [sec, mi, hour, mday, month, year, wday]"
  shows "date_to_amiga sb p True =
      Some (if legal_date (unat year) (unat month) (unat mday) \<and> sec \<le> 60 \<and> mi \<le> 59 \<and> hour \<le> 23 \<and> wday \<le> 6
        then of_nat (day_number (unat year) (unat month) (unat mday)) * 86400 + hour * 3600 + mi * 60 + sec else 0) \<and>
    (13 < unat month \<longrightarrow> date_to_amiga sb p False = None)"
proof
  show "13 < unat month \<longrightarrow> date_to_amiga sb p False = None"
    using assms months_sum_out [of 1 month year] by (simp add: date_to_amiga_def clock_values_def)
  show "date_to_amiga sb p True =
      Some (if legal_date (unat year) (unat month) (unat mday) \<and> sec \<le> 60 \<and> mi \<le> 59 \<and> hour \<le> 23 \<and> wday \<le> 6
        then of_nat (day_number (unat year) (unat month) (unat mday)) * 86400 + hour * 3600 + mi * 60 + sec else 0)"
    (is "_ = Some (if ?ok then _ else 0)")
  proof (cases ?ok)
    case True
    then show ?thesis
      using date_to_amiga_fields [OF assms] by (simp add: legal_date_def)
  next
    case False
    show ?thesis
    proof (cases "sec > 60 \<or> mi > 59 \<or> hour > 23 \<or> year < 1978 \<or> wday > 6 \<or> month < 1 \<or> month > 12 \<or> mday < 1")
      case True
      with assms have "date_to_amiga sb p True = Some 0" by (simp add: date_to_amiga_def clock_values_def)
      then show ?thesis unfolding if_not_P [OF False] .
    next
      case le: False
      then have b: "1978 \<le> unat year" "1 \<le> unat month" "unat month \<le> 12" "1 \<le> unat mday"
        by (auto simp: word_less_nat_alt not_less)
      obtain k where k: "month_days year month = Some k" "unat k = mdn (unat year) (unat month)"
        using mdn_nat [OF b(2,3)] by blast
      have "mday > k" using False le b k(2) by (auto simp: legal_date_def word_less_nat_alt word_le_nat_alt not_less)
      with le k(1) assms have "date_to_amiga sb p True = Some 0" by (simp add: date_to_amiga_def clock_values_def)
      then show ?thesis unfolding if_not_P [OF False] .
    qed
  qed
qed

text \<open>The leap second of 29 February 1980.\<close>

definition clock_box :: j4_sandbox where
  "clock_box = small_box\<lparr>jb_mem := (\<lambda>i. if 16 \<le> i \<and> i < 30 then
     byte_of (1 - i mod 2) ([60, 59, 23, 29, 2, 1980, 5 :: u16] ! ((i - 16) div 2)) else 0)\<rparr>"

theorem check_date_cases_witness: "date_to_amiga clock_box 0x1010 True = Some 68256000"
proof -
  have s: "span_ok clock_box 0x1010 ClockData_SIZEOF" by (simp add: clock_box_def small_box_ok)
  have v: "clock_values clock_box 0x1010 = map Some [60, 59, 23, 29, 2, 1980, 5]" by code_simp
  have r: "{1978..<1980} = {1978, 1979 :: nat}" "{1..<2} = {1 :: nat}" by auto
  have d: "day_number 1980 2 29 = 789" by (simp add: day_number_def r ydn_def mdn_def leapn_def)
  have l: "legal_date 1980 2 29" by (simp add: legal_date_def mdn_def leapn_def)
  show ?thesis using check_date_cases [OF s v] l d by simp
qed

end
