(* ===== verification/UtilCall.thy ===== *)
theory UtilCall
  imports UtilDate UtilNamed UtilFormat "HOL-Library.Signed_Division"
begin

text \<open>
  \<open>emu68k_utility_call\<close> (\<open>hosted/emu68k/emu68k_utility.c\<close>): the dispatch on the vector number, the
  arithmetic entries and \<open>SetMem\<close>. The other entries are the definitions of the sibling theories.
\<close>

text \<open>The registers a handler reads or writes.\<close>

record util_regs =
  rd0 :: u32
  rd1 :: u32
  ra0 :: u32
  ra1 :: u32
  ra2 :: u32

section \<open>Arithmetic\<close>

definition utility_sdivmod32 :: "util_regs \<Rightarrow> util_regs ures" where
  "utility_sdivmod32 st =
     (let a = rd0 st; b = rd1 st in
      if b = 0 then UErr ''utility.SDivMod32 divides by zero''
      else if a = 0x80000000 \<and> b = 0xFFFFFFFF then URet (st\<lparr>rd0 := 0x80000000, rd1 := 0\<rparr>)
      else URet (st\<lparr>rd0 := word_of_int (sint a sdiv sint b), rd1 := word_of_int (sint a smod sint b)\<rparr>))"

definition utility_udivmod32 :: "util_regs \<Rightarrow> util_regs ures" where
  "utility_udivmod32 st =
     (let a = rd0 st; b = rd1 st in
      if b = 0 then UErr ''utility.UDivMod32 divides by zero''
      else URet (st\<lparr>rd0 := a div b, rd1 := a mod b\<rparr>))"

definition utility_smult64 :: "util_regs \<Rightarrow> util_regs" where
  "utility_smult64 st =
     (let product = scast (rd0 st) * scast (rd1 st) :: u64 in
      st\<lparr>rd0 := ucast (drop_bit 32 product), rd1 := ucast product\<rparr>)"

definition utility_umult64 :: "util_regs \<Rightarrow> util_regs" where
  "utility_umult64 st =
     (let product = ucast (rd0 st) * ucast (rd1 st) :: u64 in
      st\<lparr>rd0 := ucast (drop_bit 32 product), rd1 := ucast product\<rparr>)"

definition utility_setmem :: "j4_sandbox \<Rightarrow> util_regs \<Rightarrow> (j4_sandbox \<times> util_regs) ures" where
  "utility_setmem sb st =
     (if \<not> span_ok sb (ra0 st) (rd1 st) then UErr ''utility.SetMem leaves guest memory''
      else (case gfill sb (ra0 st) (ucast (rd0 st)) (unat (rd1 st)) of
          None \<Rightarrow> UUndef
        | Some sb \<Rightarrow> URet (sb, st\<lparr>rd0 := ra0 st\<rparr>)))"

section \<open>The dispatch\<close>

text \<open>Results put back: \<open>d0\<close>, the arena, or both.\<close>

definition ret_d0 :: "emu_run \<Rightarrow> util_regs \<Rightarrow> u32 ures option \<Rightarrow> (emu_run \<times> util_regs) ures option" where
  "ret_d0 r st m = try_call m (\<lambda>v. Some (URet (r, st\<lparr>rd0 := v\<rparr>)))"

definition ret_box :: "emu_run \<Rightarrow> util_regs \<Rightarrow> j4_sandbox ures option \<Rightarrow> (emu_run \<times> util_regs) ures option" where
  "ret_box r st m = try_call m (\<lambda>sb. Some (URet (r\<lparr>e_box := sb\<rparr>, st)))"

definition ret_box_d0 :: "emu_run \<Rightarrow> util_regs \<Rightarrow> (j4_sandbox \<times> u32) ures option \<Rightarrow> (emu_run \<times> util_regs) ures option" where
  "ret_box_d0 r st m = try_call m (\<lambda>(sb, v). Some (URet (r\<lparr>e_box := sb\<rparr>, st\<lparr>rd0 := v\<rparr>)))"

definition ret_run :: "util_regs \<Rightarrow> emu_run ures option \<Rightarrow> (emu_run \<times> util_regs) ures option" where
  "ret_run st m = try_call m (\<lambda>r. Some (URet (r, st)))"

definition ret_run_d0 :: "util_regs \<Rightarrow> (u32 \<times> emu_run) ures option \<Rightarrow> (emu_run \<times> util_regs) ures option" where
  "ret_run_d0 st m = try_call m (\<lambda>(v, r). Some (URet (r, st\<lparr>rd0 := v\<rparr>)))"

text \<open>A host access that may leave the arena, as a call.\<close>

definition access :: "'a option \<Rightarrow> 'a ures option" where
  "access m = (case m of None \<Rightarrow> Some UUndef | Some v \<Rightarrow> Some (URet v))"

definition emu68k_utility_call ::
  "(emu_run \<Rightarrow> u32 \<Rightarrow> emu_run ures) \<Rightarrow> emu_run \<Rightarrow> nat \<Rightarrow> util_regs \<Rightarrow> (emu_run \<times> util_regs) ures option" where
  "emu68k_utility_call reply r lvo st =
     (let sb = e_box r; d0 = rd0 st; d1 = rd1 st; a0 = ra0 st; a1 = ra1 st; a2 = ra2 st in
      if lvo = 38 then ret_run_d0 st (alloc_named_object r a0 a1)
      else if lvo = 37 then ret_run_d0 st (Some (URet (add_named_object r a0 a1)))
      else if lvo = 40 then ret_run_d0 st (Some (find_named_object r a0 a1 a2))
      else if lvo = 42 then ret_d0 r st (Some (named_object_name r a0))
      else if lvo = 43 then ret_run st (Some (release_named_object r a0))
      else if lvo = 39 then ret_run_d0 st (Some (attempt_rem_named_object r a0))
      else if lvo = 44 then ret_run st (Some (rem_named_object reply r a0 a1))
      else if lvo = 41 then ret_run st (Some (free_named_object r a0))
      else if lvo = 5 then ret_d0 r st (find_tag_item sb d0 a0)
      else if lvo = 6 then ret_d0 r st (get_tag_data sb d0 d1 a0)
      else if lvo = 7 then ret_d0 r st (pack_bool_tags sb d0 a0 a1)
      else if lvo = 8 then try_call (access (utility_next_tag sb a0)) (\<lambda>(item, sb).
        Some (URet (r\<lparr>e_box := sb\<rparr>, st\<lparr>rd0 := item\<rparr>)))
      else if lvo = 9 then ret_box r st (filter_tag_changes sb d0 a0 a1)
      else if lvo = 10 then ret_box r st (map_tags sb d0 a0 a1)
      else if lvo = 11 then ret_run_d0 st (access (allocate_tag_items r d0))
      else if lvo = 12 then ret_run_d0 st (clone_tag_items r a0)
      else if lvo = 13 then Some (URet (r, st))
      else if lvo = 14 then ret_box r st (refresh_tag_item_clones sb a0 a1)
      else if lvo = 15 then ret_d0 r st (access (map_option (\<lambda>b. if b then 1 else 0) (tag_in_array sb d0 a0)))
      else if lvo = 16 then ret_box_d0 r st (filter_tag_items sb d0 a0 a1)
      else if lvo = 20 then ret_box r st (access (amiga_to_date sb d0 a0))
      else if lvo = 21 then ret_d0 r st (access (date_to_amiga sb a0 False))
      else if lvo = 22 then ret_d0 r st (access (date_to_amiga sb a0 True))
      else if lvo = 25 then try_call (Some (utility_sdivmod32 st)) (\<lambda>st. Some (URet (r, st)))
      else if lvo = 26 then try_call (Some (utility_udivmod32 st)) (\<lambda>st. Some (URet (r, st)))
      else if lvo = 31 then ret_box r st (apply_tag_changes sb a0 a1)
      else if lvo = 33 then Some (URet (r, utility_smult64 st))
      else if lvo = 34 then Some (URet (r, utility_umult64 st))
      else if lvo = 35 then ret_box_d0 r st (pack_structure sb a0 a1 a2 False)
      else if lvo = 36 then ret_box_d0 r st (pack_structure sb a0 a1 a2 True)
      else if lvo = 66 then try_call (Some (utility_setmem sb st)) (\<lambda>(sb, st). Some (URet (r\<lparr>e_box := sb\<rparr>, st)))
      else if lvo = 52 then ret_box_d0 r st (emu68k_guest_format sb a0 d0 a1 a2)
      else Some (UErr []))"

end
