(* ===== verification/EmuCells.thy ===== *)
theory EmuCells
  imports EmuGuest
begin

text \<open>
  Structures of several sizes in guest memory, apart from each other, and their 32-bit fields:
  what a read gives, and that a write changes its field and nothing else.
\<close>

section \<open>Areas\<close>

definition areas :: "(u32 \<Rightarrow> u32) \<Rightarrow> j4_sandbox \<Rightarrow> u32 set \<Rightarrow> bool" where
  "areas sz sb S \<longleftrightarrow> arena_ok sb \<and> (\<forall>x\<in>S. span_ok sb x (sz x)) \<and>
     (\<forall>x\<in>S. \<forall>y\<in>S. x \<noteq> y \<longrightarrow> unat x + unat (sz x) \<le> unat y \<or> unat y + unat (sz y) \<le> unat x)"

definition field :: "u32 \<Rightarrow> u32 \<Rightarrow> bool" where
  "field n k \<longleftrightarrow> 4 dvd unat k \<and> unat k + 4 \<le> unat n"

definition fld :: "j4_sandbox \<Rightarrow> u32 \<Rightarrow> u32 \<Rightarrow> u32" where
  "fld sb b k = sb_read_be32 sb (hof sb b + unat k)"

definition put :: "j4_sandbox \<Rightarrow> u32 \<Rightarrow> u32 \<Rightarrow> u32 \<Rightarrow> j4_sandbox" where
  "put sb b k v = sb_write_be32 sb (hof sb b + unat k) v"

text \<open>Fields as a function, and its update.\<close>

definition upd :: "(u32 \<Rightarrow> u32 \<Rightarrow> u32) \<Rightarrow> u32 \<Rightarrow> u32 \<Rightarrow> u32 \<Rightarrow> u32 \<Rightarrow> u32 \<Rightarrow> u32" where
  "upd F b k v = (\<lambda>c j. if c = b \<and> j = k then v else F c j)"

lemma hof_put [simp]: "hof (put sb b k v) x = hof sb x" by (simp add: put_def)

lemma put_frame [simp]: "jb_origin (put sb b k v) = jb_origin sb" "jb_size (put sb b k v) = jb_size sb"
  by (simp_all add: put_def)

lemma areas_put [simp]: "areas sz (put sb b k v) S = areas sz sb S"
  by (simp add: areas_def put_def)

lemma areas_subset: "areas sz sb S \<Longrightarrow> T \<subseteq> S \<Longrightarrow> areas sz sb T"
  by (auto simp: areas_def)

lemma area_read: "areas sz sb S \<Longrightarrow> b \<in> S \<Longrightarrow> field (sz b) k \<Longrightarrow> gread32 sb (b + k) = Some (fld sb b k)"
  using read32_at [of sb b "sz b" k] by (auto simp: areas_def fld_def field_def)

lemma area_write: "areas sz sb S \<Longrightarrow> b \<in> S \<Longrightarrow> field (sz b) k \<Longrightarrow> gwrite32 sb (b + k) v = Some (put sb b k v)"
  using write32_at [of sb b "sz b" k] by (auto simp: areas_def put_def field_def)

lemma area_far:
  assumes "areas sz sb S" "b \<in> S" "c \<in> S" "b \<noteq> c"
  shows "hof sb b + unat (sz b) \<le> hof sb c \<or> hof sb c + unat (sz c) \<le> hof sb b"
proof -
  have "unat (jb_origin sb) \<le> unat b" "unat (jb_origin sb) \<le> unat c"
    "unat b + unat (sz b) \<le> unat c \<or> unat c + unat (sz c) \<le> unat b"
    using assms by (auto simp: areas_def span_ok_nat)
  then show ?thesis by (auto simp: hof_def)
qed

text \<open>A write changes its field and no other.\<close>

lemma area_fld_put:
  assumes "areas sz sb S" "b \<in> S" "c \<in> S" "field (sz b) k" "field (sz c) j"
  shows "fld (put sb b k v) c j = (if c = b \<and> j = k then v else fld sb c j)"
proof (cases "c = b")
  case True
  have "j \<noteq> k \<Longrightarrow> unat j + 4 \<le> unat k \<or> unat k + 4 \<le> unat j"
    using assms(4,5) unfolding field_def word_unat_eq_iff by presburger
  then show ?thesis using True by (auto simp: fld_def put_def read_write_be32)
next
  case False
  have "unat k + 4 \<le> unat (sz b)" "unat j + 4 \<le> unat (sz c)" using assms(4,5) by (auto simp: field_def)
  then show ?thesis
    using False area_far [OF assms(1-3)] by (auto simp: fld_def put_def intro!: read_write_be32(2))
qed

lemma put_other: "i < hof sb b + unat k \<or> hof sb b + unat k + 4 \<le> i \<Longrightarrow> jb_mem (put sb b k v) i = jb_mem sb i"
  by (auto simp: put_def intro!: write_be32_other)

end
