(* ===== verification/EmuList.thy ===== *)
theory EmuList
  imports UtilTags EmuCells
begin

text \<open>
  The list entries of exec on guest memory (\<open>emu68k_exec_call\<close> in \<open>hosted/emu68k/emu68k_exec.c\<close>):
  \<open>AddHead\<close>, \<open>AddTail\<close>, \<open>Insert\<close>, \<open>Remove\<close>, \<open>RemHead\<close>, \<open>RemTail\<close>, \<open>Enqueue\<close>, \<open>FindName\<close> and
  \<open>NewMinList\<close>. A list header has \<open>lh_Head\<close> at 0, \<open>lh_Tail\<close> at 4, \<open>lh_TailPred\<close> at 8, a node
  \<open>ln_Succ\<close> at 0, \<open>ln_Pred\<close> at 4, \<open>ln_Pri\<close> at 9, \<open>ln_Name\<close> at 10.

  \<open>None\<close> of an entry without a loop, and \<open>UUndef\<close>, is a host access outside the arena; \<open>None\<close>
  of an entry with a loop is a walk that does not return.
\<close>

section \<open>The entries\<close>

definition exec_addhead :: "j4_sandbox \<Rightarrow> u32 \<Rightarrow> u32 \<Rightarrow> j4_sandbox option" where
  "exec_addhead sb list node = do {
     head \<leftarrow> gread32 sb list;
     sb \<leftarrow> gwrite32 sb node head;
     sb \<leftarrow> gwrite32 sb (node + 4) list;
     sb \<leftarrow> gwrite32 sb (head + 4) node;
     gwrite32 sb list node }"

definition exec_addtail :: "j4_sandbox \<Rightarrow> u32 \<Rightarrow> u32 \<Rightarrow> j4_sandbox option" where
  "exec_addtail sb list node = do {
     tailpred \<leftarrow> gread32 sb (list + 8);
     sb \<leftarrow> gwrite32 sb node (list + 4);
     sb \<leftarrow> gwrite32 sb (node + 4) tailpred;
     sb \<leftarrow> gwrite32 sb tailpred node;
     gwrite32 sb (list + 8) node }"

definition exec_remove :: "j4_sandbox \<Rightarrow> u32 \<Rightarrow> j4_sandbox option" where
  "exec_remove sb node = do {
     succ \<leftarrow> gread32 sb node;
     pred \<leftarrow> gread32 sb (node + 4);
     sb \<leftarrow> gwrite32 sb pred succ;
     gwrite32 sb (succ + 4) pred }"

text \<open>\<open>d0\<close> and the arena.\<close>

definition exec_remhead :: "j4_sandbox \<Rightarrow> u32 \<Rightarrow> (u32 \<times> j4_sandbox) ures" where
  "exec_remhead sb list = (case gread32 sb list of
     None \<Rightarrow> UUndef
   | Some node \<Rightarrow>
       if node = list then UErr ''corrupt Exec List: lh_Head points at the list header''
       else (case do {
           succ \<leftarrow> gread32 sb node;
           if succ = 0 then Some (0, sb)
           else do {
             sb \<leftarrow> gwrite32 sb list succ;
             sb \<leftarrow> gwrite32 sb (succ + 4) list;
             Some (node, sb) } } of None \<Rightarrow> UUndef | Some r \<Rightarrow> URet r))"

definition exec_remtail :: "j4_sandbox \<Rightarrow> u32 \<Rightarrow> (u32 \<times> j4_sandbox) option" where
  "exec_remtail sb list = do {
     node \<leftarrow> gread32 sb (list + 8);
     pred \<leftarrow> gread32 sb (node + 4);
     if pred = 0 then Some (0, sb)
     else do {
       sb \<leftarrow> gwrite32 sb (list + 8) pred;
       sb \<leftarrow> gwrite32 sb pred (list + 4);
       Some (node, sb) } }"

text \<open>\<open>(int8_t)j4_sandbox_host (sb, node)[9]\<close>, which is not checked.\<close>

definition node_pri :: "j4_sandbox \<Rightarrow> u32 \<Rightarrow> int option" where
  "node_pri sb node =
     (if host_ok sb node 10 then Some (sint (jb_mem sb (j4_sandbox_host sb node + 9))) else None)"

text \<open>The node to insert before.\<close>

partial_function (option) enqueue_loop :: "j4_sandbox \<Rightarrow> int \<Rightarrow> u32 \<Rightarrow> u32 ures option" where
  "enqueue_loop sb pri nxt = (case gread32 sb nxt of
     None \<Rightarrow> Some UUndef
   | Some succ \<Rightarrow>
       if succ = 0 then Some (URet nxt)
       else (case node_pri sb nxt of
           None \<Rightarrow> Some UUndef
         | Some q \<Rightarrow> if q < pri then Some (URet nxt) else enqueue_loop sb pri succ))"

definition exec_enqueue :: "j4_sandbox \<Rightarrow> u32 \<Rightarrow> u32 \<Rightarrow> j4_sandbox ures option" where
  "exec_enqueue sb list node =
     try_read (node_pri sb node) (\<lambda>pri. try_read (gread32 sb list) (\<lambda>head.
       try_call (enqueue_loop sb pri head) (\<lambda>nxt.
         try_read (do {
           pred \<leftarrow> gread32 sb (nxt + 4);
           sb \<leftarrow> gwrite32 sb node nxt;
           sb \<leftarrow> gwrite32 sb (node + 4) pred;
           sb \<leftarrow> gwrite32 sb pred node;
           gwrite32 sb (nxt + 4) node }) (\<lambda>sb. Some (URet sb)))))"

definition exec_insert :: "j4_sandbox \<Rightarrow> u32 \<Rightarrow> u32 \<Rightarrow> u32 \<Rightarrow> j4_sandbox option" where
  "exec_insert sb list node pred =
     (if pred = 0 \<or> pred = list then do {
        succ \<leftarrow> gread32 sb list;
        sb \<leftarrow> gwrite32 sb node succ;
        sb \<leftarrow> gwrite32 sb (node + 4) list;
        sb \<leftarrow> gwrite32 sb (succ + 4) node;
        gwrite32 sb list node }
      else do {
        succ \<leftarrow> gread32 sb pred;
        sb \<leftarrow> gwrite32 sb node succ;
        sb \<leftarrow> gwrite32 sb (node + 4) pred;
        sb \<leftarrow> gwrite32 sb (succ + 4) node;
        gwrite32 sb pred node })"

definition exec_newminlist :: "j4_sandbox \<Rightarrow> u32 \<Rightarrow> j4_sandbox option" where
  "exec_newminlist sb list =
     (if list = 0 then Some sb
      else do {
        sb \<leftarrow> gwrite32 sb list (list + 4);
        sb \<leftarrow> gwrite32 sb (list + 4) 0;
        gwrite32 sb (list + 8) list })"

text \<open>The walk of \<open>FindName\<close>, from a node on.\<close>

partial_function (option) findname_loop :: "j4_sandbox \<Rightarrow> u8 list \<Rightarrow> u32 \<Rightarrow> u32 ures option" where
  "findname_loop sb s n =
     (if n = 0 then Some (URet 0)
      else (case gread32 sb n of
        None \<Rightarrow> Some UUndef
      | Some succ \<Rightarrow>
          if succ = 0 then Some (URet 0)
          else (case gread32 sb (n + 10) of
              None \<Rightarrow> Some UUndef
            | Some nm \<Rightarrow>
                if nm \<noteq> 0 \<and> guest_cstr sb nm \<and> c_str sb nm = s then Some (URet n)
                else findname_loop sb s succ)))"

definition exec_findname :: "j4_sandbox \<Rightarrow> u32 \<Rightarrow> u32 \<Rightarrow> u32 ures option" where
  "exec_findname sb list want =
     (if list = 0 \<or> \<not> guest_cstr sb want then Some (URet 0)
      else try_read (gread32 sb list) (\<lambda>n. findname_loop sb (c_str sb want) n))"

section \<open>Structures in the arena\<close>

text \<open>Headers and nodes have 14 bytes each.\<close>

abbreviation structs :: "j4_sandbox \<Rightarrow> u32 set \<Rightarrow> bool" where
  "structs \<equiv> areas (\<lambda>_. 14)"

definition apart :: "u32 \<Rightarrow> u32 \<Rightarrow> bool" where
  "apart x y \<longleftrightarrow> unat x + 14 \<le> unat y \<or> unat y + 14 \<le> unat x"

lemma structs_def: "structs sb S \<longleftrightarrow> arena_ok sb \<and> (\<forall>x\<in>S. span_ok sb x 14) \<and> (\<forall>x\<in>S. \<forall>y\<in>S. x \<noteq> y \<longrightarrow> apart x y)"
  by (simp add: areas_def apart_def)

definition links :: "u32 set" where "links = {0, 4, 8}"

lemma links_cases: "k \<in> links \<Longrightarrow> k = 0 \<or> k = 4 \<or> k = 8"
  by (simp add: links_def)

lemma links_in [simp]: "0 \<in> links" "4 \<in> links" "8 \<in> links"
  by (simp_all add: links_def)

lemma links_field: "k \<in> links \<Longrightarrow> field 14 k"
  by (auto simp: field_def dest!: links_cases)

lemmas structs_subset = areas_subset [where sz = "\<lambda>_. 14"]
  and struct_far = area_far [where sz = "\<lambda>_. 14", simplified]

lemma read_link: "structs sb S \<Longrightarrow> b \<in> S \<Longrightarrow> k \<in> links \<Longrightarrow> gread32 sb (b + k) = Some (fld sb b k)"
  by (rule area_read) (auto intro: links_field)

lemma write_link: "structs sb S \<Longrightarrow> b \<in> S \<Longrightarrow> k \<in> links \<Longrightarrow> gwrite32 sb (b + k) v = Some (put sb b k v)"
  by (rule area_write) (auto intro: links_field)

lemmas read_link0 = read_link [where k = 0, simplified]
  and write_link0 = write_link [where k = 0, simplified]

lemma fld_put: "structs sb S \<Longrightarrow> b \<in> S \<Longrightarrow> c \<in> S \<Longrightarrow> k \<in> links \<Longrightarrow> j \<in> links \<Longrightarrow>
    fld (put sb b k v) c j = (if c = b \<and> j = k then v else fld sb c j)"
  by (rule area_fld_put) (auto intro: links_field)

text \<open>The bytes beyond the links of a node, and those outside the structures.\<close>

lemma put_tail:
  assumes "structs sb S" "b \<in> S" "c \<in> S" "k \<in> links" "b \<noteq> c \<or> k \<noteq> 8" "8 \<le> i" "i < 14"
  shows "jb_mem (put sb b k v) (hof sb c + i) = jb_mem sb (hof sb c + i)"
proof (cases "b = c")
  case True
  then show ?thesis using assms(4-6) by (auto dest!: links_cases intro!: put_other)
next
  case False
  have "unat k + 4 \<le> 14" using assms(4) by (auto dest!: links_cases)
  then show ?thesis
    using struct_far [OF assms(1-3) False] assms(7) by (auto intro!: put_other)
qed

lemma put_outside:
  "k \<in> links \<Longrightarrow> i < hof sb b \<or> hof sb b + 12 \<le> i \<Longrightarrow> jb_mem (put sb b k v) i = jb_mem sb i"
  by (auto dest!: links_cases intro!: put_other)

end
