(* ===== verification/EmuListProps.thy ===== *)
theory EmuListProps
  imports EmuList PreludeLists
begin

text \<open>
  The list entries against abstract lists: a header and a chain of nodes in guest memory stand
  for the list of the node addresses, and every entry is the list operation it means to be.
\<close>

section \<open>Chains\<close>

text \<open>From \<open>p\<close> on, the fields lead through the nodes to the tail of the header \<open>l\<close> and back.\<close>

fun chain :: "(u32 \<Rightarrow> u32 \<Rightarrow> u32) \<Rightarrow> u32 \<Rightarrow> u32 \<Rightarrow> u32 list \<Rightarrow> bool" where
  "chain F l p [] \<longleftrightarrow> F p 0 = l + 4 \<and> F l 8 = p"
| "chain F l p (x # xs) \<longleftrightarrow> F p 0 = x \<and> F x 4 = p \<and> chain F l x xs"

text \<open>The field at \<open>s + 4\<close>: \<open>ln_Pred\<close>, or \<open>lh_TailPred\<close> when \<open>s\<close> is the tail of the header.\<close>

definition pbase :: "u32 \<Rightarrow> u32 \<Rightarrow> u32" where "pbase l s = (if s = l + 4 then l else s)"
definition poff :: "u32 \<Rightarrow> u32 \<Rightarrow> u32" where "poff l s = (if s = l + 4 then 8 else 4)"

definition follow :: "u32 \<Rightarrow> u32 list \<Rightarrow> u32" where "follow l bs = (case bs of [] \<Rightarrow> l + 4 | b # _ \<Rightarrow> b)"

definition ins :: "(u32 \<Rightarrow> u32 \<Rightarrow> u32) \<Rightarrow> u32 \<Rightarrow> u32 \<Rightarrow> u32 \<Rightarrow> u32 \<Rightarrow> u32 \<Rightarrow> u32 \<Rightarrow> u32" where
  "ins F l p n s = upd (upd (upd (upd F n 0 s) n 4 p) (pbase l s) (poff l s) n) p 0 n"

definition del :: "(u32 \<Rightarrow> u32 \<Rightarrow> u32) \<Rightarrow> u32 \<Rightarrow> u32 \<Rightarrow> u32 \<Rightarrow> u32 \<Rightarrow> u32 \<Rightarrow> u32" where
  "del F l p s = upd (upd F p 0 s) (pbase l s) (poff l s) p"

lemma chain_cong:
  "(\<And>c j. c \<in> set (l # p # xs) \<Longrightarrow> j \<in> links \<Longrightarrow> F c j = G c j) \<Longrightarrow> chain F l p xs = chain G l p xs"
  by (induction xs arbitrary: p) auto

lemma chain_upd_other: "b \<notin> set (p # xs) \<Longrightarrow> b \<noteq> l \<or> k \<noteq> 8 \<Longrightarrow> chain (upd F b k v) l p xs = chain F l p xs"
  and chain_upd_pred: "b \<notin> set xs \<Longrightarrow> chain (upd F b 4 v) l p xs = chain F l p xs"
  by (induction xs arbitrary: p) (simp_all add: upd_def, auto)

lemma chain_insert:
  "chain F l p0 (as @ bs) \<Longrightarrow> distinct (p0 # as @ bs) \<Longrightarrow> n \<notin> set (l # p0 # as @ bs) \<Longrightarrow> l \<notin> set (as @ bs) \<Longrightarrow>
   l + 4 \<notin> set (as @ bs) \<Longrightarrow> chain (ins F l (last (p0 # as)) n (follow l bs)) l p0 (as @ n # bs)"
proof (induction "as" arbitrary: p0)
  case Nil
  show ?case
  proof (cases bs)
    case (Cons b bs')
    have "b \<noteq> l + 4" using Nil.prems Cons by auto
    then have "chain (ins F l p0 n b) l b bs' = chain F l b bs'"
      using Nil.prems Cons by (simp add: ins_def pbase_def poff_def chain_upd_other chain_upd_pred)
    then show ?thesis using Nil.prems Cons by (auto simp: ins_def upd_def pbase_def poff_def follow_def)
  qed (use Nil.prems in \<open>auto simp: ins_def upd_def pbase_def poff_def follow_def\<close>)
next
  case (Cons a as')
  let ?G = "ins F l (last (a # as')) n (follow l bs)"
  have "follow l bs \<noteq> a" "last (a # as') \<noteq> p0" "last (a # as') \<in> set (a # as')"
    using Cons.prems by (auto simp: follow_def split: list.splits) 
  then have "?G p0 0 = a" "?G a 4 = p0"
    using Cons.prems by (auto simp: ins_def upd_def pbase_def poff_def)
  moreover have "chain ?G l a (as' @ n # bs)" using Cons by simp
  ultimately show ?case by simp
qed

lemma chain_ends:
  "chain F l p0 (as @ n # bs) \<Longrightarrow> F n 4 = last (p0 # as) \<and> F n 0 = follow l bs"
  by (induction "as" arbitrary: p0) (auto simp: follow_def split: list.splits)

lemma chain_delete:
  "chain F l p0 (as @ n # bs) \<Longrightarrow> distinct (p0 # as @ n # bs) \<Longrightarrow> l \<notin> set (as @ bs) \<Longrightarrow> l + 4 \<notin> set (as @ bs) \<Longrightarrow>
   chain (del F l (last (p0 # as)) (follow l bs)) l p0 (as @ bs)"
proof (induction "as" arbitrary: p0)
  case Nil
  show ?case
  proof (cases bs)
    case (Cons b bs')
    have "b \<noteq> l + 4" using Nil.prems Cons by auto
    then have "chain (del F l p0 b) l b bs' = chain F l b bs'"
      using Nil.prems Cons by (simp add: del_def pbase_def poff_def chain_upd_other chain_upd_pred)
    then show ?thesis using Nil.prems Cons by (auto simp: del_def upd_def pbase_def poff_def follow_def)
  qed (use Nil.prems in \<open>auto simp: del_def upd_def pbase_def poff_def follow_def\<close>)
next
  case (Cons a as')
  let ?G = "del F l (last (a # as')) (follow l bs)"
  have "follow l bs \<noteq> a" "last (a # as') \<noteq> p0"
    using Cons.prems by (auto simp: follow_def split: list.splits)
  then have "?G p0 0 = a" "?G a 4 = p0"
    using Cons.prems by (auto simp: del_def upd_def pbase_def poff_def)
  moreover have "chain ?G l a (as' @ bs)" using Cons by simp
  ultimately show ?case by simp
qed

lemma chain_first: "chain F l p xs \<Longrightarrow> F p 0 = follow l xs"
  by (cases xs) (auto simp: follow_def)

lemma chain_last: "chain F l p xs \<Longrightarrow> F l 8 = last (p # xs)"
  by (induction xs arbitrary: p) auto

section \<open>Lists in guest memory\<close>

definition glist :: "j4_sandbox \<Rightarrow> u32 \<Rightarrow> u32 list \<Rightarrow> bool" where
  "glist sb l xs \<longleftrightarrow> structs sb (set (l # xs)) \<and> distinct (l # xs) \<and> 0 \<notin> set (l # xs) \<and>
     fld sb l 4 = 0 \<and> chain (fld sb) l l xs"

text \<open>A node that is not in the list and apart from it.\<close>

definition fresh :: "j4_sandbox \<Rightarrow> u32 \<Rightarrow> u32 list \<Rightarrow> u32 \<Rightarrow> bool" where
  "fresh sb l xs n \<longleftrightarrow> structs sb (set (n # l # xs)) \<and> n \<notin> set (l # xs) \<and> n \<noteq> 0"

lemma tail_unat:
  assumes "structs sb S" "l \<in> S"
  shows "unat (l + 4) = unat l + 4" "l + 4 \<noteq> 0" "x \<in> S \<Longrightarrow> x \<noteq> l + 4"
proof -
  have "arena_ok sb" "span_ok sb l 14" using assms by (auto simp: structs_def)
  from span_facts(1) [OF this, of 4 4] show u: "unat (l + 4) = unat l + 4" by simp
  then show "l + 4 \<noteq> 0" by (metis unat_0 add_is_0 zero_neq_numeral)
  have "l + 4 \<noteq> l" using u by (metis add_cancel_right_right zero_neq_numeral)
  then have "l + 4 \<in> S \<Longrightarrow> apart l (l + 4)" using assms by (auto simp: structs_def)
  then show "x \<in> S \<Longrightarrow> x \<noteq> l + 4" using u by (auto simp: apart_def)
qed

text \<open>The states before and after agree outside the link fields.\<close>

definition links_only :: "j4_sandbox \<Rightarrow> j4_sandbox \<Rightarrow> u32 \<Rightarrow> u32 set \<Rightarrow> bool" where
  "links_only sb sb' l S \<longleftrightarrow> jb_origin sb' = jb_origin sb \<and> jb_size sb' = jb_size sb \<and>
     (\<forall>i. (\<forall>x\<in>S. i < hof sb x \<or> hof sb x + 12 \<le> i) \<longrightarrow> jb_mem sb' i = jb_mem sb i) \<and>
     (\<forall>x\<in>S - {l}. \<forall>i. 8 \<le> i \<and> i < 14 \<longrightarrow> jb_mem sb' (hof sb x + i) = jb_mem sb (hof sb x + i))"

lemma links_only_refl: "links_only sb sb l S"
  by (simp add: links_only_def)

lemma hof_links_only: "links_only sb sb' l S \<Longrightarrow> hof sb' x = hof sb x"
  by (simp add: links_only_def hof_def)

lemma links_only_put:
  assumes "links_only sb sb' l S" "structs sb S" "structs sb' S" "b \<in> S" "k \<in> links" "b = l \<or> k \<noteq> 8"
  shows "links_only sb (put sb' b k v) l S"
proof -
  note h = hof_links_only [OF assms(1)]
  have "jb_mem (put sb' b k v) i = jb_mem sb i" if "\<forall>x\<in>S. i < hof sb x \<or> hof sb x + 12 \<le> i" for i
    using that assms(1,4,5) put_outside [of k i sb' b v] h by (auto simp: links_only_def)
  moreover have "jb_mem (put sb' b k v) (hof sb x + i) = jb_mem sb (hof sb x + i)"
    if "x \<in> S - {l}" "8 \<le> i" "i < 14" for x i
  proof -
    have "jb_mem (put sb' b k v) (hof sb' x + i) = jb_mem sb' (hof sb' x + i)"
      using that assms(6) by (intro put_tail [OF assms(3,4) _ assms(5)]) auto
    then show ?thesis using that assms(1) h by (simp add: links_only_def)
  qed
  ultimately show ?thesis using assms(1) by (simp add: links_only_def)
qed

lemma structs_links_only: "links_only sb sb' l S \<Longrightarrow> structs sb' T = structs sb T"
  by (simp add: links_only_def structs_def arena_ok_def span_ok_def)

text \<open>The write of a field at \<open>s + 4\<close>.\<close>

lemma write_pred:
  assumes "structs sb S" "l \<in> S" "s = l + 4 \<or> s \<in> S"
  shows "gwrite32 sb (s + 4) v = Some (put sb (pbase l s) (poff l s) v)"
    and "pbase l s \<in> S" "poff l s \<in> links" "pbase l s = l \<or> poff l s \<noteq> 8"
proof -
  show p: "pbase l s \<in> S" "poff l s \<in> links" "pbase l s = l \<or> poff l s \<noteq> 8"
    using assms by (auto simp: pbase_def poff_def)
  have "s + 4 = pbase l s + poff l s" by (simp add: pbase_def poff_def)
  then show "gwrite32 sb (s + 4) v = Some (put sb (pbase l s) (poff l s) v)"
    using write_link [OF assms(1) p(1,2)] by simp
qed

lemma glist_mem:
  assumes "glist sb l xs"
  shows "structs sb (set (l # xs))" "chain (fld sb) l l xs" "distinct (l # xs)" "0 \<notin> set (l # xs)"
    and "l + 4 \<notin> set xs" "l + 4 \<noteq> 0" "gread32 sb l = Some (follow l xs)" "gread32 sb (l + 8) = Some (last (l # xs))"
    and "follow l xs = l + 4 \<or> follow l xs \<in> set xs" "gread32 sb (l + 4) = Some 0"
proof -
  show s: "structs sb (set (l # xs))" and c: "chain (fld sb) l l xs" and "distinct (l # xs)" "0 \<notin> set (l # xs)"
    using assms by (auto simp: glist_def)
  show "l + 4 \<notin> set xs" "l + 4 \<noteq> 0" using tail_unat [OF s, of l] by auto
  show "gread32 sb l = Some (follow l xs)" using read_link0 [OF s, of l] chain_first [OF c] by simp
  show "gread32 sb (l + 8) = Some (last (l # xs))" using read_link [OF s, of l 8] chain_last [OF c] by simp
  show "gread32 sb (l + 4) = Some 0" using read_link [OF s, of l 4] assms by (simp add: glist_def)
  show "follow l xs = l + 4 \<or> follow l xs \<in> set xs" by (auto simp: follow_def split: list.splits)
qed

lemma glist_node:
  assumes "glist sb l xs" "xs = as @ n # bs"
  shows "gread32 sb n = Some (follow l bs)" "gread32 sb (n + 4) = Some (last (l # as))" "follow l bs \<noteq> 0"
proof -
  have s: "structs sb (set (l # xs))" and c: "chain (fld sb) l l (as @ n # bs)" and z: "0 \<notin> set (l # xs)" "l + 4 \<noteq> 0"
    using glist_mem [OF assms(1)] assms(2) by auto
  from chain_ends [OF c] have e: "fld sb n 4 = last (l # as)" "fld sb n 0 = follow l bs" by simp_all
  show "gread32 sb n = Some (follow l bs)" using read_link0 [OF s, of n] e assms(2) by simp
  show "gread32 sb (n + 4) = Some (last (l # as))" using read_link [OF s, of n 4] e assms(2) by simp
  show "follow l bs \<noteq> 0" using z assms(2) by (auto simp: follow_def split: list.splits)
qed

lemma links_only_trans:
  assumes "links_only sb sb1 l S" "links_only sb1 sb2 l T" "T \<subseteq> S" "structs sb S"
  shows "links_only sb sb2 l S"
proof -
  note h = hof_links_only [OF assms(1)]
  have out: "jb_mem sb2 i = jb_mem sb1 i" if "\<forall>x\<in>T. i < hof sb x \<or> hof sb x + 12 \<le> i" for i
    using that assms(2) h by (simp add: links_only_def)
  have "jb_mem sb2 (hof sb x + i) = jb_mem sb1 (hof sb x + i)" if x: "x \<in> S - {l}" "8 \<le> i" "i < 14" for x i
  proof (cases "x \<in> T")
    case True
    then show ?thesis using x assms(2) h by (simp add: links_only_def)
  next
    case False
    then have "hof sb x + 14 \<le> hof sb y \<or> hof sb y + 14 \<le> hof sb x" if "y \<in> T" for y
      using struct_far [OF assms(4), of x y] that assms(3) x(1) by auto
    then show ?thesis using x by (intro out) fastforce
  qed
  moreover have "jb_mem sb2 i = jb_mem sb i" if "\<forall>x\<in>S. i < hof sb x \<or> hof sb x + 12 \<le> i" for i
    using that out [of i] assms(1,3) by (auto simp: links_only_def)
  ultimately show ?thesis using assms(1,2) by (simp add: links_only_def)
qed

section \<open>Splicing\<close>

lemma glist_of_fields:
  assumes "structs sb' (set (l # xs))" "distinct (l # xs)" "0 \<notin> set (l # xs)" "chain F l l xs" "F l 4 = 0"
    and "\<And>c j. c \<in> set (l # xs) \<Longrightarrow> j \<in> links \<Longrightarrow> fld sb' c j = F c j"
  shows "glist sb' l xs"
  using assms chain_cong [of l l xs "fld sb'" F] by (auto simp: glist_def)

lemma splice_in:
  assumes "glist sb l (as @ bs)" "fresh sb l (as @ bs) n"
  defines "p \<equiv> last (l # as)" and "s \<equiv> follow l bs" and "S \<equiv> set (n # l # as @ bs)"
  obtains sb1 sb2 where
    "do { sb \<leftarrow> gwrite32 sb n s; sb \<leftarrow> gwrite32 sb (n + 4) p; sb \<leftarrow> gwrite32 sb (s + 4) n; gwrite32 sb p n } = Some sb1"
    "do { sb \<leftarrow> gwrite32 sb n s; sb \<leftarrow> gwrite32 sb (n + 4) p; sb \<leftarrow> gwrite32 sb p n; gwrite32 sb (s + 4) n } = Some sb2"
    "glist sb1 l (as @ n # bs)" "glist sb2 l (as @ n # bs)" "links_only sb sb1 l S" "links_only sb sb2 l S"
proof -
  let ?b = "pbase l s" and ?o = "poff l s"
  let ?m = "put (put sb n 0 s) n 4 p"
  let ?sb1 = "put (put ?m ?b ?o n) p 0 n" and ?sb2 = "put (put ?m p 0 n) ?b ?o n"
  have st: "structs sb S" using assms(2) by (simp add: fresh_def S_def)
  have nS: "n \<in> S" "l \<in> S" "p \<in> S" by (auto simp: S_def p_def)
  have sS: "s = l + 4 \<or> s \<in> S" by (auto simp: s_def S_def follow_def split: list.splits)
  have sl: "s \<noteq> l" using tail_unat(3) [OF st nS(2,2)] glist_mem(3) [OF assms(1)]
    by (auto simp: s_def follow_def split: list.splits)
  note w = write_pred [OF _ nS(2) sS]
  have b: "?b \<in> S" "?o \<in> links" "?b = l \<or> ?o \<noteq> 8" using w(2-4) [OF st] .
  have "do { sb \<leftarrow> gwrite32 sb n s; sb \<leftarrow> gwrite32 sb (n + 4) p; sb \<leftarrow> gwrite32 sb (s + 4) n; gwrite32 sb p n } = Some ?sb1"
    "do { sb \<leftarrow> gwrite32 sb n s; sb \<leftarrow> gwrite32 sb (n + 4) p; sb \<leftarrow> gwrite32 sb p n; gwrite32 sb (s + 4) n } = Some ?sb2"
    using st nS b w(1) by (simp_all add: write_link0 [of _ S] write_link [of _ S])
  moreover have F: "fld ?sb1 c j = ins (fld sb) l p n s c j" "fld ?sb2 c j = ins (fld sb) l p n s c j" if "c \<in> S" "j \<in> links" for c j
  proof -
    have "?o \<noteq> 0" by (simp add: poff_def)
    then show "fld ?sb1 c j = ins (fld sb) l p n s c j" "fld ?sb2 c j = ins (fld sb) l p n s c j"
      using that st nS b by (auto simp: fld_put [of _ S] ins_def upd_def)
  qed
  moreover have "glist sb' l (as @ n # bs)"
    if h: "structs sb' S" "\<And>c j. c \<in> S \<Longrightarrow> j \<in> links \<Longrightarrow> fld sb' c j = ins (fld sb) l p n s c j" for sb'
  proof (rule glist_of_fields)
    note g = glist_mem [OF assms(1)]
    have n: "n \<notin> set (l # as @ bs)" "n \<noteq> 0" using assms(2) by (auto simp: fresh_def)
    show "structs sb' (set (l # as @ n # bs))" using h(1) by (rule structs_subset) (auto simp: S_def)
    show "distinct (l # as @ n # bs)" "0 \<notin> set (l # as @ n # bs)" using g(3,4) n by auto
    show "chain (ins (fld sb) l p n s) l l (as @ n # bs)"
      unfolding p_def s_def using g(2,3,5) n by (intro chain_insert) auto
    show "ins (fld sb) l p n s l 4 = 0"
      using assms(1) n sl by (auto simp: ins_def upd_def pbase_def poff_def glist_def)
    show "fld sb' c j = ins (fld sb) l p n s c j" if c: "c \<in> set (l # as @ n # bs)" "j \<in> links" for c j
      using h(2) [of c j] c by (auto simp: S_def)
  qed
  moreover have "links_only sb ?sb1 l S" "links_only sb ?sb2 l S"
    using st nS b by (auto intro!: links_only_put links_only_refl)
  ultimately show thesis using that [of ?sb1 ?sb2] st by simp
qed

lemma splice_out:
  assumes "glist sb l (as @ n # bs)"
  defines "p \<equiv> last (l # as)" and "s \<equiv> follow l bs" and "S \<equiv> set (l # as @ n # bs)"
  obtains sb1 sb2 where
    "do { sb \<leftarrow> gwrite32 sb p s; gwrite32 sb (s + 4) p } = Some sb1"
    "do { sb \<leftarrow> gwrite32 sb (s + 4) p; gwrite32 sb p s } = Some sb2"
    "glist sb1 l (as @ bs)" "glist sb2 l (as @ bs)" "links_only sb sb1 l S" "links_only sb sb2 l S"
    "fresh sb1 l (as @ bs) n" "fresh sb2 l (as @ bs) n"
proof -
  let ?b = "pbase l s" and ?o = "poff l s"
  let ?sb1 = "put (put sb p 0 s) ?b ?o p" and ?sb2 = "put (put sb ?b ?o p) p 0 s"
  note g = glist_mem [OF assms(1)]
  have st: "structs sb S" using g(1) by (simp add: S_def)
  have nS: "l \<in> S" "p \<in> S" by (auto simp: S_def p_def)
  have sS: "s = l + 4 \<or> s \<in> S" by (auto simp: s_def S_def follow_def split: list.splits)
  have sl: "s \<noteq> l" using tail_unat(3) [OF st nS(1,1)] g(3) by (auto simp: s_def follow_def split: list.splits)
  note w = write_pred [OF _ nS(1) sS]
  have b: "?b \<in> S" "?o \<in> links" "?b = l \<or> ?o \<noteq> 8" using w(2-4) [OF st] .
  have "do { sb \<leftarrow> gwrite32 sb p s; gwrite32 sb (s + 4) p } = Some ?sb1"
    "do { sb \<leftarrow> gwrite32 sb (s + 4) p; gwrite32 sb p s } = Some ?sb2"
    using st nS b w(1) by (simp_all add: write_link0 [of _ S])
  moreover have "fld ?sb1 c j = del (fld sb) l p s c j" "fld ?sb2 c j = del (fld sb) l p s c j" if "c \<in> S" "j \<in> links" for c j
  proof -
    have "?o \<noteq> 0" by (simp add: poff_def)
    then show "fld ?sb1 c j = del (fld sb) l p s c j" "fld ?sb2 c j = del (fld sb) l p s c j"
      using that st nS b by (auto simp: fld_put [of _ S] del_def upd_def)
  qed
  moreover have "glist sb' l (as @ bs)"
    if h: "structs sb' S" "\<And>c j. c \<in> S \<Longrightarrow> j \<in> links \<Longrightarrow> fld sb' c j = del (fld sb) l p s c j" for sb'
  proof (rule glist_of_fields)
    show "structs sb' (set (l # as @ bs))" using h(1) by (rule structs_subset) (auto simp: S_def)
    show "distinct (l # as @ bs)" "0 \<notin> set (l # as @ bs)" using g(3,4) by auto
    show "chain (del (fld sb) l p s) l l (as @ bs)"
      unfolding p_def s_def using g(2,3,5) by (intro chain_delete) auto
    show "del (fld sb) l p s l 4 = 0"
      using assms(1) sl by (auto simp: del_def upd_def pbase_def poff_def glist_def)
    show "fld sb' c j = del (fld sb) l p s c j" if c: "c \<in> set (l # as @ bs)" "j \<in> links" for c j
      using h(2) [of c j] c by (auto simp: S_def)
  qed
  moreover have "links_only sb ?sb1 l S" "links_only sb ?sb2 l S"
    using st nS b by (auto intro!: links_only_put links_only_refl)
  moreover have "fresh sb' l (as @ bs) n" if "structs sb' S" for sb'
    using that g(3,4) by (auto simp: fresh_def S_def insert_commute)
  ultimately show thesis using that [of ?sb1 ?sb2] st by simp
qed

section \<open>The entries\<close>

text \<open>C31: On a list in guest memory and a node apart from it, \<open>AddHead\<close> and \<open>Insert\<close> without a
  predecessor put the node first, \<open>AddTail\<close> last and \<open>Insert\<close> behind the given node; only link
  fields of the list and the node are written.\<close>

theorem insertions_refine:
  assumes "glist sb l xs" "fresh sb l xs n"
  shows "(\<exists>sb'. exec_addhead sb l n = Some sb' \<and> glist sb' l (n # xs) \<and> links_only sb sb' l (set (n # l # xs))) \<and>
    (\<exists>sb'. exec_addtail sb l n = Some sb' \<and> glist sb' l (xs @ [n]) \<and> links_only sb sb' l (set (n # l # xs))) \<and>
    (\<forall>q\<in>{0, l}. exec_insert sb l n q = exec_addhead sb l n) \<and>
    (\<forall>as q bs. xs = as @ q # bs \<longrightarrow> (\<exists>sb'. exec_insert sb l n q = Some sb' \<and> glist sb' l (as @ q # n # bs) \<and>
      links_only sb sb' l (set (n # l # xs))))"
proof (intro conjI allI impI ballI)
  note g = glist_mem [OF assms(1)]
  have z: "n + 4 + 4 = n + 8" "l + 4 + 4 = l + 8" by simp_all
  obtain sb1 sb2 where "do { sb \<leftarrow> gwrite32 sb n (follow l xs); sb \<leftarrow> gwrite32 sb (n + 4) l;
      sb \<leftarrow> gwrite32 sb (follow l xs + 4) n; gwrite32 sb l n } = Some sb1"
    "glist sb1 l (n # xs)" "links_only sb sb1 l (set (n # l # xs))"
    by (rule splice_in [of sb l "[]" xs n]) (use assms in auto)
  then show "\<exists>sb'. exec_addhead sb l n = Some sb' \<and> glist sb' l (n # xs) \<and> links_only sb sb' l (set (n # l # xs))"
    using g(7) by (simp add: exec_addhead_def)
  obtain sb1 sb2 where "do { sb \<leftarrow> gwrite32 sb n (l + 4); sb \<leftarrow> gwrite32 sb (n + 4) (last (l # xs));
      sb \<leftarrow> gwrite32 sb (last (l # xs)) n; gwrite32 sb (l + 8) n } = Some sb2"
    "glist sb2 l (xs @ [n])" "links_only sb sb2 l (set (n # l # xs))"
    by (rule splice_in [of sb l xs "[]" n]) (use assms z in \<open>auto simp: follow_def\<close>)
  then show "\<exists>sb'. exec_addtail sb l n = Some sb' \<and> glist sb' l (xs @ [n]) \<and> links_only sb sb' l (set (n # l # xs))"
    using g(8) by (simp add: exec_addtail_def)
  show "exec_insert sb l n q = exec_addhead sb l n" if "q \<in> {0, l}" for q
    using that by (auto simp: exec_insert_def exec_addhead_def)
  show "\<exists>sb'. exec_insert sb l n q = Some sb' \<and> glist sb' l (as @ q # n # bs) \<and> links_only sb sb' l (set (n # l # xs))"
    if xs: "xs = as @ q # bs" for "as" q bs
  proof -
    have q: "q \<noteq> 0" "q \<noteq> l" using g(3,4) xs by auto
    obtain sb1 sb2 where "do { sb \<leftarrow> gwrite32 sb n (follow l bs); sb \<leftarrow> gwrite32 sb (n + 4) q;
        sb \<leftarrow> gwrite32 sb (follow l bs + 4) n; gwrite32 sb q n } = Some sb1"
      "glist sb1 l (as @ q # n # bs)" "links_only sb sb1 l (set (n # l # xs))"
      by (rule splice_in [of sb l "as @ [q]" bs n]) (use assms xs in auto)
    then show ?thesis using glist_node(1) [OF assms(1) xs] q by (simp add: exec_insert_def)
  qed
qed

text \<open>C32: \<open>Remove\<close> takes a node out of its list wherever it stands, \<open>RemHead\<close> and \<open>RemTail\<close> take
  and return the first and the last, and answer 0 for an empty list without a change; the node
  taken can be added again.\<close>

theorem removals_refine:
  assumes "glist sb l xs"
  shows "(\<forall>as n bs. xs = as @ n # bs \<longrightarrow> (\<exists>sb'. exec_remove sb n = Some sb' \<and> glist sb' l (as @ bs) \<and>
      fresh sb' l (as @ bs) n \<and> links_only sb sb' l (set (l # xs)))) \<and>
    (xs = [] \<longrightarrow> exec_remhead sb l = URet (0, sb) \<and> exec_remtail sb l = Some (0, sb)) \<and>
    (\<forall>n bs. xs = n # bs \<longrightarrow> (\<exists>sb'. exec_remhead sb l = URet (n, sb') \<and> glist sb' l bs \<and>
      fresh sb' l bs n \<and> links_only sb sb' l (set (l # xs)))) \<and>
    (\<forall>as n. xs = as @ [n] \<longrightarrow> (\<exists>sb'. exec_remtail sb l = Some (n, sb') \<and> glist sb' l as \<and>
      fresh sb' l as n \<and> links_only sb sb' l (set (l # xs))))"
proof (intro conjI allI impI)
  note g = glist_mem [OF assms]
  have z: "l + 4 + 4 = l + 8" by simp
  have ne: "follow l bs \<noteq> l" if "set bs \<subseteq> set xs" for bs
    using that g(3) tail_unat(3) [OF g(1), of l l] by (auto simp: follow_def split: list.splits)
  show "\<exists>sb'. exec_remove sb n = Some sb' \<and> glist sb' l (as @ bs) \<and> fresh sb' l (as @ bs) n \<and>
      links_only sb sb' l (set (l # xs))" if xs: "xs = as @ n # bs" for "as" n bs
  proof -
    obtain sb1 sb2 where "do { sb \<leftarrow> gwrite32 sb (last (l # as)) (follow l bs);
        gwrite32 sb (follow l bs + 4) (last (l # as)) } = Some sb1"
      "glist sb1 l (as @ bs)" "fresh sb1 l (as @ bs) n" "links_only sb sb1 l (set (l # xs))"
      by (rule splice_out [of sb l "as" n bs]) (use assms xs in auto)
    then show ?thesis using glist_node(1,2) [OF assms xs] by (simp add: exec_remove_def)
  qed
  show "exec_remhead sb l = URet (0, sb)" "exec_remtail sb l = Some (0, sb)" if "xs = []"
    using g(7,8,10) that ne [of "[]"] z read_link [OF g(1), of l 4] assms
    by (simp_all add: exec_remhead_def exec_remtail_def follow_def glist_def)
  show "\<exists>sb'. exec_remhead sb l = URet (n, sb') \<and> glist sb' l bs \<and> fresh sb' l bs n \<and>
      links_only sb sb' l (set (l # xs))" if xs: "xs = n # bs" for n bs
  proof -
    obtain sb1 sb2 where "do { sb \<leftarrow> gwrite32 sb l (follow l bs); gwrite32 sb (follow l bs + 4) l } = Some sb1"
      "glist sb1 l bs" "fresh sb1 l bs n" "links_only sb sb1 l (set (l # xs))"
      by (rule splice_out [of sb l "[]" n bs]) (use assms xs in auto)
    moreover have "follow l xs = n" using xs by (simp add: follow_def)
    moreover have "n \<noteq> l" using g(3) xs by auto
    ultimately show ?thesis
      using glist_node(1,3) [OF assms, of "[]" n bs] g(7) xs
      by (auto simp: exec_remhead_def split: Option.bind_splits)
  qed
  show "\<exists>sb'. exec_remtail sb l = Some (n, sb') \<and> glist sb' l as \<and> fresh sb' l as n \<and>
      links_only sb sb' l (set (l # xs))" if xs: "xs = as @ [n]" for "as" n
  proof -
    have p: "last (l # as) \<noteq> 0" using g(4) xs by (cases "as" rule: rev_cases) auto
    obtain sb1 sb2 where "do { sb \<leftarrow> gwrite32 sb (l + 8) (last (l # as)); gwrite32 sb (last (l # as)) (l + 4) } = Some sb2"
      "glist sb2 l as" "fresh sb2 l as n" "links_only sb sb2 l (set (l # xs))"
      by (rule splice_out [of sb l "as" n "[]"]) (use assms xs z in \<open>auto simp: follow_def\<close>)
    moreover have "last (l # xs) = n" using xs by simp
    ultimately show ?thesis
      using glist_node(2) [OF assms xs] g(8) p by (auto simp: exec_remtail_def simp del: last.simps split: Option.bind_splits)
  qed
qed

section \<open>Priorities and names\<close>

definition prio :: "j4_sandbox \<Rightarrow> u32 \<Rightarrow> int" where
  "prio sb x = sint (jb_mem sb (hof sb x + 9))"

lemma node_pri_struct: "structs sb S \<Longrightarrow> x \<in> S \<Longrightarrow> node_pri sb x = Some (prio sb x)"
  using span_facts(4,5) [of sb x 14 0 10] by (auto simp: structs_def node_pri_def prio_def hof_def)

lemma prio_links_only: "links_only sb sb' l S \<Longrightarrow> x \<in> S \<Longrightarrow> x \<noteq> l \<Longrightarrow> prio sb' x = prio sb x"
  using hof_links_only [of sb sb' l S x] by (simp add: links_only_def prio_def)

lemma enqueue_loop_finds:
  "glist sb l (as @ bs) \<Longrightarrow>
   enqueue_loop sb pri (follow l bs) = Some (URet (follow l (dropWhile (\<lambda>x. pri \<le> prio sb x) bs)))"
proof (induction bs arbitrary: "as")
  case Nil
  then show ?case using glist_mem(10) [OF Nil] by (simp add: follow_def enqueue_loop.simps [of sb pri "l + 4"])
next
  case (Cons b bs)
  note n = glist_node [OF Cons.prems refl] and g = glist_mem(1) [OF Cons.prems]
  have q: "node_pri sb b = Some (prio sb b)" by (rule node_pri_struct [OF g]) simp
  have "enqueue_loop sb pri (follow l bs) = Some (URet (follow l (dropWhile (\<lambda>x. pri \<le> prio sb x) bs)))"
    by (rule Cons.IH [of "as @ [b]"]) (use Cons.prems in simp)
  then show ?case
    using n(1,3) q by (simp add: enqueue_loop.simps [of sb pri b] follow_def [of l "b # _"] not_le)
qed

text \<open>\<open>Enqueue\<close> into a list in guest memory returns, and puts the node behind all nodes up to
  the first of lower priority: a list sorted by priority stays sorted, and nodes of one priority
  stay in the order they came.\<close>

theorem enqueue_inserts:
  assumes "glist sb l xs" "fresh sb l xs n"
  shows "\<exists>sb'. exec_enqueue sb l n = Some (URet sb') \<and> links_only sb sb' l (set (n # l # xs)) \<and>
    glist sb' l (takeWhile (\<lambda>x. prio sb n \<le> prio sb x) xs @ n # dropWhile (\<lambda>x. prio sb n \<le> prio sb x) xs)"
proof -
  let ?P = "\<lambda>x. prio sb n \<le> prio sb x"
  let ?as = "takeWhile ?P xs" and ?bs = "dropWhile ?P xs"
  let ?p = "last (l # ?as)" and ?s = "follow l ?bs"
  note g = glist_mem [OF assms(1)]
  have n: "node_pri sb n = Some (prio sb n)"
    using assms(2) by (intro node_pri_struct [of sb "set (n # l # xs)"]) (simp_all add: fresh_def)
  have e: "enqueue_loop sb (prio sb n) (follow l xs) = Some (URet ?s)"
    by (rule enqueue_loop_finds [of sb l "[]"]) (use assms(1) in simp)
  have split: "xs = ?as @ ?bs" by simp
  have pr: "gread32 sb (?s + 4) = Some ?p"
  proof (cases ?bs)
    case Nil
    then have "?as = xs" using split by (metis append_Nil2)
    moreover have "?s + 4 = l + 8" by (simp only: Nil follow_def list.case) simp
    ultimately show ?thesis using g(8) by metis
  next
    case (Cons b bs)
    then have "xs = ?as @ b # bs" using split by metis
    from glist_node(2) [OF assms(1) this] show ?thesis using Cons by (simp add: follow_def)
  qed
  obtain sb1 sb2 where "do { sb \<leftarrow> gwrite32 sb n ?s; sb \<leftarrow> gwrite32 sb (n + 4) ?p; sb \<leftarrow> gwrite32 sb ?p n; gwrite32 sb (?s + 4) n } = Some sb2"
    "glist sb2 l (?as @ n # ?bs)" "links_only sb sb2 l (set (n # l # ?as @ ?bs))"
    by (rule splice_in [of sb l ?as ?bs n]) (use assms in auto)
  then show ?thesis
    using n e pr g(7) by (simp add: exec_enqueue_def try_read_def try_call_def del: last.simps)
qed

fun enqueue_all :: "j4_sandbox \<Rightarrow> u32 \<Rightarrow> u32 list \<Rightarrow> j4_sandbox ures option" where
  "enqueue_all sb l [] = Some (URet sb)"
| "enqueue_all sb l (n # ns) = try_call (exec_enqueue sb l n) (\<lambda>sb. enqueue_all sb l ns)"

lemma enqueue_keeps_sorted:
  assumes "glist sb l (sort_key (\<lambda>x. - prio sb x) xs)" "fresh sb l xs n"
  obtains sb' where "exec_enqueue sb l n = Some (URet sb')" "links_only sb sb' l (set (n # l # xs))"
    "glist sb' l (sort_key (\<lambda>x. - prio sb x) (xs @ [n]))"
proof -
  have "fresh sb l (sort_key (\<lambda>x. - prio sb x) xs) n" using assms(2) by (simp add: fresh_def)
  from enqueue_inserts [OF assms(1) this] show thesis using that by (auto simp: sort_key_snoc)
qed

text \<open>C33: Enqueueing nodes one after the other into an empty list returns and leaves the list
  sorted by falling priority, nodes of one priority in the order they were queued.\<close>

theorem enqueue_all_sorts:
  assumes "glist sb l []" "structs sb (set (l # ns))" "distinct (l # ns)" "0 \<notin> set ns"
  shows "\<exists>sb'. enqueue_all sb l ns = Some (URet sb') \<and> glist sb' l (sort_key (\<lambda>x. - prio sb x) ns) \<and>
    links_only sb sb' l (set (l # ns))"
proof -
  let ?f = "\<lambda>x. - prio sb x" and ?S = "set (l # ns)"
  have "\<exists>sb'. enqueue_all sb0 l ns' = Some (URet sb') \<and> glist sb' l (sort_key ?f (done' @ ns')) \<and> links_only sb sb' l ?S"
    if "glist sb0 l (sort_key ?f done')" "links_only sb sb0 l ?S" "ns = done' @ ns'" for sb0 done' ns'
    using that
  proof (induction ns' arbitrary: sb0 done')
    case (Cons n ns')
    have st: "structs sb0 ?S" using structs_links_only [OF Cons.prems(2)] assms(2) by simp
    have f: "prio sb0 x = prio sb x" if "x \<in> set ns" for x
      using prio_links_only [OF Cons.prems(2)] that assms(3) by auto
    have k: "sort_key (\<lambda>x. - prio sb0 x) xs = sort_key ?f xs" if "set xs \<subseteq> set ns" for xs
      using that f by (intro sort_key_eq) auto
    have "fresh sb0 l done' n"
      using st assms(3,4) Cons.prems(3) unfolding fresh_def by (auto elim!: structs_subset)
    moreover have "set done' \<subseteq> set ns" "set (done' @ [n]) \<subseteq> set ns" using Cons.prems(3) by auto
    note kk = k [OF this(1)] k [OF this(2)]
    moreover have "glist sb0 l (sort_key (\<lambda>x. - prio sb0 x) done')" unfolding kk by (rule Cons.prems(1))
    ultimately obtain sb1 where sb1: "exec_enqueue sb0 l n = Some (URet sb1)" "links_only sb0 sb1 l (set (n # l # done'))"
      "glist sb1 l (sort_key ?f (done' @ [n]))"
      using enqueue_keeps_sorted [of sb0 l done' n] unfolding kk by metis
    have "links_only sb sb1 l ?S"
      by (rule links_only_trans [OF Cons.prems(2) sb1(2)]) (use Cons.prems(3) assms(2) in auto)
    from Cons.IH [OF sb1(3) this] show ?case using sb1(1) Cons.prems(3) by (auto simp: try_call_def)
  qed auto
  from this [of sb "[]" ns] show ?thesis using assms(1) links_only_refl by auto
qed

lemma findname_loop_finds:
  "glist sb l (as @ bs) \<Longrightarrow> findname_loop sb s (follow l bs) =
   Some (URet (case List.find (\<lambda>x. let nm = sb_read_be32 sb (hof sb x + 10) in nm \<noteq> 0 \<and> guest_cstr sb nm \<and> c_str sb nm = s) bs
     of None \<Rightarrow> 0 | Some x \<Rightarrow> x))"
proof (induction bs arbitrary: "as")
  case Nil
  then show ?case
    using glist_mem(6,10) [OF Nil] by (simp add: follow_def findname_loop.simps [of sb s "l + 4"])
next
  case (Cons b bs)
  note n = glist_node [OF Cons.prems refl] and g = glist_mem [OF Cons.prems]
  have "gread32 sb (b + 10) = Some (sb_read_be32 sb (hof sb b + 10))"
    using read32_at [of sb b 14 10] g(1) by (simp add: structs_def)
  moreover have "b \<noteq> 0" using g(4) by auto
  moreover have "findname_loop sb s (follow l bs) = Some (URet (case List.find (\<lambda>x. let nm = sb_read_be32 sb (hof sb x + 10) in
      nm \<noteq> 0 \<and> guest_cstr sb nm \<and> c_str sb nm = s) bs of None \<Rightarrow> 0 | Some x \<Rightarrow> x))"
    by (rule Cons.IH [of "as @ [b]"]) (use Cons.prems in simp)
  ultimately show ?case
    using n(1,3) by (simp add: findname_loop.simps [of sb s b] follow_def [of l "b # _"] Let_def)
qed

text \<open>\<open>FindName\<close> on a list in guest memory returns and answers the first node of that name, or
  0 when there is none.\<close>

theorem findname_finds_first:
  assumes "glist sb l xs" "guest_cstr sb want"
  shows "exec_findname sb l want = Some (URet (case List.find (\<lambda>x. let nm = sb_read_be32 sb (hof sb x + 10) in
      nm \<noteq> 0 \<and> guest_cstr sb nm \<and> c_str sb nm = c_str sb want) xs of None \<Rightarrow> 0 | Some x \<Rightarrow> x))"
proof -
  have "l \<noteq> 0" using glist_mem(4) [OF assms(1)] by auto
  then show ?thesis
    using assms(2) glist_mem(7) [OF assms(1)] findname_loop_finds [of sb l "[]" xs "c_str sb want"] assms(1)
    by (simp add: exec_findname_def try_read_def)
qed

lemma newminlist_empty:
  assumes "structs sb S" "l \<in> S" "l \<noteq> 0"
  obtains sb' where "exec_newminlist sb l = Some sb'" "glist sb' l []" "links_only sb sb' l S" "structs sb' S"
proof -
  let ?sb = "put (put (put sb l 0 (l + 4)) l 4 0) l 8 l"
  have "exec_newminlist sb l = Some ?sb"
    using assms by (simp add: exec_newminlist_def write_link0 [of _ S] write_link [of _ S])
  moreover have "structs sb {l}" using assms(1) by (rule structs_subset) (use assms(2) in simp)
  then have "glist ?sb l []"
    using assms by (simp add: glist_def fld_put [of _ S])
  moreover have "links_only sb ?sb l S"
    using assms by (intro links_only_put links_only_refl) simp_all
  ultimately show thesis using that [of ?sb] assms(1) by simp
qed

section \<open>A small arena\<close>

definition demo_box :: j4_sandbox where
  "demo_box = \<lparr>jb_mem = (\<lambda>i. if i = 0x29 then 5 else 0), jb_origin = 0x1000, jb_size = 0x48, next_alloc = 0x1000\<rparr>"

lemma demo_structs: "structs demo_box {0x1000, 0x1010, 0x1020, 0x1030}"
  by (simp add: structs_def demo_box_def arena_ok_def span_ok_nat apart_def)

lemma demo_prio: "prio demo_box 0x1010 = 0" "prio demo_box 0x1020 = 5" "prio demo_box 0x1030 = 0"
  by (simp_all add: prio_def demo_box_def hof_def)

lemma demo_list:
  obtains sb where "glist sb 0x1000 []" "structs sb {0x1000, 0x1010, 0x1020, 0x1030}"
    "prio sb 0x1010 = 0" "prio sb 0x1020 = 5" "prio sb 0x1030 = 0"
proof -
  obtain sb where "glist sb 0x1000 []" "links_only demo_box sb 0x1000 {0x1000, 0x1010, 0x1020, 0x1030}"
    "structs sb {0x1000, 0x1010, 0x1020, 0x1030}"
    by (rule newminlist_empty [OF demo_structs, of "0x1000"]) auto
  then show thesis using demo_prio prio_links_only by (intro that [of sb]) auto
qed

theorem insertions_refine_witness:
  "\<exists>sb sb'. glist sb 0x1000 [] \<and> exec_addtail sb 0x1000 0x1010 = Some sb' \<and> glist sb' 0x1000 [0x1010]"
proof -
  obtain sb where sb: "glist sb 0x1000 []" "structs sb {0x1000, 0x1010, 0x1020, 0x1030}" by (rule demo_list)
  have "fresh sb 0x1000 [] 0x1010" using structs_subset [OF sb(2)] by (simp add: fresh_def)
  from insertions_refine [OF sb(1) this] sb(1) show ?thesis by auto
qed

theorem enqueue_inserts_witness:
  "\<exists>sb sb'. exec_enqueue sb 0x1000 0x1020 = Some (URet sb') \<and> glist sb' 0x1000 [0x1020]"
proof -
  obtain sb where sb: "glist sb 0x1000 []" "structs sb {0x1000, 0x1010, 0x1020, 0x1030}" by (rule demo_list)
  have "fresh sb 0x1000 [] 0x1020" using structs_subset [OF sb(2)] by (simp add: fresh_def)
  from enqueue_inserts [OF sb(1) this] show ?thesis by auto
qed

theorem enqueue_all_sorts_witness:
  "\<exists>sb sb'. enqueue_all sb 0x1000 [0x1010, 0x1020, 0x1030] = Some (URet sb') \<and>
     glist sb' 0x1000 [0x1020, 0x1010, 0x1030]"
proof -
  obtain sb where sb: "glist sb 0x1000 []" "structs sb {0x1000, 0x1010, 0x1020, 0x1030}"
    "prio sb 0x1010 = 0" "prio sb 0x1020 = 5" "prio sb 0x1030 = 0" by (rule demo_list)
  have "structs sb (set [0x1000, 0x1010, 0x1020, 0x1030])" using sb(2) by simp
  from enqueue_all_sorts [OF sb(1) this] sb(3-5) show ?thesis by auto
qed

text \<open>A header and two nodes named \<open>a\<close> and \<open>b\<close>.\<close>

definition demo_pair :: j4_sandbox where
  "demo_pair = demo_box\<lparr>jb_mem := (\<lambda>i. if i < 72 then [
     0, 0, 16, 16, 0, 0, 0, 0, 0, 0, 16, 32, 0, 0, 0, 0, 0, 0, 16, 32, 0, 0, 16, 0, 0, 0, 0, 0, 16, 64, 0, 0, 0, 0, 16, 4, 0, 0, 16, 16, 0, 5, 0, 0, 16, 66, 0, 0, 0, 0, 0, 0, 0, 0, 0, 0, 0, 0, 0, 0, 0, 0, 0, 0, 97, 0, 98, 0, 0, 0, 0, 0] ! i else 0)\<rparr>"

lemma demo_pair_list: "glist demo_pair 0x1000 [0x1010, 0x1020]"
proof -
  have "structs demo_pair (set [0x1000, 0x1010, 0x1020])"
    by (simp add: structs_def demo_pair_def demo_box_def arena_ok_def span_ok_nat apart_def)
  moreover have "fld demo_pair 0x1000 4 = 0" "chain (fld demo_pair) 0x1000 0x1000 [0x1010, 0x1020]" by code_simp+
  ultimately show ?thesis by (simp add: glist_def)
qed

theorem removals_refine_witness:
  "\<exists>sb'. exec_remhead demo_pair 0x1000 = URet (0x1010, sb') \<and> glist sb' 0x1000 [0x1020]"
  using removals_refine [OF demo_pair_list] by auto

theorem findname_finds_first_witness: "exec_findname demo_pair 0x1000 0x1042 = Some (URet 0x1020)"
proof -
  have "guest_cstr demo_pair 0x1042" by code_simp
  from findname_finds_first [OF demo_pair_list this]
  have "exec_findname demo_pair 0x1000 0x1042 = Some (URet (case List.find (\<lambda>x. let nm = sb_read_be32 demo_pair (hof demo_pair x + 10) in
      nm \<noteq> 0 \<and> guest_cstr demo_pair nm \<and> c_str demo_pair nm = c_str demo_pair 0x1042) [0x1010, 0x1020] of None \<Rightarrow> 0 | Some x \<Rightarrow> x))" .
  moreover have "sb_read_be32 demo_pair (hof demo_pair 0x1010 + 10) = 0x1040"
    "sb_read_be32 demo_pair (hof demo_pair 0x1020 + 10) = 0x1042" by code_simp+
  moreover have "c_str demo_pair 0x1040 = [97]" "c_str demo_pair 0x1042 = [98]" by code_simp+
  ultimately show ?thesis using \<open>guest_cstr demo_pair 0x1042\<close> by (simp add: Let_def)
qed

end
