(* ===== verification/EmuTree.thy ===== *)
theory EmuTree
  imports UtilTags EmuCells
begin

text \<open>
  The AVL entries of exec on guest memory (\<open>hosted/emu68k/emu68k_exec.c\<close>). A node has its left
  link at 0, its right link at 4, its parent at 8 and its balance at 12. An insertion or removal
  collects the nodes in order and rebuilds the whole tree.

  \<open>UErr\<close> is the return value 1, or the value \<open>UINT32_MAX\<close> of a helper, with the message; \<open>UUndef\<close>
  is a host access outside the arena. The guest routine that compares is a parameter, and so is
  whether the host has memory for an array of nodes.
\<close>

definition AVL_LEFT_OFF :: u32 where "AVL_LEFT_OFF = 0"
definition AVL_RIGHT_OFF :: u32 where "AVL_RIGHT_OFF = 4"
definition AVL_PARENT_OFF :: u32 where "AVL_PARENT_OFF = 8"

lemmas avl_offs = AVL_LEFT_OFF_def AVL_RIGHT_OFF_def AVL_PARENT_OFF_def

definition ubind :: "'a ures \<Rightarrow> ('a \<Rightarrow> 'b ures) \<Rightarrow> 'b ures" where
  "ubind m f = (case m of URet v \<Rightarrow> f v | UErr e \<Rightarrow> UErr e | UUndef \<Rightarrow> UUndef)"

lemma ubind_simps [simp]: "ubind (URet v) f = f v" "ubind (UErr e) f = UErr e" "ubind UUndef f = UUndef"
  by (simp_all add: ubind_def)

text \<open>A host access.\<close>

definition host :: "'a option \<Rightarrow> 'a ures" where
  "host m = (case m of Some v \<Rightarrow> URet v | None \<Rightarrow> UUndef)"

lemma host_Some [simp]: "host (Some v) = URet v" by (simp add: host_def)

section \<open>Walking\<close>

definition avl_outside :: string where "avl_outside = ''AVL node is outside guest memory''"
definition avl_cycle :: string where "avl_cycle = ''AVL tree exceeds 65536 nodes or contains a cycle''"

text \<open>The first argument counts the steps left: the guard allows 65536.\<close>

fun extreme_loop :: "nat \<Rightarrow> j4_sandbox \<Rightarrow> u32 \<Rightarrow> bool \<Rightarrow> u32 ures" where
  "extreme_loop 0 sb node direction = UErr avl_cycle"
| "extreme_loop (Suc g) sb node direction =
     (if node = 0 then URet 0
      else if \<not> span_ok sb node 16 then UErr avl_outside
      else ubind (host (gread32 sb (node + (if direction then AVL_RIGHT_OFF else AVL_LEFT_OFF)))) (\<lambda>nxt.
        if nxt = 0 then URet node else extreme_loop g sb nxt direction))"

definition avl_extreme :: "j4_sandbox \<Rightarrow> u32 \<Rightarrow> bool \<Rightarrow> u32 ures" where
  "avl_extreme sb node direction = extreme_loop 65537 sb node direction"

fun climb_loop :: "nat \<Rightarrow> j4_sandbox \<Rightarrow> u32 \<Rightarrow> u32 \<Rightarrow> bool \<Rightarrow> u32 ures" where
  "climb_loop 0 sb child parent nxt = UErr ''AVL parent chain exceeds 65536 nodes or contains a cycle''"
| "climb_loop (Suc g) sb child parent nxt =
     (if parent = 0 then URet 0
      else if \<not> span_ok sb parent 16 then UErr ''AVL parent is outside guest memory''
      else ubind (host (gread32 sb (parent + (if nxt then AVL_LEFT_OFF else AVL_RIGHT_OFF)))) (\<lambda>link.
        if link = child then URet parent
        else ubind (host (gread32 sb (parent + AVL_PARENT_OFF))) (\<lambda>up. climb_loop g sb parent up nxt)))"

definition avl_adjacent :: "j4_sandbox \<Rightarrow> u32 \<Rightarrow> bool \<Rightarrow> u32 ures" where
  "avl_adjacent sb node nxt =
     (if node = 0 then URet 0
      else if \<not> span_ok sb node 16 then UErr avl_outside
      else ubind (host (gread32 sb (node + (if nxt then AVL_RIGHT_OFF else AVL_LEFT_OFF)))) (\<lambda>branch.
        if branch \<noteq> 0 then avl_extreme sb branch (\<not> nxt)
        else ubind (host (gread32 sb (node + AVL_PARENT_OFF))) (\<lambda>parent. climb_loop 65537 sb node parent nxt)))"

text \<open>The guest routine \<open>callback (node, key)\<close>: the run after it and \<open>d0\<close>.\<close>

type_synonym guest_sub = "emu_run \<Rightarrow> u32 \<Rightarrow> u32 \<Rightarrow> u32 \<Rightarrow> (emu_run \<times> u32) ures"

definition avl_compare_key :: "guest_sub \<Rightarrow> emu_run \<Rightarrow> u32 \<Rightarrow> u32 \<Rightarrow> u32 \<Rightarrow> (emu_run \<times> int) ures" where
  "avl_compare_key run_sub r callback node key =
     (if callback = 0 then UErr ''AVL key comparison callback is NULL''
      else ubind (run_sub r callback node key) (\<lambda>(r, result). URet (r, sint result)))"

text \<open>The array grows from 32 entries by doubling; \<open>mem n\<close> is whether \<open>realloc\<close> gives \<open>n\<close>. At
  65536 entries the growth is refused, so 65537 rounds are never used up.\<close>

fun collect_loop :: "nat \<Rightarrow> (nat \<Rightarrow> bool) \<Rightarrow> j4_sandbox \<Rightarrow> u32 \<Rightarrow> u32 list \<Rightarrow> nat \<Rightarrow> u32 list ures" where
  "collect_loop 0 mem sb node nodes cap = UErr ''AVL tree exceeds 65536 nodes''"
| "collect_loop (Suc g) mem sb node nodes cap =
     (if node = 0 then URet nodes
      else ubind
        (if length nodes = cap then
           (let newcap = (if cap \<noteq> 0 then cap * 2 else 32) in
            if newcap > 65536 then UErr ''AVL tree exceeds 65536 nodes''
            else if \<not> mem newcap then UErr ''host memory exhausted walking AVL tree''
            else URet newcap)
         else URet cap) (\<lambda>cap.
        ubind (avl_adjacent sb node True) (\<lambda>nxt.
          if nxt = node then UErr ''AVL traversal contains a self-cycle''
          else collect_loop g mem sb nxt (nodes @ [node]) cap)))"

definition avl_collect :: "(nat \<Rightarrow> bool) \<Rightarrow> j4_sandbox \<Rightarrow> u32 \<Rightarrow> u32 list ures" where
  "avl_collect mem sb root = ubind (avl_extreme sb root False) (\<lambda>node. collect_loop 65537 mem sb node [] 0)"

section \<open>Rebuilding\<close>

text \<open>The root of the range, its height and the arena.\<close>

function avl_rebuild_range :: "j4_sandbox \<Rightarrow> u32 list \<Rightarrow> nat \<Rightarrow> nat \<Rightarrow> u32 \<Rightarrow> (u32 \<times> int \<times> j4_sandbox) option" where
  "avl_rebuild_range sb nodes lo hi parent =
     (if lo \<ge> hi then Some (0, 0, sb)
      else (let mid = lo + (hi - lo) div 2; node = nodes ! mid in do {
        (left, lh, sb) \<leftarrow> avl_rebuild_range sb nodes lo mid node;
        (right, rh, sb) \<leftarrow> avl_rebuild_range sb nodes (mid + 1) hi node;
        sb \<leftarrow> gwrite32 sb (node + AVL_LEFT_OFF) left;
        sb \<leftarrow> gwrite32 sb (node + AVL_RIGHT_OFF) right;
        sb \<leftarrow> gwrite32 sb (node + AVL_PARENT_OFF) parent;
        sb \<leftarrow> gwrite32 sb (node + 12) (word_of_int (rh - lh));
        Some (node, (if lh > rh then lh else rh) + 1, sb) }))"
  by pat_completeness auto
termination
  by (relation "measure (\<lambda>(sb, nodes, lo, hi, parent). hi - lo)") auto

declare avl_rebuild_range.simps [simp del]

definition avl_rebuild :: "j4_sandbox \<Rightarrow> u32 \<Rightarrow> u32 list \<Rightarrow> j4_sandbox option" where
  "avl_rebuild sb rootp nodes = do {
     (root, height, sb) \<leftarrow> avl_rebuild_range sb nodes 0 (length nodes) 0;
     gwrite32 sb rootp root }"

section \<open>The entries\<close>

definition box_of :: "emu_run \<Rightarrow> j4_sandbox \<Rightarrow> emu_run" where
  "box_of r sb = r\<lparr>e_box := sb\<rparr>"

text \<open>The scan of \<open>AVL_AddNode\<close>: an equal node, or the place of the new one.\<close>

fun add_scan :: "guest_sub \<Rightarrow> emu_run \<Rightarrow> u32 \<Rightarrow> u32 \<Rightarrow> u32 list \<Rightarrow> nat \<Rightarrow> (emu_run \<times> (u32 + nat)) ures" where
  "add_scan run_sub r callback key [] at = URet (r, Inr at)"
| "add_scan run_sub r callback key (node # nodes) at =
     ubind (avl_compare_key run_sub r callback node key) (\<lambda>(r, cmp).
       if cmp = 0 then URet (r, Inl node)
       else if cmp > 0 then URet (r, Inr at)
       else add_scan run_sub r callback key nodes (at + 1))"

definition avl_add_node :: "guest_sub \<Rightarrow> (nat \<Rightarrow> bool) \<Rightarrow> emu_run \<Rightarrow> u32 \<Rightarrow> u32 \<Rightarrow> u32 \<Rightarrow> (emu_run \<times> u32) ures" where
  "avl_add_node run_sub mem r rootp node callback =
     (if \<not> span_ok (e_box r) rootp 4 \<or> \<not> span_ok (e_box r) node 16
      then UErr ''AVL_AddNode root or node is outside guest memory''
      else ubind (host (gread32 (e_box r) rootp)) (\<lambda>root.
        ubind (avl_collect mem (e_box r) root) (\<lambda>nodes.
          ubind (add_scan run_sub r callback node nodes 0) (\<lambda>(r, found).
            case found of
              Inl x \<Rightarrow> URet (r, x)
            | Inr at \<Rightarrow>
                if \<not> mem (length nodes + 1) then UErr ''host memory exhausted adding AVL node''
                else ubind (host (avl_rebuild (e_box r) rootp (take at nodes @ node # drop at nodes))) (\<lambda>sb.
                  URet (box_of r sb, 0))))))"

text \<open>The scans of the two removals: the index of the node, if any.\<close>

fun rem_scan_address :: "u32 \<Rightarrow> u32 list \<Rightarrow> nat \<Rightarrow> nat option" where
  "rem_scan_address wanted [] at = None"
| "rem_scan_address wanted (node # nodes) at =
     (if node = wanted then Some at else rem_scan_address wanted nodes (at + 1))"

fun rem_scan_key :: "guest_sub \<Rightarrow> emu_run \<Rightarrow> u32 \<Rightarrow> u32 \<Rightarrow> u32 list \<Rightarrow> nat \<Rightarrow> (emu_run \<times> nat option) ures" where
  "rem_scan_key run_sub r callback key [] at = URet (r, None)"
| "rem_scan_key run_sub r callback key (node # nodes) at =
     ubind (avl_compare_key run_sub r callback node key) (\<lambda>(r, cmp).
       if cmp = 0 then URet (r, Some at)
       else if cmp > 0 then URet (r, None)
       else rem_scan_key run_sub r callback key nodes (at + 1))"

text \<open>\<open>if (removed)\<close> is also false for a node at address 0.\<close>

definition avl_unlink :: "emu_run \<Rightarrow> u32 \<Rightarrow> u32 list \<Rightarrow> nat option \<Rightarrow> (emu_run \<times> u32) ures" where
  "avl_unlink r rootp nodes found = (case found of
     None \<Rightarrow> URet (r, 0)
   | Some at \<Rightarrow>
       (let removed = nodes ! at in
        if removed = 0 then URet (r, 0)
        else ubind (host (do {
            sb \<leftarrow> avl_rebuild (e_box r) rootp (take at nodes @ drop (at + 1) nodes);
            sb \<leftarrow> gwrite32 sb (removed + AVL_LEFT_OFF) 0;
            sb \<leftarrow> gwrite32 sb (removed + AVL_RIGHT_OFF) 0;
            sb \<leftarrow> gwrite32 sb (removed + AVL_PARENT_OFF) 0;
            gwrite32 sb (removed + 12) 0 })) (\<lambda>sb. URet (box_of r sb, removed))))"

definition avl_rem_node :: "guest_sub \<Rightarrow> (nat \<Rightarrow> bool) \<Rightarrow> emu_run \<Rightarrow> bool \<Rightarrow> u32 \<Rightarrow> u32 \<Rightarrow> u32 \<Rightarrow> (emu_run \<times> u32) ures" where
  "avl_rem_node run_sub mem r by_address rootp wanted callback =
     (if \<not> span_ok (e_box r) rootp 4 then UErr ''AVL remove root pointer is outside guest memory''
      else ubind (host (gread32 (e_box r) rootp)) (\<lambda>root.
        ubind (avl_collect mem (e_box r) root) (\<lambda>nodes.
          if by_address then avl_unlink r rootp nodes (rem_scan_address wanted nodes 0)
          else ubind (rem_scan_key run_sub r callback wanted nodes 0) (\<lambda>(r, found). avl_unlink r rootp nodes found))))"

text \<open>The three searches by key.\<close>

datatype avl_find = FindNode | FindPrev | FindNext

fun find_loop :: "nat \<Rightarrow> guest_sub \<Rightarrow> emu_run \<Rightarrow> avl_find \<Rightarrow> u32 \<Rightarrow> u32 \<Rightarrow> u32 \<Rightarrow> u32 \<Rightarrow> (emu_run \<times> u32) ures" where
  "find_loop 0 run_sub r which callback key node candidate = UErr avl_cycle"
| "find_loop (Suc g) run_sub r which callback key node candidate =
     (if node = 0 then URet (r, candidate)
      else if \<not> span_ok (e_box r) node 16 then UErr avl_outside
      else ubind (avl_compare_key run_sub r callback node key) (\<lambda>(r, cmp).
        if cmp = 0 then URet (r, node)
        else (let candidate = (if which = FindPrev \<and> cmp < 0 then node else candidate);
                  candidate = (if which = FindNext \<and> cmp > 0 then node else candidate) in
          ubind (host (gread32 (e_box r) (node + (if cmp < 0 then AVL_RIGHT_OFF else AVL_LEFT_OFF)))) (\<lambda>node.
            find_loop g run_sub r which callback key node candidate))))"

definition avl_find_by_key :: "guest_sub \<Rightarrow> emu_run \<Rightarrow> avl_find \<Rightarrow> u32 \<Rightarrow> u32 \<Rightarrow> u32 \<Rightarrow> (emu_run \<times> u32) ures" where
  "avl_find_by_key run_sub r which node key callback = find_loop 65537 run_sub r which callback key node 0"

end
