(* ===== verification/EmuTreeWalk.thy ===== *)
theory EmuTreeWalk
  imports EmuTree "HOL-Library.Tree"
begin

text \<open>
  AVL trees in guest memory against trees of node addresses, and the walk in order: the
  collection gives exactly the nodes from left to right, or fails above 65536.
\<close>

section \<open>Trees in memory\<close>

text \<open>The fields of \<open>F\<close> hold the tree below \<open>p\<close>, whose parent is \<open>par\<close>, with every balance.\<close>

fun atree :: "(u32 \<Rightarrow> u32 \<Rightarrow> u32) \<Rightarrow> u32 \<Rightarrow> u32 \<Rightarrow> u32 tree \<Rightarrow> bool" where
  "atree F par p Leaf \<longleftrightarrow> p = 0"
| "atree F par p (Node l x r) \<longleftrightarrow> p = x \<and> x \<noteq> 0 \<and> F x 8 = par \<and>
     F x 12 = word_of_int (int (height r) - int (height l)) \<and> atree F x (F x 0) l \<and> atree F x (F x 4) r"

definition node_fields :: "u32 set" where "node_fields = {0, 4, 8, 12}"

lemma atree_cong:
  "(\<And>x j. x \<in> set_tree t \<Longrightarrow> j \<in> node_fields \<Longrightarrow> F x j = G x j) \<Longrightarrow> atree F par p t = atree G par p t"
  by (induction t arbitrary: par p) (auto simp: node_fields_def)

lemma atree_root: "atree F par p t \<Longrightarrow> (p = 0 \<longleftrightarrow> t = Leaf) \<and> (t \<noteq> Leaf \<longrightarrow> p \<in> set_tree t)"
  by (cases t) auto

lemma atree_nonzero: "atree F par p t \<Longrightarrow> 0 \<notin> set_tree t"
  by (induction t arbitrary: par p) auto

text \<open>What the walk reads of a set of nodes.\<close>

definition reads :: "j4_sandbox \<Rightarrow> (u32 \<Rightarrow> u32 \<Rightarrow> u32) \<Rightarrow> u32 set \<Rightarrow> bool" where
  "reads sb F S \<longleftrightarrow> (\<forall>x\<in>S. span_ok sb x 16 \<and> gread32 sb x = Some (F x 0) \<and>
     gread32 sb (x + 4) = Some (F x 4) \<and> gread32 sb (x + 8) = Some (F x 8))"

lemma reads_subset: "reads sb F S \<Longrightarrow> T \<subseteq> S \<Longrightarrow> reads sb F T"
  by (auto simp: reads_def)

lemma reads_node: "reads sb F S \<Longrightarrow> x \<in> S \<Longrightarrow> span_ok sb x 16 \<and> gread32 sb x = Some (F x 0) \<and>
     gread32 sb (x + 4) = Some (F x 4) \<and> gread32 sb (x + 8) = Some (F x 8)"
  by (auto simp: reads_def)

section \<open>Steps of the walk\<close>

lemma extreme_leftmost:
  "atree F par p t \<Longrightarrow> reads sb F (set_tree t) \<Longrightarrow> t \<noteq> Leaf \<Longrightarrow> height t \<le> g \<Longrightarrow>
   extreme_loop g sb p False = URet (hd (inorder t))"
proof (induction t arbitrary: par p g)
  case (Node l x r)
  obtain g' where g: "g = Suc g'" using Node.prems(4) by (cases g) auto
  have x: "p = x" "x \<noteq> 0" "span_ok sb x 16" "gread32 sb x = Some (F x 0)" and l: "atree F x (F x 0) l"
    using Node.prems by (auto dest: reads_node)
  show ?case
  proof (cases "l = Leaf")
    case True
    then show ?thesis using x l g by (simp add: avl_offs)
  next
    case False
    have "extreme_loop g' sb (F x 0) False = URet (hd (inorder l))"
      using Node.IH(1) [OF l] False Node.prems(2,4) g by (auto dest: reads_subset)
    moreover have "F x 0 \<noteq> 0" using atree_root [OF l] False by simp
    ultimately show ?thesis using x g False by (simp add: avl_offs)
  qed
qed simp

lemma avl_extreme_left:
  "atree F par p t \<Longrightarrow> reads sb F (set_tree t) \<Longrightarrow> height t \<le> 65537 \<Longrightarrow>
   avl_extreme sb p False = URet (hd (inorder t @ [0]))"
proof (cases "t = Leaf")
  case True
  have "extreme_loop g sb 0 False = URet 0" if "0 < g" for g using that by (cases g) auto
  from this [of 65537] show "atree F par p t \<Longrightarrow> ?thesis" using True by (simp add: avl_extreme_def)
next
  case False
  then show "atree F par p t \<Longrightarrow> reads sb F (set_tree t) \<Longrightarrow> height t \<le> 65537 \<Longrightarrow> ?thesis"
    using extreme_leftmost [of F par p t sb 65537] by (simp add: avl_extreme_def)
qed

text \<open>Each address leads to the next.\<close>

fun linked :: "j4_sandbox \<Rightarrow> u32 list \<Rightarrow> bool" where
  "linked sb (x # y # zs) \<longleftrightarrow> avl_adjacent sb x True = URet y \<and> linked sb (y # zs)"
| "linked sb _ \<longleftrightarrow> True"

lemma linked_append: "linked sb (xs @ [x]) \<Longrightarrow> linked sb (x # ys) \<Longrightarrow> linked sb (xs @ x # ys)"
  by (induction xs rule: linked.induct) (auto split: list.splits)

lemma linked_Cons: "avl_adjacent sb x True = URet (hd ys) \<Longrightarrow> linked sb ys \<Longrightarrow> linked sb (x # ys)"
  by (cases ys) auto

lemma climb_step:
  "par \<noteq> 0 \<Longrightarrow> reads sb F S \<Longrightarrow> par \<in> S \<Longrightarrow>
   climb_loop (Suc g) sb child par True = (if F par 0 = child then URet par else climb_loop g sb par (F par 8) True)"
  by (auto dest: reads_node simp: avl_offs)

lemma adjacent_node:
  "x \<noteq> 0 \<Longrightarrow> reads sb F S \<Longrightarrow> x \<in> S \<Longrightarrow>
   avl_adjacent sb x True = (if F x 4 \<noteq> 0 then avl_extreme sb (F x 4) False else climb_loop 65537 sb x (F x 8) True)"
  by (auto dest: reads_node simp: avl_offs avl_adjacent_def)

text \<open>Where climbing from the root of a subtree gives \<open>z\<close>, its nodes are linked, and lead to \<open>z\<close>.\<close>

lemma subtree_linked:
  "atree F par p t \<Longrightarrow> reads sb F (set_tree t) \<Longrightarrow> distinct (inorder t) \<Longrightarrow> height t + d \<le> 65537 \<Longrightarrow>
   (\<And>g. d \<le> g \<Longrightarrow> climb_loop g sb p par True = URet z) \<Longrightarrow> linked sb (inorder t @ [z])"
proof (induction t arbitrary: par p d z)
  case (Node l x r)
  note R = Node.prems(2)
  have x: "p = x" "x \<noteq> 0" "F x 8 = par" and l: "atree F x (F x 0) l" and r: "atree F x (F x 4) r"
    using Node.prems(1) by auto
  have Rl: "reads sb F (set_tree l)" and Rr: "reads sb F (set_tree r)" using R by (auto elim: reads_subset)
  have "climb_loop g sb (F x 0) x True = URet x" if "1 \<le> g" for g
    using that climb_step [OF x(2) R, of "g - 1"] by simp
  then have L: "linked sb (inorder l @ [x])"
    using Node.IH(1) [OF l Rl, of 1] Node.prems(3,4) by simp
  have "set_tree l \<inter> set_tree r = {}" using Node.prems(3) by (auto simp: set_inorder)
  then have ne: "F x 4 \<noteq> 0 \<Longrightarrow> F x 0 \<noteq> F x 4"
    using atree_root [OF l] atree_root [OF r] by (metis disjoint_iff)
  have R: "linked sb (x # inorder r @ [z])"
  proof (cases "r = Leaf")
    case True
    then have "avl_adjacent sb x True = URet z"
      using adjacent_node [OF x(2) R] r x Node.prems(4,5) by simp
    then show ?thesis using True by simp
  next
    case False
    have n: "F x 4 \<noteq> 0" using atree_root [OF r] False by simp
    have "climb_loop g sb (F x 4) x True = URet z" if "Suc d \<le> g" for g
      using that climb_step [OF x(2) R, of "g - 1"] ne [OF n] x Node.prems(5) [of "g - 1"] by simp
    then have "linked sb (inorder r @ [z])"
      using Node.IH(2) [OF r Rr, of "Suc d"] Node.prems(3,4) by simp
    moreover have "avl_adjacent sb x True = URet (hd (inorder r @ [z]))"
      using adjacent_node [OF x(2) R] n avl_extreme_left [OF r Rr] Node.prems(4) False by simp
    ultimately show ?thesis by (intro linked_Cons)
  qed
  show ?case using linked_append [OF L R] by simp
qed simp

section \<open>The collection\<close>

text \<open>The capacities of the array.\<close>

definition cap_ok :: "nat \<Rightarrow> nat \<Rightarrow> bool" where
  "cap_ok n cap \<longleftrightarrow> n \<le> cap \<and> (cap = 0 \<or> (\<exists>k\<le>11. cap = 32 * 2 ^ k))"

lemma cap_grow: "cap_ok n cap \<Longrightarrow> n = cap \<Longrightarrow> n < 65536 \<Longrightarrow>
    (if cap \<noteq> 0 then cap * 2 else 32) \<le> 65536 \<and> cap_ok (Suc n) (if cap \<noteq> 0 then cap * 2 else 32)"
proof -
  assume c: "cap_ok n cap" "n = cap" "n < 65536"
  show ?thesis
  proof (cases "cap = 0")
    case True
    then show ?thesis using c by (auto simp: cap_ok_def intro: exI [of _ 0])
  next
    case False
    then obtain k where k: "k \<le> 11" "cap = 32 * 2 ^ k" using c by (auto simp: cap_ok_def)
    then have "k \<noteq> 11" using c by auto
    then have "Suc k \<le> 11" using k by simp
    then have "(2 :: nat) ^ Suc k \<le> 2 ^ 11" by (rule power_increasing) simp
    moreover have "\<exists>j\<le>11. cap * 2 = 32 * 2 ^ j" using \<open>Suc k \<le> 11\<close> k(2) by (intro exI [of _ "Suc k"]) simp
    ultimately show ?thesis using k False c(2) by (auto simp: cap_ok_def)
  qed
qed

lemma cap_full: "cap_ok n cap \<Longrightarrow> n \<ge> 65536 \<Longrightarrow> cap = 65536 \<and> n = 65536"
proof -
  assume c: "cap_ok n cap" "n \<ge> 65536"
  then obtain k where k: "k \<le> 11" "cap = 32 * 2 ^ k" by (auto simp: cap_ok_def)
  then have "(2 :: nat) ^ k \<le> 2 ^ 11" by (intro power_increasing) auto
  then show ?thesis using c k by (auto simp: cap_ok_def)
qed

text \<open>An entry fits, in the array or after growing it.\<close>

lemma collect_step:
  assumes "cap_ok (length acc) cap" "length acc < 65536" "\<forall>n. mem n" "x \<noteq> 0" "avl_adjacent sb x True = URet y" "y \<noteq> x"
  obtains cap' where "cap_ok (length (acc @ [x])) cap'"
    "collect_loop (Suc g) mem sb x acc cap = collect_loop g mem sb y (acc @ [x]) cap'"
proof (cases "length acc = cap")
  case True
  let ?cap = "if cap \<noteq> 0 then cap * 2 else 32"
  have "?cap \<le> 65536" "cap_ok (Suc cap) ?cap" using cap_grow [OF assms(1) True assms(2)] True by auto
  then show thesis using that [of ?cap] assms True by (auto simp: Let_def)
next
  case False
  then have "cap_ok (length (acc @ [x])) cap" using assms(1) by (auto simp: cap_ok_def)
  then show thesis using that [of cap] assms False by auto
qed

lemma collect_linked:
  "linked sb (xs @ [0]) \<Longrightarrow> distinct xs \<Longrightarrow> 0 \<notin> set xs \<Longrightarrow> \<forall>n. mem n \<Longrightarrow> cap_ok (length acc) cap \<Longrightarrow>
   65537 \<le> length acc + g \<Longrightarrow>
   collect_loop g mem sb (hd (xs @ [0])) acc cap =
     (if length acc + length xs \<le> 65536 then URet (acc @ xs) else UErr ''AVL tree exceeds 65536 nodes'')"
proof (induction xs arbitrary: acc cap g)
  case Nil
  have "length acc \<le> 65536" using Nil.prems(5) cap_full [of "length acc" cap] by linarith
  moreover then obtain g' where "g = Suc g'" using Nil.prems(6) by (cases g) auto
  ultimately show ?case by simp
next
  case (Cons x xs)
  show ?case
  proof (cases "length acc < 65536")
    case True
    then obtain g' where g: "g = Suc g'" using Cons.prems(6) by (cases g) auto
    have s: "avl_adjacent sb x True = URet (hd (xs @ [0]))" "linked sb (xs @ [0])" "hd (xs @ [0]) \<noteq> x"
      using Cons.prems(1-3) by (cases xs; auto)+
    obtain cap' where "cap_ok (length (acc @ [x])) cap'"
      "collect_loop (Suc g') mem sb x acc cap = collect_loop g' mem sb (hd (xs @ [0])) (acc @ [x]) cap'"
      using Cons.prems(3) by (auto intro: collect_step [OF Cons.prems(5) True Cons.prems(4) _ s(1,3), of g'])
    note step = this
    have "distinct xs" "0 \<notin> set xs" "65537 \<le> length (acc @ [x]) + g'" using Cons.prems(2,3,6) g by auto
    from Cons.IH [OF s(2) this(1,2) Cons.prems(4) step(1) this(3)] step(2) g show ?thesis
      by (simp del: collect_loop.simps)
  next
    case False
    then have "cap = 65536" "length acc = 65536" using cap_full Cons.prems(5) by auto
    then show ?thesis using Cons.prems by (cases g) auto
  qed
qed

text \<open>A tree hanging from the word at \<open>rootp\<close>.\<close>

definition node_area :: "u32 \<Rightarrow> u32 \<Rightarrow> u32" where "node_area rootp x = (if x = rootp then 4 else 16)"

definition gtree :: "j4_sandbox \<Rightarrow> u32 \<Rightarrow> u32 tree \<Rightarrow> bool" where
  "gtree sb rootp t \<longleftrightarrow> areas (node_area rootp) sb (insert rootp (set_tree t)) \<and> rootp \<notin> set_tree t \<and>
     distinct (inorder t) \<and> atree (fld sb) 0 (fld sb rootp 0) t"

lemma node_field: "j \<in> node_fields \<Longrightarrow> x \<noteq> rootp \<Longrightarrow> field (node_area rootp x) j"
  "field (node_area rootp rootp) 0"
  by (auto simp: node_fields_def node_area_def field_def)

lemma areas_reads:
  assumes "areas (node_area rootp) sb (insert rootp S)" "rootp \<notin> S"
  shows "reads sb (fld sb) S"
proof -
  have "span_ok sb x 16 \<and> gread32 sb (x + 0) = Some (fld sb x 0) \<and> gread32 sb (x + 4) = Some (fld sb x 4) \<and>
      gread32 sb (x + 8) = Some (fld sb x 8)" if "x \<in> S" for x
  proof -
    have "x \<noteq> rootp" using that assms(2) by auto
    moreover have "\<forall>y\<in>insert rootp S. span_ok sb y (node_area rootp y)" using assms(1) by (simp add: areas_def)
    ultimately have "span_ok sb x 16" using that by (auto simp: node_area_def)
    then show ?thesis
      using that \<open>x \<noteq> rootp\<close> area_read [OF assms(1), of x, OF _ node_field(1)]
      by (simp add: node_fields_def del: add_0_right)
  qed
  then show ?thesis by (simp add: reads_def)
qed

lemma gtree_reads: "gtree sb rootp t \<Longrightarrow> reads sb (fld sb) (set_tree t)"
  using areas_reads by (auto simp: gtree_def)

lemma read_rootp: "areas (node_area rootp) sb (insert rootp S) \<Longrightarrow> gread32 sb rootp = Some (fld sb rootp 0)"
  using area_read [of "node_area rootp" sb "insert rootp S" rootp 0] node_field(2) by simp

lemma collect_inorder:
  assumes "gtree sb rootp t" "height t \<le> 65536" "\<forall>n. mem n"
  shows "avl_collect mem sb (fld sb rootp 0) =
    (if size t \<le> 65536 then URet (inorder t) else UErr ''AVL tree exceeds 65536 nodes'')"
proof -
  have t: "atree (fld sb) 0 (fld sb rootp 0) t" "distinct (inorder t)" using assms(1) by (auto simp: gtree_def)
  note R = gtree_reads [OF assms(1)]
  have "climb_loop g sb (fld sb rootp 0) 0 True = URet 0" if "1 \<le> g" for g using that by (cases g) auto
  then have "linked sb (inorder t @ [0])" using subtree_linked [OF t(1) R t(2), of 1] assms(2) by simp
  moreover have "avl_extreme sb (fld sb rootp 0) False = URet (hd (inorder t @ [0]))"
    using avl_extreme_left [OF t(1) R] assms(2) by simp
  moreover have "0 \<notin> set (inorder t)" using atree_nonzero [OF t(1)] by (simp add: set_inorder)
  ultimately show ?thesis
    using collect_linked [of sb "inorder t" mem "[]" 0 65537] t(2) assms(3)
    by (simp add: avl_collect_def cap_ok_def del: collect_loop.simps)
qed

end
