(* ===== verification/EmuTreeBuild.thy ===== *)
theory EmuTreeBuild
  imports EmuTreeWalk
begin

text \<open>
  The rebuilding of a tree from its nodes in order: the shape the code gives it, that this shape
  is balanced, and the memory afterwards.
\<close>

section \<open>The shape\<close>

function midtree :: "u32 list \<Rightarrow> u32 tree" where
  "midtree xs = (if xs = [] then Leaf
     else Node (midtree (take (length xs div 2) xs)) (xs ! (length xs div 2)) (midtree (drop (Suc (length xs div 2)) xs)))"
  by pat_completeness auto
termination
  by (relation "measure length") (auto simp: neq_Nil_conv)

declare midtree.simps [simp del]

lemma midtree_Nil [simp]: "midtree [] = Leaf"
  by (simp add: midtree.simps)

lemma inorder_midtree [simp]: "inorder (midtree xs) = xs"
proof (induction xs rule: midtree.induct)
  case (1 xs)
  show ?case
  proof (cases "xs = []")
    case False
    then have "length xs div 2 < length xs" by (simp add: neq_Nil_conv)
    then show ?thesis using False 1 id_take_nth_drop [of "length xs div 2" xs] by (subst midtree.simps) simp
  qed simp
qed

lemma set_midtree [simp]: "set_tree (midtree xs) = set xs"
  by (metis inorder_midtree set_inorder)

text \<open>The height is the number of binary digits of the length.\<close>

lemma height_midtree: "height (midtree xs) \<le> h \<longleftrightarrow> length xs < 2 ^ h"
proof (induction xs arbitrary: h rule: midtree.induct)
  case (1 xs)
  show ?case
  proof (cases "xs = []")
    case False
    let ?m = "length xs div 2"
    have m: "height (midtree xs) = Suc (max (height (midtree (take ?m xs))) (height (midtree (drop (Suc ?m) xs))))"
      using False by (subst midtree.simps) simp
    have n: "0 < length xs" using False by simp
    have "min (length xs) ?m = ?m" by simp
    then have i: "height (midtree (take ?m xs)) \<le> k \<longleftrightarrow> ?m < 2 ^ k"
      "height (midtree (drop (Suc ?m) xs)) \<le> k \<longleftrightarrow> length xs - Suc ?m < 2 ^ k" for k
      using 1 [OF False] by auto
    show ?thesis
    proof (cases h)
      case (Suc k)
      have "?m < 2 ^ k \<and> length xs - Suc ?m < 2 ^ k \<longleftrightarrow> length xs < 2 * 2 ^ k" using n by presburger
      then show ?thesis using Suc m i [of k] by simp
    qed (use m n in simp)
  qed simp
qed

lemma height_le_length: "height (midtree xs) \<le> length xs"
  by (simp add: height_midtree)

text \<open>In every node the heights of the subtrees differ by at most one.\<close>

fun avl :: "u32 tree \<Rightarrow> bool" where
  "avl Leaf \<longleftrightarrow> True"
| "avl (Node l x r) \<longleftrightarrow> \<bar>int (height r) - int (height l)\<bar> \<le> 1 \<and> avl l \<and> avl r"

lemma avl_midtree: "avl (midtree xs)"
proof (induction xs rule: midtree.induct)
  case (1 xs)
  show ?case
  proof (cases "xs = []")
    case False
    let ?l = "take (length xs div 2) xs" and ?r = "drop (Suc (length xs div 2)) xs"
    have n: "0 < length xs" using False by simp
    have len: "length ?l = length xs div 2" "length ?r = length xs - Suc (length xs div 2)" by auto
    have "length ?r < 2 ^ height (midtree ?l)" using height_midtree [of ?l "height (midtree ?l)"] n len by simp
    then have rl: "height (midtree ?r) \<le> height (midtree ?l)" by (simp only: height_midtree)
    have "length ?r < 2 ^ height (midtree ?r)" using height_midtree [of ?r "height (midtree ?r)"] by simp
    then have "length ?l < 2 ^ Suc (height (midtree ?r))" using len n by simp
    then have "height (midtree ?l) \<le> Suc (height (midtree ?r))" by (simp only: height_midtree)
    then have "\<bar>int (height (midtree ?r)) - int (height (midtree ?l))\<bar> \<le> 1" using rl by simp
    then show ?thesis using False 1 by (subst midtree.simps) simp
  qed simp
qed

section \<open>The memory\<close>

text \<open>Nothing but the 16 bytes of these nodes has changed.\<close>

definition only_in :: "j4_sandbox \<Rightarrow> j4_sandbox \<Rightarrow> u32 set \<Rightarrow> bool" where
  "only_in sb sb' T \<longleftrightarrow> jb_origin sb' = jb_origin sb \<and> jb_size sb' = jb_size sb \<and>
     (\<forall>i. (\<forall>x\<in>T. i < hof sb x \<or> hof sb x + 16 \<le> i) \<longrightarrow> jb_mem sb' i = jb_mem sb i)"

lemma only_in_refl: "only_in sb sb T"
  by (simp add: only_in_def)

lemma only_in_hof: "only_in sb sb' T \<Longrightarrow> hof sb' x = hof sb x"
  by (simp add: only_in_def hof_def)

lemma only_in_areas: "only_in sb sb' T \<Longrightarrow> areas sz sb' S = areas sz sb S"
  by (simp add: only_in_def areas_def arena_ok_def span_ok_nat)

lemma only_in_trans: "only_in sb sb' T \<Longrightarrow> only_in sb' sb'' U \<Longrightarrow> only_in sb sb'' (T \<union> U)"
  using only_in_hof [of sb sb' T] by (auto simp: only_in_def)

lemma only_in_mono: "only_in sb sb' T \<Longrightarrow> T \<subseteq> U \<Longrightarrow> only_in sb sb' U"
  by (auto simp: only_in_def)

lemma only_in_put: "k \<in> node_fields \<Longrightarrow> only_in sb (put sb x k v) {x}"
  by (auto simp: only_in_def node_fields_def intro!: put_other)

lemma only_in_fld:
  assumes "only_in sb sb' T" "areas (node_area rootp) sb (insert rootp S)" "rootp \<notin> S" "T \<subseteq> S"
    "c \<in> insert rootp S - T" "field (node_area rootp c) j"
  shows "fld sb' c j = fld sb c j"
proof -
  have "jb_mem sb' (hof sb c + unat j + k) = jb_mem sb (hof sb c + unat j + k)" if k: "k < 4" for k
  proof -
    have "hof sb c + unat j + k < hof sb x \<or> hof sb x + 16 \<le> hof sb c + unat j + k" if "x \<in> T" for x
    proof -
      have x: "x \<in> S" "x \<noteq> rootp" "c \<noteq> x" using that assms(3,4,5) by auto
      have "hof sb c + unat (node_area rootp c) \<le> hof sb x \<or> hof sb x + unat (node_area rootp x) \<le> hof sb c"
        using area_far [OF assms(2), of c x] x assms(5) by auto
      moreover have "unat j + 4 \<le> unat (node_area rootp c)" using assms(6) by (simp add: field_def)
      moreover have "unat (node_area rootp x) = 16" using x by (simp add: node_area_def)
      ultimately show ?thesis using k by linarith
    qed
    then show ?thesis using assms(1) by (auto simp: only_in_def)
  qed
  then show ?thesis
    using only_in_hof [OF assms(1)] by (auto simp: fld_def intro: read_be32_cong)
qed

text \<open>The four fields of a node.\<close>

definition put_node :: "j4_sandbox \<Rightarrow> u32 \<Rightarrow> u32 \<Rightarrow> u32 \<Rightarrow> u32 \<Rightarrow> u32 \<Rightarrow> j4_sandbox" where
  "put_node sb x l r p b = put (put (put (put sb x 0 l) x 4 r) x 8 p) x 12 b"

lemma write_node:
  assumes "areas (node_area rootp) sb (insert rootp S)" "x \<in> S" "x \<noteq> rootp"
  shows "gwrite32 sb (x + AVL_LEFT_OFF) l \<bind> (\<lambda>sb. gwrite32 sb (x + AVL_RIGHT_OFF) r \<bind> (\<lambda>sb.
    gwrite32 sb (x + AVL_PARENT_OFF) p \<bind> (\<lambda>sb. gwrite32 sb (x + 12) b))) = Some (put_node sb x l r p b)"
proof -
  have "gwrite32 sb' (x + k) v = Some (put sb' x k v)" if "areas (node_area rootp) sb' (insert rootp S)" "k \<in> node_fields" for sb' k v
    using area_write [OF that(1)] that(2) assms(2,3) by (auto intro: node_field)
  then show ?thesis using assms(1) unfolding put_node_def avl_offs by (simp add: node_fields_def del: add_0_right)
qed

lemma put_node_fld:
  assumes "areas (node_area rootp) sb (insert rootp S)" "x \<in> S" "x \<noteq> rootp" "c \<in> insert rootp S" "field (node_area rootp c) j"
  shows "fld (put_node sb x l r p b) c j =
    (if c \<noteq> x then fld sb c j else if j = 0 then l else if j = 4 then r else if j = 8 then p else if j = 12 then b else fld sb c j)"
proof -
  have "fld (put sb' x k v) c j = (if c = x \<and> j = k then v else fld sb' c j)"
    if "areas (node_area rootp) sb' (insert rootp S)" "k \<in> node_fields" for sb' k v
    using area_fld_put [OF that(1) _ assms(4) _ assms(5)] that(2) assms(2,3) by (simp add: node_field)
  then show ?thesis using assms(1) by (auto simp: put_node_def node_fields_def)
qed

lemma put_node_only: "only_in sb (put_node sb x l r p b) {x}"
proof -
  have "only_in sb (put sb x 0 l) {x}" "only_in (put sb x 0 l) (put (put sb x 0 l) x 4 r) {x}"
    "only_in (put (put sb x 0 l) x 4 r) (put (put (put sb x 0 l) x 4 r) x 8 p) {x}"
    "only_in (put (put (put sb x 0 l) x 4 r) x 8 p) (put_node sb x l r p b) {x}"
    unfolding put_node_def by (auto intro!: only_in_put simp: node_fields_def)
  then show ?thesis using only_in_trans [where T = "{x}" and U = "{x}"] by (metis Un_absorb)
qed

section \<open>The rebuilding\<close>

definition part :: "u32 list \<Rightarrow> nat \<Rightarrow> nat \<Rightarrow> u32 list" where "part xs lo hi = take (hi - lo) (drop lo xs)"

definition root_of :: "u32 tree \<Rightarrow> u32" where "root_of t = (case t of Leaf \<Rightarrow> 0 | Node l x r \<Rightarrow> x)"

lemma midtree_part:
  assumes "lo < hi" "hi \<le> length xs"
  defines "mid \<equiv> lo + (hi - lo) div 2"
  shows "midtree (part xs lo hi) = Node (midtree (part xs lo mid)) (xs ! mid) (midtree (part xs (mid + 1) hi))"
    and "part xs lo hi = part xs lo mid @ xs ! mid # part xs (mid + 1) hi"
proof -
  let ?m = "(hi - lo) div 2"
  have l: "length (part xs lo hi) = hi - lo" "part xs lo hi \<noteq> []" using assms by (auto simp: part_def)
  have p: "take ?m (part xs lo hi) = part xs lo mid" "part xs lo hi ! ?m = xs ! mid"
    "drop (Suc ?m) (part xs lo hi) = part xs (mid + 1) hi"
    using assms(1,2) by (auto simp: part_def mid_def min_def drop_take ac_simps)
  show "midtree (part xs lo hi) = Node (midtree (part xs lo mid)) (xs ! mid) (midtree (part xs (mid + 1) hi))"
    using l p by (subst midtree.simps) simp
  have "?m < length (part xs lo hi)" using l(1) assms(1) by simp
  from id_take_nth_drop [OF this] show "part xs lo hi = part xs lo mid @ xs ! mid # part xs (mid + 1) hi"
    using p by simp
qed

text \<open>A tree survives changes to other nodes.\<close>

lemma atree_frame:
  assumes "atree (fld sb) par p t" "only_in sb sb' T" "areas (node_area rootp) sb (insert rootp S)" "rootp \<notin> S"
    "T \<subseteq> S" "set_tree t \<subseteq> S - T"
  shows "atree (fld sb') par p t"
proof -
  have "fld sb x j = fld sb' x j" if "x \<in> set_tree t" "j \<in> node_fields" for x j
  proof -
    have "x \<in> S - T" "x \<noteq> rootp" using that(1) assms(4,6) by auto
    then show ?thesis using only_in_fld [OF assms(2-5), of x j] node_field(1) [OF that(2)] by simp
  qed
  from atree_cong [OF this] assms(1) show ?thesis by simp
qed

lemma rebuild_node:
  assumes A: "areas (node_area rootp) sb (insert rootp S)" "rootp \<notin> S" "x \<in> S" "x \<noteq> 0"
    and l: "atree (fld sb) x a l" "set_tree l \<subseteq> S - {x}" and r: "atree (fld sb) x b r" "set_tree r \<subseteq> S - {x}"
  shows "atree (fld (put_node sb x a b par (word_of_int (int (height r) - int (height l))))) par x (Node l x r)"
proof -
  let ?sb = "put_node sb x a b par (word_of_int (int (height r) - int (height l)))"
  have x: "x \<noteq> rootp" using A by auto
  have f: "fld ?sb x 0 = a" "fld ?sb x 4 = b" "fld ?sb x 8 = par" "fld ?sb x 12 = word_of_int (int (height r) - int (height l))"
    using put_node_fld [OF A(1,3) x, of x] node_field(1) [OF _ x] A(3) by (simp_all add: node_fields_def)
  have "atree (fld ?sb) x a l" "atree (fld ?sb) x b r"
    using atree_frame [OF _ put_node_only A(1,2)] l r A(3) by auto
  then show ?thesis using f A(4) by simp
qed

lemma rebuild_range:
  "areas (node_area rootp) sb (insert rootp S) \<Longrightarrow> rootp \<notin> S \<Longrightarrow> set nodes \<subseteq> S \<Longrightarrow> distinct nodes \<Longrightarrow> 0 \<notin> set nodes \<Longrightarrow>
   hi \<le> length nodes \<Longrightarrow>
   \<exists>sb'. avl_rebuild_range sb nodes lo hi par =
       Some (root_of (midtree (part nodes lo hi)), int (height (midtree (part nodes lo hi))), sb') \<and>
     atree (fld sb') par (root_of (midtree (part nodes lo hi))) (midtree (part nodes lo hi)) \<and>
     only_in sb sb' (set (part nodes lo hi))"
proof (induction "hi - lo" arbitrary: lo hi par sb rule: less_induct)
  case less
  show ?case
  proof (cases "lo < hi")
    case False
    then show ?thesis by (subst avl_rebuild_range.simps) (simp add: part_def root_of_def only_in_refl)
  next
    case True
    define mid x where "mid = lo + (hi - lo) div 2" and "x = nodes ! mid"
    let ?l = "part nodes lo mid" and ?r = "part nodes (mid + 1) hi"
    note m = midtree_part [OF True less.prems(6), folded mid_def]
    have b: "lo \<le> mid" "mid < hi" using True by (auto simp: mid_def)
    have "x \<in> set nodes" using b less.prems(6) by (simp add: x_def)
    then have x: "x \<in> S" "x \<noteq> 0" "x \<noteq> rootp" using less.prems(2,3,5) by auto
    have sub: "set (part nodes i j) \<subseteq> S" for i j using less.prems(3) set_take_subset set_drop_subset by (fastforce simp: part_def)
    have "distinct (part nodes lo hi)" using less.prems(4) by (simp add: part_def)
    then have d: "set ?l \<inter> set ?r = {}" "x \<notin> set ?l" "x \<notin> set ?r" unfolding m(2) by (auto simp: x_def)
    have h: "mid - lo < hi - lo" "hi - (mid + 1) < hi - lo" "mid \<le> length nodes" using b less.prems(6) by auto
    obtain sb1 where 1: "avl_rebuild_range sb nodes lo mid x = Some (root_of (midtree ?l), int (height (midtree ?l)), sb1)"
      "atree (fld sb1) x (root_of (midtree ?l)) (midtree ?l)" "only_in sb sb1 (set ?l)"
      using less.hyps [OF h(1) less.prems(1-5) h(3)] by blast
    have A1: "areas (node_area rootp) sb1 (insert rootp S)" using less.prems(1) only_in_areas [OF 1(3)] by simp
    obtain sb2 where 2: "avl_rebuild_range sb1 nodes (mid + 1) hi x = Some (root_of (midtree ?r), int (height (midtree ?r)), sb2)"
      "atree (fld sb2) x (root_of (midtree ?r)) (midtree ?r)" "only_in sb1 sb2 (set ?r)"
      using less.hyps [OF h(2) A1 less.prems(2-6)] by blast
    have A2: "areas (node_area rootp) sb2 (insert rootp S)" using A1 only_in_areas [OF 2(3)] by simp
    have l2: "atree (fld sb2) x (root_of (midtree ?l)) (midtree ?l)"
      using atree_frame [OF 1(2) 2(3) A1 less.prems(2)] sub d by auto
    let ?sb = "put_node sb2 x (root_of (midtree ?l)) (root_of (midtree ?r)) par
      (word_of_int (int (height (midtree ?r)) - int (height (midtree ?l))))"
    have "avl_rebuild_range sb nodes lo hi par = Some (x, int (max (height (midtree ?l)) (height (midtree ?r))) + 1, ?sb)"
      using True 1(1) 2(1) write_node [OF A2 x(1,3)]
      by (subst avl_rebuild_range.simps) (simp add: Let_def mid_def [symmetric] x_def [symmetric] max_def flip: bind_assoc)
    moreover have "atree (fld ?sb) par x (Node (midtree ?l) x (midtree ?r))"
      using rebuild_node [OF A2 less.prems(2) x(1,2) l2 _ 2(2)] sub d by auto
    moreover have "only_in sb ?sb (set ?l \<union> set ?r \<union> {x})"
      by (rule only_in_trans [OF only_in_trans [OF 1(3) 2(3)] put_node_only])
    moreover have "int (height (Node (midtree ?l) x (midtree ?r))) = int (max (height (midtree ?l)) (height (midtree ?r))) + 1"
      "root_of (Node (midtree ?l) x (midtree ?r)) = x" "set (?l @ x # ?r) = set ?l \<union> set ?r \<union> {x}"
      by (auto simp: root_of_def)
    ultimately show ?thesis unfolding m(1) unfolding m(2) x_def [symmetric] by metis
  qed
qed

text \<open>The whole tree: beyond its nodes only the root word changes.\<close>

definition tree_only :: "j4_sandbox \<Rightarrow> j4_sandbox \<Rightarrow> u32 \<Rightarrow> u32 set \<Rightarrow> bool" where
  "tree_only sb sb' rootp T \<longleftrightarrow> jb_origin sb' = jb_origin sb \<and> jb_size sb' = jb_size sb \<and>
     (\<forall>i. (i < hof sb rootp \<or> hof sb rootp + 4 \<le> i) \<and> (\<forall>x\<in>T. i < hof sb x \<or> hof sb x + 16 \<le> i) \<longrightarrow>
        jb_mem sb' i = jb_mem sb i)"

lemma tree_only_put: "only_in sb sb' T \<Longrightarrow> tree_only sb (put sb' rootp 0 v) rootp T"
  using only_in_hof [of sb sb' T rootp] put_other [of _ sb' rootp 0 v] by (auto simp: tree_only_def only_in_def)

lemma tree_only_trans: "tree_only sb sb' rootp T \<Longrightarrow> only_in sb' sb'' U \<Longrightarrow> tree_only sb sb'' rootp (T \<union> U)"
  by (auto simp: tree_only_def only_in_def hof_def)

lemma tree_only_areas: "tree_only sb sb' rootp T \<Longrightarrow> areas sz sb' S = areas sz sb S"
  by (simp add: tree_only_def areas_def arena_ok_def span_ok_nat)

lemma rebuild_gtree:
  assumes "areas (node_area rootp) sb (insert rootp S)" "rootp \<notin> S" "set xs \<subseteq> S" "distinct xs" "0 \<notin> set xs"
  obtains sb' where "avl_rebuild sb rootp xs = Some sb'" "gtree sb' rootp (midtree xs)" "tree_only sb sb' rootp (set xs)"
proof -
  let ?t = "midtree xs"
  obtain sb1 where 1: "avl_rebuild_range sb xs 0 (length xs) 0 = Some (root_of ?t, int (height ?t), sb1)"
    "atree (fld sb1) 0 (root_of ?t) ?t" "only_in sb sb1 (set xs)"
    using rebuild_range [OF assms, of "length xs" 0 0] by (auto simp: part_def)
  let ?sb = "put sb1 rootp 0 (root_of ?t)"
  have A1: "areas (node_area rootp) sb1 (insert rootp S)" using assms(1) only_in_areas [OF 1(3)] by simp
  have A: "areas (node_area rootp) sb1 (insert rootp (set xs))"
    by (rule areas_subset [OF A1]) (use assms(3) in auto)
  have "gwrite32 sb1 rootp (root_of ?t) = Some ?sb"
    using area_write [OF A1, of rootp 0] node_field(2) by simp
  then have w: "avl_rebuild sb rootp xs = Some ?sb" using 1(1) by (simp add: avl_rebuild_def)
  have f: "fld ?sb c j = (if c = rootp \<and> j = 0 then root_of ?t else fld sb1 c j)"
    if "c \<in> insert rootp (set xs)" "field (node_area rootp c) j" for c j
    using area_fld_put [OF A _ that(1) _ that(2)] node_field(2) by simp
  have "fld ?sb x j = fld sb1 x j" if "x \<in> set_tree ?t" "j \<in> node_fields" for x j
  proof -
    have "x \<in> set xs" "x \<noteq> rootp" using that(1) assms(2,3) by auto
    then show ?thesis using f [of x j] node_field(1) [OF that(2)] by simp
  qed
  then have "atree (fld ?sb) 0 (root_of ?t) ?t = atree (fld sb1) 0 (root_of ?t) ?t" by (rule atree_cong)
  then have "atree (fld ?sb) 0 (root_of ?t) ?t" using 1(2) by simp
  moreover have "fld ?sb rootp 0 = root_of ?t" using f [of rootp 0] node_field(2) by simp
  ultimately have "gtree ?sb rootp ?t" using A assms(2-4) by (auto simp: gtree_def)
  then show thesis using that [OF w _ tree_only_put [OF 1(3)]] by blast
qed

end
