(* ===== verification/EmuTreeProps.thy ===== *)
theory EmuTreeProps
  imports EmuTreeBuild PreludeLists
begin

text \<open>
  The AVL entries against sorted sequences of nodes: the addition is an insertion by key, the
  removals take one node out, the searches find the node, its predecessor or its successor.
\<close>

section \<open>The comparison\<close>

text \<open>The routine orders the nodes of \<open>S\<close> by \<open>K\<close> against a key of rank \<open>v\<close>, and leaves the run as it was.\<close>

definition compares :: "guest_sub \<Rightarrow> emu_run \<Rightarrow> u32 \<Rightarrow> (u32 \<Rightarrow> int) \<Rightarrow> u32 set \<Rightarrow> u32 \<Rightarrow> int \<Rightarrow> bool" where
  "compares run_sub r callback K S key v \<longleftrightarrow> callback \<noteq> 0 \<and>
     (\<forall>x\<in>S. \<exists>w. run_sub r callback x key = URet (r, w) \<and> sgn (sint w) = sgn (K x - v))"

definition by_key :: "(u32 \<Rightarrow> int) \<Rightarrow> u32 list \<Rightarrow> bool" where
  "by_key K xs \<longleftrightarrow> sorted_wrt (\<lambda>x y. K x < K y) xs"

lemma compares_mono: "compares run_sub r cb K S key v \<Longrightarrow> T \<subseteq> S \<Longrightarrow> compares run_sub r cb K T key v"
  by (auto simp: compares_def)

lemma compare_sign:
  assumes "compares run_sub r cb K S key v" "x \<in> S"
  obtains c where "avl_compare_key run_sub r cb x key = URet (r, c)" "c = 0 \<longleftrightarrow> K x = v" "c > 0 \<longleftrightarrow> K x > v" "c < 0 \<longleftrightarrow> K x < v"
proof -
  obtain w where w: "run_sub r cb x key = URet (r, w)" "sgn (sint w) = sgn (K x - v)" "cb \<noteq> 0"
    using assms by (auto simp: compares_def)
  have "sint w = 0 \<longleftrightarrow> K x = v" "sint w > 0 \<longleftrightarrow> K x > v" "sint w < 0 \<longleftrightarrow> K x < v"
    using w(2) by (auto simp: sgn_if split: if_splits)
  then show thesis using that [of "sint w"] w(1,3) by (simp add: avl_compare_key_def)
qed

lemma find_in: "List.find P xs = Some x \<Longrightarrow> x \<in> set xs \<and> P x"
  by (induction xs) (auto split: if_splits)

lemma find_no_key: "List.find (\<lambda>x. f x = v) xs = None \<longleftrightarrow> v \<notin> f ` set xs"
  by (induction xs) auto

section \<open>The addition\<close>

lemma add_scan_result:
  "compares run_sub r cb K (set xs) key v \<Longrightarrow> by_key K xs \<Longrightarrow>
   add_scan run_sub r cb key xs at = URet (r, case List.find (\<lambda>x. K x = v) xs of
     Some x \<Rightarrow> Inl x | None \<Rightarrow> Inr (at + length (takeWhile (\<lambda>x. K x < v) xs)))"
proof (induction xs arbitrary: at)
  case (Cons x xs)
  obtain c where c: "avl_compare_key run_sub r cb x key = URet (r, c)" "c = 0 \<longleftrightarrow> K x = v" "c > 0 \<longleftrightarrow> K x > v" "c < 0 \<longleftrightarrow> K x < v"
    using compare_sign [OF Cons.prems(1)] by (metis list.set_intros(1))
  have "v < K x \<Longrightarrow> List.find (\<lambda>x. K x = v) xs = None"
    using Cons.prems(2) by (auto simp: find_None_iff by_key_def)
  moreover have "compares run_sub r cb K (set xs) key v" "by_key K xs"
    using Cons.prems compares_mono [OF Cons.prems(1), of "set xs"] by (auto simp: by_key_def)
  ultimately show ?case using c Cons.IH [of "at + 1"] by (cases c "0 :: int" rule: linorder_cases) (auto split: option.splits)
qed simp

lemma insort_position:
  "by_key K xs \<Longrightarrow> K x \<notin> K ` set xs \<Longrightarrow>
   take (length (takeWhile (\<lambda>y. K y < K x) xs)) xs @ x # drop (length (takeWhile (\<lambda>y. K y < K x) xs)) xs = insort_key K x xs"
proof (induction xs)
  case (Cons y ys)
  then have "K x \<noteq> K y" by auto
  then show ?case using Cons by (auto simp: by_key_def)
qed simp

lemma by_key_insort: "by_key K xs \<Longrightarrow> K x \<notin> K ` set xs \<Longrightarrow> by_key K (insort_key K x xs)"
  by (induction xs) (auto simp: by_key_def set_insort_key)

lemma by_key_distinct: "by_key K xs \<Longrightarrow> distinct xs"
  by (induction xs) (auto simp: by_key_def)

lemma read_root: "gtree sb rootp t \<Longrightarrow> gread32 sb rootp = Some (fld sb rootp 0) \<and> span_ok sb rootp 4"
  using read_rootp [of rootp sb "set_tree t"] by (auto simp: gtree_def areas_def node_area_def)

lemma collect_gtree:
  "gtree sb rootp t \<Longrightarrow> size t \<le> 65536 \<Longrightarrow> \<forall>n. mem n \<Longrightarrow> avl_collect mem sb (fld sb rootp 0) = URet (inorder t)"
  using collect_inorder [of sb rootp t mem] height_le_size_tree [of t] by simp

text \<open>C34: The AVL tree of exec on guest memory. Where the routine orders the nodes by distinct keys,
  \<open>AVL_AddNode\<close> gives the node with the key of the new one, and changes nothing, if there is one.
  Otherwise it gives NULL, and memory holds a tree, balanced, with every link, parent and balance
  right, whose nodes in order are the sorted insertion of the new node; no byte outside the nodes
  and the root word changes.\<close>

theorem add_node_inserts:
  assumes "gtree (e_box r) rootp t" "by_key K (inorder t)" "size t \<le> 65536" "\<forall>n. mem n"
    and "areas (node_area rootp) (e_box r) (insert rootp (insert node (set_tree t)))" "node \<noteq> 0" "node \<noteq> rootp"
    and "compares run_sub r callback K (set_tree t) node (K node)"
  shows "if K node \<in> K ` set_tree t
    then \<exists>x\<in>set_tree t. K x = K node \<and> avl_add_node run_sub mem r rootp node callback = URet (r, x)
    else \<exists>sb t'. avl_add_node run_sub mem r rootp node callback = URet (box_of r sb, 0) \<and>
      gtree sb rootp t' \<and> avl t' \<and> inorder t' = insort_key K node (inorder t) \<and> by_key K (inorder t') \<and>
      tree_only (e_box r) sb rootp (insert node (set_tree t))"
proof -
  let ?xs = "inorder t" and ?go = "avl_add_node run_sub mem r rootp node callback"
  have t: "rootp \<notin> set_tree t" "atree (fld (e_box r)) 0 (fld (e_box r) rootp 0) t" using assms(1) by (auto simp: gtree_def)
  have "\<forall>y\<in>insert node {}. span_ok (e_box r) y (node_area rootp y)" using assms(5) by (auto simp: areas_def)
  then have "span_ok (e_box r) node 16" using assms(7) by (simp add: node_area_def)
  then have go: "?go = (case List.find (\<lambda>x. K x = K node) ?xs of Some x \<Rightarrow> URet (r, x)
    | None \<Rightarrow> (let at = length (takeWhile (\<lambda>x. K x < K node) ?xs) in
        ubind (host (avl_rebuild (e_box r) rootp (take at ?xs @ node # drop at ?xs))) (\<lambda>sb. URet (box_of r sb, 0))))"
    using read_root [OF assms(1)] add_scan_result [of run_sub r callback K ?xs node "K node" 0] assms(2,8)
    by (simp add: avl_add_node_def Let_def set_inorder collect_gtree [OF assms(1,3,4)] spec [OF assms(4)] split: option.splits)
  show ?thesis
  proof (cases "K node \<in> K ` set_tree t")
    case True
    then have "List.find (\<lambda>x. K x = K node) ?xs \<noteq> None" by (simp add: find_no_key set_inorder)
    then obtain x where x: "List.find (\<lambda>x. K x = K node) ?xs = Some x" by blast
    then have "x \<in> set ?xs" "K x = K node" by (auto dest: find_in)
    then show ?thesis using go x True by (auto simp: set_inorder)
  next
    case False
    then have n: "K node \<notin> K ` set ?xs" by (simp add: set_inorder)
    then have "List.find (\<lambda>x. K x = K node) ?xs = None" by (simp add: find_no_key)
    then have go': "?go = ubind (host (avl_rebuild (e_box r) rootp (insort_key K node ?xs))) (\<lambda>sb. URet (box_of r sb, 0))"
      using go insort_position [OF assms(2) n] by (simp add: Let_def)
    note k = by_key_insort [OF assms(2) n]
    have s: "set (insort_key K node ?xs) = insert node (set_tree t)" by (simp add: set_insort_key set_inorder)
    obtain sb where sb: "avl_rebuild (e_box r) rootp (insort_key K node ?xs) = Some sb"
      "gtree sb rootp (midtree (insort_key K node ?xs))" "tree_only (e_box r) sb rootp (insert node (set_tree t))"
      using rebuild_gtree [OF assms(5), of "insort_key K node ?xs"] s t assms(6,7) atree_nonzero [OF t(2)] by_key_distinct [OF k]
      by auto
    then have "?go = URet (box_of r sb, 0) \<and> gtree sb rootp (midtree (insort_key K node ?xs)) \<and> avl (midtree (insort_key K node ?xs)) \<and>
      inorder (midtree (insort_key K node ?xs)) = insort_key K node ?xs \<and> by_key K (inorder (midtree (insort_key K node ?xs))) \<and>
      tree_only (e_box r) sb rootp (insert node (set_tree t))" using go' k avl_midtree by simp
    then show ?thesis unfolding if_not_P [OF False] by blast
  qed
qed


section \<open>The removals\<close>

lemma rem_scan_address_none: "wanted \<notin> set xs \<Longrightarrow> rem_scan_address wanted xs at = None"
  by (induction xs arbitrary: at) auto

lemma rem_scan_address_some:
  "wanted \<notin> set as \<Longrightarrow> rem_scan_address wanted (as @ wanted # bs) at = Some (at + length as)"
  by (induction "as" arbitrary: at) auto

lemma rem_scan_key_result:
  "compares run_sub r cb K (set xs) key v \<Longrightarrow> by_key K xs \<Longrightarrow>
   rem_scan_key run_sub r cb key xs at = URet (r, if v \<in> K ` set xs then Some (at + length (takeWhile (\<lambda>x. K x < v) xs)) else None)"
proof (induction xs arbitrary: at)
  case (Cons x xs)
  obtain c where c: "avl_compare_key run_sub r cb x key = URet (r, c)" "c = 0 \<longleftrightarrow> K x = v" "c > 0 \<longleftrightarrow> K x > v" "c < 0 \<longleftrightarrow> K x < v"
    using compare_sign [OF Cons.prems(1)] by (metis list.set_intros(1))
  have "v < K x \<Longrightarrow> v \<notin> K ` set xs" using Cons.prems(2) by (auto simp: by_key_def)
  moreover have "compares run_sub r cb K (set xs) key v" "by_key K xs"
    using Cons.prems compares_mono [OF Cons.prems(1), of "set xs"] by (auto simp: by_key_def)
  ultimately show ?case using c Cons.IH [of "at + 1"] by (cases c "0 :: int" rule: linorder_cases) auto
qed simp

lemma key_split:
  assumes "by_key K xs" "x \<in> set xs"
  shows "xs = takeWhile (\<lambda>y. K y < K x) xs @ x # drop (Suc (length (takeWhile (\<lambda>y. K y < K x) xs))) xs"
  using assms by (induction xs) (auto simp: by_key_def)

lemma unlink_result:
  assumes "gtree (e_box r) rootp t" "inorder t = as @ x # bs"
  obtains sb where "avl_unlink r rootp (as @ x # bs) (Some (length as)) = URet (box_of r sb, x)"
    "gtree sb rootp (midtree (as @ bs))" "tree_only (e_box r) sb rootp (set_tree t)" "\<forall>k\<in>node_fields. fld sb x k = 0"
proof -
  let ?S = "set_tree t"
  have t: "areas (node_area rootp) (e_box r) (insert rootp ?S)" "rootp \<notin> ?S" "distinct (as @ x # bs)"
    "atree (fld (e_box r)) 0 (fld (e_box r) rootp 0) t" using assms by (auto simp: gtree_def)
  have S: "?S = set (as @ x # bs)" by (simp flip: assms(2) add: set_inorder)
  have x: "x \<in> ?S" "x \<noteq> rootp" "x \<noteq> 0" "x \<notin> set (as @ bs)" "set (as @ bs) \<subseteq> ?S" "distinct (as @ bs)" "0 \<notin> set (as @ bs)"
    using t(2,3) atree_nonzero [OF t(4)] unfolding S by auto
  obtain sb where sb: "avl_rebuild (e_box r) rootp (as @ bs) = Some sb" "gtree sb rootp (midtree (as @ bs))"
    "tree_only (e_box r) sb rootp (set (as @ bs))"
    using rebuild_gtree [OF t(1,2) x(5-7)] by auto
  have A: "areas (node_area rootp) sb (insert rootp ?S)" using t(1) tree_only_areas [OF sb(3)] by simp
  let ?sb = "put_node sb x 0 0 0 0"
  have "avl_unlink r rootp (as @ x # bs) (Some (length as)) = URet (box_of r ?sb, x)"
    using sb(1) x(3) write_node [OF A x(1,2), of 0 0 0 0] by (simp add: avl_unlink_def)
  moreover have "gtree ?sb rootp (midtree (as @ bs))"
  proof -
    have "atree (fld ?sb) 0 (fld sb rootp 0) (midtree (as @ bs))"
      using sb(2) x(1,4,5) by (intro atree_frame [OF _ put_node_only A t(2)]) (auto simp: gtree_def)
    moreover have "fld ?sb rootp 0 = fld sb rootp 0"
      using put_node_fld [OF A x(1,2), of rootp 0] node_field(2) x(2) by simp
    moreover have "areas (node_area rootp) ?sb (insert rootp (set (as @ bs)))"
      using A x(5) only_in_areas [OF put_node_only] by (auto intro: areas_subset)
    ultimately show ?thesis using sb(2) by (auto simp: gtree_def)
  qed
  moreover have "tree_only (e_box r) ?sb rootp ?S"
    using tree_only_trans [OF sb(3) put_node_only] by (simp add: S insert_commute)
  moreover have "\<forall>k\<in>node_fields. fld ?sb x k = 0"
    using put_node_fld [OF A x(1,2), of x] node_field(1) [OF _ x(2)] x(1) by (auto simp: node_fields_def)
  ultimately show thesis using that by blast
qed

text \<open>C35: The removal by address or by key takes the node out of the AVL tree: it gives the node, with
  its links and balance zero, and memory holds a balanced tree with the other nodes in their order,
  nothing else changed. Where no node matches it gives NULL and changes nothing.\<close>

theorem rem_node_removes:
  assumes "gtree (e_box r) rootp t" "size t \<le> 65536" "\<forall>n. mem n"
    and "\<not> by_address \<longrightarrow> by_key K (inorder t) \<and> compares run_sub r callback K (set_tree t) wanted v"
  defines "found \<equiv> \<lambda>x. x \<in> set_tree t \<and> (if by_address then x = wanted else K x = v)"
  shows "if \<exists>x. found x
    then \<exists>x sb t'. found x \<and> avl_rem_node run_sub mem r by_address rootp wanted callback = URet (box_of r sb, x) \<and>
      gtree sb rootp t' \<and> avl t' \<and> inorder t' = remove1 x (inorder t) \<and> (\<forall>k\<in>node_fields. fld sb x k = 0) \<and>
      tree_only (e_box r) sb rootp (set_tree t)
    else avl_rem_node run_sub mem r by_address rootp wanted callback = URet (r, 0)"
proof -
  let ?xs = "inorder t" and ?go = "avl_rem_node run_sub mem r by_address rootp wanted callback"
  have d: "distinct ?xs" using assms(1) by (simp add: gtree_def)
  obtain at where go: "?go = avl_unlink r rootp ?xs at"
    and at: "if \<exists>x. found x then \<exists>x as bs. found x \<and> ?xs = as @ x # bs \<and> at = Some (length as) else at = None"
  proof (cases by_address)
    case True
    let ?at = "rem_scan_address wanted ?xs 0"
    have "?go = avl_unlink r rootp ?xs ?at"
      using read_root [OF assms(1)] True by (simp add: avl_rem_node_def collect_gtree [OF assms(1-3)])
    moreover have "if wanted \<in> set ?xs then \<exists>as bs. ?xs = as @ wanted # bs \<and> ?at = Some (length as) else ?at = None"
    proof (cases "wanted \<in> set ?xs")
      case True
      then obtain as bs where "?xs = as @ wanted # bs" "wanted \<notin> set as" by (metis split_list_first)
      then show ?thesis using rem_scan_address_some [of wanted "as" bs 0] by auto
    qed (use rem_scan_address_none in auto)
    ultimately show ?thesis using that [of ?at] True by (auto simp: found_def set_inorder split: if_splits)
  next
    case False
    let ?n = "length (takeWhile (\<lambda>x. K x < v) ?xs)"
    let ?at = "if v \<in> K ` set ?xs then Some ?n else None"
    have k: "by_key K ?xs" "compares run_sub r callback K (set ?xs) wanted v" using assms(4) False by (auto simp: set_inorder)
    have "?go = avl_unlink r rootp ?xs ?at"
      using read_root [OF assms(1)] False rem_scan_key_result [OF k(2,1), of 0]
      by (simp add: avl_rem_node_def collect_gtree [OF assms(1-3)])
    moreover have "if \<exists>x. found x then \<exists>x as bs. found x \<and> ?xs = as @ x # bs \<and> ?at = Some (length as) else ?at = None"
    proof (cases "\<exists>x. found x")
      case True
      then obtain x where x: "found x" "x \<in> set ?xs" "K x = v" using False by (auto simp: found_def set_inorder)
      from key_split [OF k(1) x(2)] obtain as bs where "?xs = as @ x # bs" "?n = length as" unfolding x(3) by blast
      moreover have "v \<in> K ` set ?xs" using x by auto
      ultimately have "found x \<and> ?xs = as @ x # bs \<and> ?at = Some (length as)" using x(1) by simp
      then show ?thesis unfolding if_P [OF True] by blast
    next
      case none: False
      then have "v \<notin> K ` set ?xs" using False by (auto simp: found_def set_inorder)
      then show ?thesis using none by simp
    qed
    ultimately show ?thesis by (rule that)
  qed
  show ?thesis
  proof (cases "\<exists>x. found x")
    case True
    then obtain x as bs where x: "found x" "?xs = as @ x # bs" "at = Some (length as)" using at by auto
    have "remove1 x ?xs = as @ bs" using d x(2) by (simp add: remove1_append)
    moreover obtain sb where "avl_unlink r rootp (as @ x # bs) (Some (length as)) = URet (box_of r sb, x)"
      "gtree sb rootp (midtree (as @ bs))" "tree_only (e_box r) sb rootp (set_tree t)" "\<forall>k\<in>node_fields. fld sb x k = 0"
      by (rule unlink_result [OF assms(1) x(2)])
    ultimately have "found x \<and> ?go = URet (box_of r sb, x) \<and> gtree sb rootp (midtree (as @ bs)) \<and> avl (midtree (as @ bs)) \<and>
      inorder (midtree (as @ bs)) = remove1 x ?xs \<and> (\<forall>k\<in>node_fields. fld sb x k = 0) \<and> tree_only (e_box r) sb rootp (set_tree t)"
      using go x avl_midtree by simp
    then show ?thesis unfolding if_P [OF True] by blast
  qed (use go at in \<open>simp add: avl_unlink_def\<close>)
qed

section \<open>The searches\<close>

definition wanted_node :: "avl_find \<Rightarrow> (u32 \<Rightarrow> int) \<Rightarrow> int \<Rightarrow> u32 list \<Rightarrow> u32 \<Rightarrow> u32" where
  "wanted_node which K v xs c = (case List.find (\<lambda>x. K x = v) xs of Some x \<Rightarrow> x
   | None \<Rightarrow> (case which of FindNode \<Rightarrow> c | FindPrev \<Rightarrow> last (c # filter (\<lambda>x. K x < v) xs)
       | FindNext \<Rightarrow> hd (filter (\<lambda>x. K x > v) xs @ [c])))"

lemma find_append: "List.find P (xs @ ys) = (case List.find P xs of Some x \<Rightarrow> Some x | None \<Rightarrow> List.find P ys)"
  by (induction xs) auto

lemma wanted_split:
  assumes "by_key K (xs @ x # ys)"
  shows "K x = v \<Longrightarrow> wanted_node which K v (xs @ x # ys) c = x"
    and "K x < v \<Longrightarrow> wanted_node which K v (xs @ x # ys) c = wanted_node which K v ys (if which = FindPrev then x else c)"
    and "K x > v \<Longrightarrow> wanted_node which K v (xs @ x # ys) c = wanted_node which K v xs (if which = FindNext then x else c)"
proof -
  have o: "\<And>y. y \<in> set xs \<Longrightarrow> K y < K x" "\<And>y. y \<in> set ys \<Longrightarrow> K x < K y" using assms by (auto simp: by_key_def sorted_wrt_append)
  show "wanted_node which K v (xs @ x # ys) c = x" if "K x = v"
  proof -
    have "List.find (\<lambda>x. K x = v) xs = None" using o(1) that by (fastforce simp: find_no_key)
    then show ?thesis using that by (simp add: wanted_node_def find_append)
  qed
  show "wanted_node which K v (xs @ x # ys) c = wanted_node which K v ys (if which = FindPrev then x else c)" if "K x < v"
  proof -
    have "List.find (\<lambda>x. K x = v) xs = None" using o(1) that by (fastforce simp: find_no_key)
    moreover have "filter (\<lambda>x. K x > v) xs = []" using o(1) that by (fastforce simp: filter_empty_conv)
    ultimately show ?thesis
      using that by (auto simp: wanted_node_def find_append split: avl_find.splits option.splits)
  qed
  show "wanted_node which K v (xs @ x # ys) c = wanted_node which K v xs (if which = FindNext then x else c)" if "K x > v"
  proof -
    have "List.find (\<lambda>x. K x = v) ys = None" using o(2) that by (fastforce simp: find_no_key)
    moreover have "filter (\<lambda>x. K x < v) ys = []" using o(2) that by (fastforce simp: filter_empty_conv)
    ultimately show ?thesis
      using that by (auto simp: wanted_node_def find_append hd_append split: avl_find.splits option.splits)
  qed
qed

lemma find_loop_result:
  "atree F par p t \<Longrightarrow> reads (e_box r) F (set_tree t) \<Longrightarrow> by_key K (inorder t) \<Longrightarrow>
   compares run_sub r cb K (set_tree t) key v \<Longrightarrow> height t < g \<Longrightarrow>
   find_loop g run_sub r which cb key p c = URet (r, wanted_node which K v (inorder t) c)"
proof (induction t arbitrary: par p g c)
  case Leaf
  then show ?case by (cases g) (auto simp: wanted_node_def split: avl_find.splits)
next
  case (Node l x rt)
  obtain g' where g: "g = Suc g'" using Node.prems(5) by (cases g) auto
  have p: "p = x" "x \<noteq> 0" "atree F x (F x 0) l" "atree F x (F x 4) rt" using Node.prems(1) by auto
  have m: "span_ok (e_box r) x 16" "gread32 (e_box r) x = Some (F x 0)" "gread32 (e_box r) (x + 4) = Some (F x 4)"
    using reads_node [OF Node.prems(2)] by auto
  obtain k where k: "avl_compare_key run_sub r cb x key = URet (r, k)" "k = 0 \<longleftrightarrow> K x = v" "k > 0 \<longleftrightarrow> K x > v" "k < 0 \<longleftrightarrow> K x < v"
    using compare_sign [OF Node.prems(4), of x] by auto
  have b: "by_key K (inorder l)" "by_key K (inorder rt)" using Node.prems(3) by (auto simp: by_key_def sorted_wrt_append)
  have l: "find_loop g' run_sub r which cb key (F x 0) d = URet (r, wanted_node which K v (inorder l) d)" for d
    using Node.IH(1) [OF p(3) reads_subset [OF Node.prems(2)] b(1) compares_mono [OF Node.prems(4)]] Node.prems(5) g by auto
  have r: "find_loop g' run_sub r which cb key (F x 4) d = URet (r, wanted_node which K v (inorder rt) d)" for d
    using Node.IH(2) [OF p(4) reads_subset [OF Node.prems(2)] b(2) compares_mono [OF Node.prems(4)]] Node.prems(5) g by auto
  have s: "by_key K (inorder l @ x # inorder rt)" using Node.prems(3) by simp
  consider "K x = v" | "K x < v" | "K x > v" by linarith
  then show ?case
  proof cases
    case 1
    then show ?thesis using p m k g wanted_split(1) [OF s 1] by simp
  next
    case 2
    then show ?thesis using p m k g wanted_split(2) [OF s 2] r by (simp add: Let_def avl_offs)
  next
    case 3
    then show ?thesis using p m k g wanted_split(3) [OF s 3] l by (simp add: Let_def avl_offs)
  qed
qed

text \<open>C36: The three searches by key in an AVL tree of guest memory, in any shape: the node with the key;
  without one, NULL, the last node below the key, or the first node above it.\<close>

theorem find_by_key_result:
  assumes "gtree (e_box r) rootp t" "by_key K (inorder t)" "height t \<le> 65536" "compares run_sub r callback K (set_tree t) key v"
  shows "avl_find_by_key run_sub r which (fld (e_box r) rootp 0) key callback =
    URet (r, case List.find (\<lambda>x. K x = v) (inorder t) of Some x \<Rightarrow> x
      | None \<Rightarrow> (case which of FindNode \<Rightarrow> 0 | FindPrev \<Rightarrow> last (0 # filter (\<lambda>x. K x < v) (inorder t))
          | FindNext \<Rightarrow> hd (filter (\<lambda>x. K x > v) (inorder t) @ [0])))"
  using find_loop_result [OF _ gtree_reads [OF assms(1)] assms(2,4), of 0 "fld (e_box r) rootp 0" 65537 which 0] assms(1,3)
  unfolding avl_find_by_key_def wanted_node_def gtree_def by (simp del: find_loop.simps)


section \<open>Building and walking\<close>

text \<open>C37: Any sequence of nodes, rebuilt as an AVL tree in guest memory and walked, comes back in order,
  up to 65536 nodes; a tree of more nodes, which an addition to a tree of 65536 makes, can no longer
  be walked. The tree is balanced and only its nodes and the root word are written.\<close>

theorem rebuild_then_collect:
  assumes "areas (node_area rootp) sb (insert rootp (set xs))" "rootp \<notin> set xs" "distinct xs" "0 \<notin> set xs" "\<forall>n. mem n"
  shows "\<exists>sb' t root. avl_rebuild sb rootp xs = Some sb' \<and> gread32 sb' rootp = Some root \<and> gtree sb' rootp t \<and> avl t \<and>
    tree_only sb sb' rootp (set xs) \<and>
    avl_collect mem sb' root = (if length xs \<le> 65536 then URet xs else UErr ''AVL tree exceeds 65536 nodes'')"
proof -
  obtain sb' where sb: "avl_rebuild sb rootp xs = Some sb'" "gtree sb' rootp (midtree xs)" "tree_only sb sb' rootp (set xs)"
    using rebuild_gtree [OF assms(1,2) subset_refl assms(3,4)] .
  have "length xs \<le> card (UNIV :: u32 set)" using assms(3) card_mono [of UNIV "set xs"] by (simp add: distinct_card)
  then have "length xs < 2 ^ 33" by (simp add: card_word)
  then have "height (midtree xs) \<le> 33" by (simp only: height_midtree)
  then have "avl_collect mem sb' (fld sb' rootp 0) = (if length xs \<le> 65536 then URet xs else UErr ''AVL tree exceeds 65536 nodes'')"
    using collect_inorder [OF sb(2) _ assms(5)] by (simp flip: length_inorder)
  moreover have "gread32 sb' rootp = Some (fld sb' rootp 0)" using read_root [OF sb(2)] by simp
  ultimately show ?thesis using sb avl_midtree by blast
qed

section \<open>Witnesses\<close>

text \<open>A zero arena with a root word and three nodes; the nodes are ordered by address.\<close>

definition tree_box :: j4_sandbox where
  "tree_box = \<lparr>jb_mem = (\<lambda>i. 0), jb_origin = 0x1000, jb_size = 0x40, next_alloc = 0x1000\<rparr>"

definition tree_run :: "j4_sandbox \<Rightarrow> emu_run" where
  "tree_run sb = \<lparr>e_box = sb, exec_heap = 0x1000, exec_heap_end = 0x1000, named = []\<rparr>"

definition by_address_sub :: guest_sub where
  "by_address_sub r callback x key = URet (r, x - key)"

lemma tree_box_areas: "areas (node_area 0x1000) tree_box {0x1000, 0x1010, 0x1020, 0x1030}"
  by (simp add: areas_def node_area_def tree_box_def arena_ok_def span_ok_nat)

lemma tree_box_run: "e_box (tree_run sb) = sb"
  by (simp add: tree_run_def)

lemma demo_tree:
  obtains sb t where "gtree sb 0x1000 t" "inorder t = [0x1010, 0x1030]" "areas (node_area 0x1000) sb {0x1000, 0x1010, 0x1020, 0x1030}"
proof -
  obtain sb where sb: "gtree sb 0x1000 (midtree [0x1010, 0x1030])" "tree_only tree_box sb 0x1000 (set [0x1010, 0x1030])"
    using rebuild_gtree [OF tree_box_areas, of "[0x1010, 0x1030]"] by auto
  from sb(1) show thesis
    by (rule that) (use tree_only_areas [OF sb(2)] tree_box_areas in auto)
qed

lemma demo_compares:
  "key \<in> {0x1010, 0x1020, 0x1030} \<Longrightarrow> S \<subseteq> {0x1010, 0x1030} \<Longrightarrow> compares by_address_sub r 1 uint S key (uint key)"
  by (auto simp: compares_def by_address_sub_def)

theorem add_node_inserts_witness:
  "\<exists>sb sb' t'. avl_add_node by_address_sub (\<lambda>_. True) (tree_run sb) 0x1000 0x1020 1 = URet (box_of (tree_run sb) sb', 0) \<and>
    gtree sb' 0x1000 t' \<and> inorder t' = [0x1010, 0x1020, 0x1030]"
proof -
  obtain sb t where d: "gtree sb 0x1000 t" "inorder t = [0x1010, 0x1030]" "areas (node_area 0x1000) sb {0x1000, 0x1010, 0x1020, 0x1030}"
    by (rule demo_tree)
  have s: "set_tree t = {0x1010, 0x1030}" "size t = 2" by (simp_all flip: set_inorder length_inorder add: d(2))
  have "compares by_address_sub (tree_run sb) 1 uint (set_tree t) 0x1020 (uint (0x1020 :: u32))"
    by (rule demo_compares) (auto simp: s)
  then show ?thesis
    using add_node_inserts [of "tree_run sb" "0x1000" t uint "\<lambda>_. True" "0x1020" by_address_sub 1] d s
    by (auto simp: tree_box_run by_key_def insert_commute)
qed

theorem rem_node_removes_witness:
  "\<exists>sb sb' t'. avl_rem_node by_address_sub (\<lambda>_. True) (tree_run sb) True 0x1000 0x1010 0 = URet (box_of (tree_run sb) sb', 0x1010) \<and>
    gtree sb' 0x1000 t' \<and> inorder t' = [0x1030]"
proof -
  obtain sb t where d: "gtree sb 0x1000 t" "inorder t = [0x1010, 0x1030]" by (rule demo_tree)
  have s: "set_tree t = {0x1010, 0x1030}" "size t = 2" by (simp_all flip: set_inorder length_inorder add: d(2))
  show ?thesis
    using rem_node_removes [of "tree_run sb" "0x1000" t "\<lambda>_. True" True uint by_address_sub 0 "0x1010" 0] d s
    by (auto simp: tree_box_run)
qed

theorem find_by_key_result_witness:
  "\<exists>sb root. avl_find_by_key by_address_sub (tree_run sb) FindNext root 0x1020 1 = URet (tree_run sb, 0x1030)"
proof -
  obtain sb t where d: "gtree sb 0x1000 t" "inorder t = [0x1010, 0x1030]" by (rule demo_tree)
  have s: "set_tree t = {0x1010, 0x1030}" "size t = 2" by (simp_all flip: set_inorder length_inorder add: d(2))
  have "compares by_address_sub (tree_run sb) 1 uint (set_tree t) 0x1020 (uint (0x1020 :: u32))"
    by (rule demo_compares) (auto simp: s)
  then have "avl_find_by_key by_address_sub (tree_run sb) FindNext (fld sb 0x1000 0) 0x1020 1 = URet (tree_run sb, 0x1030)"
    using find_by_key_result [of "tree_run sb" "0x1000" t uint by_address_sub 1 "0x1020" "uint (0x1020 :: u32)" FindNext] d(1)
      height_le_size_tree [of t] s(2)
    by (simp add: tree_box_run by_key_def d(2))
  then show ?thesis by blast
qed

theorem rebuild_then_collect_witness:
  "\<exists>sb root. avl_rebuild tree_box 0x1000 [0x1030, 0x1010, 0x1020] = Some sb \<and> gread32 sb 0x1000 = Some root \<and>
    avl_collect (\<lambda>_. True) sb root = URet [0x1030, 0x1010, 0x1020]"
  using rebuild_then_collect [of "0x1000" tree_box "[0x1030, 0x1010, 0x1020]" "\<lambda>_. True"] tree_box_areas
  by (auto simp: insert_commute)

end
