(* ===== verification/Spec2Isabelle.thy ===== *)
theory Spec2Isabelle
  imports M68k_Stack M68k_Arith M68k_Quirks HunkReloc HostMemProps HvMetaRound
    HvNormProps UtilTagProps UtilNamedProps UtilFormatProps UtilCall EmuListProps EmuTreeProps
begin

text \<open>
  A verification library for the hosted side of the repository.

  \<^bold>\<open>The program.\<close> The repository hosts AROS on macOS (\<open>hosted\<close>) and runs 68k
  programs inside it: \<open>hosted/jit68k\<close> loads AmigaOS hunk files into a 32-bit sandbox and
  executes them with a JIT or a reference interpreter; \<open>hosted/emu68k\<close> answers the library
  calls of such a program on its guest memory; \<open>hosted/mem.c\<close> is the memory part of the
  hosted exec; \<open>hosted/hostvolume\<close> shows a host directory as a volume and keeps protection
  bits and comments in \<open>.ameta\<close> files.

  \<^bold>\<open>Shared.\<close> \<open>Prelude\<close>: C integer types as words, big-endian bytes, shared lemmas.

  \<^bold>\<open>The interpreter\<close> (\<open>hosted/jit68k/j5d_interp.c\<close>, \<open>j5d_jit68k.h\<close>).
  \<^item> \<open>Sandbox\<close>: \<open>j5d_sandbox\<close> and the checked accessors \<open>mem_rd8\<close> .. \<open>mem_wr32\<close>,
    with their contract as the locale \<open>checked_cells\<close>, interpreted at the three widths.
  \<^item> \<open>M68k_State\<close>: \<open>struct j5d_m68k_state\<close>, condition codes, SR packing, effective
    addresses, the floating-point conditions and the 96-bit format of \<open>j5d_jit68k.h\<close>.
  \<^item> \<open>M68k_Control\<close>, \<open>M68k_Alu\<close>, \<open>M68k_Move\<close>: one definition per \<open>if\<close> block of the
    loop in \<open>j5d_interp_run\<close>. A block returns \<open>Fall\<close> when it does not take the opcode.
  \<^item> \<open>M68k_Run\<close>: the blocks in source order, the loop head, the loop and its entry.
  \<^item> \<open>M68k_Frame\<close>: every block keeps the frame of the sandbox; \<open>M68k_Loop\<close>: what follows
    for whole runs, termination within the step cap, and the cap that does not fit.
  \<^item> \<open>M68k_Flags\<close>: the condition codes against integer arithmetic. \<open>M68k_Stack\<close>: calls,
    exceptions, frames and \<open>movem\<close> as round trips. \<open>M68k_Arith\<close>: divisions,
    compare-and-swap, the 96-bit format. \<open>M68k_Quirks\<close>: instructions on which the code
    departs from the 68k.

  \<^bold>\<open>The hunk loader\<close> (\<open>hosted/jit68k/j4_loader.c\<close>).
  \<^item> \<open>HunkLoader\<close>: the sandbox with its bump allocator, the cursor, the hunk blocks and the
    two entry points \<open>j4_load_hunks\<close> and \<open>j4_load_hunks_bptr\<close>.
  \<^item> \<open>HunkSafety\<close>: every load, on every file, keeps the host array and the bytes outside its
    own hunks; a failed load restores. \<open>HunkSeglist\<close>: the shape of the segment list.
    \<open>HunkReloc\<close>: what a relocation table does, and the two encodings of it.

  \<^bold>\<open>Exec memory\<close> (\<open>hosted/mem.c\<close>).
  \<^item> \<open>HostMem\<close>: the free list of \<open>MemChunk\<close> in an explicit store, \<open>Allocate\<close>,
    \<open>Deallocate\<close>, \<open>AllocMem\<close>, \<open>FreeMem\<close>. \<open>HostMemFacts\<close>, \<open>HostMemFree\<close>: the well-formed
    free list and both operations on it. \<open>HostMemProps\<close>: the refinement to a set of free bytes.

  \<^bold>\<open>Metadata\<close> (\<open>hosted/hostvolume/ameta.c\<close>, \<open>hv_meta.c\<close>).
  \<^item> \<open>Ameta\<close>: arena, escapes, parser, edits, writer; \<open>AmetaComment\<close>: the conversions of
    comments. \<open>AmetaText\<close>, \<open>AmetaSort\<close>, \<open>AmetaParse\<close>, \<open>AmetaRound\<close>: parsing of what was
    written. \<open>AmetaEdit\<close>: edits as operations of a finite map. \<open>AmetaRewrite\<close>: comments.
  \<^item> \<open>HvMeta\<close>: load, read, write, rename, delete and the rewrite loop under a lock.
    \<open>HvMetaProps\<close>, \<open>HvMetaRound\<close>: what a rewrite commits, and write followed by read.

  \<^item> \<open>HvCharset\<close>, \<open>HvNorm\<close>: file names between Latin-1 and UTF-8 and their NFC form
    (\<open>hv_charset.c\<close>, \<open>hv_norm.c\<close>). \<open>HvCharsetProps\<close>: both round trips. \<open>HvNormOrder\<close>: canonical
    ordering is a stable sort of every run of marks. \<open>HvNormProps\<close>: composition keeps the
    canonical decomposition, so the form is idempotent and its equality is canonical.

  \<^bold>\<open>Guest memory and utility.library\<close> (\<open>hosted/emu68k/emu68k_host.c\<close>, \<open>emu68k_utility.c\<close>).
  \<^item> \<open>EmuGuest\<close>: \<open>emu68k_gread8\<close> .. \<open>emu68k_gwrite32\<close>, strings, the bump heap of a run, and
    the lemmas on accesses inside a checked span.
  \<^item> \<open>UtilTags\<close>, \<open>UtilTagProps\<close>: tag lists. \<open>UtilNamed\<close>, \<open>UtilNamedProps\<close>: NamedObjects as
    a state machine. \<open>UtilDate\<close>: dates. \<open>UtilPack\<close>: pack tables. \<open>UtilFormat\<close>,
    \<open>UtilFormatProps\<close>: \<open>emu68k_guest_format\<close>. \<open>UtilCall\<close>: the dispatcher and the rest.

  \<^bold>\<open>Lists and trees of exec\<close> (\<open>hosted/emu68k/emu68k_exec.c\<close>), on guest memory.
  \<^item> \<open>EmuCells\<close>: structures apart from each other and their fields. \<open>EmuList\<close>: the list
    entries; \<open>EmuListProps\<close>: they are the operations of a list of nodes, and \<open>Enqueue\<close> sorts.
  \<^item> \<open>EmuTree\<close>: the AVL entries, which collect all nodes and rebuild the tree. \<open>EmuTreeWalk\<close>:
    the walk gives the nodes in order. \<open>EmuTreeBuild\<close>: the shape, its balance, the memory.
    \<open>EmuTreeProps\<close>: insertion, removal and search by key.

  \<^bold>\<open>Errors.\<close> A return with a message is an error value with the message: \<open>Fail\<close> of the
  interpreter, \<open>LFail\<close> of the loader, \<open>UErr\<close> of the handlers. Undefined behaviour of C that
  the code can reach is a value of its own: \<open>Undef\<close>, \<open>LUndef\<close>, \<open>RenUndef\<close>, \<open>ChUndef\<close>,
  \<open>UUndef\<close>; an accessor of guest memory has \<open>None\<close> for a host access outside the array. The
  state of a failed call is kept where a caller can see it.

  \<^bold>\<open>Loops.\<close> \<open>interp_loop\<close> unrolls the \<open>for (;;)\<close> a given number of times;
  \<open>step_cap + 1\<close> iterations are enough whenever the cap fits the 32-bit counter. Loops that
  may run for ever are partial functions into an option, whose \<open>None\<close> is \<open>does not return\<close>;
  the properties prove that they return. The numbers 65536 and 128 are the code's own guards.

  \<^bold>\<open>The environment.\<close> The bridge, the safe point, the stop PC and the step hook of the
  interpreter, \<open>ReplyMsg\<close>, and what the operating system does in an attempt to
  rewrite a file are parameters, or records of the answers.

  \<^bold>\<open>Not modelled.\<close> The floating-point arithmetic block computes in host doubles and reads
  the host's floating-point exception flags: it is the outcome \<open>FpuArith\<close>. The JIT generates
  ARM64 code from the vendored emitters of \<open>emu68\<close>, whose meaning is that of the machine. The
  bridges to display, audio, clipboard, network, USB and MIDI are calls of host frameworks. The
  other library handlers of \<open>hosted/emu68k\<close> marshal arguments to native libraries that are
  not part of the repository, and the bring-up probes (\<open>kern.c\<close>, \<open>exec.c\<close>, \<open>preempt.c\<close>
  and their siblings) rest on signals and machine contexts of the host.
\<close>

end
